(* ===== verification/Mole_Prelude.thy ===== *)
theory Mole_Prelude
  imports
    Main
    "HOL-Library.Word"
    "HOL-Library.List_Lexorder"
    "HOL-Library.AList"
    "HOL-Library.Sublist"
begin

text \<open>
  Shared vocabulary of the development: the Go integer and string types, association lists as
  Go maps, fallible results, and the generic list facts the component theories use.

  A Go \<^verbatim>\<open>string\<close> or \<^verbatim>\<open>[]byte\<close> is a list of 8-bit words; Go compares strings bytewise and
  lexicographically, which is the order of \<^verbatim>\<open>List_Lexorder\<close> on such lists.  An
  \<^verbatim>\<open>int64\<close> is an \<^typ>\<open>int\<close> with the wrap-around written out (\<open>int64\<close> below).  A Go map is an
  association list whose keys are distinct; the order of the list is the order in which
  \<^verbatim>\<open>range\<close> visits the map, which Go leaves open, so a fact about every list covers every order.
\<close>

named_theorems wire_simps \<open>unfolding rules of the byte-level encoders and decoders\<close>
named_theorems geometry_simps \<open>arithmetic of piece offsets and block lengths\<close>
named_theorems go_defs \<open>definitions of the standard-library model\<close>

type_synonym byte = "8 word"
type_synonym gostring = "byte list"
type_synonym uint16 = "16 word"
type_synonym uint32 = "32 word"
type_synonym uint64 = "64 word"

text \<open>A literal Go string.\<close>

definition bytes_of :: "string \<Rightarrow> gostring" where
  "bytes_of s = map of_char s"

text \<open>Two's complement wrap-around of Go's \<^verbatim>\<open>int64\<close> arithmetic, and its range.\<close>

definition int64 :: "int \<Rightarrow> int" where
  "int64 x = (x + 2 ^ 63) mod 2 ^ 64 - 2 ^ 63"

definition in_int64 :: "int \<Rightarrow> bool" where
  "in_int64 x \<longleftrightarrow> - (2 ^ 63) \<le> x \<and> x < 2 ^ 63"

subsection \<open>Results\<close>

text \<open>A fallible computation is a sum with the error on the left; \<open>bind_r\<close> is the early return
  of \<^verbatim>\<open>if err != nil { return err }\<close>.\<close>

fun bind_r :: "'e + 'a \<Rightarrow> ('a \<Rightarrow> 'e + 'b) \<Rightarrow> 'e + 'b" where
  "bind_r (Inl e) f = Inl e"
| "bind_r (Inr x) f = f x"

lemma bind_r_Inr_iff: "bind_r r f = Inr y \<longleftrightarrow> (\<exists>x. r = Inr x \<and> f x = Inr y)"
  by (cases r) auto

lemma bind_r_Inl_iff:
  "bind_r r f = Inl e \<longleftrightarrow> r = Inl e \<or> (\<exists>x. r = Inr x \<and> f x = Inl e)"
  by (cases r) auto

lemma bind_r_cong [fundef_cong]:
  assumes "r = r'" and "\<And>x. r' = Inr x \<Longrightarrow> f x = g x"
  shows "bind_r r f = bind_r r' g"
  using assms by (cases r') auto

lemmas bind_r_iffs = bind_r_Inr_iff bind_r_Inl_iff

lemma map_sum_id_Inr [simp]: "map_sum f id r = Inr x \<longleftrightarrow> r = Inr x"
  by (cases r) auto

subsection \<open>Integers\<close>

lemma unat_of_nat_small: "n < 2 ^ LENGTH('a) \<Longrightarrow> unat (of_nat n :: 'a::len word) = n"
  by (simp add: unat_of_nat take_bit_nat_eq_self)

lemma unat_byte_bound: "unat (b :: byte) < 256"
  using unsigned_less [of b] by simp

lemma unat_uint32_bound: "unat (w :: uint32) < 2 ^ 32"
  using unsigned_less [of w] by simp

lemma unat_uint16_bound: "unat (w :: uint16) < 2 ^ 16"
  using unsigned_less [of w] by simp

lemma unat_uint64_bound: "unat (w :: uint64) < 2 ^ 64"
  using unsigned_less [of w] by simp

lemmas unat_bounds = unat_byte_bound unat_uint16_bound unat_uint32_bound unat_uint64_bound

lemma int64_id [simp]: "in_int64 x \<Longrightarrow> int64 x = x"
  unfolding int64_def in_int64_def by (subst mod_pos_pos_trivial) auto

lemma in_int64_int64 [simp]: "in_int64 (int64 x)"
  unfolding int64_def in_int64_def
  using pos_mod_bound [of "2 ^ 64" "x + 2 ^ 63"] pos_mod_sign [of "2 ^ 64" "x + 2 ^ 63"] by simp

subsection \<open>Lists\<close>

lemma length_bytes_of [simp]: "length (bytes_of s) = length s"
  by (simp add: bytes_of_def)

lemma take_drop_Suc_conv:
  "i < length xs \<Longrightarrow> drop i xs = xs ! i # drop (Suc i) xs"
  by (simp add: Cons_nth_drop_Suc)

lemma list_all_nthI:
  "(\<And>i. i < length xs \<Longrightarrow> P (xs ! i)) \<Longrightarrow> list_all P xs"
  by (simp add: list_all_length)

text \<open>The position of a delimiter splits a list uniquely.\<close>

lemma takeWhile_append_delim [simp]:
  "list_all (\<lambda>x. x \<noteq> d) xs \<Longrightarrow> takeWhile (\<lambda>x. x \<noteq> d) (xs @ d # ys) = xs"
  by (induction xs) auto

lemma dropWhile_append_delim [simp]:
  "list_all (\<lambda>x. x \<noteq> d) xs \<Longrightarrow> dropWhile (\<lambda>x. x \<noteq> d) (xs @ d # ys) = d # ys"
  by (induction xs) auto

lemma dropWhile_delim_Cons:
  "dropWhile (\<lambda>x. x \<noteq> d) s = c # rest \<Longrightarrow> c = d \<and> s = takeWhile (\<lambda>x. x \<noteq> d) s @ d # rest"
  by (metis (mono_tags, lifting) hd_dropWhile list.distinct(1) list.sel(1) takeWhile_dropWhile_id)

lemma list_all_takeWhile: "list_all P (takeWhile P xs)"
  by (auto simp: list_all_iff dest: set_takeWhileD)

subsection \<open>Association lists as Go maps\<close>

abbreviation keys :: "('k \<times> 'v) list \<Rightarrow> 'k list" where
  "keys m \<equiv> map fst m"

text \<open>\<^verbatim>\<open>m[k]\<close>, \<^verbatim>\<open>m[k] = v\<close> and \<^verbatim>\<open>delete(m, k)\<close>.\<close>

abbreviation m_get :: "('k \<times> 'v) list \<Rightarrow> 'k \<Rightarrow> 'v option" where
  "m_get m k \<equiv> map_of m k"

abbreviation m_put :: "'k \<Rightarrow> 'v \<Rightarrow> ('k \<times> 'v) list \<Rightarrow> ('k \<times> 'v) list" where
  "m_put k v m \<equiv> AList.update k v m"

abbreviation m_del :: "'k \<Rightarrow> ('k \<times> 'v) list \<Rightarrow> ('k \<times> 'v) list" where
  "m_del k m \<equiv> AList.delete k m"

lemma m_get_put [simp]: "m_get (m_put k v m) k' = (if k' = k then Some v else m_get m k')"
  by (simp add: update_conv)

lemma m_get_del [simp]: "m_get (m_del k m) k' = (if k' = k then None else m_get m k')"
  by (simp add: delete_conv)

lemma distinct_keys_put [simp]: "distinct (keys m) \<Longrightarrow> distinct (keys (m_put k v m))"
  by (rule distinct_update)

lemma distinct_keys_del [simp]: "distinct (keys m) \<Longrightarrow> distinct (keys (m_del k m))"
  by (rule distinct_delete)

lemma m_put_fresh: "k \<notin> set (keys m) \<Longrightarrow> m_put k v m = m @ [(k, v)]"
  by (induction m) auto

lemma set_keys_put [simp]: "set (keys (m_put k v m)) = insert k (set (keys m))"
  by (auto simp: update_keys)

lemma m_get_sort [simp]:
  "distinct (keys m) \<Longrightarrow> m_get (sort_key fst m) = m_get m"
  by (rule map_of_inject_set [THEN iffD2])
    (auto simp: distinct_map inj_on_def)

end
