(* ===== verification/Go_Std.thy ===== *)
theory Go_Std
  imports Mole_Prelude
begin

unbundle bit_operations_syntax

text \<open>
  The parts of Go's standard library the program uses: decimal conversion (\<^verbatim>\<open>strconv\<close>), big-endian
  integers (\<^verbatim>\<open>encoding/binary\<close>), input streams (\<^verbatim>\<open>io.ReadFull\<close>, \<^verbatim>\<open>bufio.Reader\<close>), output
  streams (\<^verbatim>\<open>io.Writer\<close>) and files (\<^verbatim>\<open>os.File\<close>).

  An input stream is the bytes it still holds, followed by the error that ends it
  (\<open>ErrEOF\<close>, or \<open>ErrIO\<close> for a stream that breaks).  An output stream carries the outcome of each
  coming \<^verbatim>\<open>Write\<close> call; a file operation takes the outcome of the call as an argument.  Theorems
  quantify over these outcomes, so they cover short writes and failing devices.
\<close>

subsection \<open>Decimal numbers: strconv\<close>

datatype strconv_error = ErrSyntax | ErrRange

fun nat_decimal :: "nat \<Rightarrow> gostring" where
  "nat_decimal n =
     (if n < 10 then [48 + of_nat n] else nat_decimal (n div 10) @ [48 + of_nat (n mod 10)])"

declare nat_decimal.simps [simp del]

definition FormatInt :: "int \<Rightarrow> gostring" where
  "FormatInt i = (if i < 0 then 45 # nat_decimal (nat (- i)) else nat_decimal (nat i))"

definition is_digit :: "byte \<Rightarrow> bool" where
  "is_digit b \<longleftrightarrow> 48 \<le> b \<and> b \<le> 57"

definition digits_val :: "gostring \<Rightarrow> nat" where
  "digits_val s = foldl (\<lambda>n b. 10 * n + unat (b - 48)) 0 s"

text \<open>\<^verbatim>\<open>strconv.ParseUint(s, 10, 64)\<close> and \<^verbatim>\<open>strconv.ParseInt(s, 10, 64)\<close>.\<close>

definition ParseUint :: "gostring \<Rightarrow> strconv_error + nat" where
  "ParseUint s =
     (if s = [] \<or> \<not> list_all is_digit s then Inl ErrSyntax
      else if digits_val s \<ge> 2 ^ 64 then Inl ErrRange
      else Inr (digits_val s))"

definition ParseInt :: "gostring \<Rightarrow> strconv_error + int" where
  "ParseInt s =
     (if s = [] then Inl ErrSyntax
      else let neg = (hd s = 45);
               body = (if hd s = 45 \<or> hd s = 43 then tl s else s)
           in bind_r (ParseUint body) (\<lambda>un.
                if \<not> neg \<and> un \<ge> 2 ^ 63 then Inl ErrRange
                else if neg \<and> un > 2 ^ 63 then Inl ErrRange
                else Inr (if neg then - int un else int un)))"

subsection \<open>Big-endian integers: encoding/binary\<close>

definition PutUint16 :: "uint16 \<Rightarrow> byte list" where
  "PutUint16 w = [ucast (drop_bit 8 w), ucast w]"

fun Uint16 :: "byte list \<Rightarrow> uint16" where
  "Uint16 (a # b # _) = ucast b OR push_bit 8 (ucast a)"
| "Uint16 _ = 0"

definition PutUint32 :: "uint32 \<Rightarrow> byte list" where
  "PutUint32 w = [ucast (drop_bit 24 w), ucast (drop_bit 16 w), ucast (drop_bit 8 w), ucast w]"

text \<open>Go's \<^verbatim>\<open>Uint32\<close> panics on fewer than four bytes; every caller has checked the length, and
  the last equation is never reached.\<close>

fun Uint32 :: "byte list \<Rightarrow> uint32" where
  "Uint32 (a # b # c # d # _) =
     ucast d OR push_bit 8 (ucast c) OR push_bit 16 (ucast b) OR push_bit 24 (ucast a)"
| "Uint32 _ = 0"

subsection \<open>Streams: io and bufio\<close>

datatype io_error = ErrEOF | ErrUnexpectedEOF | ErrBufferFull | ErrShortWrite | ErrIO

text \<open>\<open>e\<close> is the error that ends the stream, \<open>s\<close> the bytes still to come.\<close>

definition Peek1 :: "io_error \<Rightarrow> byte list \<Rightarrow> io_error + byte" where
  "Peek1 e s = (case s of [] \<Rightarrow> Inl e | b # _ \<Rightarrow> Inr b)"

definition ReadByte :: "io_error \<Rightarrow> byte list \<Rightarrow> io_error + byte \<times> byte list" where
  "ReadByte e s = (case s of [] \<Rightarrow> Inl e | b # rest \<Rightarrow> Inr (b, rest))"

definition ReadFull :: "io_error \<Rightarrow> nat \<Rightarrow> byte list \<Rightarrow> io_error + byte list \<times> byte list" where
  "ReadFull e n s =
     (if n \<le> length s then Inr (take n s, drop n s)
      else if s = [] then Inl e
      else Inl (if e = ErrEOF then ErrUnexpectedEOF else e))"

text \<open>\<^verbatim>\<open>bufio.Reader.ReadSlice\<close>: the delimiter must lie within one buffer of 4096 bytes.  The
  result excludes the delimiter, which the callers cut off.\<close>

definition bufio_size :: nat where
  "bufio_size = 4096"

definition ReadSlice ::
    "byte \<Rightarrow> io_error \<Rightarrow> byte list \<Rightarrow> io_error + byte list \<times> byte list" where
  "ReadSlice d e s =
     (let line = takeWhile (\<lambda>b. b \<noteq> d) s in
      if length line < length s \<and> length line < bufio_size
      then Inr (line, drop (Suc (length line)) s)
      else if bufio_size \<le> length s then Inl ErrBufferFull
      else Inl e)"

text \<open>Output: each \<^verbatim>\<open>Write\<close> takes the next outcome of the plan; past its end every write is
  complete (a \<^verbatim>\<open>bytes.Buffer\<close> or a hash has the empty plan).\<close>

datatype write_outcome = WriteUpTo nat | WriteErr nat

record writer =
  written :: "byte list"
  wplan :: "write_outcome list"

definition buffer :: writer where
  "buffer = \<lparr>written = [], wplan = []\<rparr>"

fun wr_Write :: "writer \<Rightarrow> byte list \<Rightarrow> (nat \<times> io_error option) \<times> writer" where
  "wr_Write w data =
     (case wplan w of
        [] \<Rightarrow> ((length data, None), w\<lparr>written := written w @ data\<rparr>)
      | WriteUpTo n # ps \<Rightarrow>
          ((min n (length data), None),
           w\<lparr>written := written w @ take n data, wplan := ps\<rparr>)
      | WriteErr n # ps \<Rightarrow>
          ((min n (length data), Some ErrIO),
           w\<lparr>written := written w @ take n data, wplan := ps\<rparr>))"

declare wr_Write.simps [simp del]

subsection \<open>Files: os.File\<close>

text \<open>The outcome of one \<^verbatim>\<open>ReadAt\<close> or \<^verbatim>\<open>WriteAt\<close> call: complete, cut short after \<open>n\<close> bytes, or
  failed after \<open>n\<close> bytes.\<close>

datatype io_outcome = IoOk | IoShort nat | IoFail nat

type_synonym osfile = "byte list"

definition file_ReadAt ::
    "osfile \<Rightarrow> io_outcome \<Rightarrow> nat \<Rightarrow> nat \<Rightarrow> byte list \<times> io_error option" where
  "file_ReadAt f oc n off =
     (let got = take n (drop off f) in
      case oc of
        IoOk \<Rightarrow> (got, if length got < n then Some ErrEOF else None)
      | IoShort k \<Rightarrow> (take k got, if length (take k got) < n then Some ErrEOF else None)
      | IoFail k \<Rightarrow> (take k got, Some ErrIO))"

text \<open>Overwriting from an offset, with zero fill past the end of the file.\<close>

definition file_put :: "osfile \<Rightarrow> nat \<Rightarrow> byte list \<Rightarrow> osfile" where
  "file_put f off data =
     take off (f @ replicate (off - length f) 0) @ data @ drop (off + length data) f"

definition file_WriteAt ::
    "osfile \<Rightarrow> io_outcome \<Rightarrow> byte list \<Rightarrow> nat \<Rightarrow> (nat \<times> io_error option) \<times> osfile" where
  "file_WriteAt f oc data off =
     (case oc of
        IoOk \<Rightarrow> ((length data, None), file_put f off data)
      | IoShort k \<Rightarrow> ((length (take k data), None), file_put f off (take k data))
      | IoFail k \<Rightarrow> ((length (take k data), Some ErrIO), file_put f off (take k data)))"

definition file_Truncate :: "osfile \<Rightarrow> nat \<Rightarrow> osfile" where
  "file_Truncate f n = take n f @ replicate (n - length f) 0"

lemmas stream_defs [go_defs] =
  Peek1_def ReadByte_def ReadFull_def ReadSlice_def bufio_size_def

subsection \<open>Facts about decimal numbers\<close>

lemma nat_decimal_small: "n < 10 \<Longrightarrow> nat_decimal n = [48 + of_nat n]"
  by (simp add: nat_decimal.simps)

lemma nat_decimal_step:
  "10 \<le> n \<Longrightarrow> nat_decimal n = nat_decimal (n div 10) @ [48 + of_nat (n mod 10)]"
  by (subst nat_decimal.simps) simp

lemma nat_decimal_nonempty [simp]: "nat_decimal n \<noteq> []"
  by (subst nat_decimal.simps) simp

lemma unat_digit: "d < 10 \<Longrightarrow> unat (48 + of_nat d :: byte) = 48 + d"
  by (simp add: unat_word_ariths unat_of_nat)

lemma is_digit_of_nat [simp]: "d < 10 \<Longrightarrow> is_digit (48 + of_nat d)"
  by (simp add: is_digit_def word_le_nat_alt unat_digit)

lemma digit_byte: "is_digit b \<Longrightarrow> unat (b - 48) < 10 \<and> b = 48 + of_nat (unat (b - 48))"
  by (auto simp: is_digit_def word_le_nat_alt unat_sub)

lemma list_all_is_digit_nat_decimal [simp]: "list_all is_digit (nat_decimal n)"
proof (induction n rule: nat_decimal.induct)
  case (1 n)
  then show ?case
    by (cases "n < 10") (auto simp: nat_decimal_small nat_decimal_step)
qed

lemma digits_val_snoc [simp]: "digits_val (s @ [b]) = 10 * digits_val s + unat (b - 48)"
  by (simp add: digits_val_def)

lemma digits_val_Nil [simp]: "digits_val [] = 0"
  by (simp add: digits_val_def)

lemma digits_val_nat_decimal [simp]: "digits_val (nat_decimal n) = n"
proof (induction n rule: nat_decimal.induct)
  case (1 n)
  show ?case
  proof (cases "n < 10")
    case True
    then show ?thesis
      using digits_val_snoc [of "[]" "48 + of_nat n"] by (simp add: nat_decimal_small unat_of_nat)
  next
    case False
    then show ?thesis using 1 by (simp add: nat_decimal_step unat_of_nat)
  qed
qed

text \<open>No leading zero: the decimal form of a positive number starts with another digit.\<close>

lemma hd_nat_decimal: "0 < n \<Longrightarrow> hd (nat_decimal n) \<noteq> 48"
proof (induction n rule: nat_decimal.induct)
  case (1 n)
  show ?case
  proof (cases "n < 10")
    case True
    have "unat (48 + of_nat n :: byte) \<noteq> unat (48 :: byte)"
      using 1 True by (simp only: unat_digit) simp
    then show ?thesis using True by (auto simp: nat_decimal_small)
  next
    case False
    then show ?thesis using 1 by (simp add: nat_decimal_step)
  qed
qed

definition no_leading_zero :: "gostring \<Rightarrow> bool" where
  "no_leading_zero s \<longleftrightarrow> s \<noteq> [] \<and> (length s > 1 \<longrightarrow> hd s \<noteq> 48)"

lemma no_leading_zero_nat_decimal [simp]: "no_leading_zero (nat_decimal n)"
  by (cases "n = 0") (auto simp: no_leading_zero_def nat_decimal_small hd_nat_decimal)

text \<open>Conversely a digit string without a leading zero is the decimal form of its value.\<close>

lemma digits_val_pos:
  "list_all is_digit s \<Longrightarrow> s \<noteq> [] \<Longrightarrow> hd s \<noteq> 48 \<Longrightarrow> 0 < digits_val s"
proof (induction s rule: rev_induct)
  case Nil
  then show ?case by simp
next
  case (snoc b s)
  show ?case
  proof (cases s)
    case Nil
    with snoc.prems have "b \<noteq> 48" and "is_digit b" by auto
    then have "b - 48 \<noteq> 0" by simp
    then have "0 < unat (b - 48)" by (simp add: unat_gt_0)
    then show ?thesis by simp
  next
    case (Cons c cs)
    then have "0 < digits_val s" using snoc by simp
    then show ?thesis by simp
  qed
qed

lemma nat_decimal_digits_val:
  "list_all is_digit s \<Longrightarrow> no_leading_zero s \<Longrightarrow> nat_decimal (digits_val s) = s"
proof (induction s rule: rev_induct)
  case Nil
  then show ?case by (simp add: no_leading_zero_def)
next
  case (snoc b s)
  have b: "unat (b - 48) < 10" "48 + of_nat (unat (b - 48)) = b"
    using snoc.prems digit_byte [of b] by auto
  show ?case
  proof (cases "s = []")
    case True
    then show ?thesis using b digits_val_snoc [of "[]" b] by (simp add: nat_decimal_small)
  next
    case False
    then have hd: "hd s \<noteq> 48"
      using snoc.prems(2) by (cases s) (auto simp: no_leading_zero_def)
    then have "0 < digits_val s" using snoc.prems(1) False by (intro digits_val_pos) auto
    moreover have "nat_decimal (digits_val s) = s"
      using snoc hd False by (simp add: no_leading_zero_def)
    ultimately show ?thesis using b by (simp add: nat_decimal_step)
  qed
qed

lemma length_nat_decimal: "0 < k \<Longrightarrow> n < 10 ^ k \<Longrightarrow> length (nat_decimal n) \<le> k"
proof (induction k arbitrary: n)
  case 0
  then show ?case by simp
next
  case (Suc k)
  show ?case
  proof (cases "n < 10")
    case True
    then show ?thesis by (simp add: nat_decimal_small)
  next
    case False
    with Suc.prems have "0 < k" by (cases k) auto
    moreover have "n div 10 < 10 ^ k" using Suc.prems by auto
    ultimately show ?thesis using False Suc.IH by (simp add: nat_decimal_step)
  qed
qed

lemma ParseUint_nat_decimal [simp]: "n < 2 ^ 64 \<Longrightarrow> ParseUint (nat_decimal n) = Inr n"
  by (simp add: ParseUint_def)

lemma ParseUint_Inr:
  "ParseUint s = Inr n \<longleftrightarrow> s \<noteq> [] \<and> list_all is_digit s \<and> n = digits_val s \<and> n < 2 ^ 64"
  by (auto simp: ParseUint_def)

lemma hd_is_digit: "hd (nat_decimal n) \<noteq> 45 \<and> hd (nat_decimal n) \<noteq> 43"
proof -
  have "is_digit (hd (nat_decimal n))"
    using list_all_is_digit_nat_decimal [of n] by (cases "nat_decimal n") auto
  then show ?thesis by (auto simp: is_digit_def)
qed

lemma ParseInt_FormatInt [simp]: "in_int64 i \<Longrightarrow> ParseInt (FormatInt i) = Inr i"
  using hd_is_digit [of "nat i"]
  by (auto simp: ParseInt_def FormatInt_def in_int64_def Let_def)

subsection \<open>Facts about big-endian integers\<close>

lemma length_PutUint32 [simp]: "length (PutUint32 w) = 4"
  by (simp add: PutUint32_def)

lemma length_PutUint16 [simp]: "length (PutUint16 w) = 2"
  by (simp add: PutUint16_def)

lemma byte_high_bits [simp]:
  "\<not> bit (b :: byte) (8 + n)" "\<not> bit (b :: byte) (16 + n)" "\<not> bit (b :: byte) (24 + n)"
  by (auto dest: bit_imp_le_length)

lemma Uint32_PutUint32 [simp]: "Uint32 (PutUint32 w @ r) = w"
proof (rule bit_word_eqI)
  fix n
  assume "n < LENGTH(32)"
  then have "n < 32" by simp
  then consider "n < 8" | "8 \<le> n" "n < 16" | "16 \<le> n" "n < 24" | "24 \<le> n" "n < 32"
    by linarith
  then show "bit (Uint32 (PutUint32 w @ r)) n = bit w n"
    by cases (auto simp: PutUint32_def bit_simps)
qed

lemma Uint16_PutUint16 [simp]: "Uint16 (PutUint16 w @ r) = w"
  by (rule bit_word_eqI) (auto simp: PutUint16_def bit_simps)

lemma PutUint32_Uint32 [simp]: "PutUint32 (Uint32 (a # b # c # d # r)) = [a, b, c, d]"
  by (auto simp: PutUint32_def bit_simps intro!: bit_word_eqI)

lemma PutUint16_Uint16 [simp]: "PutUint16 (Uint16 (a # b # r)) = [a, b]"
  by (auto simp: PutUint16_def bit_simps intro!: bit_word_eqI)

declare Uint32.simps [simp del] Uint16.simps [simp del]

subsection \<open>Facts about streams\<close>

lemma ReadFull_append [simp]: "length xs = n \<Longrightarrow> ReadFull e n (xs @ s) = Inr (xs, s)"
  by (auto simp: ReadFull_def)

lemma ReadFull_Inr:
  "ReadFull e n s = Inr (xs, r) \<longleftrightarrow> s = xs @ r \<and> length xs = n"
  by (auto simp: ReadFull_def split: if_splits)

lemma ReadFull_short: "length s < n \<Longrightarrow> \<exists>err. ReadFull e n s = Inl err"
  by (auto simp: ReadFull_def)

lemma ReadSlice_append [simp]:
  assumes "list_all (\<lambda>b. b \<noteq> d) xs" and "length xs < bufio_size"
  shows "ReadSlice d e (xs @ d # s) = Inr (xs, s)"
  using assms by (simp add: ReadSlice_def Let_def)

lemma ReadSlice_Inr:
  assumes "ReadSlice d e s = Inr (line, r)"
  shows "s = line @ d # r" and "list_all (\<lambda>b. b \<noteq> d) line" and "length line < bufio_size"
proof -
  let ?l = "takeWhile (\<lambda>b. b \<noteq> d) s"
  from assms have l: "line = ?l" and r: "r = drop (Suc (length ?l)) s"
    and len: "length ?l < length s" "length ?l < bufio_size"
    by (auto simp: ReadSlice_def Let_def split: if_splits)
  have "s ! length ?l = d"
    using nth_length_takeWhile [of "\<lambda>b. b \<noteq> d" s] len(1) by simp
  then have dr: "drop (length ?l) s = d # r"
    using len(1) r by (simp add: take_drop_Suc_conv)
  have t: "take (length ?l) s = ?l"
    by (rule takeWhile_eq_take [symmetric])
  have "line @ d # r = take (length ?l) s @ drop (length ?l) s"
    by (simp only: l t dr)
  also have "\<dots> = s"
    by (rule append_take_drop_id)
  finally show "s = line @ d # r"
    by (rule sym)
  show "list_all (\<lambda>b. b \<noteq> d) line"
    by (simp add: l list_all_takeWhile)
  show "length line < bufio_size"
    using len l by simp
qed

subsection \<open>Facts about files\<close>

lemma length_file_put [simp]: "length (file_put f off data) = max (length f) (off + length data)"
  by (auto simp: file_put_def)

lemma file_put_read [simp]:
  "take (length data) (drop off (file_put f off data)) = data"
  by (auto simp: file_put_def)

lemma nth_file_put:
  assumes "i < length f"
  shows "file_put f off data ! i =
    (if off \<le> i \<and> i < off + length data then data ! (i - off) else f ! i)"
  using assms by (auto simp: file_put_def nth_append min_def)

text \<open>A write does not disturb a range it does not overlap.\<close>

lemma file_put_disjoint:
  assumes "off' + n \<le> length f" and "off' + n \<le> off \<or> off + length data \<le> off'"
  shows "take n (drop off' (file_put f off data)) = take n (drop off' f)"
proof (rule nth_equalityI)
  show "length (take n (drop off' (file_put f off data))) = length (take n (drop off' f))"
    using assms(1) by auto
  fix i
  assume "i < length (take n (drop off' (file_put f off data)))"
  with assms show "take n (drop off' (file_put f off data)) ! i = take n (drop off' f) ! i"
    by (auto simp: nth_file_put)
qed

lemma length_file_Truncate [simp]: "length (file_Truncate f n) = n"
  by (simp add: file_Truncate_def)

end
