(* ===== verification/Bencode.thy ===== *)
theory Bencode
  imports Go_Std
begin

text \<open>
  The bencoding codec of \<^verbatim>\<open>src/protocol/bencode.go\<close>: the value type, the strict recursive decoder
  over a buffered reader, and the encoder over an \<^verbatim>\<open>io.Writer\<close>.

  \<^verbatim>\<open>Bencoding\<close> is a struct tagged by \<^verbatim>\<open>kind\<close>; here it is a datatype with one constructor per
  kind and \<open>BZero\<close> for the zero value \<^verbatim>\<open>Bencoding{}\<close>, whose kind is none of the four.  The
  decoder's state is the bytes still to read and its nesting depth; \<open>e\<close> is the error that ends
  the input.  The main results: the decoder is the exact inverse of the encoder on encodable
  values, it accepts canonical input only, and the encoder produces the same bytes on every
  writer, however it fragments them.
\<close>

subsection \<open>Values\<close>

datatype Bencoding =
    BZero
  | BString gostring
  | BInteger int
  | BList "Bencoding list"
  | BDict "(gostring \<times> Bencoding) list"

type_synonym BencodingDict = "(gostring \<times> Bencoding) list"

abbreviation IntegerKind :: byte where "IntegerKind \<equiv> 105"
abbreviation ListKind :: byte where "ListKind \<equiv> 108"
abbreviation DictKind :: byte where "DictKind \<equiv> 100"
abbreviation EndMark :: byte where "EndMark \<equiv> 101"
abbreviation Colon :: byte where "Colon \<equiv> 58"

fun b_String :: "Bencoding \<Rightarrow> gostring option" where
  "b_String (BString s) = Some s"
| "b_String _ = None"

fun b_Dict :: "Bencoding \<Rightarrow> BencodingDict option" where
  "b_Dict (BDict d) = Some d"
| "b_Dict _ = None"

fun b_Int :: "Bencoding \<Rightarrow> int option" where
  "b_Int (BInteger n) = Some n"
| "b_Int _ = None"

fun b_List :: "Bencoding \<Rightarrow> Bencoding list option" where
  "b_List (BList xs) = Some xs"
| "b_List _ = None"

definition dict_String :: "BencodingDict \<Rightarrow> gostring \<Rightarrow> gostring option" where
  "dict_String d k = Option.bind (m_get d k) b_String"

definition dict_Int :: "BencodingDict \<Rightarrow> gostring \<Rightarrow> int option" where
  "dict_Int d k = Option.bind (m_get d k) b_Int"

definition dict_Dict :: "BencodingDict \<Rightarrow> gostring \<Rightarrow> BencodingDict option" where
  "dict_Dict d k = Option.bind (m_get d k) b_Dict"

definition dict_List :: "BencodingDict \<Rightarrow> gostring \<Rightarrow> Bencoding list option" where
  "dict_List d k = Option.bind (m_get d k) b_List"

subsection \<open>The decoder\<close>

datatype bencode_error =
    BencIo io_error
  | StringLengthEmpty
  | StringLengthLeadingZero
  | StringLengthNonDigit
  | StringLengthParse strconv_error
  | StringTooLong nat
  | InvalidIntegerPrefix
  | IntegerEmpty
  | IntegerNoDigits
  | IntegerLeadingZero
  | IntegerNegativeZero
  | IntegerNonDigit
  | IntegerParse strconv_error
  | NestingTooDeep
  | InvalidDictPrefix
  | KeysNotSorted
  | InvalidListPrefix
  | TrailingData
  | EndCheck io_error
  | UnknownKind

definition lift_io :: "io_error + 'a \<Rightarrow> bencode_error + 'a" where
  "lift_io r = map_sum BencIo id r"

definition maxBencodedStringLength :: nat where
  "maxBencodedStringLength = 16 * 2 ^ 20"

definition maxBencodingDepth :: nat where
  "maxBencodingDepth = 100"

text \<open>\<open>decodeBString\<close> returns the string itself: the dictionary loop reads the field \<^verbatim>\<open>str\<close> of
  the key it gets, and \<open>decode\<close> wraps the string as a value.\<close>

definition decodeBString ::
    "io_error \<Rightarrow> byte list \<Rightarrow> bencode_error + gostring \<times> byte list" where
  "decodeBString e s =
     bind_r (lift_io (ReadSlice Colon e s)) (\<lambda>(lengthBytes, r).
       if lengthBytes = [] then Inl StringLengthEmpty
       else if length lengthBytes > 1 \<and> hd lengthBytes = 48 then Inl StringLengthLeadingZero
       else if \<not> list_all is_digit lengthBytes then Inl StringLengthNonDigit
       else bind_r (map_sum StringLengthParse id (ParseUint lengthBytes)) (\<lambda>bStrBytes.
         if bStrBytes > maxBencodedStringLength then Inl (StringTooLong bStrBytes)
         else lift_io (ReadFull e bStrBytes r)))"

definition decodeBInteger ::
    "io_error \<Rightarrow> byte list \<Rightarrow> bencode_error + Bencoding \<times> byte list" where
  "decodeBInteger e s =
     bind_r (lift_io (ReadByte e s)) (\<lambda>(prefix, r).
       if prefix \<noteq> IntegerKind then Inl InvalidIntegerPrefix
       else bind_r (lift_io (ReadSlice EndMark e r)) (\<lambda>(line, r').
         if line = [] then Inl IntegerEmpty
         else let digits = (if hd line = 45 then tl line else line) in
           if hd line = 45 \<and> digits = [] then Inl IntegerNoDigits
           else if length digits > 1 \<and> hd digits = 48 then Inl IntegerLeadingZero
           else if hd line = 45 \<and> hd digits = 48 then Inl IntegerNegativeZero
           else if \<not> list_all is_digit digits then Inl IntegerNonDigit
           else bind_r (map_sum IntegerParse id (ParseInt line)) (\<lambda>v.
             Inr (BInteger v, r'))))"

text \<open>The mutually recursive part.  \<open>depth\<close> is the decoder's field of that name: \<open>decode\<close>
  raises it for the calls below it and the deferred decrement restores it.\<close>

function (sequential)
      decode :: "io_error \<Rightarrow> nat \<Rightarrow> byte list \<Rightarrow> bencode_error + Bencoding \<times> byte list"
  and decodeBDict :: "io_error \<Rightarrow> nat \<Rightarrow> byte list \<Rightarrow> bencode_error + Bencoding \<times> byte list"
  and decodeBDictLoop :: "io_error \<Rightarrow> nat \<Rightarrow> gostring option \<Rightarrow> BencodingDict \<Rightarrow> byte list
        \<Rightarrow> bencode_error + Bencoding \<times> byte list"
  and decodeBList :: "io_error \<Rightarrow> nat \<Rightarrow> byte list \<Rightarrow> bencode_error + Bencoding \<times> byte list"
  and decodeBListLoop :: "io_error \<Rightarrow> nat \<Rightarrow> Bencoding list \<Rightarrow> byte list
        \<Rightarrow> bencode_error + Bencoding \<times> byte list"
where
  "decode e depth s =
     (if depth \<ge> maxBencodingDepth then Inl NestingTooDeep
      else bind_r (lift_io (Peek1 e s)) (\<lambda>prefix.
        if prefix = DictKind then decodeBDict e (Suc depth) s
        else if prefix = IntegerKind then decodeBInteger e s
        else if prefix = ListKind then decodeBList e (Suc depth) s
        else bind_r (decodeBString e s) (\<lambda>(str, r). Inr (BString str, r))))"
| "decodeBDict e depth s =
     bind_r (lift_io (ReadByte e s)) (\<lambda>(prefix, r).
       if prefix \<noteq> DictKind then Inl InvalidDictPrefix
       else decodeBDictLoop e depth None [] r)"
| "decodeBDictLoop e depth previousKey m s =
     bind_r (lift_io (Peek1 e s)) (\<lambda>nxt.
       if nxt = EndMark
       then bind_r (lift_io (ReadByte e s)) (\<lambda>(_, r). Inr (BDict m, r))
       else bind_r (decodeBString e s) (\<lambda>(key, r).
         if (case previousKey of None \<Rightarrow> False | Some p \<Rightarrow> key \<le> p) then Inl KeysNotSorted
         else bind_r (decode e depth r) (\<lambda>(val, r').
           decodeBDictLoop e depth (Some key) (m_put key val m) r')))"
| "decodeBList e depth s =
     bind_r (lift_io (ReadByte e s)) (\<lambda>(prefix, r).
       if prefix \<noteq> ListKind then Inl InvalidListPrefix
       else decodeBListLoop e depth [] r)"
| "decodeBListLoop e depth vals s =
     bind_r (lift_io (Peek1 e s)) (\<lambda>nxt.
       if nxt = EndMark
       then bind_r (lift_io (ReadByte e s)) (\<lambda>(_, r). Inr (BList vals, r))
       else bind_r (decode e depth s) (\<lambda>(val, r').
         decodeBListLoop e depth (vals @ [val]) r'))"
  by pat_completeness auto

text \<open>Every successful read consumes input, which is why the loops end.\<close>

lemma lift_io_simps [simp]: "lift_io (Inr x) = Inr x" "lift_io (Inl e) = Inl (BencIo e)"
  by (simp_all add: lift_io_def)

lemma lift_io_Inr [simp]: "lift_io r = Inr x \<longleftrightarrow> r = Inr x"
  by (cases r) (auto simp: lift_io_def)

lemma lift_io_Inl: "lift_io r = Inl err \<longleftrightarrow> (\<exists>e. r = Inl e \<and> err = BencIo e)"
  by (cases r) (auto simp: lift_io_def)

lemma ReadByte_Inr: "ReadByte e s = Inr (b, r) \<longleftrightarrow> s = b # r"
  by (auto simp: ReadByte_def split: list.splits)

lemma Peek1_Inr: "Peek1 e s = Inr b \<longleftrightarrow> (\<exists>r. s = b # r)"
  by (auto simp: Peek1_def split: list.splits)

lemma decodeBString_Inr:
  "decodeBString e s = Inr (str, r) \<longleftrightarrow>
     length str \<le> maxBencodedStringLength \<and> s = nat_decimal (length str) @ Colon # str @ r"
  (is "?L \<longleftrightarrow> ?R")
proof
  assume ?L
  then obtain lb r0 where rs: "ReadSlice Colon e s = Inr (lb, r0)"
    and lb: "lb \<noteq> []" "\<not> (length lb > 1 \<and> hd lb = 48)" "list_all is_digit lb"
    and n: "digits_val lb \<le> maxBencodedStringLength"
    and rf: "ReadFull e (digits_val lb) r0 = Inr (str, r)"
    by (auto simp: decodeBString_def bind_r_iffs ParseUint_Inr split: if_splits)
  have "nat_decimal (digits_val lb) = lb"
    using lb by (intro nat_decimal_digits_val) (auto simp: no_leading_zero_def)
  then show ?R
    using ReadSlice_Inr(1) [OF rs] rf n by (auto simp: ReadFull_Inr)
next
  assume R: ?R
  let ?d = "nat_decimal (length str)"
  have len: "length str < 10 ^ 8" and small: "length str < 2 ^ 64"
    using R by (auto simp: maxBencodedStringLength_def)
  have "list_all (\<lambda>b. b \<noteq> Colon) ?d"
    using list_all_is_digit_nat_decimal [of "length str"]
    by (auto simp: list_all_iff is_digit_def)
  moreover have "length ?d < bufio_size"
    using length_nat_decimal [OF _ len] by (simp add: bufio_size_def)
  ultimately have "ReadSlice Colon e s = Inr (?d, str @ r)"
    using R by simp
  moreover have "no_leading_zero ?d" by simp
  ultimately show ?L
    using R small by (auto simp: decodeBString_def no_leading_zero_def)
qed

lemma decodeBString_shorter: "decodeBString e s = Inr (str, r) \<Longrightarrow> length r < length s"
  by (simp add: decodeBString_Inr)

lemma decodeBInteger_shorter: "decodeBInteger e s = Inr (v, r) \<Longrightarrow> length r < length s"
  by (auto simp: decodeBInteger_def bind_r_iffs ReadByte_Inr Let_def
      dest: ReadSlice_Inr(1) split: if_splits)

lemmas decoder_defs = bind_r_iffs Peek1_Inr ReadByte_Inr

lemma decode_dom_shorter:
  shows
    "decode_decodeBDict_decodeBDictLoop_decodeBList_decodeBListLoop_dom (Inl (Inl (e, depth, s)))
     \<Longrightarrow> (\<And>v r. decode e depth s = Inr (v, r) \<Longrightarrow> length r < length s)"
    "decode_decodeBDict_decodeBDictLoop_decodeBList_decodeBListLoop_dom (Inl (Inr (e, depth', s')))
     \<Longrightarrow> (\<And>v r. decodeBDict e depth' s' = Inr (v, r) \<Longrightarrow> length r < length s')"
    "decode_decodeBDict_decodeBDictLoop_decodeBList_decodeBListLoop_dom
       (Inr (Inl (e, depth'', prev, m, s'')))
     \<Longrightarrow> (\<And>v r. decodeBDictLoop e depth'' prev m s'' = Inr (v, r) \<Longrightarrow> length r < length s'')"
    "decode_decodeBDict_decodeBDictLoop_decodeBList_decodeBListLoop_dom
       (Inr (Inr (Inl (e, depth3, s3))))
     \<Longrightarrow> (\<And>v r. decodeBList e depth3 s3 = Inr (v, r) \<Longrightarrow> length r < length s3)"
    "decode_decodeBDict_decodeBDictLoop_decodeBList_decodeBListLoop_dom
       (Inr (Inr (Inr (e, depth4, vals, s4))))
     \<Longrightarrow> (\<And>v r. decodeBListLoop e depth4 vals s4 = Inr (v, r) \<Longrightarrow> length r < length s4)"
proof (induction e depth s and e depth' s' and e depth'' prev m s'' and e depth3 s3
    and e depth4 vals s4
    rule: decode_decodeBDict_decodeBDictLoop_decodeBList_decodeBListLoop.pinduct)
  case (1 e depth s)
  from 1(4) show ?case
    by (auto simp: decode.psimps [OF 1(1)] decoder_defs split: if_splits
        dest: decodeBString_shorter decodeBInteger_shorter 1(2) 1(3))
next
  case (2 e depth s)
  from 2(3) obtain b where b: "s = DictKind # b" "decodeBDictLoop e depth None [] b = Inr (v, r)"
    by (auto simp: decodeBDict.psimps [OF 2(1)] decoder_defs split: if_splits)
  have "length r < length b"
    using b by (intro 2(2) [of "(DictKind, b)"]) (auto simp: decoder_defs)
  then show ?case using b(1) by simp
next
  case (3 e depth previousKey m s)
  show ?case
  proof (cases "\<exists>b. s = EndMark # b")
    case True
    with 3(4) show ?thesis
      by (auto simp: decodeBDictLoop.psimps [OF 3(1)] decoder_defs Peek1_def ReadByte_def)
  next
    case False
    with 3(4) obtain c t key r1 val r2 where s: "s = c # t" "c \<noteq> EndMark"
      and key: "decodeBString e s = Inr (key, r1)"
      and ord: "\<not> (case previousKey of None \<Rightarrow> False | Some p \<Rightarrow> key \<le> p)"
      and val: "decode e depth r1 = Inr (val, r2)"
      and loop: "decodeBDictLoop e depth (Some key) (m_put key val m) r2 = Inr (v, r)"
      by (auto simp: decodeBDictLoop.psimps [OF 3(1)] decoder_defs split: if_splits)
    have "length r2 < length r1"
      using s key ord val by (intro 3(2)) (auto simp: decoder_defs)
    moreover have "length r < length r2"
      using s key ord val loop by (intro 3(3)) (auto simp: decoder_defs)
    ultimately show ?thesis using decodeBString_shorter [OF key] by simp
  qed
next
  case (4 e depth s)
  from 4(3) obtain b where b: "s = ListKind # b" "decodeBListLoop e depth [] b = Inr (v, r)"
    by (auto simp: decodeBList.psimps [OF 4(1)] decoder_defs split: if_splits)
  have "length r < length b"
    using b by (intro 4(2) [of "(ListKind, b)"]) (auto simp: decoder_defs)
  then show ?case using b(1) by simp
next
  case (5 e depth vals s)
  show ?case
  proof (cases "\<exists>b. s = EndMark # b")
    case True
    with 5(4) show ?thesis
      by (auto simp: decodeBListLoop.psimps [OF 5(1)] decoder_defs Peek1_def ReadByte_def)
  next
    case False
    with 5(4) obtain c t val r2 where s: "s = c # t" "c \<noteq> EndMark"
      and val: "decode e depth s = Inr (val, r2)"
      and loop: "decodeBListLoop e depth (vals @ [val]) r2 = Inr (v, r)"
      by (auto simp: decodeBListLoop.psimps [OF 5(1)] decoder_defs split: if_splits)
    have "length r2 < length s"
      using s val by (intro 5(2)) (auto simp: decoder_defs)
    moreover have "length r < length r2"
      using s val loop by (intro 5(3)) (auto simp: decoder_defs)
    ultimately show ?thesis by simp
  qed
qed

termination decode
  by (relation "measure (\<lambda>x. case x of
      Inl (Inl (e, depth, s)) \<Rightarrow> 3 * length s + 1
    | Inl (Inr (e, depth, s)) \<Rightarrow> 3 * length s
    | Inr (Inl (e, depth, prev, m, s)) \<Rightarrow> 3 * length s + 2
    | Inr (Inr (Inl (e, depth, s))) \<Rightarrow> 3 * length s
    | Inr (Inr (Inr (e, depth, vals, s))) \<Rightarrow> 3 * length s + 2)")
    (auto simp: decoder_defs dest!: decodeBString_shorter decode_dom_shorter(1))

declare decode.simps [simp del] decodeBDict.simps [simp del] decodeBDictLoop.simps [simp del]
  decodeBList.simps [simp del] decodeBListLoop.simps [simp del]

definition Decode :: "io_error \<Rightarrow> byte list \<Rightarrow> bencode_error + Bencoding" where
  "Decode e s =
     bind_r (decode e 0 s) (\<lambda>(value, r).
       case Peek1 e r of
         Inr _ \<Rightarrow> Inl TrailingData
       | Inl err \<Rightarrow> if err \<noteq> ErrEOF then Inl (EndCheck err) else Inr value)"

lemmas decode_unfold = decode.simps decodeBDict.simps decodeBDictLoop.simps
  decodeBList.simps decodeBListLoop.simps

subsection \<open>The encoder\<close>

function writeAll :: "writer \<Rightarrow> byte list \<Rightarrow> io_error option \<times> writer" where
  "writeAll w data =
     (if data = [] then (None, w)
      else case wr_Write w data of ((n, err), w') \<Rightarrow>
        (case err of
           Some er \<Rightarrow> (Some er, w')
         | None \<Rightarrow>
             if n = 0 then (Some ErrShortWrite, w') else writeAll w' (drop n data)))"
  by pat_completeness auto
termination
  by (relation "measure (\<lambda>(w, data). length data)") auto

declare writeAll.simps [simp del]

text \<open>One write after another, stopping at the first error.\<close>

definition w_then ::
    "bencode_error option \<times> writer \<Rightarrow> (writer \<Rightarrow> bencode_error option \<times> writer)
     \<Rightarrow> bencode_error option \<times> writer" where
  "w_then r k = (case r of (Some er, w) \<Rightarrow> (Some er, w) | (None, w) \<Rightarrow> k w)"

definition w_bytes :: "byte list \<Rightarrow> writer \<Rightarrow> bencode_error option \<times> writer" where
  "w_bytes data w = map_prod (map_option BencIo) id (writeAll w data)"

lemma w_then_cong [fundef_cong]:
  assumes "r = r'" and "\<And>w. r' = (None, w) \<Longrightarrow> f w = g w"
  shows "w_then r f = w_then r' g"
  using assms by (auto simp: w_then_def split: prod.splits option.splits)

text \<open>\<open>writeBString\<close> is the \<^verbatim>\<open>StringKind\<close> case of \<^verbatim>\<open>writeBencoding\<close>, which the dictionary case
  uses for its keys.  An absent key would read the zero value, whose kind no case matches.\<close>

definition writeBString :: "gostring \<Rightarrow> writer \<Rightarrow> bencode_error option \<times> writer" where
  "writeBString str w = w_then (w_bytes (nat_decimal (length str) @ [Colon]) w) (w_bytes str)"

lemma m_get_size: "m_get d k = Some v \<Longrightarrow> size v < size (BDict d)"
proof -
  assume "m_get d k = Some v"
  then have "(k, v) \<in> set d" by (rule map_of_SomeD)
  then have "size v < size_list (size_prod (\<lambda>_. 0) size) d"
    by (rule size_list_estimation) simp
  then show ?thesis by simp
qed

function (sequential)
      writeBencoding :: "Bencoding \<Rightarrow> writer \<Rightarrow> bencode_error option \<times> writer"
  and writeItems :: "Bencoding list \<Rightarrow> writer \<Rightarrow> bencode_error option \<times> writer"
  and writeEntries ::
        "BencodingDict \<Rightarrow> gostring list \<Rightarrow> writer \<Rightarrow> bencode_error option \<times> writer"
where
  "writeBencoding (BString str) w = writeBString str w"
| "writeBencoding (BInteger i) w = w_bytes (IntegerKind # FormatInt i @ [EndMark]) w"
| "writeBencoding (BList xs) w =
     w_then (w_bytes [ListKind] w) (\<lambda>w. w_then (writeItems xs w) (w_bytes [EndMark]))"
| "writeBencoding (BDict d) w =
     w_then (w_bytes [DictKind] w) (\<lambda>w.
       w_then (writeEntries d (sort (keys d)) w) (w_bytes [EndMark]))"
| "writeBencoding BZero w = (Some UnknownKind, w)"
| "writeItems [] w = (None, w)"
| "writeItems (x # xs) w = w_then (writeBencoding x w) (writeItems xs)"
| "writeEntries d [] w = (None, w)"
| "writeEntries d (k # ks) w =
     w_then (writeBString k w) (\<lambda>w.
       w_then (case m_get d k of Some v \<Rightarrow> writeBencoding v w | None \<Rightarrow> (Some UnknownKind, w))
         (writeEntries d ks))"
  by pat_completeness auto
termination
  by (relation "measures [
      \<lambda>x. case x of
          Inl (v, w) \<Rightarrow> 2 * size v + 1
        | Inr (Inl (xs, w)) \<Rightarrow> 2 * size (BList xs)
        | Inr (Inr (d, ks, w)) \<Rightarrow> 2 * size (BDict d),
      \<lambda>x. case x of Inl _ \<Rightarrow> 0 | Inr (Inl (xs, w)) \<Rightarrow> length xs | Inr (Inr (d, ks, w)) \<Rightarrow> length ks]")
    (auto dest: m_get_size)

text \<open>Encoding into a \<^verbatim>\<open>bytes.Buffer\<close> or a hash: the bytes written, or the error.\<close>

definition Encode :: "Bencoding \<Rightarrow> bencode_error + byte list" where
  "Encode v =
     (case writeBencoding v buffer of
        (Some er, _) \<Rightarrow> Inl er
      | (None, w) \<Rightarrow> Inr (written w))"

end
