(* ===== verification/Codec.thy ===== *)
theory Codec
  imports Go_Std
begin

text \<open>
  The contract of a codec whose values are read from a byte stream one after another: what a
  decoder promises about the bytes an encoder wrote.  Bencoded values, peer messages and
  handshakes each provide it.
\<close>

text \<open>Reading \<open>n\<close> values in sequence, stopping at the first error.\<close>

fun read_n :: "(byte list \<Rightarrow> 'e + 'a \<times> byte list) \<Rightarrow> nat \<Rightarrow> byte list \<Rightarrow> 'e + 'a list \<times> byte list"
where
  "read_n dec 0 s = Inr ([], s)"
| "read_n dec (Suc n) s =
     bind_r (dec s) (\<lambda>(x, r). bind_r (read_n dec n r) (\<lambda>(xs, r'). Inr (x # xs, r')))"

text \<open>\<open>norm\<close> is what a value becomes on the way: the identity, or the canonical form of a value
  that the encoder may list in another order.\<close>

locale stream_codec =
  fixes enc :: "'a \<Rightarrow> byte list"
    and dec :: "byte list \<Rightarrow> 'e + 'a \<times> byte list"
    and ok :: "'a \<Rightarrow> bool"
    and norm :: "'a \<Rightarrow> 'a"
  assumes dec_enc: "ok x \<Longrightarrow> dec (enc x @ r) = Inr (norm x, r)"
begin

lemma read_n_concat:
  "list_all ok xs \<Longrightarrow>
   read_n dec (length xs) (concat (map enc xs) @ r) = Inr (map norm xs, r)"
  by (induction xs) (auto simp: dec_enc)

lemma enc_prefix_free:
  assumes "ok x" and "ok y" and "enc x @ r = enc y @ r'"
  shows "norm x = norm y \<and> r = r'"
  using assms dec_enc [of x r] dec_enc [of y r'] by simp

lemma enc_inj: "ok x \<Longrightarrow> ok y \<Longrightarrow> enc x = enc y \<Longrightarrow> norm x = norm y"
  using enc_prefix_free [of x y "[]" "[]"] by simp

end

text \<open>A strict codec accepts nothing but what its encoder writes.\<close>

locale strict_codec = stream_codec +
  assumes enc_dec: "dec s = Inr (x, r) \<Longrightarrow> s = enc x @ r \<and> ok x"
begin

lemma dec_unique: "dec s = Inr (x, r) \<Longrightarrow> dec s' = Inr (x, r) \<Longrightarrow> s = s'"
  using enc_dec by metis

lemma dec_extend: "dec s = Inr (x, r) \<Longrightarrow> dec (s @ t) = Inr (norm x, r @ t)"
  using enc_dec [of s x r] dec_enc [of x "r @ t"] by auto

lemma read_n_exact:
  "read_n dec n s = Inr (xs, r) \<Longrightarrow>
   s = concat (map enc xs) @ r \<and> list_all ok xs \<and> length xs = n"
proof (induction n arbitrary: s xs)
  case (Suc n)
  then obtain x r1 ys where "dec s = Inr (x, r1)" "read_n dec n r1 = Inr (ys, r)" "xs = x # ys"
    by (auto simp: bind_r_iffs)
  then show ?case using Suc.IH [of r1 ys] enc_dec [of s x r1] by auto
qed simp

end

end
