(* ===== verification/Bencode_Spec.thy ===== *)
theory Bencode_Spec
  imports Bencode Codec
begin

text \<open>
  What the bencoding codec promises.  \<open>bencode\<close> is the grammar of BEP 3 as a function,
  \<open>decodable\<close> the values within the decoder's limits, and \<open>canon\<close> the normal form of a value
  whose dictionaries are listed in key order (a Go map has no order of its own).
\<close>

subsection \<open>The grammar\<close>

definition bstr :: "gostring \<Rightarrow> byte list" where
  "bstr s = nat_decimal (length s) @ Colon # s"

definition benc_entries :: "(gostring \<times> byte list) list \<Rightarrow> byte list" where
  "benc_entries ps = concat (map (\<lambda>(k, bs). bstr k @ bs) ps)"

primrec bencode :: "Bencoding \<Rightarrow> byte list" where
  "bencode BZero = []"
| "bencode (BString s) = bstr s"
| "bencode (BInteger i) = IntegerKind # FormatInt i @ [EndMark]"
| "bencode (BList xs) = ListKind # concat (map bencode xs) @ [EndMark]"
| "bencode (BDict d) =
     DictKind # benc_entries (sort_key fst (map (map_prod (\<lambda>x. x) bencode) d)) @ [EndMark]"

primrec canon :: "Bencoding \<Rightarrow> Bencoding" where
  "canon BZero = BZero"
| "canon (BString s) = BString s"
| "canon (BInteger i) = BInteger i"
| "canon (BList xs) = BList (map canon xs)"
| "canon (BDict d) = BDict (sort_key fst (map (map_prod (\<lambda>x. x) canon) d))"

text \<open>The values an encoder accepts, and those within the decoder's limits at a given depth.\<close>

fun encodable :: "Bencoding \<Rightarrow> bool" where
  "encodable BZero \<longleftrightarrow> False"
| "encodable (BString s) \<longleftrightarrow> True"
| "encodable (BInteger i) \<longleftrightarrow> in_int64 i"
| "encodable (BList xs) \<longleftrightarrow> list_all encodable xs"
| "encodable (BDict d) \<longleftrightarrow> distinct (keys d) \<and> list_all (\<lambda>(k, v). encodable v) d"

fun decodable :: "nat \<Rightarrow> Bencoding \<Rightarrow> bool" where
  "decodable n BZero \<longleftrightarrow> False"
| "decodable n (BString s) \<longleftrightarrow> n < maxBencodingDepth \<and> length s \<le> maxBencodedStringLength"
| "decodable n (BInteger i) \<longleftrightarrow> n < maxBencodingDepth \<and> in_int64 i"
| "decodable n (BList xs) \<longleftrightarrow> n < maxBencodingDepth \<and> list_all (decodable (Suc n)) xs"
| "decodable n (BDict d) \<longleftrightarrow>
     n < maxBencodingDepth \<and> distinct (keys d) \<and>
     list_all (\<lambda>(k, v). length k \<le> maxBencodedStringLength \<and> decodable (Suc n) v) d"

subsection \<open>Sorting by key commutes with mapping the values\<close>

lemma map_fst_map_prod [simp]: "map fst (map (map_prod (\<lambda>x. x) f) d) = map fst d"
  by (induction d) auto

lemma insort_key_map_prod:
  "insort_key fst (map_prod (\<lambda>x. x) f x) (map (map_prod (\<lambda>x. x) f) xs) =
   map (map_prod (\<lambda>x. x) f) (insort_key fst x xs)"
  by (induction xs) (auto simp: map_prod_def split: prod.splits)

lemma sort_key_map_prod:
  "sort_key fst (map (map_prod (\<lambda>x. x) f) d) = map (map_prod (\<lambda>x. x) f) (sort_key fst d)"
  by (induction d) (simp_all only: list.map sort_key_simps insort_key_map_prod)

lemma map_fst_insort_key: "map fst (insort_key fst p d) = insort (fst p) (map fst d)"
  by (induction d) auto

lemma map_fst_sort_key: "map fst (sort_key fst d) = sort (map fst d)"
  by (induction d) (auto simp: map_fst_insort_key)

lemma sorted_sort_keys:
  "distinct (keys d) \<Longrightarrow> sorted_wrt (<) (keys (sort_key fst d))"
  by (simp add: map_fst_sort_key strict_sorted_iff)

lemma sort_key_sorted_id:
  fixes d :: "('k::linorder \<times> 'v) list"
  shows "sorted (keys d) \<Longrightarrow> sort_key fst d = d"
proof (induction d)
  case (Cons p d)
  then show ?case by (cases d) (auto simp: insort_key_left_comm)
qed simp

lemma strict_sorted_sorted: "sorted_wrt (<) (xs :: 'a::linorder list) \<Longrightarrow> sorted xs"
  by (simp add: strict_sorted_iff)

subsection \<open>First bytes\<close>

lemma bstr_first:
  "\<exists>c t. bstr s = c # t \<and> c \<noteq> EndMark \<and> c \<noteq> DictKind \<and> c \<noteq> IntegerKind \<and> c \<noteq> ListKind"
proof -
  obtain c t where ct: "nat_decimal (length s) = c # t"
    using nat_decimal_nonempty by (meson neq_Nil_conv)
  have "is_digit c"
    using list_all_is_digit_nat_decimal [of "length s"] ct by simp
  then show ?thesis
    using ct by (auto simp: bstr_def is_digit_def)
qed

lemma bencode_first:
  "decodable n v \<Longrightarrow> \<exists>c t. bencode v = c # t \<and> c \<noteq> EndMark"
  using bstr_first by (cases v) fastforce+

subsection \<open>Decoding what was encoded\<close>

lemma decode_bstr:
  assumes "n < maxBencodingDepth" and "length s \<le> maxBencodedStringLength"
  shows "decode e n (bstr s @ r) = Inr (BString s, r)"
proof -
  obtain c t where c: "bstr s = c # t" "c \<noteq> DictKind" "c \<noteq> IntegerKind" "c \<noteq> ListKind"
    using bstr_first by blast
  have "decodeBString e (bstr s @ r) = Inr (s, r)"
    using assms(2) by (simp add: decodeBString_Inr bstr_def)
  then show ?thesis
    using assms(1) c by (simp add: decode.simps Peek1_def)
qed

lemma digits_avoid: "list_all is_digit s \<Longrightarrow> \<not> is_digit b \<Longrightarrow> list_all (\<lambda>x. x \<noteq> b) s"
  by (auto simp: list_all_iff)

lemma decodeBInteger_FormatInt:
  assumes "in_int64 i"
  shows "decodeBInteger e (IntegerKind # FormatInt i @ EndMark # r) = Inr (BInteger i, r)"
proof -
  let ?n = "nat (if i < 0 then - i else i)"
  let ?d = "nat_decimal ?n"
  have F: "FormatInt i = (if i < 0 then 45 # ?d else ?d)"
    by (simp add: FormatInt_def)
  have d: "list_all is_digit ?d" "?d \<noteq> []" "no_leading_zero ?d" by simp_all
  have hd45: "hd ?d \<noteq> 45" using hd_is_digit by blast
  have pos: "i < 0 \<Longrightarrow> hd ?d \<noteq> 48" by (simp add: hd_nat_decimal)
  have "?n < 10 ^ 20" using assms by (simp add: in_int64_def nat_less_iff)
  then have len: "length ?d \<le> 20" using length_nat_decimal [of 20] by simp
  have "list_all (\<lambda>b. b \<noteq> EndMark) (FormatInt i)"
    using digits_avoid [OF d(1), of EndMark] by (auto simp: F is_digit_def split: if_splits)
  moreover have "length (FormatInt i) < bufio_size"
    using len by (auto simp: F bufio_size_def split: if_splits)
  ultimately have rs: "ReadSlice EndMark e (FormatInt i @ EndMark # r) = Inr (FormatInt i, r)"
    by simp
  have "ParseInt (FormatInt i) = Inr i" using assms by simp
  then show ?thesis
    using d hd45 pos rs
    by (cases "i < 0")
      (auto simp: decodeBInteger_def ReadByte_def F Let_def no_leading_zero_def split: if_splits)
qed

lemma decodeBListLoop_items:
  assumes "\<And>x r. x \<in> set xs \<Longrightarrow> decode e n (bencode x @ r) = Inr (canon x, r)"
    and "\<And>x. x \<in> set xs \<Longrightarrow> \<exists>c t. bencode x = c # t \<and> c \<noteq> EndMark"
  shows "decodeBListLoop e n vals (concat (map bencode xs) @ EndMark # r) =
    Inr (BList (vals @ map canon xs), r)"
  using assms
proof (induction xs arbitrary: vals)
  case Nil
  then show ?case by (simp add: decodeBListLoop.simps Peek1_def ReadByte_def)
next
  case (Cons x xs)
  obtain c t where c: "bencode x = c # t" "c \<noteq> EndMark" using Cons.prems(2) [of x] by auto
  then have "Peek1 e (bencode x @ concat (map bencode xs) @ EndMark # r) = Inr c"
    by (simp add: Peek1_def)
  then show ?case
    using Cons c(2) by (subst decodeBListLoop.simps) simp
qed

definition key_after :: "gostring option \<Rightarrow> gostring \<Rightarrow> bool" where
  "key_after prev k \<longleftrightarrow> (case prev of None \<Rightarrow> True | Some p \<Rightarrow> p < k)"

lemma decodeBDictLoop_entries:
  assumes "\<And>k v r. (k, v) \<in> set ps \<Longrightarrow> decode e n (bencode v @ r) = Inr (canon v, r)"
    and "\<And>k. k \<in> set (keys ps) \<Longrightarrow> length k \<le> maxBencodedStringLength"
    and "sorted_wrt (<) (keys ps)" and "\<And>k. k \<in> set (keys ps) \<Longrightarrow> key_after prev k"
    and "set (keys m) \<inter> set (keys ps) = {}"
  shows "decodeBDictLoop e n prev m
      (benc_entries (map (map_prod (\<lambda>x. x) bencode) ps) @ EndMark # r) =
    Inr (BDict (m @ map (map_prod (\<lambda>x. x) canon) ps), r)"
  using assms
proof (induction ps arbitrary: prev m)
  case Nil
  then show ?case by (simp add: decodeBDictLoop.simps Peek1_def ReadByte_def benc_entries_def)
next
  case (Cons p ps)
  obtain k v where p: "p = (k, v)" by (cases p)
  let ?rest = "benc_entries (map (map_prod (\<lambda>x. x) bencode) ps) @ EndMark # r"
  let ?s = "bstr k @ bencode v @ ?rest"
  obtain c t where c: "bstr k = c # t" "c \<noteq> EndMark" using bstr_first by blast
  have key: "decodeBString e ?s = Inr (k, bencode v @ ?rest)"
    using Cons.prems(2) [of k] p by (simp add: decodeBString_Inr bstr_def)
  have val: "decode e n (bencode v @ ?rest) = Inr (canon v, ?rest)"
    using Cons.prems(1) [of k v] p by simp
  have ord: "\<not> (case prev of None \<Rightarrow> False | Some q \<Rightarrow> k \<le> q)"
    using Cons.prems(4) [of k] p by (auto simp: key_after_def split: option.splits)
  have put: "m_put k (canon v) m = m @ [(k, canon v)]"
    using Cons.prems(5) p by (intro m_put_fresh) auto
  have "decodeBDictLoop e n (Some k) (m @ [(k, canon v)]) ?rest =
      Inr (BDict ((m @ [(k, canon v)]) @ map (map_prod (\<lambda>x. x) canon) ps), r)"
    using Cons.prems p by (intro Cons.IH) (auto simp: key_after_def)
  then have "decodeBDictLoop e n prev m ?s = Inr (BDict (m @ map (map_prod (\<lambda>x. x) canon) (p # ps)), r)"
    using c key val ord put p by (subst decodeBDictLoop.simps) (simp add: Peek1_def)
  then show ?case
    by (simp add: benc_entries_def p)
qed

lemma decode_bencode:
  "decodable n v \<Longrightarrow> decode e n (bencode v @ r) = Inr (canon v, r)"
proof (induction v arbitrary: n r)
  case BZero
  then show ?case by simp
next
  case (BString s)
  then show ?case by (simp add: decode_bstr)
next
  case (BInteger i)
  then show ?case
    using decodeBInteger_FormatInt [of i e r] by (simp add: decode.simps Peek1_def)
next
  case (BList xs)
  then have "decodeBListLoop e (Suc n) [] (concat (map bencode xs) @ EndMark # r) =
      Inr (BList ([] @ map canon xs), r)"
    by (intro decodeBListLoop_items bencode_first [of "Suc n"]) (auto simp: list_all_iff)
  then show ?case
    using BList.prems by (simp add: decode.simps decodeBList.simps Peek1_def ReadByte_def)
next
  case (BDict d)
  let ?ps = "sort_key fst d"
  have "decodeBDictLoop e (Suc n) None []
      (benc_entries (map (map_prod (\<lambda>x. x) bencode) ?ps) @ EndMark # r) =
    Inr (BDict ([] @ map (map_prod (\<lambda>x. x) canon) ?ps), r)"
  proof (rule decodeBDictLoop_entries)
    fix k v r
    assume "(k, v) \<in> set ?ps"
    then have "(k, v) \<in> set d" by simp
    then show "decode e (Suc n) (bencode v @ r) = Inr (canon v, r)"
      using BDict.prems by (intro BDict.IH [of "(k, v)"]) (auto simp: list_all_iff)
  qed (use BDict.prems sorted_sort_keys in \<open>auto simp: list_all_iff key_after_def\<close>)
  then show ?case
    using BDict.prems
    by (simp add: decode.simps decodeBDict.simps Peek1_def ReadByte_def sort_key_map_prod)
qed

subsection \<open>Encoding what was decoded\<close>

text \<open>Dictionaries listed in key order all the way down: what the decoder builds.\<close>

fun ordered :: "Bencoding \<Rightarrow> bool" where
  "ordered (BList xs) \<longleftrightarrow> list_all ordered xs"
| "ordered (BDict d) \<longleftrightarrow> sorted_wrt (<) (keys d) \<and> list_all (\<lambda>(k, v). ordered v) d"
| "ordered _ \<longleftrightarrow> True"

lemma canon_ordered: "ordered v \<Longrightarrow> canon v = v"
proof (induction v)
  case (BList xs)
  then show ?case by (auto simp: list_all_iff intro: map_idI)
next
  case (BDict d)
  then have "map (map_prod (\<lambda>x. x) canon) d = d"
    by (intro map_idI) (force simp: list_all_iff)
  then show ?case using BDict.prems by (simp add: sort_key_sorted_id strict_sorted_sorted)
qed auto

lemma bencode_dict_ordered:
  "sorted_wrt (<) (keys d) \<Longrightarrow>
   bencode (BDict d) = DictKind # benc_entries (map (map_prod (\<lambda>x. x) bencode) d) @ [EndMark]"
  by (simp add: sort_key_map_prod sort_key_sorted_id strict_sorted_sorted)

definition exact :: "nat \<Rightarrow> byte list \<Rightarrow> Bencoding \<Rightarrow> byte list \<Rightarrow> bool" where
  "exact n s v r \<longleftrightarrow> s = bencode v @ r \<and> ordered v \<and> decodable n v"

lemma decodeBInteger_Inr:
  assumes "decodeBInteger e s = Inr (v, r)"
  shows "\<exists>i. v = BInteger i \<and> in_int64 i \<and> s = IntegerKind # FormatInt i @ EndMark # r"
proof -
  obtain line r0 where s: "s = IntegerKind # r0" and rs: "ReadSlice EndMark e r0 = Inr (line, r)"
    and line: "line \<noteq> []"
    and rest: "(let digits = (if hd line = 45 then tl line else line) in
           if hd line = 45 \<and> digits = [] then Inl IntegerNoDigits
           else if length digits > 1 \<and> hd digits = 48 then Inl IntegerLeadingZero
           else if hd line = 45 \<and> hd digits = 48 then Inl IntegerNegativeZero
           else if \<not> list_all is_digit digits then Inl IntegerNonDigit
           else bind_r (map_sum IntegerParse id (ParseInt line)) (\<lambda>v.
             Inr (BInteger v, r))) = Inr (v, r)"
    using assms
    by (auto simp: decodeBInteger_def bind_r_iffs ReadByte_Inr Let_def split: if_splits)
  define digits where "digits = (if hd line = 45 then tl line else line)"
  have d: "digits \<noteq> []" "no_leading_zero digits" "hd line = 45 \<longrightarrow> hd digits \<noteq> 48"
    "list_all is_digit digits"
    and v: "bind_r (map_sum IntegerParse id (ParseInt line)) (\<lambda>v. Inr (BInteger v, r)) = Inr (v, r)"
    using rest line
    by (auto simp: digits_def [symmetric] Let_def no_leading_zero_def split: if_splits)
      (simp_all add: digits_def)
  obtain i where i: "v = BInteger i" "ParseInt line = Inr i"
    using v by (auto simp: bind_r_iffs)
  have hd43: "hd line \<noteq> 43"
    using d(1,4) line by (cases line) (auto simp: digits_def is_digit_def split: if_splits)
  have dec: "nat_decimal (digits_val digits) = digits"
    using d by (intro nat_decimal_digits_val) auto
  show ?thesis
  proof (cases "hd line = 45")
    case True
    then have "line = 45 # digits" using line by (cases line) (auto simp: digits_def)
    moreover have "0 < digits_val digits"
      using d True by (intro digits_val_pos) auto
    ultimately show ?thesis
      using i dec ReadSlice_Inr(1) [OF rs] s True
      by (auto simp: ParseInt_def Let_def bind_r_iffs ParseUint_Inr FormatInt_def in_int64_def
          split: if_splits)
  next
    case False
    then have "line = digits" by (simp add: digits_def)
    then show ?thesis
      using i dec ReadSlice_Inr(1) [OF rs] s False hd43
      by (auto simp: ParseInt_def Let_def bind_r_iffs ParseUint_Inr FormatInt_def in_int64_def
          split: if_splits)
  qed
qed

text \<open>The loops: what they append to their accumulator is exactly what they read.\<close>

definition exact_items :: "nat \<Rightarrow> Bencoding list \<Rightarrow> byte list \<Rightarrow> Bencoding \<Rightarrow> byte list \<Rightarrow> bool" where
  "exact_items n vals s v r \<longleftrightarrow>
     (\<exists>xs. v = BList (vals @ xs) \<and> s = concat (map bencode xs) @ EndMark # r \<and>
           list_all (\<lambda>x. ordered x \<and> decodable n x) xs)"

definition exact_entries ::
    "nat \<Rightarrow> gostring option \<Rightarrow> BencodingDict \<Rightarrow> byte list \<Rightarrow> Bencoding \<Rightarrow> byte list \<Rightarrow> bool" where
  "exact_entries n prev m s v r \<longleftrightarrow>
     (\<exists>d. v = BDict (m @ d) \<and>
          s = benc_entries (map (map_prod (\<lambda>x. x) bencode) d) @ EndMark # r \<and>
          sorted_wrt (<) (keys d) \<and> list_all (key_after prev) (keys d) \<and>
          list_all (\<lambda>(k, x). length k \<le> maxBencodedStringLength \<and> ordered x \<and> decodable n x) d)"

definition keys_upto :: "gostring option \<Rightarrow> BencodingDict \<Rightarrow> bool" where
  "keys_upto prev m \<longleftrightarrow> (\<forall>k \<in> set (keys m). \<exists>p. prev = Some p \<and> k \<le> p)"

lemma exact_items_Cons:
  assumes "s = bencode x @ r'" and "ordered x" "decodable n x"
    and "exact_items n (vals @ [x]) r' v r"
  shows "exact_items n vals s v r"
proof -
  obtain xs where "v = BList ((vals @ [x]) @ xs)" "r' = concat (map bencode xs) @ EndMark # r"
      "list_all (\<lambda>x. ordered x \<and> decodable n x) xs"
    using assms(4) unfolding exact_items_def by blast
  then show ?thesis
    unfolding exact_items_def using assms by (intro exI [where x = "x # xs"]) simp
qed

lemma exact_entries_Cons:
  assumes "s = bstr k @ bencode x @ r'" and "length k \<le> maxBencodedStringLength"
    and "ordered x" "decodable n x" and "key_after prev k"
    and "exact_entries n (Some k) (m @ [(k, x)]) r' v r"
  shows "exact_entries n prev m s v r"
proof -
  obtain d where d: "v = BDict ((m @ [(k, x)]) @ d)"
      "r' = benc_entries (map (map_prod (\<lambda>x. x) bencode) d) @ EndMark # r"
      "sorted_wrt (<) (keys d)" "list_all (key_after (Some k)) (keys d)"
      "list_all (\<lambda>(k, x). length k \<le> maxBencodedStringLength \<and> ordered x \<and> decodable n x) d"
    using assms(6) unfolding exact_entries_def by blast
  have "list_all (key_after prev) (keys d)"
    using assms(5) d(4)
    by (auto simp: list_all_iff key_after_def split: option.splits dest: less_trans)
  then show ?thesis
    unfolding exact_entries_def
    using assms d by (intro exI [where x = "(k, x) # d"]) (auto simp: benc_entries_def key_after_def list_all_iff)
qed

lemma exact_entries_dict:
  "exact_entries (Suc n) None [] s v r \<Longrightarrow> n < maxBencodingDepth \<Longrightarrow>
   exact n (DictKind # s) v r"
  by (auto simp: exact_entries_def exact_def bencode_dict_ordered strict_sorted_iff list_all_iff
      simp del: bencode.simps)

lemma exact_items_list:
  "exact_items (Suc n) [] s v r \<Longrightarrow> n < maxBencodingDepth \<Longrightarrow> exact n (ListKind # s) v r"
  by (auto simp: exact_items_def exact_def list_all_iff)

lemma decode_exact:
  shows
    "\<And>v r. decode e n s = Inr (v, r) \<Longrightarrow> exact n s v r"
    "\<And>v r. decodeBDict e n2 s2 = Inr (v, r) \<Longrightarrow>
       \<exists>t. s2 = DictKind # t \<and> exact_entries n2 None [] t v r"
    "\<And>v r. keys_upto prev m \<Longrightarrow> decodeBDictLoop e n3 prev m s3 = Inr (v, r) \<Longrightarrow>
       exact_entries n3 prev m s3 v r"
    "\<And>v r. decodeBList e n4 s4 = Inr (v, r) \<Longrightarrow>
       \<exists>t. s4 = ListKind # t \<and> exact_items n4 [] t v r"
    "\<And>v r. decodeBListLoop e n5 vals s5 = Inr (v, r) \<Longrightarrow> exact_items n5 vals s5 v r"
proof (induction e n s and e n2 s2 and e n3 prev m s3 and e n4 s4 and e n5 vals s5
    rule: decode_decodeBDict_decodeBDictLoop_decodeBList_decodeBListLoop.induct)
  case (1 e n s)
  from 1(3) obtain c t where n: "n < maxBencodingDepth" and s: "s = c # t"
    by (auto simp: decode.simps decoder_defs split: if_splits)
  consider "c = DictKind" | "c = IntegerKind" | "c = ListKind"
    | "c \<noteq> DictKind" "c \<noteq> IntegerKind" "c \<noteq> ListKind" by blast
  then show ?case
  proof cases
    case 1
    then show ?thesis
      using "1.IH"(1) [of c v r] "1.prems" n s
      by (auto simp: decode.simps Peek1_def dest: exact_entries_dict)
  next
    case 2
    then show ?thesis
      using "1.prems" n s
      by (auto simp: decode.simps Peek1_def exact_def dest!: decodeBInteger_Inr)
  next
    case 3
    then show ?thesis
      using "1.IH"(2) [of c v r] "1.prems" n s
      by (auto simp: decode.simps Peek1_def dest: exact_items_list)
  next
    case 4
    then show ?thesis
      using "1.prems" n s
      by (auto simp: decode.simps Peek1_def exact_def bind_r_iffs decodeBString_Inr bstr_def)
  qed
next
  case (2 e n s)
  from "2.prems" obtain b where "s = DictKind # b" "decodeBDictLoop e n None [] b = Inr (v, r)"
    by (auto simp: decodeBDict.simps decoder_defs split: if_splits)
  then show ?case using "2.IH" [of "(DictKind, b)"]
    by (auto simp: decoder_defs keys_upto_def)
next
  case (3 e n prev m s)
  show ?case
  proof (cases "\<exists>b. s = EndMark # b")
    case True
    with "3.prems" show ?thesis
      by (auto simp: decodeBDictLoop.simps Peek1_def ReadByte_def exact_entries_def benc_entries_def)
  next
    case False
    with "3.prems" obtain c t key r1 val r2 where s: "s = c # t" "c \<noteq> EndMark"
      and key: "decodeBString e s = Inr (key, r1)"
      and ord: "\<not> (case prev of None \<Rightarrow> False | Some p \<Rightarrow> key \<le> p)"
      and val: "decode e n r1 = Inr (val, r2)"
      and loop: "decodeBDictLoop e n (Some key) (m_put key val m) r2 = Inr (v, r)"
      by (auto simp: decodeBDictLoop.simps [of e n prev m s] decoder_defs split: if_splits)
    have after: "key_after prev key"
      using ord by (auto simp: key_after_def split: option.splits)
    then have put: "m_put key val m = m @ [(key, val)]"
      using "3.prems"(1)
      by (intro m_put_fresh) (auto simp: keys_upto_def key_after_def)
    have ex: "exact n r1 val r2"
      using s key ord val by (intro "3.IH"(1)) (auto simp: decoder_defs)
    have up: "keys_upto (Some key) (m @ [(key, val)])"
      using "3.prems"(1) after by (force simp: keys_upto_def key_after_def)
    have pk: "lift_io (Peek1 e s) = Inr c" using s by (simp add: Peek1_def)
    have ee: "exact_entries n (Some key) (m @ [(key, val)]) r2 v r"
      using "3.IH"(2) [OF pk s(2) key refl ord val refl] up loop unfolding put by blast
    show ?thesis
      by (rule exact_entries_Cons [OF _ _ _ _ after ee])
        (use key ex in \<open>auto simp: decodeBString_Inr bstr_def exact_def\<close>)
  qed
next
  case (4 e n s)
  from "4.prems" obtain b where "s = ListKind # b" "decodeBListLoop e n [] b = Inr (v, r)"
    by (auto simp: decodeBList.simps decoder_defs split: if_splits)
  then show ?case using "4.IH" [of "(ListKind, b)"] by (auto simp: decoder_defs)
next
  case (5 e n vals s)
  show ?case
  proof (cases "\<exists>b. s = EndMark # b")
    case True
    with "5.prems" show ?thesis
      by (auto simp: decodeBListLoop.simps Peek1_def ReadByte_def exact_items_def)
  next
    case False
    with "5.prems" obtain c t val r2 where s: "s = c # t" "c \<noteq> EndMark"
      and val: "decode e n s = Inr (val, r2)"
      and loop: "decodeBListLoop e n (vals @ [val]) r2 = Inr (v, r)"
      by (auto simp: decodeBListLoop.simps [of e n vals s] decoder_defs split: if_splits)
    have "exact n s val r2"
      using s val by (intro "5.IH"(1)) (auto simp: decoder_defs)
    moreover have "exact_items n (vals @ [val]) r2 v r"
      using s val loop by (intro "5.IH"(2)) (auto simp: decoder_defs)
    ultimately show ?thesis
      by (auto simp: exact_def intro: exact_items_Cons)
  qed
qed

interpretation benc: strict_codec bencode "decode e n" "decodable n" canon
  for e n
proof unfold_locales
  show "decodable n x \<Longrightarrow> decode e n (bencode x @ r) = Inr (canon x, r)" for x r
    by (rule decode_bencode)
  show "decode e n s = Inr (x, r) \<Longrightarrow> s = bencode x @ r \<and> decodable n x" for s x r
    using decode_exact(1) by (auto simp: exact_def)
qed

lemma Decode_bencode:
  "decodable 0 v \<Longrightarrow> Decode ErrEOF (bencode v) = Inr (canon v)"
  using benc.dec_enc [of 0 v ErrEOF "[]"] by (simp add: Decode_def Peek1_def)

lemma Decode_Inr_iff: "Decode e s = Inr v \<longleftrightarrow> e = ErrEOF \<and> decode e 0 s = Inr (v, [])"
  by (auto simp: Decode_def bind_r_iffs Peek1_def neq_Nil_conv split: list.splits if_splits)

lemma Decode_Inr:
  assumes "Decode e s = Inr v"
  shows "s = bencode v" "ordered v" "decodable 0 v" "e = ErrEOF"
  using assms decode_exact(1) [of e 0 s v "[]"]
  by (auto simp: Decode_Inr_iff exact_def)

subsection \<open>The encoder on any writer\<close>

text \<open>\<open>emits w data r\<close>: the run that started from the writer \<open>w\<close> and ended with \<open>r\<close> wrote a prefix
  of \<open>data\<close>, and all of it when it reports no error.\<close>

definition emits :: "writer \<Rightarrow> byte list \<Rightarrow> 'e option \<times> writer \<Rightarrow> bool" where
  "emits w data r \<longleftrightarrow>
     (\<exists>pre. written (snd r) = written w @ pre \<and> prefix pre data \<and> (fst r = None \<longrightarrow> pre = data))"

lemma emits_Nil [simp]: "emits w [] (e, w)"
  by (simp add: emits_def)

lemma emits_w_then:
  assumes "emits w a r" and "\<And>w'. r = (None, w') \<Longrightarrow> emits w' b (k w')"
  shows "emits w (a @ b) (w_then r k)"
proof (cases r)
  case (Pair err w')
  show ?thesis
  proof (cases err)
    case None
    then have "written w' = written w @ a" and "emits w' b (k w')"
      using assms Pair by (auto simp: emits_def)
    then show ?thesis
      using Pair None by (auto simp: emits_def w_then_def)
  next
    case (Some er)
    then show ?thesis
      using assms(1) Pair by (auto simp: emits_def w_then_def)
  qed
qed

lemma emits_writeAll: "emits w data (writeAll w data)"
proof (induction w data rule: writeAll.induct)
  case (1 w data)
  show ?case
  proof (cases "data = []")
    case True
    then show ?thesis by (simp add: writeAll.simps)
  next
    case False
    obtain n err w' where W: "wr_Write w data = ((n, err), w')"
      by (metis prod.collapse)
    have w': "written w' = written w @ take n data"
      using W by (auto simp: wr_Write.simps min_def split: list.splits write_outcome.splits)
    show ?thesis
    proof (cases "err = None \<and> n \<noteq> 0")
      case True
      then have "emits w' (drop n data) (writeAll w' (drop n data))"
        using 1 [OF False W [symmetric] refl] by simp
      then obtain pre where "written (snd (writeAll w' (drop n data))) = written w' @ pre"
        "prefix pre (drop n data)" "fst (writeAll w' (drop n data)) = None \<longrightarrow> pre = drop n data"
        by (auto simp: emits_def)
      moreover have "prefix (take n data @ pre) data"
        using calculation(2) by (metis append_take_drop_id same_prefix_prefix)
      ultimately show ?thesis
        using False True W w'
        by (auto simp: emits_def writeAll.simps [of w data] intro!: exI [of _ "take n data @ pre"])
    next
      case stop: False
      then have "\<exists>er. writeAll w data = (Some er, w')"
        using False W by (auto simp: writeAll.simps [of w data] split: option.splits)
      then show ?thesis
        using w' take_is_prefix by (fastforce simp: emits_def)
    qed
  qed
qed

lemma emits_w_bytes: "emits w data (w_bytes data w)"
  using emits_writeAll [of w data] by (simp add: emits_def w_bytes_def)

lemma emits_writeBString: "emits w (bstr s) (writeBString s w)"
proof -
  have "bstr s = (nat_decimal (length s) @ [Colon]) @ s" by (simp add: bstr_def)
  then show ?thesis
    unfolding writeBString_def by (simp only:) (intro emits_w_then emits_w_bytes)
qed

definition entry_bytes :: "BencodingDict \<Rightarrow> gostring \<Rightarrow> byte list" where
  "entry_bytes d k = bstr k @ bencode (the (m_get d k))"

lemma m_get_values:
  assumes "list_all (\<lambda>(k, v). P v) d" and "k \<in> set (keys d)"
  shows "\<exists>v. m_get d k = Some v \<and> P v"
proof -
  obtain v where "m_get d k = Some v"
    using assms(2) by (cases "m_get d k") (auto simp: map_of_eq_None_iff)
  then show ?thesis
    using assms(1) by (auto simp: list_all_iff dest!: map_of_SomeD)
qed

lemma emits_framed:
  assumes "\<And>w'. w_bytes [c] w = (None, w') \<Longrightarrow> emits w' body (k w')"
  shows "emits w (c # body @ [EndMark])
    (w_then (w_bytes [c] w) (\<lambda>w. w_then (k w) (w_bytes [EndMark])))"
proof -
  have "emits w ([c] @ body @ [EndMark])
      (w_then (w_bytes [c] w) (\<lambda>w. w_then (k w) (w_bytes [EndMark])))"
    using assms by (intro emits_w_then emits_w_bytes)
  then show ?thesis by simp
qed

lemma emits_writeBencoding:
  shows "encodable v \<Longrightarrow> emits w (bencode v) (writeBencoding v w)"
    and "list_all encodable xs \<Longrightarrow> emits w2 (concat (map bencode xs)) (writeItems xs w2)"
    and "list_all (\<lambda>(k, v). encodable v) d \<Longrightarrow> set ks \<subseteq> set (keys d) \<Longrightarrow>
      emits w3 (concat (map (entry_bytes d) ks)) (writeEntries d ks w3)"
proof (induction v w and xs w2 and d ks w3 rule: writeBencoding_writeItems_writeEntries.induct)
  case (1 s w)
  then show ?case by (simp add: emits_writeBString)
next
  case (2 i w)
  then show ?case using emits_w_bytes by simp
next
  case (3 xs w)
  then show ?case by (simp add: emits_framed)
next
  case (4 d w)
  have "map (entry_bytes d) (sort (keys d)) =
      map (\<lambda>(k, bs). bstr k @ bs) (sort_key fst (map (map_prod (\<lambda>x. x) bencode) d))"
    using 4(2) by (auto simp: map_fst_sort_key [symmetric] sort_key_map_prod entry_bytes_def)
  then have eq: "bencode (BDict d) = DictKind # concat (map (entry_bytes d) (sort (keys d))) @ [EndMark]"
    by (simp add: benc_entries_def)
  have "emits w (DictKind # concat (map (entry_bytes d) (sort (keys d))) @ [EndMark])
      (writeBencoding (BDict d) w)"
    using 4 by (auto intro!: emits_framed)
  then show ?case unfolding eq .
next
  case (9 d k ks w)
  then obtain v where v: "m_get d k = Some v" and enc: "encodable v"
    using m_get_values [of encodable d k] by auto
  have "emits w (bstr k @ bencode v @ concat (map (entry_bytes d) ks)) (writeEntries d (k # ks) w)"
    using 9 v enc by (auto intro!: emits_w_then emits_writeBString)
  then show ?case using v by (simp add: entry_bytes_def [of d k])
qed (auto intro!: emits_w_then)

text \<open>A writer that neither fails nor stalls.\<close>

fun makes_progress :: "write_outcome \<Rightarrow> bool" where
  "makes_progress (WriteUpTo n) \<longleftrightarrow> 0 < n"
| "makes_progress (WriteErr n) \<longleftrightarrow> False"

definition progressing :: "writer \<Rightarrow> bool" where
  "progressing w \<longleftrightarrow> list_all makes_progress (wplan w)"

definition succeeds :: "'e option \<times> writer \<Rightarrow> bool" where
  "succeeds r \<longleftrightarrow> fst r = None \<and> progressing (snd r)"

lemma succeeds_None [simp]: "succeeds (None, w) \<longleftrightarrow> progressing w"
  by (simp add: succeeds_def)

lemma succeeds_writeAll: "progressing w \<Longrightarrow> succeeds (writeAll w data)"
proof (induction w data rule: writeAll.induct)
  case (1 w data)
  show ?case
  proof (cases "data = []")
    case True
    then show ?thesis using 1 by (simp add: writeAll.simps succeeds_def)
  next
    case False
    obtain n err w' where W: "wr_Write w data = ((n, err), w')"
      by (metis prod.collapse)
    have "err = None" "n \<noteq> 0" "progressing w'"
      using W 1(2) False
      by (auto simp: wr_Write.simps progressing_def split: list.splits write_outcome.splits)
    then show ?thesis
      using 1(1) [OF False W [symmetric] refl] False W by (simp add: writeAll.simps [of w data])
  qed
qed

lemma succeeds_w_bytes: "progressing w \<Longrightarrow> succeeds (w_bytes data w)"
  using succeeds_writeAll [of w data] by (auto simp: succeeds_def w_bytes_def)

lemma succeeds_w_then:
  "succeeds r \<Longrightarrow> (\<And>w. r = (None, w) \<Longrightarrow> progressing w \<Longrightarrow> succeeds (k w)) \<Longrightarrow> succeeds (w_then r k)"
  by (cases r) (auto simp: succeeds_def w_then_def)

lemma succeeds_writeBString: "progressing w \<Longrightarrow> succeeds (writeBString s w)"
  unfolding writeBString_def by (intro succeeds_w_then succeeds_w_bytes)

lemma succeeds_writeBencoding:
  shows "encodable v \<Longrightarrow> progressing w \<Longrightarrow> succeeds (writeBencoding v w)"
    and "list_all encodable xs \<Longrightarrow> progressing w2 \<Longrightarrow> succeeds (writeItems xs w2)"
    and "list_all (\<lambda>(k, v). encodable v) d \<Longrightarrow> set ks \<subseteq> set (keys d) \<Longrightarrow> progressing w3 \<Longrightarrow>
      succeeds (writeEntries d ks w3)"
proof (induction v w and xs w2 and d ks w3 rule: writeBencoding_writeItems_writeEntries.induct)
  case (9 d k ks w)
  then obtain v where "m_get d k = Some v" and "encodable v"
    using m_get_values [of encodable d k] by auto
  then show ?case using 9 by (auto intro!: succeeds_w_then succeeds_writeBString)
qed (auto intro!: succeeds_w_then succeeds_w_bytes succeeds_writeBString)

lemma Encode_encodable: "encodable v \<Longrightarrow> Encode v = Inr (bencode v)"
  using emits_writeBencoding(1) [of v buffer] succeeds_writeBencoding(1) [of v buffer]
  by (auto simp: Encode_def emits_def succeeds_def progressing_def buffer_def
      split: prod.splits option.splits)

lemma decodable_encodable: "decodable n v \<Longrightarrow> encodable v"
  by (induction n v rule: decodable.induct) (auto simp: list_all_iff)

subsection \<open>Correctness of the codec\<close>

text \<open>C8. Round trip: a value within the decoder's limits (depth, string length, 64-bit integers, distinct
  keys) is encoded without error, and decoding the bytes gives the value back, its dictionaries
  listed in key order.\<close>

theorem Decode_Encode:
  assumes "decodable 0 v"
  shows "\<exists>s. Encode v = Inr s \<and> Decode ErrEOF s = Inr (canon v)"
  using assms Encode_encodable [OF decodable_encodable] Decode_bencode by blast

theorem Decode_Encode_witness:
  "\<exists>s. Encode (BDict [([98], BInteger (- 7)), ([97], BList [BString [1, 2]])]) = Inr s \<and>
       Decode ErrEOF s = Inr (BDict [([97], BList [BString [1, 2]]), ([98], BInteger (- 7))])"
  using Decode_Encode [of "BDict [([98], BInteger (- 7)), ([97], BList [BString [1, 2]])]"]
  by (simp add: maxBencodingDepth_def maxBencodedStringLength_def in_int64_def)

text \<open>C9. Canonical form: the decoder accepts no byte sequence but the one the encoder writes for
  the value it returns, so re-encoding a decoded value (as the info-hash computation does)
  reproduces the input bytes.\<close>

theorem Decode_canonical:
  assumes "Decode e s = Inr v"
  shows "Encode v = Inr s"
  using Decode_Inr [OF assms] Encode_encodable decodable_encodable by blast

theorem Decode_canonical_witness:
  "Encode (BList [BInteger 5]) = Inr [108, 105, 53, 101, 101]"
proof -
  have "Decode ErrEOF [108, 105, 53, 101, 101] = Inr (BList [BInteger 5])"
    using Decode_bencode [of "BList [BInteger 5]"]
    by (simp add: maxBencodingDepth_def in_int64_def FormatInt_def nat_decimal_small)
  then show ?thesis by (rule Decode_canonical)
qed

text \<open>C10. Writers: on a writer that neither fails nor stalls, however it fragments the data,
  the encoder reports success and the writer has received exactly the encoding; on any writer at
  all, what was written is a prefix of the encoding.\<close>

theorem writeBencoding_any_writer:
  assumes "encodable v"
  shows "(progressing w \<longrightarrow>
           fst (writeBencoding v w) = None \<and>
           written (snd (writeBencoding v w)) = written w @ bencode v) \<and>
         (\<exists>pre. written (snd (writeBencoding v w)) = written w @ pre \<and> prefix pre (bencode v))"
  using emits_writeBencoding(1) [OF assms, of w] succeeds_writeBencoding(1) [OF assms, of w]
  by (auto simp: emits_def succeeds_def)

theorem writeBencoding_any_writer_witness:
  "written (snd (writeBencoding (BString [104, 105])
      \<lparr>written = [], wplan = [WriteUpTo 1, WriteUpTo 1, WriteUpTo 1]\<rparr>)) = [50, 58, 104, 105]"
  using writeBencoding_any_writer
    [of "BString [104, 105]" "\<lparr>written = [], wplan = [WriteUpTo 1, WriteUpTo 1, WriteUpTo 1]\<rparr>"]
  by (simp add: progressing_def bstr_def nat_decimal_small)

lemma decode_nested_lists:
  "maxBencodingDepth < n + k \<Longrightarrow> decode e n (replicate k ListKind @ s) = Inl NestingTooDeep"
proof (induction k arbitrary: n)
  case 0
  then show ?case by (simp add: decode.simps)
next
  case (Suc k)
  show ?case
  proof (cases "maxBencodingDepth \<le> n")
    case True
    then show ?thesis by (simp add: decode.simps)
  next
    case False
    then have IH: "decode e (Suc n) (replicate k ListKind @ s) = Inl NestingTooDeep"
      and k: "k \<noteq> 0"
      using Suc by auto
    then obtain j where "k = Suc j" by (cases k) auto
    then have "decodeBListLoop e (Suc n) [] (replicate k ListKind @ s) = Inl NestingTooDeep"
      using IH by (subst decodeBListLoop.simps) (simp add: Peek1_def)
    then show ?thesis
      using False by (simp add: decode.simps [of e n] decodeBList.simps Peek1_def ReadByte_def)
  qed
qed

text \<open>Depth limit: input that opens more than \<^verbatim>\<open>maxBencodingDepth\<close> (100) lists is refused with the
  nesting error, whatever follows, so hostile input cannot drive the recursion deeper; and a value
  that is decoded lies within all limits of the decoder.\<close>

theorem Decode_depth_limit:
  "Decode e (replicate (Suc (maxBencodingDepth + k)) ListKind @ s) = Inl NestingTooDeep \<and>
   (\<forall>s' v. Decode e s' = Inr v \<longrightarrow> decodable 0 v)"
proof -
  have "decode e 0 (replicate (Suc (maxBencodingDepth + k)) ListKind @ s) = Inl NestingTooDeep"
    by (rule decode_nested_lists) simp
  then show ?thesis
    unfolding Decode_def [of e "replicate _ _ @ _"] using Decode_Inr(3) by (auto simp: Decode_def)
qed

end
