(* ===== verification/Sha1.thy ===== *)
theory Sha1
  imports Go_Std
begin

text \<open>
  \<^verbatim>\<open>crypto/sha1\<close> (FIPS 180-4): the digest the program uses for pieces and for the info
  dictionary.  The component theories use only that a digest has 20 bytes; the definition makes
  them statements about the real function.
\<close>

unbundle bit_operations_syntax

fun be_words :: "byte list \<Rightarrow> uint32 list" where
  "be_words (a # b # c # d # r) = Uint32 [a, b, c, d] # be_words r"
| "be_words _ = []"

definition sha1_pad :: "byte list \<Rightarrow> byte list" where
  "sha1_pad msg =
     (let n = length msg; bits = (of_nat (8 * n) :: uint64) in
      msg @ [128] @ replicate ((119 - n mod 64) mod 64) 0 @
      PutUint32 (ucast (drop_bit 32 bits)) @ PutUint32 (ucast bits))"

text \<open>The message schedule is built in reverse: the newest word first.\<close>

fun sha1_schedule :: "nat \<Rightarrow> uint32 list \<Rightarrow> uint32 list" where
  "sha1_schedule 0 ws = ws"
| "sha1_schedule (Suc n) ws =
     sha1_schedule n (word_rotl 1 (ws ! 2 XOR ws ! 7 XOR ws ! 13 XOR ws ! 15) # ws)"

definition sha1_fk :: "nat \<Rightarrow> uint32 \<Rightarrow> uint32 \<Rightarrow> uint32 \<Rightarrow> uint32" where
  "sha1_fk t b c d =
     (if t < 20 then ((b AND c) OR (NOT b AND d)) + 1518500249
      else if t < 40 then (b XOR c XOR d) + 1859775393
      else if t < 60 then ((b AND c) OR (b AND d) OR (c AND d)) + 2400959708
      else (b XOR c XOR d) + 3395469782)"

type_synonym sha1_state = "uint32 \<times> uint32 \<times> uint32 \<times> uint32 \<times> uint32"

fun sha1_rounds :: "nat \<Rightarrow> uint32 list \<Rightarrow> sha1_state \<Rightarrow> sha1_state" where
  "sha1_rounds t [] st = st"
| "sha1_rounds t (w # ws) (a, b, c, d, e) =
     sha1_rounds (Suc t) ws (word_rotl 5 a + sha1_fk t b c d + e + w, a, word_rotl 30 b, c, d)"

fun sha1_block :: "sha1_state \<Rightarrow> byte list \<Rightarrow> sha1_state" where
  "sha1_block (h0, h1, h2, h3, h4) blk =
     (case sha1_rounds 0 (rev (sha1_schedule 64 (rev (be_words blk)))) (h0, h1, h2, h3, h4) of
        (a, b, c, d, e) \<Rightarrow> (h0 + a, h1 + b, h2 + c, h3 + d, h4 + e))"

function sha1_blocks :: "sha1_state \<Rightarrow> byte list \<Rightarrow> sha1_state" where
  "sha1_blocks st s =
     (if length s < 64 then st else sha1_blocks (sha1_block st (take 64 s)) (drop 64 s))"
  by pat_completeness auto
termination
  by (relation "measure (\<lambda>(st, s). length s)") auto

declare sha1_blocks.simps [simp del]

definition sha1_Sum :: "byte list \<Rightarrow> byte list" where
  "sha1_Sum msg =
     (case sha1_blocks (1732584193, 4023233417, 2562383102, 271733878, 3285377520) (sha1_pad msg) of
        (a, b, c, d, e) \<Rightarrow>
          PutUint32 a @ PutUint32 b @ PutUint32 c @ PutUint32 d @ PutUint32 e)"

lemma length_sha1_Sum [simp]: "length (sha1_Sum msg) = 20"
  by (simp add: sha1_Sum_def split: prod.splits)

end
