(* ===== verification/Metainfo.thy ===== *)
theory Metainfo
  imports Bencode_Spec Sha1
begin

text \<open>
  Torrent metainfo, \<^verbatim>\<open>src/protocol/metainfo.go\<close>: building and writing single-file metainfo, and
  the validating parser.  The info hash is the SHA-1 digest of the bencoded info dictionary.
  The results: what the parser accepts has the piece count its length demands, a metainfo written
  by the program is read back unchanged, and the info hash of a parsed file is the digest of the
  bytes that stand in the file.
\<close>

subsection \<open>Data\<close>

record Info =
  Name :: gostring
  Length :: int
  PieceLength :: int
  PieceHashes :: "byte list list"

record MetaInfo =
  Announce :: gostring
  MInfo :: Info
  MInfoHash :: "byte list"

datatype metainfo_error =
    ErrInvalidMetainfo
  | MetaBencode bencode_error
  | InfoNotDict
  | MultiFileUnsupported
  | BadPieceLength
  | BadPieces
  | BadLength
  | BadName
  | PieceCountMismatch nat int

definition HashPiece :: "byte list \<Rightarrow> byte list" where
  "HashPiece data = sha1_Sum data"

definition VerifyPiece :: "byte list \<Rightarrow> byte list \<Rightarrow> bool" where
  "VerifyPiece data expected \<longleftrightarrow> HashPiece data = expected"

subsection \<open>Writing\<close>

definition mashalPieceHashes :: "byte list list \<Rightarrow> byte list" where
  "mashalPieceHashes pieces = concat pieces"

definition infoBencoding :: "Info \<Rightarrow> Bencoding" where
  "infoBencoding info =
     BDict [(bytes_of ''length'', BInteger (Length info)),
            (bytes_of ''name'', BString (Name info)),
            (bytes_of ''piece length'', BInteger (PieceLength info)),
            (bytes_of ''pieces'', BString (mashalPieceHashes (PieceHashes info)))]"

definition metaInfoBencoding :: "MetaInfo \<Rightarrow> Bencoding" where
  "metaInfoBencoding m =
     BDict [(bytes_of ''announce'', BString (Announce m)),
            (bytes_of ''info'', infoBencoding (MInfo m))]"

definition hashInfo :: "Info \<Rightarrow> metainfo_error + byte list" where
  "hashInfo info =
     bind_r (map_sum MetaBencode id (Encode (infoBencoding info))) (\<lambda>bs. Inr (sha1_Sum bs))"

definition NewMetaInfo :: "gostring \<Rightarrow> Info \<Rightarrow> metainfo_error + MetaInfo" where
  "NewMetaInfo announce info =
     (if announce = [] then Inl ErrInvalidMetainfo
      else bind_r (hashInfo info) (\<lambda>infoHash.
        Inr \<lparr>Announce = announce, MInfo = info, MInfoHash = infoHash\<rparr>))"

definition ValidateAnnounceUrl :: "gostring \<Rightarrow> metainfo_error option" where
  "ValidateAnnounceUrl announce = (if announce = [] then Some ErrInvalidMetainfo else None)"

definition WriteMetainfo :: "MetaInfo \<Rightarrow> writer \<Rightarrow> bencode_error option \<times> writer" where
  "WriteMetainfo m w = writeBencoding (metaInfoBencoding m) w"

definition EncodeMetaInfo :: "MetaInfo \<Rightarrow> metainfo_error + byte list" where
  "EncodeMetaInfo m = map_sum MetaBencode id (Encode (metaInfoBencoding m))"

subsection \<open>Parsing\<close>

text \<open>The loop that cuts the \<^verbatim>\<open>pieces\<close> string into 20-byte hashes.\<close>

function splitHashes :: "byte list \<Rightarrow> byte list list" where
  "splitHashes s = (if s = [] then [] else take 20 s # splitHashes (drop 20 s))"
  by pat_completeness auto
termination
  by (relation "measure length") auto

declare splitHashes.simps [simp del]

definition expectedPieces :: "int \<Rightarrow> int \<Rightarrow> int" where
  "expectedPieces len pieceLength =
     (if len > 0 then int64 (int64 (len - 1) div pieceLength + 1) else 0)"

definition ParseInfo :: "Bencoding \<Rightarrow> metainfo_error + Info" where
  "ParseInfo info =
     (case b_Dict info of
        None \<Rightarrow> Inl InfoNotDict
      | Some dict \<Rightarrow>
     if m_get dict (bytes_of ''files'') \<noteq> None then Inl MultiFileUnsupported
     else case dict_Int dict (bytes_of ''piece length'') of
        None \<Rightarrow> Inl BadPieceLength
      | Some pieceLength \<Rightarrow>
     if pieceLength \<le> 0 then Inl BadPieceLength
     else case dict_String dict (bytes_of ''pieces'') of
        None \<Rightarrow> Inl BadPieces
      | Some piecesConcat \<Rightarrow>
     if length piecesConcat mod 20 \<noteq> 0 then Inl BadPieces
     else let pieces = splitHashes piecesConcat in
     case dict_Int dict (bytes_of ''length'') of
        None \<Rightarrow> Inl BadLength
      | Some len \<Rightarrow>
     if len < 0 then Inl BadLength
     else case dict_String dict (bytes_of ''name'') of
        None \<Rightarrow> Inl BadName
      | Some name \<Rightarrow>
     if name = [] then Inl BadName
     else if int (length pieces) \<noteq> expectedPieces len pieceLength
     then Inl (PieceCountMismatch (length pieces) (expectedPieces len pieceLength))
     else Inr \<lparr>Name = name, Length = len, PieceLength = pieceLength, PieceHashes = pieces\<rparr>)"

definition parseMetaInfo :: "Bencoding \<Rightarrow> metainfo_error + MetaInfo" where
  "parseMetaInfo value =
     (case b_Dict value of
        None \<Rightarrow> Inl ErrInvalidMetainfo
      | Some mDict \<Rightarrow>
     case dict_String mDict (bytes_of ''announce'') of
        None \<Rightarrow> Inl ErrInvalidMetainfo
      | Some announce \<Rightarrow>
     if announce = [] then Inl ErrInvalidMetainfo
     else let infoValue = (case m_get mDict (bytes_of ''info'') of None \<Rightarrow> BZero | Some v \<Rightarrow> v) in
     bind_r (ParseInfo infoValue) (\<lambda>info.
     bind_r (map_sum MetaBencode id (Encode infoValue)) (\<lambda>encodedInfo.
       Inr \<lparr>Announce = announce, MInfo = info, MInfoHash = sha1_Sum encodedInfo\<rparr>)))"

definition maxMetaInfoSize :: nat where
  "maxMetaInfoSize = 16 * 2 ^ 20"

text \<open>\<^verbatim>\<open>io.LimitReader\<close>: at most \<open>n\<close> bytes, then end of file.\<close>

definition ReadMetaInfo :: "io_error \<Rightarrow> byte list \<Rightarrow> metainfo_error + MetaInfo" where
  "ReadMetaInfo e s =
     (let n = maxMetaInfoSize + 1 in
      bind_r (map_sum MetaBencode id (Decode (if n \<le> length s then ErrEOF else e) (take n s)))
        parseMetaInfo)"

subsection \<open>Pieces and hashes\<close>

definition valid_info :: "Info \<Rightarrow> bool" where
  "valid_info i \<longleftrightarrow>
     Name i \<noteq> [] \<and> 0 \<le> Length i \<and> in_int64 (Length i) \<and> 0 < PieceLength i \<and> in_int64 (PieceLength i) \<and>
     list_all (\<lambda>h. length h = 20) (PieceHashes i) \<and>
     int (length (PieceHashes i)) = expectedPieces (Length i) (PieceLength i)"

lemma splitHashes_concat:
  "list_all (\<lambda>h. length h = 20) hs \<Longrightarrow> splitHashes (concat hs) = hs"
proof (induction hs)
  case Nil
  then show ?case by (simp add: splitHashes.simps)
next
  case (Cons h hs)
  then show ?case by (subst splitHashes.simps) auto
qed

lemma splitHashes_20:
  "length s mod 20 = 0 \<Longrightarrow> concat (splitHashes s) = s \<and> list_all (\<lambda>h. length h = 20) (splitHashes s)"
proof (induction s rule: splitHashes.induct)
  case (1 s)
  show ?case
  proof (cases "s = []")
    case True
    then show ?thesis by (simp add: splitHashes.simps)
  next
    case False
    then have "20 \<le> length s"
      using 1(2) by (metis length_0_conv mod_less not_le)
    moreover from this have "length (drop 20 s) mod 20 = 0"
      using 1(2) by (simp add: le_mod_geq)
    ultimately show ?thesis
      using 1(1) False by (subst (1 2) splitHashes.simps) simp
  qed
qed

lemma length_concat_20: "list_all (\<lambda>h. length h = 20) hs \<Longrightarrow> length (concat hs) = 20 * length hs"
  by (induction hs) auto

text \<open>The number of pieces is the length divided by the piece length, rounded up.\<close>

lemma expectedPieces_ceiling:
  assumes "0 \<le> len" "in_int64 len" "0 < pl"
  shows "expectedPieces len pl = (len + pl - 1) div pl"
proof (cases "0 < len")
  case True
  have 1: "int64 (len - 1) = len - 1"
    using assms True by (intro int64_id) (auto simp: in_int64_def)
  have "(len - 1) div pl \<le> len - 1"
    using assms True zdiv_mono2 [of "len - 1" 1 pl] by simp
  moreover have "0 \<le> (len - 1) div pl" using assms True by (simp add: pos_imp_zdiv_nonneg_iff)
  ultimately have "in_int64 ((len - 1) div pl + 1)"
    using assms by (auto simp: in_int64_def)
  moreover have "(len + pl - 1) div pl = (len - 1) div pl + 1"
    using assms div_add_self2 [of pl "len - 1"] by (simp add: algebra_simps)
  ultimately show ?thesis using True 1 by (simp add: expectedPieces_def)
next
  case False
  then show ?thesis using assms by (simp add: expectedPieces_def)
qed

lemmas info_keys = bytes_of_def dict_Int_def dict_String_def

lemma ParseInfo_infoBencoding:
  "valid_info i \<Longrightarrow> ParseInfo (infoBencoding i) = Inr i"
  by (simp add: ParseInfo_def infoBencoding_def info_keys valid_info_def Let_def
      mashalPieceHashes_def splitHashes_concat length_concat_20)

lemma ParseInfo_fields:
  assumes "ParseInfo v = Inr i"
  obtains d pieces where "v = BDict d"
    "m_get d (bytes_of ''piece length'') = Some (BInteger (PieceLength i))"
    "m_get d (bytes_of ''length'') = Some (BInteger (Length i))"
    "m_get d (bytes_of ''name'') = Some (BString (Name i))"
    "m_get d (bytes_of ''pieces'') = Some (BString pieces)"
    "0 < PieceLength i" "0 \<le> Length i" "Name i \<noteq> []" "length pieces mod 20 = 0"
    "PieceHashes i = splitHashes pieces"
    "int (length (PieceHashes i)) = expectedPieces (Length i) (PieceLength i)"
  using assms
  by (cases v) (auto simp: ParseInfo_def Let_def dict_Int_def dict_String_def
      Option.bind_eq_Some_conv elim!: b_Int.elims b_String.elims split: option.splits if_splits)

lemma ParseInfo_valid:
  assumes "ParseInfo v = Inr i" and "encodable v"
  shows "valid_info i"
  using assms(1)
proof (cases rule: ParseInfo_fields)
  case (1 d pieces)
  have "in_int64 (PieceLength i)" "in_int64 (Length i)"
    using 1 assms(2) by (auto dest!: map_of_SomeD simp: list_all_iff)
  then show ?thesis
    using 1 splitHashes_20 by (simp add: valid_info_def)
qed

text \<open>A metainfo that fits the decoder's string limit and the file size limit.\<close>

definition fits_limits :: "MetaInfo \<Rightarrow> bool" where
  "fits_limits m \<longleftrightarrow>
     length (Announce m) \<le> maxBencodedStringLength \<and>
     length (Name (MInfo m)) \<le> maxBencodedStringLength \<and>
     length (mashalPieceHashes (PieceHashes (MInfo m))) \<le> maxBencodedStringLength \<and>
     length (bencode (metaInfoBencoding m)) \<le> maxMetaInfoSize"

lemma encodable_infoBencoding: "valid_info i \<Longrightarrow> encodable (infoBencoding i)"
  by (simp add: infoBencoding_def valid_info_def bytes_of_def)

lemma encodable_metaInfoBencoding: "valid_info (MInfo m) \<Longrightarrow> encodable (metaInfoBencoding m)"
  using encodable_infoBencoding by (simp add: metaInfoBencoding_def bytes_of_def)

lemma ordered_metaInfoBencoding: "ordered (metaInfoBencoding m)"
  by (simp add: metaInfoBencoding_def infoBencoding_def bytes_of_def)

lemma decodable_metaInfoBencoding:
  "valid_info (MInfo m) \<Longrightarrow> fits_limits m \<Longrightarrow> decodable 0 (metaInfoBencoding m)"
  by (simp add: metaInfoBencoding_def infoBencoding_def bytes_of_def valid_info_def fits_limits_def
      maxBencodingDepth_def maxBencodedStringLength_def)

lemma NewMetaInfo_valid:
  assumes "valid_info info" "announce \<noteq> []"
  shows "NewMetaInfo announce info =
    Inr \<lparr>Announce = announce, MInfo = info, MInfoHash = sha1_Sum (bencode (infoBencoding info))\<rparr>"
  using assms Encode_encodable [OF encodable_infoBencoding] by (simp add: NewMetaInfo_def hashInfo_def)

lemma ReadMetaInfo_Decode:
  "length s \<le> maxMetaInfoSize \<Longrightarrow>
   ReadMetaInfo ErrEOF s = bind_r (map_sum MetaBencode id (Decode ErrEOF s)) parseMetaInfo"
  by (simp add: ReadMetaInfo_def Let_def)

subsection \<open>Correctness of metainfo\<close>

lemma read_encoded:
  assumes "valid_info info" and "NewMetaInfo announce info = Inr m" and "fits_limits m"
  shows "\<exists>s. EncodeMetaInfo m = Inr s \<and> ReadMetaInfo ErrEOF s = Inr m"
proof -
  have ann: "announce \<noteq> []" using assms(2) by (auto simp: NewMetaInfo_def)
  have m: "m = \<lparr>Announce = announce, MInfo = info, MInfoHash = sha1_Sum (bencode (infoBencoding info))\<rparr>"
    using NewMetaInfo_valid [OF assms(1) ann] assms(2) by simp
  have vi: "valid_info (MInfo m)" using assms(1) m by simp
  let ?s = "bencode (metaInfoBencoding m)"
  have "Decode ErrEOF ?s = Inr (metaInfoBencoding m)"
    using Decode_bencode [OF decodable_metaInfoBencoding [OF vi assms(3)]]
      canon_ordered [OF ordered_metaInfoBencoding] by simp
  moreover have "parseMetaInfo (metaInfoBencoding m) = Inr m"
    using ann ParseInfo_infoBencoding [OF assms(1)] Encode_encodable [OF encodable_infoBencoding [OF assms(1)]]
    by (simp add: parseMetaInfo_def metaInfoBencoding_def info_keys m)
  moreover have "EncodeMetaInfo m = Inr ?s"
    using Encode_encodable [OF encodable_metaInfoBencoding [OF vi]] by (simp add: EncodeMetaInfo_def)
  moreover have "length ?s \<le> maxMetaInfoSize" using assms(3) by (simp add: fits_limits_def)
  ultimately show ?thesis by (simp add: ReadMetaInfo_Decode)
qed

text \<open>C12. Round trip: a metainfo built from valid content information and within the limits of the reader (the encoded
  file at most 16 MiB long, and with it each of its strings) encodes without error, and reading the file gives back the
  same announce URL, content information and info hash.  Beyond these limits the claim is false: the encoder has none,
  and the reader refuses what it writes.\<close>

theorem ReadMetaInfo_EncodeMetaInfo:
  assumes "valid_info info" and "NewMetaInfo announce info = Inr m" and "fits_limits m"
  shows "\<exists>s. EncodeMetaInfo m = Inr s \<and> ReadMetaInfo ErrEOF s = Inr m"
  by (rule read_encoded [OF assms])

definition tiny_info :: Info where
  "tiny_info = \<lparr>Name = [97], Length = 3, PieceLength = 2, PieceHashes = [replicate 20 1, replicate 20 2]\<rparr>"

lemma valid_tiny_info: "valid_info tiny_info"
  by (simp add: valid_info_def tiny_info_def in_int64_def expectedPieces_def)

theorem ReadMetaInfo_EncodeMetaInfo_witness:
  "\<exists>m s. NewMetaInfo [104] tiny_info = Inr m \<and> EncodeMetaInfo m = Inr s \<and>
         ReadMetaInfo ErrEOF s = Inr m"
proof -
  obtain m where m: "NewMetaInfo [104] tiny_info = Inr m" "Announce m = [104]" "MInfo m = tiny_info"
    using NewMetaInfo_valid [OF valid_tiny_info, of "[104]"] by simp
  have "fits_limits m"
    using m by (simp add: fits_limits_def tiny_info_def mashalPieceHashes_def metaInfoBencoding_def
        infoBencoding_def bytes_of_def bstr_def benc_entries_def FormatInt_def nat_decimal_small
        nat_decimal_step maxBencodedStringLength_def maxMetaInfoSize_def)
  then show ?thesis
    using ReadMetaInfo_EncodeMetaInfo [OF valid_tiny_info m(1)] m(1) by blast
qed

lemma ReadMetaInfo_info:
  assumes "ReadMetaInfo e s = Inr m"
  shows "Announce m \<noteq> []" and "length (MInfoHash m) = 20" and "valid_info (MInfo m)"
proof -
  obtain v e' s' where dec: "Decode e' s' = Inr v" and par: "parseMetaInfo v = Inr m"
    using assms by (auto simp: ReadMetaInfo_def Let_def bind_r_iffs)
  have enc: "encodable v" using Decode_Inr(3) [OF dec] by (rule decodable_encodable)
  obtain d iv where d: "v = BDict d"
    and iv: "iv = (case m_get d (bytes_of ''info'') of None \<Rightarrow> BZero | Some v \<Rightarrow> v)"
    and pi: "ParseInfo iv = Inr (MInfo m)" and ann: "Announce m \<noteq> []" "length (MInfoHash m) = 20"
    using par by (cases v)
      (auto simp: parseMetaInfo_def Let_def bind_r_iffs split: option.splits if_splits)
  have "iv \<noteq> BZero" using pi by (auto simp: ParseInfo_def)
  then have "encodable iv"
    using enc iv d by (auto simp: list_all_iff dest!: map_of_SomeD split: option.splits)
  then show "Announce m \<noteq> []" "length (MInfoHash m) = 20" "valid_info (MInfo m)"
    using ParseInfo_valid [OF pi] ann by auto
qed

text \<open>C13. Validation: content information accepted from a file has a non-empty name, a
  non-negative 64-bit length, a positive piece length, 20-byte hashes, and exactly as many of
  them as the length divided by the piece length, rounded up.\<close>

theorem ReadMetaInfo_valid:
  assumes "ReadMetaInfo e s = Inr m"
  shows "Announce m \<noteq> [] \<and> valid_info (MInfo m) \<and> length (MInfoHash m) = 20 \<and>
    int (length (PieceHashes (MInfo m))) =
      (Length (MInfo m) + PieceLength (MInfo m) - 1) div PieceLength (MInfo m)"
  using ReadMetaInfo_info [OF assms] expectedPieces_ceiling by (simp add: valid_info_def)

definition tiny_meta :: MetaInfo where
  "tiny_meta = \<lparr>Announce = [104], MInfo = tiny_info,
     MInfoHash = sha1_Sum (bencode (infoBencoding tiny_info))\<rparr>"

lemma fits_tiny_meta: "fits_limits tiny_meta"
  by (simp add: fits_limits_def tiny_meta_def tiny_info_def mashalPieceHashes_def
      metaInfoBencoding_def infoBencoding_def bytes_of_def bstr_def benc_entries_def FormatInt_def
      nat_decimal_small nat_decimal_step maxBencodedStringLength_def maxMetaInfoSize_def)

lemma ReadMetaInfo_tiny: "ReadMetaInfo ErrEOF (bencode (metaInfoBencoding tiny_meta)) = Inr tiny_meta"
proof -
  have vi: "valid_info (MInfo tiny_meta)" by (simp add: tiny_meta_def valid_tiny_info)
  have "parseMetaInfo (metaInfoBencoding tiny_meta) = Inr tiny_meta"
    using ParseInfo_infoBencoding [OF valid_tiny_info]
      Encode_encodable [OF encodable_infoBencoding [OF valid_tiny_info]]
    by (simp add: parseMetaInfo_def metaInfoBencoding_def info_keys tiny_meta_def)
  moreover have "Decode ErrEOF (bencode (metaInfoBencoding tiny_meta)) = Inr (metaInfoBencoding tiny_meta)"
    using Decode_bencode [OF decodable_metaInfoBencoding [OF vi fits_tiny_meta]]
      canon_ordered [OF ordered_metaInfoBencoding, of tiny_meta] by simp
  ultimately show ?thesis
    using fits_tiny_meta by (simp add: ReadMetaInfo_Decode fits_limits_def)
qed

theorem ReadMetaInfo_valid_witness:
  "Announce tiny_meta \<noteq> [] \<and> valid_info (MInfo tiny_meta) \<and>
   int (length (PieceHashes (MInfo tiny_meta))) = 2"
  using ReadMetaInfo_valid [OF ReadMetaInfo_tiny] by (simp add: tiny_meta_def tiny_info_def)

lemma decodable_mono: "decodable n v \<Longrightarrow> m \<le> n \<Longrightarrow> decodable m v"
proof (induction n v arbitrary: m rule: decodable.induct)
  case (4 n xs)
  then show ?case by (auto simp: list_all_iff)
next
  case (5 n d)
  then show ?case by (fastforce simp: list_all_iff)
qed auto

lemma benc_entries_split:
  "(k, b) \<in> set ps \<Longrightarrow> \<exists>pre post. benc_entries ps = pre @ bstr k @ b @ post"
  by (force simp: benc_entries_def dest!: split_list)

lemma bencode_dict_entry:
  "(k, v) \<in> set d \<Longrightarrow> \<exists>pre post. bencode (BDict d) = pre @ bstr k @ bencode v @ post"
proof -
  assume "(k, v) \<in> set d"
  then have "(k, bencode v) \<in> set (sort_key fst (map (map_prod (\<lambda>x. x) bencode) d))"
    by force
  from benc_entries_split [OF this] show ?thesis
    by (metis append.assoc append_Cons bencode.simps(5))
qed

text \<open>C14. Info hash: the hash recorded for a metainfo file is the SHA-1 digest of the bytes that
  follow the key \<^verbatim>\<open>info\<close> in the file itself, so every client computes the same identifier; those
  bytes decode to the info dictionary that was parsed.\<close>

theorem ReadMetaInfo_info_hash:
  assumes "ReadMetaInfo e s = Inr m"
  shows "\<exists>pre ib post iv.
    take (maxMetaInfoSize + 1) s = pre @ bstr (bytes_of ''info'') @ ib @ post \<and>
    MInfoHash m = sha1_Sum ib \<and> Decode ErrEOF ib = Inr iv \<and> ParseInfo iv = Inr (MInfo m)"
proof -
  let ?s = "take (maxMetaInfoSize + 1) s"
  obtain v e' where dec: "Decode e' ?s = Inr v" and par: "parseMetaInfo v = Inr m"
    using assms by (auto simp: ReadMetaInfo_def Let_def bind_r_iffs)
  obtain d iv ib where d: "v = BDict d"
    and iv: "iv = (case m_get d (bytes_of ''info'') of None \<Rightarrow> BZero | Some v \<Rightarrow> v)"
    and pi: "ParseInfo iv = Inr (MInfo m)"
    and ib: "Encode iv = Inr ib" "MInfoHash m = sha1_Sum ib"
    using par by (cases v)
      (auto simp: parseMetaInfo_def Let_def bind_r_iffs split: option.splits if_splits)
  have "iv \<noteq> BZero" using pi by (auto simp: ParseInfo_def)
  then have mem: "(bytes_of ''info'', iv) \<in> set d"
    using iv by (auto dest!: map_of_SomeD split: option.splits)
  have "decodable 1 iv" and ord: "ordered iv"
    using Decode_Inr(2,3) [OF dec] d mem by (auto simp: list_all_iff)
  then have "decodable 0 iv" using decodable_mono by blast
  then have "Decode ErrEOF (bencode iv) = Inr iv" and "Encode iv = Inr (bencode iv)"
    using Decode_bencode canon_ordered [OF ord] Encode_encodable decodable_encodable by auto
  then show ?thesis
    using bencode_dict_entry [OF mem] Decode_Inr(1) [OF dec] d pi ib by auto
qed

lemma decodable_infoBencoding:
  assumes "ParseInfo v = Inr i" and "decodable 0 v"
  shows "decodable 0 (infoBencoding i)"
  using assms(1)
proof (cases rule: ParseInfo_fields)
  case (1 d pieces)
  have "length (Name i) \<le> maxBencodedStringLength" "length pieces \<le> maxBencodedStringLength"
    "in_int64 (PieceLength i)" "in_int64 (Length i)"
    using 1 assms(2) by (auto dest!: map_of_SomeD simp: list_all_iff)
  then show ?thesis
    using 1 splitHashes_20 [of pieces]
    by (simp add: infoBencoding_def bytes_of_def mashalPieceHashes_def maxBencodingDepth_def
        maxBencodedStringLength_def)
qed

lemma canon_keys: "canon (BDict d) = canon (BDict d') \<Longrightarrow> set (keys d) = set (keys d')"
proof -
  assume "canon (BDict d) = canon (BDict d')"
  then have "map fst (sort_key fst (map (map_prod (\<lambda>x. x) canon) d)) =
      map fst (sort_key fst (map (map_prod (\<lambda>x. x) canon) d'))"
    by simp
  then have "sort (keys d) = sort (keys d')"
    by (simp only: map_fst_sort_key map_fst_map_prod)
  then show ?thesis by (metis set_sort)
qed

theorem ReadMetaInfo_info_hash_witness:
  "\<exists>ib. MInfoHash tiny_meta = sha1_Sum ib \<and> (\<exists>iv. Decode ErrEOF ib = Inr iv \<and> ParseInfo iv = Inr tiny_info)"
  using ReadMetaInfo_info_hash [OF ReadMetaInfo_tiny] by (auto simp: tiny_meta_def)

text \<open>Re-encoding loses foreign keys: \<^verbatim>\<open>infoBencoding\<close> writes four keys only, so for an info
  dictionary with any other key (such as \<^verbatim>\<open>private\<close>) the bytes written back, and hence the bytes
  hashed, differ from those of the original file although its info hash is kept in the record.\<close>

theorem infoBencoding_drops_keys:
  assumes "ParseInfo (BDict d) = Inr i" and "decodable 0 (BDict d)"
    and "k \<in> set (keys d)"
    and "k \<notin> {bytes_of ''length'', bytes_of ''name'', bytes_of ''piece length'', bytes_of ''pieces''}"
  shows "Encode (infoBencoding i) \<noteq> Encode (BDict d)"
proof
  assume eq: "Encode (infoBencoding i) = Encode (BDict d)"
  have di: "decodable 0 (infoBencoding i)" by (rule decodable_infoBencoding [OF assms(1,2)])
  have "bencode (infoBencoding i) = bencode (BDict d)"
    using eq Encode_encodable [OF decodable_encodable [OF di]]
      Encode_encodable [OF decodable_encodable [OF assms(2)]] by simp
  then have "canon (infoBencoding i) = canon (BDict d)"
    by (rule benc.enc_inj [OF di assms(2)])
  from canon_keys [OF this [unfolded infoBencoding_def]] assms(3,4) show False
    by (simp only: list.map fst_conv list.set) blast
qed

text \<open>Oversized files: the reader stops one byte past the size limit and checks nothing there, so
  whatever follows that byte is ignored rather than reported as trailing data or as an oversized
  file.\<close>

theorem ReadMetaInfo_ignores_tail:
  "length s = maxMetaInfoSize + 1 \<Longrightarrow> ReadMetaInfo e (s @ t) = ReadMetaInfo ErrEOF s"
  by (simp add: ReadMetaInfo_def Let_def)

end
