(* ===== verification/Messages.thy ===== *)
theory Messages
  imports Codec
begin

text \<open>
  The peer wire protocol: the length-prefixed messages of \<^verbatim>\<open>src/protocol/message.go\<close> and the
  handshake of \<^verbatim>\<open>src/protocol/handshake.go\<close>.  The \<^verbatim>\<open>Message\<close> interface is a datatype with one
  constructor per implementing struct; a fixed-size array is a byte list whose length is part of
  the well-formedness predicate.  Both codecs are shown to be strict: what is read is exactly what
  the writer frames.
\<close>

subsection \<open>Messages\<close>

record BlockRequest =
  PieceIndex :: uint32
  Begin :: uint32
  BlockLength :: uint32

datatype Message =
    KeepAlive
  | Choke
  | Unchoke
  | Interested
  | NotInterested
  | Have uint32
  | Bitfield "byte list"
  | Request BlockRequest
  | CancelRequest BlockRequest
  | Piece uint32 uint32 "byte list"

abbreviation (input) ChokeID :: byte where "ChokeID \<equiv> 0"
abbreviation (input) UnchokeID :: byte where "UnchokeID \<equiv> 1"
abbreviation (input) InterestedID :: byte where "InterestedID \<equiv> 2"
abbreviation (input) NotInterestedID :: byte where "NotInterestedID \<equiv> 3"
abbreviation (input) HaveID :: byte where "HaveID \<equiv> 4"
abbreviation (input) BitfieldID :: byte where "BitfieldID \<equiv> 5"
abbreviation (input) RequestID :: byte where "RequestID \<equiv> 6"
abbreviation (input) PieceID :: byte where "PieceID \<equiv> 7"
abbreviation (input) CancelID :: byte where "CancelID \<equiv> 8"

datatype message_error =
    MsgLengthRead io_error
  | MsgTooLong uint32
  | MsgBodyRead
  | MsgEmptyBody
  | MsgPayloadLength
  | MsgPieceTooShort
  | MsgUnknownID
  | MsgCannotEncode
  | MsgWrite io_error

definition maxPeerMessageSize :: uint32 where
  "maxPeerMessageSize = 500000"

definition fixedPayloadLengths :: "(byte \<times> nat) list" where
  "fixedPayloadLengths =
     [(ChokeID, 0), (UnchokeID, 0), (InterestedID, 0), (NotInterestedID, 0),
      (HaveID, 4), (RequestID, 12), (CancelID, 12)]"

definition decodeBlockRequest :: "byte list \<Rightarrow> message_error + BlockRequest" where
  "decodeBlockRequest body =
     (if length body \<noteq> 12 then Inl MsgPayloadLength
      else Inr \<lparr>PieceIndex = Uint32 (take 4 body),
                Begin = Uint32 (take 4 (drop 4 body)),
                BlockLength = Uint32 (drop 8 body)\<rparr>)"

definition decodePiece :: "byte list \<Rightarrow> message_error + Message" where
  "decodePiece payload =
     (if length payload < 8 then Inl MsgPieceTooShort
      else Inr (Piece (Uint32 (take 4 payload)) (Uint32 (take 4 (drop 4 payload))) (drop 8 payload)))"

definition decodeBody :: "byte list \<Rightarrow> message_error + Message" where
  "decodeBody body =
     (case body of
        [] \<Rightarrow> Inl MsgEmptyBody
      | i # payload \<Rightarrow>
          if (case m_get fixedPayloadLengths i of
                Some expected \<Rightarrow> length payload \<noteq> expected | None \<Rightarrow> False)
          then Inl MsgPayloadLength
          else if i = InterestedID then Inr Interested
          else if i = NotInterestedID then Inr NotInterested
          else if i = ChokeID then Inr Choke
          else if i = UnchokeID then Inr Unchoke
          else if i = HaveID then Inr (Have (Uint32 payload))
          else if i = RequestID then bind_r (decodeBlockRequest payload) (\<lambda>b. Inr (Request b))
          else if i = CancelID then bind_r (decodeBlockRequest payload) (\<lambda>b. Inr (CancelRequest b))
          else if i = BitfieldID then Inr (Bitfield payload)
          else if i = PieceID then decodePiece payload
          else Inl MsgUnknownID)"

definition ReadMessage :: "io_error \<Rightarrow> byte list \<Rightarrow> message_error + Message \<times> byte list" where
  "ReadMessage e s =
     bind_r (map_sum MsgLengthRead id (ReadFull e 4 s)) (\<lambda>(lengthBytes, r).
       let len = Uint32 lengthBytes in
       if len = 0 then Inr (KeepAlive, r)
       else if len > maxPeerMessageSize then Inl (MsgTooLong len)
       else bind_r (map_sum (\<lambda>_. MsgBodyRead) id (ReadFull e (unat len) r)) (\<lambda>(body, r').
         bind_r (decodeBody body) (\<lambda>m. Inr (m, r'))))"

definition encodeBlockRequest :: "BlockRequest \<Rightarrow> byte list" where
  "encodeBlockRequest b = PutUint32 (PieceIndex b) @ PutUint32 (Begin b) @ PutUint32 (BlockLength b)"

fun encodeMessage :: "Message \<Rightarrow> message_error + byte list" where
  "encodeMessage Choke = Inr [ChokeID]"
| "encodeMessage Unchoke = Inr [UnchokeID]"
| "encodeMessage Interested = Inr [InterestedID]"
| "encodeMessage NotInterested = Inr [NotInterestedID]"
| "encodeMessage (Have i) = Inr (HaveID # PutUint32 i)"
| "encodeMessage (Bitfield bits) = Inr (BitfieldID # bits)"
| "encodeMessage (Request b) = Inr (RequestID # encodeBlockRequest b)"
| "encodeMessage (CancelRequest b) = Inr (CancelID # encodeBlockRequest b)"
| "encodeMessage (Piece i begin data) = Inr (PieceID # PutUint32 i @ PutUint32 begin @ data)"
| "encodeMessage KeepAlive = Inl MsgCannotEncode"

definition WriteMessage :: "Message \<Rightarrow> writer \<Rightarrow> message_error option \<times> writer" where
  "WriteMessage message w =
     (if message = KeepAlive then
        (case wr_Write w [0, 0, 0, 0] of ((_, err), w') \<Rightarrow> (map_option MsgWrite err, w'))
      else case encodeMessage message of
        Inl er \<Rightarrow> (Some er, w)
      | Inr body \<Rightarrow>
          let frame = PutUint32 (of_nat (length body)) @ body in
          (case wr_Write w frame of ((n, err), w') \<Rightarrow>
             (case err of
                Some er \<Rightarrow> (Some (MsgWrite er), w')
              | None \<Rightarrow> if n \<noteq> length frame then (Some (MsgWrite ErrShortWrite), w') else (None, w'))))"

subsection \<open>Handshakes\<close>

record Handshake =
  Protocol :: gostring
  Reserved :: "byte list"
  HsInfoHash :: "byte list"
  HsPeerID :: "byte list"

definition PeerProtocol :: gostring where
  "PeerProtocol = bytes_of ''BitTorrent protocol''"

definition ReadHandshake :: "io_error \<Rightarrow> byte list \<Rightarrow> io_error + Handshake \<times> byte list" where
  "ReadHandshake e s =
     bind_r (ReadFull e 1 s) (\<lambda>(protocolLength, r1).
     bind_r (ReadFull e (unat (hd protocolLength)) r1) (\<lambda>(protocolName, r2).
     bind_r (ReadFull e 8 r2) (\<lambda>(reserved, r3).
     bind_r (ReadFull e 20 r3) (\<lambda>(infoHash, r4).
     bind_r (ReadFull e 20 r4) (\<lambda>(peerID, r5).
       Inr (\<lparr>Protocol = protocolName, Reserved = reserved, HsInfoHash = infoHash,
              HsPeerID = peerID\<rparr>, r5))))))"

text \<open>\<open>handshakeFrame\<close> is the frame \<^verbatim>\<open>WriteHandshake\<close> assembles; its first byte is the protocol's
  length truncated to a byte.\<close>

definition handshakeFrame :: "Handshake \<Rightarrow> byte list" where
  "handshakeFrame h =
     of_nat (length (Protocol h)) # Protocol h @ Reserved h @ HsInfoHash h @ HsPeerID h"

definition WriteHandshake :: "Handshake \<Rightarrow> writer \<Rightarrow> io_error option \<times> writer" where
  "WriteHandshake h w = (case wr_Write w (handshakeFrame h) of ((_, err), w') \<Rightarrow> (err, w'))"

subsection \<open>Frames\<close>

text \<open>The bytes of one message on the wire, and the messages that fit the reader's limit.\<close>

definition messageFrame :: "Message \<Rightarrow> byte list" where
  "messageFrame m =
     (case encodeMessage m of Inl _ \<Rightarrow> [0, 0, 0, 0] | Inr body \<Rightarrow> PutUint32 (of_nat (length body)) @ body)"

definition fits :: "Message \<Rightarrow> bool" where
  "fits m \<longleftrightarrow> (case encodeMessage m of Inl _ \<Rightarrow> True | Inr body \<Rightarrow> length body \<le> unat maxPeerMessageSize)"

definition wf_handshake :: "Handshake \<Rightarrow> bool" where
  "wf_handshake h \<longleftrightarrow>
     length (Protocol h) < 256 \<and> length (Reserved h) = 8 \<and>
     length (HsInfoHash h) = 20 \<and> length (HsPeerID h) = 20"

lemmas [wire_simps] = decodeBody_def fixedPayloadLengths_def decodeBlockRequest_def
  encodeBlockRequest_def decodePiece_def

lemma length_encodeBlockRequest [simp]: "length (encodeBlockRequest b) = 12"
  by (simp add: encodeBlockRequest_def)

lemma decodeBlockRequest_encode [simp]: "decodeBlockRequest (encodeBlockRequest b) = Inr b"
  using Uint32_PutUint32 [of "PieceIndex b" "[]"] Uint32_PutUint32 [of "Begin b" "[]"]
    Uint32_PutUint32 [of "BlockLength b" "[]"]
  by (simp add: wire_simps)

lemma decodeBody_encodeMessage:
  "encodeMessage m = Inr body \<Longrightarrow> decodeBody body = Inr m"
  using Uint32_PutUint32 [of _ "[]"]
  by (cases m) (auto simp: wire_simps)

lemma encodeMessage_nonempty: "encodeMessage m = Inr body \<Longrightarrow> body \<noteq> []"
  by (cases m) auto

text \<open>The other direction: four bytes are the encoding of the integer they denote.\<close>

lemma bytes4_PutUint32: "length xs = 4 \<Longrightarrow> PutUint32 (Uint32 xs) = xs"
  by (auto simp: length_Suc_conv eval_nat_numeral)

lemma encodeBlockRequest_decode:
  assumes "decodeBlockRequest body = Inr b"
  shows "encodeBlockRequest b = body"
proof -
  have len: "length body = 12"
    and b: "b = \<lparr>PieceIndex = Uint32 (take 4 body), Begin = Uint32 (take 4 (drop 4 body)),
                BlockLength = Uint32 (drop 8 body)\<rparr>"
    using assms by (auto simp: decodeBlockRequest_def split: if_splits)
  have "encodeBlockRequest b = take 4 body @ take 4 (drop 4 body) @ drop 8 body"
    using len by (simp add: b encodeBlockRequest_def bytes4_PutUint32)
  also have "\<dots> = body"
    by (metis (no_types) add_numeral_left append_take_drop_id drop_drop semiring_norm(6) numeral_Bit0)
  finally show ?thesis .
qed

lemma encodeMessage_decodeBody:
  assumes "decodeBody body = Inr m"
  shows "encodeMessage m = Inr body"
proof -
  obtain i payload where body: "body = i # payload"
    using assms by (cases body) (auto simp: decodeBody_def)
  have piece: "decodePiece payload = Inr m \<Longrightarrow> encodeMessage m = Inr (PieceID # payload)"
    using append_take_drop_id [of 4 "drop 4 payload"] append_take_drop_id [of 4 payload]
    by (auto simp: decodePiece_def bytes4_PutUint32 split: if_splits)
  show ?thesis
    using assms piece
    by (auto simp: body decodeBody_def fixedPayloadLengths_def bind_r_iffs bytes4_PutUint32
        encodeBlockRequest_decode split: if_splits)
qed

lemma ReadMessage_messageFrame:
  assumes "fits m"
  shows "ReadMessage e (messageFrame m @ r) = Inr (m, r)"
proof (cases "encodeMessage m")
  case (Inl er)
  then have m: "m = KeepAlive" by (cases m) auto
  have "ReadMessage e ([0, 0, 0, 0] @ r) = Inr (KeepAlive, r)"
    unfolding ReadMessage_def by (subst ReadFull_append) (simp_all add: Uint32.simps)
  then show ?thesis using m by (simp add: messageFrame_def)
next
  case (Inr body)
  let ?n = "of_nat (length body) :: uint32"
  have len: "length body \<le> 500000"
    using assms Inr by (simp add: fits_def maxPeerMessageSize_def)
  then have n: "unat ?n = length body"
    by (simp add: unat_of_nat_small)
  have "?n \<noteq> 0"
    using encodeMessage_nonempty [OF Inr] n by auto
  moreover have "\<not> ?n > maxPeerMessageSize"
    using len n by (simp add: word_less_nat_alt maxPeerMessageSize_def)
  moreover have "Uint32 (PutUint32 ?n) = ?n"
    using Uint32_PutUint32 [of ?n "[]"] by simp
  moreover have "messageFrame m = PutUint32 ?n @ body"
    using Inr by (simp add: messageFrame_def)
  ultimately show ?thesis
    using n decodeBody_encodeMessage [OF Inr] by (simp add: ReadMessage_def)
qed

lemma ReadMessage_exact:
  assumes "ReadMessage e s = Inr (m, r)"
  shows "s = messageFrame m @ r \<and> fits m"
proof -
  obtain lb r1 where s: "s = lb @ r1" "length lb = 4"
    and rest: "(if Uint32 lb = 0 then Inr (KeepAlive, r1)
       else if Uint32 lb > maxPeerMessageSize then Inl (MsgTooLong (Uint32 lb))
       else bind_r (map_sum (\<lambda>_. MsgBodyRead) id (ReadFull e (unat (Uint32 lb)) r1)) (\<lambda>(body, r').
         bind_r (decodeBody body) (\<lambda>m. Inr (m, r')))) = Inr (m, r)"
    using assms by (auto simp: ReadMessage_def bind_r_iffs Let_def ReadFull_Inr)
  have lb: "PutUint32 (Uint32 lb) = lb" using s(2) by (rule bytes4_PutUint32)
  show ?thesis
  proof (cases "Uint32 lb = 0")
    case True
    then have "lb = [0, 0, 0, 0]" using lb by (simp add: PutUint32_def)
    then show ?thesis using s rest True by (simp add: messageFrame_def fits_def)
  next
    case False
    then obtain body where "r1 = body @ r" "length body = unat (Uint32 lb)"
      "decodeBody body = Inr m" "\<not> Uint32 lb > maxPeerMessageSize"
      using rest by (auto simp: bind_r_iffs ReadFull_Inr split: if_splits)
    then show ?thesis
      using s lb encodeMessage_decodeBody [of body m]
      by (simp add: messageFrame_def fits_def word_less_nat_alt)
  qed
qed

interpretation msg: strict_codec messageFrame "ReadMessage e" fits "\<lambda>m. m"
  for e
  by unfold_locales (use ReadMessage_messageFrame ReadMessage_exact in \<open>auto\<close>)

lemma ReadHandshake_frame:
  assumes "wf_handshake h"
  shows "ReadHandshake e (handshakeFrame h @ r) = Inr (h, r)"
proof -
  have "unat (of_nat (length (Protocol h)) :: byte) = length (Protocol h)"
    using assms by (simp add: wf_handshake_def unat_of_nat_small)
  moreover have "ReadFull e 1 (handshakeFrame h @ r) =
      Inr ([of_nat (length (Protocol h))], Protocol h @ Reserved h @ HsInfoHash h @ HsPeerID h @ r)"
    using ReadFull_append [of "[of_nat (length (Protocol h))]" 1] by (simp add: handshakeFrame_def)
  ultimately show ?thesis
    using assms by (simp add: ReadHandshake_def wf_handshake_def)
qed

lemma ReadHandshake_exact:
  assumes "ReadHandshake e s = Inr (h, r)"
  shows "s = handshakeFrame h @ r \<and> wf_handshake h"
proof -
  obtain p where "s = p # Protocol h @ Reserved h @ HsInfoHash h @ HsPeerID h @ r"
    and "length (Protocol h) = unat p" "length (Reserved h) = 8" "length (HsInfoHash h) = 20"
    "length (HsPeerID h) = 20"
    using assms
    by (auto simp: ReadHandshake_def bind_r_iffs ReadFull_Inr length_Suc_conv)
  moreover have "unat p < 256" by (rule unat_byte_bound)
  ultimately show ?thesis by (simp add: handshakeFrame_def wf_handshake_def)
qed

interpretation hs: strict_codec handshakeFrame "ReadHandshake e" wf_handshake "\<lambda>h. h"
  for e
  by unfold_locales (use ReadHandshake_frame ReadHandshake_exact in \<open>auto\<close>)

subsection \<open>Writing frames\<close>

lemma WriteMessage_buffered:
  "wplan w = [] \<Longrightarrow> WriteMessage m w = (None, w\<lparr>written := written w @ messageFrame m\<rparr>)"
  by (cases m) (simp_all add: WriteMessage_def messageFrame_def wr_Write.simps Let_def)

text \<open>A connection that receives messages one after another.\<close>

fun WriteMessages :: "Message list \<Rightarrow> writer \<Rightarrow> message_error option \<times> writer" where
  "WriteMessages [] w = (None, w)"
| "WriteMessages (m # ms) w =
     (case WriteMessage m w of
        (Some er, w') \<Rightarrow> (Some er, w')
      | (None, w') \<Rightarrow> WriteMessages ms w')"

lemma WriteMessages_buffered:
  "wplan w = [] \<Longrightarrow>
   WriteMessages ms w = (None, w\<lparr>written := written w @ concat (map messageFrame ms)\<rparr>)"
  by (induction ms arbitrary: w) (simp_all add: WriteMessage_buffered)

subsection \<open>Correctness of the wire protocol\<close>

text \<open>C11. Message round trip: messages within the reader's size limit, written one after another to a connection, are read
  back in order, each exactly once, and the bytes that follow them are left unread.\<close>

theorem ReadMessage_WriteMessages:
  assumes "list_all fits ms"
  shows "fst (WriteMessages ms buffer) = None \<and>
    read_n (ReadMessage e) (length ms) (written (snd (WriteMessages ms buffer)) @ r) = Inr (ms, r)"
  using msg.read_n_concat [OF assms, of e r] WriteMessages_buffered [of buffer ms]
  by (simp add: buffer_def)

theorem ReadMessage_WriteMessages_witness:
  "read_n (ReadMessage ErrEOF) 3
     (written (snd (WriteMessages [Unchoke, Have 7, Piece 1 0 [9, 8]] buffer)) @ []) =
   Inr ([Unchoke, Have 7, Piece 1 0 [9, 8]], [])"
  using ReadMessage_WriteMessages [of "[Unchoke, Have 7, Piece 1 0 [9, 8]]" ErrEOF "[]"]
  by (simp add: fits_def maxPeerMessageSize_def numeral_3_eq_3)

text \<open>Strict framing: whatever bytes arrive, a message that is read is the one whose frame was consumed,
  so a frame has one meaning and no byte of the next frame is touched.\<close>

theorem ReadMessage_strict:
  "ReadMessage e s = Inr (m, r) \<Longrightarrow> s = messageFrame m @ r \<and> fits m"
  by (rule msg.enc_dec)

text \<open>Size limit: a piece or bitfield message that does not fit the reader's limit is still framed by the
  writer, and the reader refuses it by its length before it allocates or reads the body.\<close>

theorem ReadMessage_oversized:
  assumes "encodeMessage m = Inr body"
    and "unat maxPeerMessageSize < length body" and "length body < 2 ^ 32"
  shows "ReadMessage e (messageFrame m @ r) = Inl (MsgTooLong (of_nat (length body)))"
proof -
  let ?n = "of_nat (length body) :: uint32"
  have n: "unat ?n = length body" using assms(3) by (simp add: unat_of_nat_small)
  then have "?n > maxPeerMessageSize" using assms(2) by (simp add: word_less_nat_alt)
  moreover have "?n \<noteq> 0" using n encodeMessage_nonempty [OF assms(1)] by auto
  moreover have "Uint32 (PutUint32 ?n) = ?n" using Uint32_PutUint32 [of ?n "[]"] by simp
  ultimately show ?thesis using assms(1) by (simp add: ReadMessage_def messageFrame_def)
qed

text \<open>No silent loss: \<^verbatim>\<open>WriteMessage\<close> reports success for a message with a body only when the
  connection took its whole frame; a short write is reported as an error.\<close>

theorem WriteMessage_complete:
  assumes "fst (WriteMessage m w) = None" and "m \<noteq> KeepAlive"
  shows "written (snd (WriteMessage m w)) = written w @ messageFrame m"
proof -
  obtain body where "encodeMessage m = Inr body" using assms(2) by (cases m) auto
  then show ?thesis
    using assms
    by (auto simp: WriteMessage_def messageFrame_def wr_Write.simps Let_def min_def
        split: list.splits write_outcome.splits if_splits)
qed

text \<open>Handshake round trip: the handshake the client sends is 68 bytes long and is read back
  unchanged, leaving the rest of the stream; conversely a handshake that is read consumed exactly
  its own frame.\<close>

theorem ReadHandshake_WriteHandshake:
  assumes "length infoHash = 20" and "length peerID = 20"
  shows "let h = \<lparr>Protocol = PeerProtocol, Reserved = replicate 8 0, HsInfoHash = infoHash,
                 HsPeerID = peerID\<rparr>;
             frame = written (snd (WriteHandshake h buffer)) in
    length frame = 68 \<and> ReadHandshake e (frame @ r) = Inr (h, r) \<and>
    (\<forall>s h' r'. ReadHandshake e s = Inr (h', r') \<longrightarrow> s = handshakeFrame h' @ r')"
proof -
  let ?h = "\<lparr>Protocol = PeerProtocol, Reserved = replicate 8 0, HsInfoHash = infoHash,
             HsPeerID = peerID\<rparr>"
  have "wf_handshake ?h" using assms by (simp add: wf_handshake_def PeerProtocol_def)
  moreover have "written (snd (WriteHandshake ?h buffer)) = handshakeFrame ?h"
    by (simp add: WriteHandshake_def wr_Write.simps buffer_def)
  moreover have "length (handshakeFrame ?h) = 68"
    using assms by (simp add: handshakeFrame_def PeerProtocol_def)
  ultimately show ?thesis
    using hs.dec_enc [of ?h e r] by (auto simp: Let_def dest: hs.enc_dec)
qed

end
