(* ===== verification/Geometry.thy ===== *)
theory Geometry
  imports Metainfo Messages
begin

text \<open>
  The layout of a torrent's content: a file of \<open>L\<close> bytes is cut into pieces of \<open>P\<close> bytes (the last
  one shorter), and a piece into blocks in the same way.  \<open>plen\<close> and \<open>pcount\<close> are that cut on natural
  numbers.  The locales state what the two implementations of it in \<^verbatim>\<open>src/torrent\<close> (\<^verbatim>\<open>PieceSet\<close> in
  \<^verbatim>\<open>pieces.go\<close> and \<^verbatim>\<open>fileStorage\<close> in \<^verbatim>\<open>file.go\<close>) promise, and derive that pieces tile the file and
  blocks tile a piece.
\<close>

definition plen :: "nat \<Rightarrow> nat \<Rightarrow> nat \<Rightarrow> nat" where
  "plen L P i = min P (L - i * P)"

definition pcount :: "nat \<Rightarrow> nat \<Rightarrow> nat" where
  "pcount L P = (L + P - 1) div P"

lemma pcount_le: "0 < P \<Longrightarrow> pcount L P \<le> i \<longleftrightarrow> L \<le> i * P"
proof -
  assume P: "0 < P"
  have "pcount L P \<le> i \<longleftrightarrow> (L + P - 1) div P < Suc i" by (auto simp: pcount_def)
  also have "\<dots> \<longleftrightarrow> L + P - 1 < Suc i * P" using P by (simp add: div_less_iff_less_mult)
  also have "\<dots> \<longleftrightarrow> L \<le> i * P" using P by auto
  finally show ?thesis .
qed

lemma less_pcount: "0 < P \<Longrightarrow> i < pcount L P \<longleftrightarrow> i * P < L"
  using pcount_le [of P L i] by auto

lemma pcount_pos: "0 < P \<Longrightarrow> 0 < n \<Longrightarrow> 0 < pcount n P"
  by (simp add: less_pcount)

lemma plen_pos: "0 < P \<Longrightarrow> i < pcount L P \<Longrightarrow> 0 < plen L P i"
  by (simp add: less_pcount plen_def)

lemma plen_le: "plen L P i \<le> P"
  by (simp add: plen_def)

lemma plen_end: "0 < P \<Longrightarrow> i < pcount L P \<Longrightarrow> i * P + plen L P i \<le> L"
  by (auto simp: less_pcount plen_def min_def)

lemma plen_step: "0 < P \<Longrightarrow> Suc i < pcount L P \<Longrightarrow> plen L P i = P"
  by (auto simp: less_pcount plen_def min_def)

lemma plen_disjoint:
  assumes "0 < P" and "i < j"
  shows "i * P + plen L P i \<le> j * P"
proof -
  have "i * P + plen L P i \<le> Suc i * P" using plen_le [of L P i] by simp
  also have "\<dots> \<le> j * P" using assms(2) by (intro mult_le_mono1) simp
  finally show ?thesis .
qed

lemma sum_plen: "0 < P \<Longrightarrow> (\<Sum>i < n. plen L P i) = min L (n * P)"
  by (induction n) (auto simp: plen_def min_def)

lemma sum_plen_pcount: "0 < P \<Longrightarrow> (\<Sum>i < pcount L P. plen L P i) = L"
  using pcount_le [of P L "pcount L P"] by (simp add: sum_plen)

text \<open>Every byte position lies in exactly one piece.\<close>

lemma plen_unique:
  assumes "0 < P" and "x < L"
  shows "\<exists>!i. i < pcount L P \<and> i * P \<le> x \<and> x < i * P + plen L P i"
proof (rule ex1I [of _ "x div P"])
  have lo: "x div P * P \<le> x" by simp
  have hi: "x < x div P * P + P" using assms(1) dividend_less_div_times [of P x] by simp
  moreover have "x div P * P < L" using lo assms(2) by (rule le_less_trans)
  ultimately show "x div P < pcount L P \<and> x div P * P \<le> x \<and> x < x div P * P + plen L P (x div P)"
    using assms by (auto simp: less_pcount plen_def min_def)
next
  fix i
  assume "i < pcount L P \<and> i * P \<le> x \<and> x < i * P + plen L P i"
  then have "i * P \<le> x" "x < Suc i * P" using plen_le [of L P i] by auto
  then show "i = x div P"
    using assms(1) by (metis div_nat_eqI mult.commute)
qed

lemma pcount_alt: "0 < n \<Longrightarrow> 0 < b \<Longrightarrow> pcount n b = (n - 1) div b + 1"
  using div_add_self2 [of b "n - 1"] by (simp add: pcount_def algebra_simps)

lemma expectedPieces_pcount:
  assumes "0 \<le> len" "in_int64 len" "0 < pl"
  shows "expectedPieces len pl = int (pcount (nat len) (nat pl))"
  using expectedPieces_ceiling [OF assms] assms
  by (simp add: pcount_def zdiv_int nat_eq_iff of_nat_diff)

subsection \<open>The contract of a piece layout\<close>

locale piece_layout =
  fixes wf :: "'p \<Rightarrow> bool"
    and count :: "'p \<Rightarrow> nat"
    and total :: "'p \<Rightarrow> nat"
    and psize :: "'p \<Rightarrow> nat"
    and len_of :: "'p \<Rightarrow> uint32 \<Rightarrow> 'e + uint32"
    and off_of :: "'p \<Rightarrow> uint32 \<Rightarrow> 'e + int"
  assumes psize: "wf p \<Longrightarrow> 0 < psize p \<and> psize p < 2 ^ 32"
    and count: "wf p \<Longrightarrow> count p = pcount (total p) (psize p) \<and> count p < 2 ^ 32"
    and len_in: "wf p \<Longrightarrow> unat w < count p \<Longrightarrow>
      len_of p w = Inr (of_nat (plen (total p) (psize p) (unat w)))"
    and len_out: "wf p \<Longrightarrow> count p \<le> unat w \<Longrightarrow> \<exists>e. len_of p w = Inl e"
    and off_in: "wf p \<Longrightarrow> unat w < count p \<Longrightarrow> off_of p w = Inr (int (unat w * psize p))"
    and off_out: "wf p \<Longrightarrow> count p \<le> unat w \<Longrightarrow> \<exists>e. off_of p w = Inl e"
begin

lemma plen_small: "wf p \<Longrightarrow> plen (total p) (psize p) i < 2 ^ 32"
  using psize [of p] plen_le [of "total p" "psize p" i] by linarith

lemma len_unat:
  "wf p \<Longrightarrow> len_of p w = Inr n \<longleftrightarrow> unat w < count p \<and> unat n = plen (total p) (psize p) (unat w)"
proof -
  assume wf: "wf p"
  show ?thesis
  proof (cases "unat w < count p")
    case True
    have "unat (of_nat (plen (total p) (psize p) (unat w)) :: uint32) = plen (total p) (psize p) (unat w)"
      using plen_small [OF wf] by (intro unat_of_nat_small) simp
    then show ?thesis
      using True len_in [OF wf True] by (metis sum.inject(2) word_unat_eq_iff)
  next
    case False
    then show ?thesis using len_out [OF wf, of w] by auto
  qed
qed

lemma len_pos: "wf p \<Longrightarrow> len_of p w = Inr n \<Longrightarrow> 0 < unat n"
  using psize count by (auto simp: len_unat plen_pos)

lemma off_nat:
  assumes "wf p"
  shows "off_of p w = Inr off \<Longrightarrow> unat w < count p \<and> 0 \<le> off \<and> nat off = unat w * psize p"
    and "unat w < count p \<Longrightarrow> \<exists>off. off_of p w = Inr off"
proof -
  assume off: "off_of p w = Inr off"
  then have "unat w < count p" using off_out [OF assms, of w] by fastforce
  then show "unat w < count p \<and> 0 \<le> off \<and> nat off = unat w * psize p"
    using off off_in [OF assms, of w] by (metis nat_int of_nat_0_le_iff sum.inject(2))
qed (use off_in [OF assms] in blast)

lemma piece_in_file:
  assumes "wf p" "len_of p w = Inr n" "off_of p w = Inr off"
  shows "0 \<le> off \<and> nat off + unat n \<le> total p"
  using assms psize [of p] count [of p] off_nat(1) [of p w off]
    plen_end [of "psize p" "unat w" "total p"] by (simp add: len_unat)

lemma pieces_disjoint:
  assumes "wf p" "len_of p w = Inr n" "off_of p w = Inr off"
    and "len_of p w' = Inr n'" "off_of p w' = Inr off'" and "w \<noteq> w'"
  shows "nat off + unat n \<le> nat off' \<or> nat off' + unat n' \<le> nat off"
proof -
  have "unat w \<noteq> unat w'" using assms(6) by (simp add: word_unat_eq_iff)
  then consider "unat w < unat w'" | "unat w' < unat w" by linarith
  then show ?thesis
    using assms(1-5) psize [of p] off_nat(1) [of p w off] off_nat(1) [of p w' off']
      plen_disjoint [of "psize p" "unat w" "unat w'" "total p"]
      plen_disjoint [of "psize p" "unat w'" "unat w" "total p"]
    by cases (simp_all add: len_unat)
qed

lemma pieces_sum: "wf p \<Longrightarrow> (\<Sum>i < count p. plen (total p) (psize p) i) = total p"
  using psize count sum_plen_pcount by simp

text \<open>Every position of the file lies in exactly one piece.\<close>

lemma pieces_tile:
  assumes "wf p" and "x < total p"
  shows "\<exists>!w. \<exists>n off. len_of p w = Inr n \<and> off_of p w = Inr off \<and>
    nat off \<le> x \<and> x < nat off + unat n"
proof -
  let ?L = "total p" and ?P = "psize p"
  let ?in = "\<lambda>i. i < pcount ?L ?P \<and> i * ?P \<le> x \<and> x < i * ?P + plen ?L ?P i"
  have c: "count p = pcount ?L ?P" "count p < 2 ^ 32" using count [OF assms(1)] by auto
  have eq: "(\<exists>n off. len_of p w = Inr n \<and> off_of p w = Inr off \<and> nat off \<le> x \<and> x < nat off + unat n)
      \<longleftrightarrow> ?in (unat w)" for w
  proof
    assume "\<exists>n off. len_of p w = Inr n \<and> off_of p w = Inr off \<and> nat off \<le> x \<and> x < nat off + unat n"
    then obtain n off where "len_of p w = Inr n" "off_of p w = Inr off" "nat off \<le> x"
      "x < nat off + unat n" by blast
    then show "?in (unat w)"
      using off_nat(1) [OF assms(1)] c(1) by (simp add: len_unat [OF assms(1)])
  next
    assume i: "?in (unat w)"
    then have u: "unat w < count p" using c(1) by simp
    obtain off where off: "off_of p w = Inr off" using off_nat(2) [OF assms(1) u] by blast
    obtain n where n: "len_of p w = Inr n" using len_in [OF assms(1) u] by blast
    have "nat off = unat w * ?P" using off_nat(1) [OF assms(1) off] by blast
    moreover have "unat n = plen ?L ?P (unat w)" using n by (simp add: len_unat [OF assms(1)])
    ultimately show "\<exists>n off. len_of p w = Inr n \<and> off_of p w = Inr off \<and> nat off \<le> x \<and> x < nat off + unat n"
      using i n off by auto
  qed
  obtain i where i: "?in i" and uniq: "\<And>j. ?in j \<Longrightarrow> j = i"
    using plen_unique [of ?P x ?L] psize [OF assms(1)] assms(2) by (auto elim!: ex1E)
  have u: "unat (of_nat i :: uint32) = i" using i c by (intro unat_of_nat_small) simp
  show ?thesis
    unfolding eq
  proof (rule ex1I [of _ "of_nat i"])
    show "?in (unat (of_nat i :: uint32))" unfolding u by (rule i)
    fix w :: uint32
    assume "?in (unat w)"
    then have "unat w = i" by (rule uniq)
    then show "w = of_nat i" by (simp only: word_unat_eq_iff u)
  qed
qed

end

subsection \<open>The contract of block requests\<close>

text \<open>A block request is determined by its piece and an aligned offset inside the piece; its length
  runs to the next block boundary or to the end of the piece.\<close>

locale block_layout = piece_layout wf count total psize len_of off_of
  for wf :: "'p \<Rightarrow> bool" and count total psize :: "'p \<Rightarrow> nat"
    and len_of :: "'p \<Rightarrow> uint32 \<Rightarrow> 'e + uint32" and off_of :: "'p \<Rightarrow> uint32 \<Rightarrow> 'e + int" +
  fixes bsize :: "'p \<Rightarrow> nat"
    and block_req :: "'p \<Rightarrow> uint32 \<Rightarrow> uint32 \<Rightarrow> 'e + BlockRequest"
  assumes bsize: "wf p \<Longrightarrow> 0 < bsize p"
    and block_req: "wf p \<Longrightarrow> block_req p w b = Inr q \<longleftrightarrow>
      (\<exists>n. len_of p w = Inr n \<and> bsize p dvd unat b \<and> unat b < unat n \<and>
           PieceIndex q = w \<and> Begin q = b \<and>
           unat (BlockLength q) = min (bsize p) (unat n - unat b))"
begin

lemma block_in_piece:
  assumes "wf p" "block_req p w b = Inr q" "len_of p w = Inr n"
  shows "0 < unat (BlockLength q) \<and> unat (BlockLength q) \<le> bsize p \<and>
    unat (Begin q) + unat (BlockLength q) \<le> unat n"
  using assms bsize [of p] by (auto simp: block_req min_def)

lemma block_unique:
  assumes "wf p" "block_req p w b = Inr q" "block_req p w b = Inr q'"
  shows "q = q'"
  using assms by simp

text \<open>In terms of the block's number within its piece.\<close>

lemma block_number:
  assumes "wf p" "block_req p w b = Inr q" "len_of p w = Inr n"
  shows "unat b = unat b div bsize p * bsize p"
    and "unat b div bsize p < pcount (unat n) (bsize p)"
    and "unat (BlockLength q) = plen (unat n) (bsize p) (unat b div bsize p)"
proof -
  show eq: "unat b = unat b div bsize p * bsize p"
    using assms by (auto simp: block_req)
  have "unat b < unat n" and l: "unat (BlockLength q) = min (bsize p) (unat n - unat b)"
    using assms by (auto simp: block_req)
  then show "unat b div bsize p < pcount (unat n) (bsize p)"
    using bsize [OF assms(1)] eq by (simp add: less_pcount)
  show "unat (BlockLength q) = plen (unat n) (bsize p) (unat b div bsize p)"
    using l eq by (simp add: plen_def)
qed

end

end
