(* ===== verification/PieceSet.thy ===== *)
theory PieceSet
  imports Geometry
begin

text \<open>
  The verified view of a torrent's content, \<^verbatim>\<open>src/torrent/pieces.go\<close>: which pieces are complete, the
  partial data of the others, and the operations that assemble, verify, write and read them.
  Operations that change the piece set return the changed set beside their result, also when they
  fail.  A Go panic (an index out of range, or the explicit one in \<^verbatim>\<open>BytesLeft\<close>) is the error
  \<open>GoPanic\<close>; the theorems show where it cannot occur.
\<close>

subsection \<open>State\<close>

record PieceState =
  Complete :: bool
  Data :: "byte list option"  \<comment> \<open>\<open>None\<close> is the nil slice\<close>
  Received :: "bool list"

record PieceSet =
  ps_info :: Info
  ps_states :: "PieceState list"

datatype piece_error =
    NegativeLength
  | NonPositivePieceLength
  | PieceLengthTooBig
  | HashCountMismatch nat int
  | IndexOutOfRange uint32
  | InvalidPieceOffset uint32
  | UnalignedBlock uint32
  | BlockOutsidePiece uint32 uint32
  | InvalidBlockRange uint32
  | AlreadyReceived uint32 uint32
  | FileNotOpen
  | PieceIncomplete uint32
  | ErrPieceHashMismatch uint32
  | PieceUnavailable uint32
  | PieceIo io_error
  | GoPanic

definition blockSize :: uint32 where
  "blockSize = 16 * 1024"

definition newPieceState :: PieceState where
  "newPieceState = \<lparr>Complete = False, Data = None, Received = []\<rparr>"

definition NewPieceSet :: "Info \<Rightarrow> piece_error + PieceSet" where
  "NewPieceSet info =
     (if Length info < 0 then Inl NegativeLength
      else if PieceLength info \<le> 0 then Inl NonPositivePieceLength
      else if PieceLength info > 2 ^ 32 - 1 then Inl PieceLengthTooBig
      else let expected = expectedPieces (Length info) (PieceLength info) in
        if int (length (PieceHashes info)) \<noteq> expected
        then Inl (HashCountMismatch (length (PieceHashes info)) expected)
        else Inr \<lparr>ps_info = info, ps_states = replicate (nat expected) newPieceState\<rparr>)"

subsection \<open>Geometry\<close>

definition ps_Count :: "PieceSet \<Rightarrow> nat" where
  "ps_Count p = length (ps_states p)"

definition ps_CompletedCount :: "PieceSet \<Rightarrow> nat" where
  "ps_CompletedCount p = length (filter Complete (ps_states p))"

text \<open>\<^verbatim>\<open>uint32(len(p.states))\<close>: the count, truncated.\<close>

abbreviation count32 :: "PieceSet \<Rightarrow> uint32" where
  "count32 p \<equiv> of_nat (length (ps_states p))"

definition ps_IsComplete :: "PieceSet \<Rightarrow> uint32 \<Rightarrow> bool" where
  "ps_IsComplete p index \<longleftrightarrow> index < count32 p \<and> Complete (ps_states p ! unat index)"

definition ps_PieceLength :: "PieceSet \<Rightarrow> uint32 \<Rightarrow> piece_error + uint32" where
  "ps_PieceLength p index =
     (if index \<ge> count32 p then Inl (IndexOutOfRange index)
      else let offset = int64 (int (unat index) * PieceLength (ps_info p));
               remaining = int64 (Length (ps_info p) - offset) in
        if remaining \<le> 0 then Inl (InvalidPieceOffset index)
        else Inr (of_int (if remaining < PieceLength (ps_info p) then remaining
                          else PieceLength (ps_info p))))"

definition ps_PieceOffset :: "PieceSet \<Rightarrow> uint32 \<Rightarrow> piece_error + int" where
  "ps_PieceOffset p index =
     (if index \<ge> count32 p then Inl (IndexOutOfRange index)
      else Inr (int64 (int (unat index) * PieceLength (ps_info p))))"

text \<open>The loop of \<^verbatim>\<open>BytesLeft\<close> from piece \<open>i\<close> on; the sum wraps at 64 bits.\<close>

fun bytesLeft_loop :: "PieceSet \<Rightarrow> nat \<Rightarrow> PieceState list \<Rightarrow> uint64 \<Rightarrow> piece_error + uint64" where
  "bytesLeft_loop p i [] left = Inr left"
| "bytesLeft_loop p i (st # sts) left =
     (if Complete st then bytesLeft_loop p (Suc i) sts left
      else case ps_PieceLength p (of_nat i) of
        Inl _ \<Rightarrow> Inl GoPanic
      | Inr len \<Rightarrow> bytesLeft_loop p (Suc i) sts (left + ucast len))"

definition ps_BytesLeft :: "PieceSet \<Rightarrow> piece_error + uint64" where
  "ps_BytesLeft p = bytesLeft_loop p 0 (ps_states p) 0"

definition ps_BytesComplete :: "PieceSet \<Rightarrow> piece_error + uint64" where
  "ps_BytesComplete p =
     bind_r (ps_BytesLeft p) (\<lambda>left. Inr (of_int (Length (ps_info p)) - left))"

definition ps_Complete :: "PieceSet \<Rightarrow> piece_error + bool" where
  "ps_Complete p = bind_r (ps_BytesLeft p) (\<lambda>left. Inr (left = 0))"

definition blockCount :: "uint32 \<Rightarrow> nat" where
  "blockCount pieceLength = unat ((pieceLength - 1) div blockSize + 1)"

definition requestLength :: "uint32 \<Rightarrow> uint32 \<Rightarrow> uint32" where
  "requestLength pieceLength begin =
     (if begin \<ge> pieceLength then 0
      else let remaining = pieceLength - begin in
        if remaining < blockSize then remaining else blockSize)"

definition ps_blockRequest :: "PieceSet \<Rightarrow> uint32 \<Rightarrow> uint32 \<Rightarrow> piece_error + BlockRequest" where
  "ps_blockRequest p index begin =
     (if begin mod blockSize \<noteq> 0 then Inl (UnalignedBlock begin)
      else bind_r (ps_PieceLength p index) (\<lambda>pieceLength.
        let len = requestLength pieceLength begin in
        if len = 0 then Inl (BlockOutsidePiece begin index)
        else Inr \<lparr>PieceIndex = index, Begin = begin, BlockLength = len\<rparr>))"

subsection \<open>Assembling pieces\<close>

definition set_state :: "PieceSet \<Rightarrow> uint32 \<Rightarrow> PieceState \<Rightarrow> PieceSet" where
  "set_state p index st = p\<lparr>ps_states := (ps_states p)[unat index := st]\<rparr>"

definition ps_prepare :: "PieceSet \<Rightarrow> uint32 \<Rightarrow> (piece_error + unit) \<times> PieceSet" where
  "ps_prepare p index =
     (if ps_IsComplete p index then (Inr (), p)
      else if unat index \<ge> length (ps_states p) then (Inl GoPanic, p)
      else let piece = ps_states p ! unat index in
        if Data piece \<noteq> None then (Inr (), p)
        else case ps_PieceLength p index of
          Inl er \<Rightarrow> (Inl er, p)
        | Inr len \<Rightarrow>
            (Inr (), set_state p index
               (piece\<lparr>Data := Some (replicate (unat len) 0),
                      Received := replicate (blockCount len) False\<rparr>)))"

text \<open>The loop over \<^verbatim>\<open>piece.Received\<close> from block \<open>i\<close> on.\<close>

fun nextMissing_loop ::
    "PieceSet \<Rightarrow> uint32 \<Rightarrow> (BlockRequest \<Rightarrow> bool) \<Rightarrow> nat \<Rightarrow> bool list \<Rightarrow> piece_error + BlockRequest option"
where
  "nextMissing_loop p index isPending i [] = Inr None"
| "nextMissing_loop p index isPending i (received # rs) =
     (if received then nextMissing_loop p index isPending (Suc i) rs
      else bind_r (ps_blockRequest p index (of_nat i * blockSize)) (\<lambda>request.
        if \<not> isPending request then Inr (Some request)
        else nextMissing_loop p index isPending (Suc i) rs))"

definition ps_nextMissingBlock ::
    "PieceSet \<Rightarrow> uint32 \<Rightarrow> (BlockRequest \<Rightarrow> bool) \<Rightarrow> (piece_error + BlockRequest option) \<times> PieceSet" where
  "ps_nextMissingBlock p index isPending =
     (case ps_prepare p index of
        (Inl er, p') \<Rightarrow> (Inl er, p')
      | (Inr _, p') \<Rightarrow>
          (nextMissing_loop p' index isPending 0 (Received (ps_states p' ! unat index)), p'))"

definition allBlocksReceived :: "PieceState \<Rightarrow> bool" where
  "allBlocksReceived piece \<longleftrightarrow>
     (case Data piece of None \<Rightarrow> False | Some d \<Rightarrow> d \<noteq> []) \<and> Received piece \<noteq> [] \<and>
     list_all (\<lambda>r. r) (Received piece)"

text \<open>\<^verbatim>\<open>copy(dst[begin:begin+len(src)], src)\<close>.\<close>

definition overwrite :: "byte list \<Rightarrow> nat \<Rightarrow> byte list \<Rightarrow> byte list" where
  "overwrite dst begin src = take begin dst @ src @ drop (begin + length src) dst"

definition ps_StoreBlock ::
    "PieceSet \<Rightarrow> BlockRequest \<Rightarrow> byte list \<Rightarrow> (piece_error + bool) \<times> PieceSet" where
  "ps_StoreBlock p request data =
     (case ps_blockRequest p (PieceIndex request) (Begin request) of
        Inl er \<Rightarrow> (Inl er, p)
      | Inr expected \<Rightarrow>
     if request \<noteq> expected \<or> of_nat (length data) \<noteq> BlockLength request
     then (Inl (InvalidBlockRange (PieceIndex request)), p)
     else case ps_prepare p (PieceIndex request) of
        (Inl er, p') \<Rightarrow> (Inl er, p')
      | (Inr _, p') \<Rightarrow>
     let piece = ps_states p' ! unat (PieceIndex request);
         blockIndex = unat (Begin request div blockSize);
         begin = unat (Begin request) in
     if blockIndex \<ge> length (Received piece) then (Inl GoPanic, p')
     else if Received piece ! blockIndex
     then (Inl (AlreadyReceived (PieceIndex request) (Begin request)), p')
     else case Data piece of
        None \<Rightarrow> (Inl GoPanic, p')
      | Some d \<Rightarrow>
     if begin + length data > length d then (Inl GoPanic, p')
     else let piece' = piece\<lparr>Data := Some (overwrite d begin data),
                             Received := (Received piece)[blockIndex := True]\<rparr> in
       (Inr (allBlocksReceived piece'), set_state p' (PieceIndex request) piece'))"

subsection \<open>Verifying, writing and reading\<close>

definition ps_VerifyAndWrite ::
    "PieceSet \<Rightarrow> uint32 \<Rightarrow> osfile option \<Rightarrow> io_outcome \<Rightarrow> piece_error option \<times> PieceSet \<times> osfile option" where
  "ps_VerifyAndWrite p index f oc =
     (case f of
        None \<Rightarrow> (Some FileNotOpen, p, f)
      | Some content \<Rightarrow>
     if index \<ge> count32 p then (Some (IndexOutOfRange index), p, f)
     else let piece = ps_states p ! unat index in
     if \<not> allBlocksReceived piece then (Some (PieceIncomplete index), p, f)
     else if unat index \<ge> length (PieceHashes (ps_info p)) then (Some GoPanic, p, f)
     else let buf = (case Data piece of None \<Rightarrow> [] | Some d \<Rightarrow> d) in
     if sha1_Sum buf \<noteq> PieceHashes (ps_info p) ! unat index
     then (Some (ErrPieceHashMismatch index),
           set_state p index (piece\<lparr>Data := None, Received := []\<rparr>), f)
     else case ps_PieceOffset p index of
        Inl er \<Rightarrow> (Some er, p, f)
      | Inr offset \<Rightarrow>
     case file_WriteAt content oc buf (nat offset) of
        ((n, err), content') \<Rightarrow>
     (case err of
        Some er \<Rightarrow> (Some (PieceIo er), p, Some content')
      | None \<Rightarrow>
          if n \<noteq> length buf then (Some (PieceIo ErrShortWrite), p, Some content')
          else (None,
                set_state p index (piece\<lparr>Complete := True, Data := None, Received := []\<rparr>),
                Some content')))"

text \<open>The loop of \<^verbatim>\<open>VerifyExisting\<close>; \<open>rd i\<close> is the outcome of reading piece \<open>i\<close>.\<close>

fun verifyExisting_loop ::
    "nat list \<Rightarrow> PieceSet \<Rightarrow> osfile \<Rightarrow> (nat \<Rightarrow> io_outcome) \<Rightarrow> piece_error option \<times> PieceSet"
where
  "verifyExisting_loop [] p content rd = (None, p)"
| "verifyExisting_loop (i # is) p content rd =
     (let index = of_nat i in
      case ps_PieceLength p index of
        Inl er \<Rightarrow> (Some er, p)
      | Inr len \<Rightarrow>
      case ps_PieceOffset p index of
        Inl er \<Rightarrow> (Some er, p)
      | Inr offset \<Rightarrow>
      case file_ReadAt content (rd i) (unat len) (nat offset) of
        (data, err) \<Rightarrow>
      if err \<noteq> None \<and> err \<noteq> Some ErrEOF then (Some (PieceIo (the err)), p)
      else if length data \<noteq> unat len then (Some (PieceIo ErrUnexpectedEOF), p)
      else if unat index \<ge> length (PieceHashes (ps_info p)) then (Some GoPanic, p)
      else if sha1_Sum data \<noteq> PieceHashes (ps_info p) ! unat index
      then (Some (ErrPieceHashMismatch index), p)
      else verifyExisting_loop is
             (set_state p index ((ps_states p ! unat index)\<lparr>Complete := True\<rparr>)) content rd)"

definition ps_VerifyExisting ::
    "PieceSet \<Rightarrow> osfile option \<Rightarrow> (nat \<Rightarrow> io_outcome) \<Rightarrow> piece_error option \<times> PieceSet" where
  "ps_VerifyExisting p f rd =
     (case f of
        None \<Rightarrow> (Some FileNotOpen, p)
      | Some content \<Rightarrow> verifyExisting_loop [0..<length (ps_states p)] p content rd)"

definition ps_ReadBlock ::
    "PieceSet \<Rightarrow> BlockRequest \<Rightarrow> osfile option \<Rightarrow> io_outcome \<Rightarrow> piece_error + byte list" where
  "ps_ReadBlock p request f oc =
     (case f of
        None \<Rightarrow> Inl FileNotOpen
      | Some content \<Rightarrow>
     if \<not> ps_IsComplete p (PieceIndex request) then Inl (PieceUnavailable (PieceIndex request))
     else bind_r (ps_blockRequest p (PieceIndex request) (Begin request)) (\<lambda>expected.
     if request \<noteq> expected then Inl (InvalidBlockRange (PieceIndex request))
     else bind_r (ps_PieceOffset p (PieceIndex request)) (\<lambda>offset.
     case file_ReadAt content oc (unat (BlockLength request))
            (nat (int64 (offset + int (unat (Begin request))))) of
       (data, err) \<Rightarrow>
     if err \<noteq> None \<and> err \<noteq> Some ErrEOF then Inl (PieceIo (the err))
     else if length data \<noteq> unat (BlockLength request) then Inl (PieceIo ErrUnexpectedEOF)
     else Inr data)))"

subsection \<open>Bitfields\<close>

unbundle bit_operations_syntax

definition piece_mask :: "nat \<Rightarrow> byte" where
  "piece_mask index = push_bit (7 - index mod 8) 1"

text \<open>\<^verbatim>\<open>bitCount\<close>: how many of the first \<^verbatim>\<open>pieceCount\<close> bits are set.\<close>

definition bitCount :: "byte list \<Rightarrow> nat \<Rightarrow> nat" where
  "bitCount bits pieceCount =
     length (filter (\<lambda>index. index div 8 < length bits \<and> bits ! (index div 8) AND piece_mask index \<noteq> 0)
       [0..<pieceCount])"

fun piecesBitfield_loop :: "nat list \<Rightarrow> PieceSet \<Rightarrow> byte list \<Rightarrow> byte list" where
  "piecesBitfield_loop [] p bits = bits"
| "piecesBitfield_loop (index # is) p bits =
     (if \<not> ps_IsComplete p (of_nat index) then piecesBitfield_loop is p bits
      else piecesBitfield_loop is p
             (bits[index div 8 := bits ! (index div 8) OR piece_mask index]))"

definition PiecesBitfield :: "PieceSet \<Rightarrow> byte list" where
  "PiecesBitfield p =
     piecesBitfield_loop [0..<ps_Count p] p (replicate ((ps_Count p + 7) div 8) 0)"

end
