(* ===== verification/PieceSet_Laws.thy ===== *)
theory PieceSet_Laws
  imports PieceSet
begin

text \<open>
  What \<^verbatim>\<open>PieceSet\<close> promises: it is a block layout in the sense of \<open>Geometry\<close>, its operations keep
  the well-formedness invariant \<open>wf_ps\<close> and never panic on it, and a piece is marked complete only
  when the file holds data with the expected digest (\<open>verified\<close>).
\<close>

subsection \<open>Well-formedness\<close>

abbreviation ps_total :: "PieceSet \<Rightarrow> nat" where
  "ps_total p \<equiv> nat (Length (ps_info p))"

abbreviation ps_psize :: "PieceSet \<Rightarrow> nat" where
  "ps_psize p \<equiv> nat (PieceLength (ps_info p))"

abbreviation ps_bsize :: "PieceSet \<Rightarrow> nat" where
  "ps_bsize p \<equiv> unat blockSize"

text \<open>The parts that only the constructor decides.  The last conjunct is the one thing
  \<^verbatim>\<open>NewPieceSet\<close> does not check: that the number of pieces fits the 32-bit index of the wire
  protocol (4294967296 hashes would take 80 GiB of metainfo).\<close>

definition wf_geometry :: "PieceSet \<Rightarrow> bool" where
  "wf_geometry p \<longleftrightarrow>
     0 \<le> Length (ps_info p) \<and> in_int64 (Length (ps_info p)) \<and>
     0 < PieceLength (ps_info p) \<and> PieceLength (ps_info p) < 2 ^ 32 \<and>
     length (ps_states p) = pcount (ps_total p) (ps_psize p) \<and>
     length (PieceHashes (ps_info p)) = length (ps_states p) \<and>
     length (ps_states p) < 2 ^ 32"

text \<open>The state of one piece of \<open>n\<close> bytes: nothing held, or a buffer of its size with one flag per
  block; a complete piece holds nothing.\<close>

definition wf_state :: "nat \<Rightarrow> PieceState \<Rightarrow> bool" where
  "wf_state n st \<longleftrightarrow>
     (case Data st of
        None \<Rightarrow> Received st = []
      | Some d \<Rightarrow> \<not> Complete st \<and> length d = n \<and> length (Received st) = pcount n (unat blockSize))"

definition plen_at :: "PieceSet \<Rightarrow> nat \<Rightarrow> nat" where
  "plen_at p i = plen (ps_total p) (ps_psize p) i"

definition wf_ps :: "PieceSet \<Rightarrow> bool" where
  "wf_ps p \<longleftrightarrow>
     wf_geometry p \<and> (\<forall>i < length (ps_states p). wf_state (plen_at p i) (ps_states p ! i))"

lemma unat_blockSize [simp]: "unat blockSize = 16384"
  by (simp add: blockSize_def)

lemma wf_ps_geometry [simp]: "wf_ps p \<Longrightarrow> wf_geometry p"
  by (simp add: wf_ps_def)

lemma unat_count32: "wf_geometry p \<Longrightarrow> unat (count32 p) = length (ps_states p)"
  by (simp add: wf_geometry_def unat_of_nat_small)

lemma less_count32: "wf_geometry p \<Longrightarrow> w < count32 p \<longleftrightarrow> unat w < length (ps_states p)"
  by (simp add: word_less_nat_alt unat_count32)

lemma ge_count32: "wf_geometry p \<Longrightarrow> w \<ge> count32 p \<longleftrightarrow> length (ps_states p) \<le> unat w"
  by (simp add: word_le_nat_alt unat_count32)

lemma ps_offset_exact:
  assumes "wf_geometry p" and "unat w < length (ps_states p)"
  shows "int64 (int (unat w) * PieceLength (ps_info p)) = int (unat w * ps_psize p)"
    and "unat w * ps_psize p < ps_total p"
proof -
  show lt: "unat w * ps_psize p < ps_total p"
    using assms by (simp add: wf_geometry_def less_pcount)
  have "int (unat w) * PieceLength (ps_info p) = int (unat w * ps_psize p)"
    using assms(1) by (simp add: wf_geometry_def)
  moreover have "in_int64 (int (unat w * ps_psize p))"
    using lt assms(1) unfolding wf_geometry_def in_int64_def by linarith
  ultimately show "int64 (int (unat w) * PieceLength (ps_info p)) = int (unat w * ps_psize p)"
    by (simp only: int64_id)
qed

lemma ps_PieceLength_in:
  assumes "wf_geometry p" and "unat w < length (ps_states p)"
  shows "ps_PieceLength p w = Inr (of_nat (plen_at p (unat w)))"
proof -
  define off where "off = int (unat w * ps_psize p)"
  have eq: "int64 (int (unat w) * PieceLength (ps_info p)) = off"
    and lt: "unat w * ps_psize p < ps_total p"
    using ps_offset_exact [OF assms] by (auto simp only: off_def)
  have b: "0 \<le> off" "off < Length (ps_info p)" using lt unfolding off_def by linarith+
  then have rem: "int64 (Length (ps_info p) - off) = Length (ps_info p) - off"
    using assms(1) by (intro int64_id) (simp add: wf_geometry_def in_int64_def)
  have "int (plen_at p (unat w)) = min (int (ps_psize p)) (int (ps_total p) - off)"
    unfolding plen_at_def plen_def off_def of_nat_min of_nat_diff [OF less_imp_le [OF lt]] ..
  then have "(if Length (ps_info p) - off < PieceLength (ps_info p) then Length (ps_info p) - off
         else PieceLength (ps_info p)) = int (plen_at p (unat w))"
    using assms(1) by (simp add: wf_geometry_def min_def)
  moreover have "\<not> count32 p \<le> w" using assms by (simp add: ge_count32)
  ultimately show ?thesis
    using b by (simp only: ps_PieceLength_def eq rem Let_def if_False of_int_of_nat_eq
        diff_le_0_iff_le linorder_not_le [symmetric] simp_thms)
qed

lemma ps_PieceOffset_in:
  assumes "wf_geometry p" and "unat w < length (ps_states p)"
  shows "ps_PieceOffset p w = Inr (int (unat w * ps_psize p))"
proof -
  have "\<not> count32 p \<le> w" using assms by (simp add: ge_count32)
  then show ?thesis by (simp only: ps_PieceOffset_def ps_offset_exact(1) [OF assms] if_False)
qed

lemma ps_out_of_range:
  assumes "wf_geometry p" and "length (ps_states p) \<le> unat w"
  shows "ps_PieceLength p w = Inl (IndexOutOfRange w)"
    and "ps_PieceOffset p w = Inl (IndexOutOfRange w)"
  using assms by (simp_all add: ps_PieceLength_def ps_PieceOffset_def ge_count32)

subsection \<open>Blocks\<close>

lemma unat_mod_blockSize: "b mod blockSize = 0 \<longleftrightarrow> 16384 dvd unat b"
proof -
  have "b mod blockSize = 0 \<longleftrightarrow> unat (b mod blockSize) = 0" by (simp add: unat_eq_0)
  also have "\<dots> \<longleftrightarrow> 16384 dvd unat b" by (simp add: unat_mod dvd_eq_mod_eq_0)
  finally show ?thesis .
qed

lemma unat_requestLength: "unat (requestLength n b) = min 16384 (unat n - unat b)"
proof (cases "n \<le> b")
  case True
  then show ?thesis by (simp add: requestLength_def word_le_nat_alt)
next
  case False
  then have "unat (n - b) = unat n - unat b" by (simp add: unat_sub_if' word_le_nat_alt)
  then show ?thesis
    using False by (auto simp: requestLength_def Let_def word_less_nat_alt min_def)
qed

lemma ps_blockRequest_Inr:
  "ps_blockRequest p w b = Inr q \<longleftrightarrow>
     (\<exists>n. ps_PieceLength p w = Inr n \<and> 16384 dvd unat b \<and> unat b < unat n \<and>
          PieceIndex q = w \<and> Begin q = b \<and> unat (BlockLength q) = min 16384 (unat n - unat b))"
proof -
  have "requestLength n b = 0 \<longleftrightarrow> unat n \<le> unat b" for n
    using unat_requestLength [of n b] by (simp add: unat_eq_0 [symmetric] min_def split: if_splits)
  moreover have "BlockLength q = requestLength n b \<longleftrightarrow> unat (BlockLength q) = min 16384 (unat n - unat b)"
    for n by (simp add: word_unat_eq_iff unat_requestLength)
  moreover have "Inr \<lparr>PieceIndex = w, Begin = b, BlockLength = l\<rparr> = Inr q \<longleftrightarrow>
      PieceIndex q = w \<and> Begin q = b \<and> BlockLength q = l" for l
    by (cases q) auto
  ultimately show ?thesis
    by (cases "ps_PieceLength p w") (auto simp: ps_blockRequest_def unat_mod_blockSize Let_def)
qed

interpretation ps: block_layout wf_geometry ps_Count ps_total ps_psize ps_PieceLength ps_PieceOffset
  ps_bsize ps_blockRequest
proof
  fix p :: PieceSet and w b :: uint32 and q :: BlockRequest
  assume wf: "wf_geometry p"
  show "0 < ps_psize p \<and> ps_psize p < 2 ^ 32"
    using wf by (auto simp: wf_geometry_def)
  show "ps_Count p = pcount (ps_total p) (ps_psize p) \<and> ps_Count p < 2 ^ 32"
    using wf by (auto simp: wf_geometry_def ps_Count_def)
  show "ps_PieceLength p w = Inr (of_nat (plen (ps_total p) (ps_psize p) (unat w)))"
    if "unat w < ps_Count p"
    using ps_PieceLength_in [OF wf] that by (simp add: ps_Count_def plen_at_def)
  show "\<exists>e. ps_PieceLength p w = Inl e" if "ps_Count p \<le> unat w"
    using ps_out_of_range(1) [OF wf] that by (simp add: ps_Count_def)
  show "ps_PieceOffset p w = Inr (int (unat w * ps_psize p))" if "unat w < ps_Count p"
    using ps_PieceOffset_in [OF wf] that by (simp add: ps_Count_def)
  show "\<exists>e. ps_PieceOffset p w = Inl e" if "ps_Count p \<le> unat w"
    using ps_out_of_range(2) [OF wf] that by (simp add: ps_Count_def)
  show "0 < ps_bsize p" by simp
  show "ps_blockRequest p w b = Inr q \<longleftrightarrow>
      (\<exists>n. ps_PieceLength p w = Inr n \<and> ps_bsize p dvd unat b \<and> unat b < unat n \<and>
           PieceIndex q = w \<and> Begin q = b \<and> unat (BlockLength q) = min (ps_bsize p) (unat n - unat b))"
    by (simp add: ps_blockRequest_Inr)
qed

subsection \<open>Construction\<close>

lemma NewPieceSet_wf:
  assumes "NewPieceSet info = Inr p" and "in_int64 (Length info)" and "length (PieceHashes info) < 2 ^ 32"
  shows "wf_ps p" and "ps_info p = info" and "ps_states p = replicate (length (PieceHashes info)) newPieceState"
proof -
  have ok: "0 \<le> Length info" "0 < PieceLength info" "PieceLength info < 2 ^ 32"
    and cnt: "int (length (PieceHashes info)) = expectedPieces (Length info) (PieceLength info)"
    and p: "p = \<lparr>ps_info = info,
      ps_states = replicate (nat (expectedPieces (Length info) (PieceLength info))) newPieceState\<rparr>"
    using assms(1) by (auto simp: NewPieceSet_def Let_def split: if_splits)
  have n: "length (PieceHashes info) = pcount (nat (Length info)) (nat (PieceLength info))"
    using cnt expectedPieces_pcount [OF ok(1) assms(2) ok(2)] by simp
  show "wf_ps p"
    using ok assms n cnt unfolding p
    by (simp add: wf_ps_def wf_geometry_def wf_state_def newPieceState_def flip: cnt)
  show "ps_info p = info" "ps_states p = replicate (length (PieceHashes info)) newPieceState"
    using cnt by (simp_all add: p flip: cnt)
qed

lemma NewPieceSet_valid_info:
  assumes "valid_info info" and "PieceLength info < 2 ^ 32"
  shows "\<exists>p. NewPieceSet info = Inr p"
  using assms by (auto simp: NewPieceSet_def valid_info_def Let_def)

subsection \<open>Bytes left\<close>

definition bytes_missing :: "PieceSet \<Rightarrow> nat" where
  "bytes_missing p = (\<Sum>i < length (ps_states p). if Complete (ps_states p ! i) then 0 else plen_at p i)"

lemma unat_of_nat_index: "wf_geometry p \<Longrightarrow> i < length (ps_states p) \<Longrightarrow> unat (of_nat i :: uint32) = i"
  by (simp add: wf_geometry_def unat_of_nat_small)

lemma plen_at_32: "wf_geometry p \<Longrightarrow> plen_at p i < 2 ^ 32"
  using ps.plen_small by (simp add: plen_at_def)

lemma ucast_plen: "n < 2 ^ 32 \<Longrightarrow> (ucast (of_nat n :: uint32) :: uint64) = of_nat n"
  by (simp add: unsigned_of_nat take_bit_nat_eq_self)

lemma bytesLeft_loop:
  assumes "wf_geometry p"
  shows "i + length sts = length (ps_states p) \<Longrightarrow>
    bytesLeft_loop p i sts left =
      Inr (left + of_nat (\<Sum>j < length sts. if Complete (sts ! j) then 0 else plen_at p (i + j)))"
proof (induction sts arbitrary: i left)
  case Nil
  then show ?case by simp
next
  case (Cons st sts)
  have i: "i < length (ps_states p)" using Cons.prems by simp
  have len: "ps_PieceLength p (of_nat i) = Inr (of_nat (plen_at p i))"
    using ps_PieceLength_in [OF assms, of "of_nat i"] i by (simp add: unat_of_nat_index [OF assms])
  let ?sum = "\<lambda>i sts. \<Sum>j < length sts. if Complete (sts ! j) then 0 else plen_at p (i + j)"
  have sum: "?sum i (st # sts) = (if Complete st then 0 else plen_at p i) + ?sum (Suc i) sts"
    by (simp only: length_Cons sum.lessThan_Suc_shift) (simp cong: if_cong)
  have IH: "bytesLeft_loop p (Suc i) sts l = Inr (l + of_nat (?sum (Suc i) sts))" for l
    using Cons.IH [of "Suc i"] Cons.prems by simp
  show ?case
    unfolding sum bytesLeft_loop.simps len IH sum.case ucast_plen [OF plen_at_32 [OF assms]]
    by (simp del: of_nat_sum add: add.assoc)
qed

lemma ps_BytesLeft_exact: "wf_geometry p \<Longrightarrow> ps_BytesLeft p = Inr (of_nat (bytes_missing p))"
  using bytesLeft_loop [of p 0 "ps_states p" 0] by (simp add: ps_BytesLeft_def bytes_missing_def cong: if_cong)

lemma sum_plen_at: "wf_geometry p \<Longrightarrow> (\<Sum>i < length (ps_states p). plen_at p i) = ps_total p"
  using ps.pieces_sum by (simp add: plen_at_def ps_Count_def)

lemma bytes_missing_le: "wf_geometry p \<Longrightarrow> bytes_missing p \<le> ps_total p"
  using sum_mono [of "{..<length (ps_states p)}"
      "\<lambda>i. if Complete (ps_states p ! i) then 0 else plen_at p i" "plen_at p"]
  by (simp add: bytes_missing_def sum_plen_at)

lemma plen_at_pos: "wf_geometry p \<Longrightarrow> i < length (ps_states p) \<Longrightarrow> 0 < plen_at p i"
  by (auto simp: plen_at_def wf_geometry_def intro: plen_pos)

lemma bytes_missing_0:
  assumes "wf_geometry p"
  shows "bytes_missing p = 0 \<longleftrightarrow> (\<forall>st \<in> set (ps_states p). Complete st)"
proof -
  have "bytes_missing p = 0 \<longleftrightarrow> (\<forall>i < length (ps_states p). \<not> Complete (ps_states p ! i) \<longrightarrow> plen_at p i = 0)"
    by (auto simp: bytes_missing_def)
  also have "\<dots> \<longleftrightarrow> (\<forall>i < length (ps_states p). Complete (ps_states p ! i))"
    using plen_at_pos [OF assms] by (metis less_irrefl)
  also have "\<dots> \<longleftrightarrow> (\<forall>st \<in> set (ps_states p). Complete st)"
    by (simp add: all_set_conv_all_nth)
  finally show ?thesis .
qed

subsection \<open>Updating one piece\<close>

text \<open>Geometry depends on the content information and the number of pieces only.\<close>

lemma set_state_simps [simp]:
  "ps_info (set_state p w st) = ps_info p"
  "length (ps_states (set_state p w st)) = length (ps_states p)"
  "plen_at (set_state p w st) i = plen_at p i"
  by (simp_all add: set_state_def plen_at_def)

lemma set_state_nth:
  "i < length (ps_states p) \<Longrightarrow>
   ps_states (set_state p w st) ! i = (if i = unat w then st else ps_states p ! i)"
  by (simp add: set_state_def nth_list_update)

lemma set_state_geometry [simp]:
  "wf_geometry (set_state p w st) = wf_geometry p"
  "ps_PieceLength (set_state p w st) = ps_PieceLength p"
  "ps_PieceOffset (set_state p w st) = ps_PieceOffset p"
  "ps_blockRequest (set_state p w st) = ps_blockRequest p"
  by (simp_all add: wf_geometry_def ps_PieceLength_def ps_PieceOffset_def ps_blockRequest_def
      fun_eq_iff Let_def cong: if_cong)

lemma set_state_same [simp]: "set_state p w (ps_states p ! unat w) = p"
  by (simp add: set_state_def)

lemma set_state_twice [simp]: "set_state (set_state p w st) w st' = set_state p w st'"
  by (simp add: set_state_def)

lemma wf_ps_state:
  "wf_ps p \<Longrightarrow> i < length (ps_states p) \<Longrightarrow> wf_state (plen_at p i) (ps_states p ! i)"
  by (simp add: wf_ps_def)

lemma wf_ps_set_state:
  assumes "wf_ps p" and "wf_state (plen_at p (unat w)) st"
  shows "wf_ps (set_state p w st)"
  using assms by (simp add: wf_ps_def set_state_nth)

subsection \<open>Preparing a piece\<close>

definition prepared :: "nat \<Rightarrow> PieceState \<Rightarrow> PieceState" where
  "prepared n st =
     (if Complete st \<or> Data st \<noteq> None then st
      else st\<lparr>Data := Some (replicate n 0), Received := replicate (pcount n 16384) False\<rparr>)"

lemma blockCount_pcount:
  assumes "0 < unat n"
  shows "blockCount n = pcount (unat n) 16384"
proof -
  have "unat (n - 1) = unat n - 1" using assms by (simp add: unat_minus_one unat_gt_0)
  then have d: "unat ((n - 1) div blockSize) = (unat n - 1) div 16384" by (simp add: unat_div_distrib)
  moreover have "(unat n - 1) div 16384 + 1 < 2 ^ 32"
    using unat_uint32_bound [of n] by simp
  ultimately have "unat ((n - 1) div blockSize + 1) = (unat n - 1) div 16384 + 1"
    by (subst unat_word_ariths) simp
  then show ?thesis using assms by (simp add: blockCount_def pcount_alt)
qed

lemma ps_prepare_eq:
  assumes "wf_geometry p" and "unat w < length (ps_states p)"
  shows "ps_prepare p w =
    (Inr (), set_state p w (prepared (plen_at p (unat w)) (ps_states p ! unat w)))"
proof -
  let ?n = "plen_at p (unat w)"
  have n: "unat (of_nat ?n :: uint32) = ?n"
    using plen_at_32 [OF assms(1)] by (simp add: unat_of_nat_small)
  have "0 < ?n" using plen_at_pos [OF assms] .
  then have "blockCount (of_nat ?n) = pcount ?n 16384"
    using blockCount_pcount [of "of_nat ?n"] by (simp only: n)
  then show ?thesis
    using assms n
    by (auto simp: ps_prepare_def ps_IsComplete_def less_count32 ps_PieceLength_in prepared_def Let_def)
qed

lemma wf_state_prepared: "wf_state n st \<Longrightarrow> wf_state n (prepared n st)"
  by (auto simp: wf_state_def prepared_def)

lemma prepared_incomplete:
  assumes "wf_state n st" and "\<not> Complete st"
  obtains d where "Data (prepared n st) = Some d" "length d = n"
    "length (Received (prepared n st)) = pcount n 16384" "\<not> Complete (prepared n st)"
  using assms by (cases "Data st") (auto simp: wf_state_def prepared_def)

lemma Complete_prepared [simp]: "Complete (prepared n st) = Complete st"
  by (simp add: prepared_def)

subsection \<open>Storing a block\<close>

definition stored :: "PieceState \<Rightarrow> nat \<Rightarrow> byte list \<Rightarrow> PieceState" where
  "stored st k data =
     (case Data st of
        None \<Rightarrow> st
      | Some d \<Rightarrow> st\<lparr>Data := Some (overwrite d (k * 16384) data), Received := (Received st)[k := True]\<rparr>)"

lemma length_overwrite [simp]:
  "b + length src \<le> length dst \<Longrightarrow> length (overwrite dst b src) = length dst"
  by (simp add: overwrite_def)

lemma wf_state_stored:
  assumes "wf_state n st" and "k < pcount n 16384" and "length data = plen n 16384 k"
  shows "wf_state n (stored st k data)"
proof (cases "Data st")
  case (Some d)
  have "k * 16384 + length data \<le> n" using assms plen_end [of 16384 k n] by simp
  then show ?thesis using assms Some by (simp add: wf_state_def stored_def)
qed (use assms in \<open>simp add: stored_def\<close>)

lemma Complete_stored [simp]: "Complete (stored st k data) = Complete st"
  by (simp add: stored_def split: option.splits)

text \<open>A request that names an existing block of an incomplete piece, with data of its length.\<close>

definition good_block :: "PieceSet \<Rightarrow> BlockRequest \<Rightarrow> byte list \<Rightarrow> bool" where
  "good_block p q data \<longleftrightarrow>
     ps_blockRequest p (PieceIndex q) (Begin q) = Inr q \<and> length data = unat (BlockLength q)"

definition block_no :: "BlockRequest \<Rightarrow> nat" where
  "block_no q = unat (Begin q) div 16384"

lemma good_block_facts:
  assumes "wf_geometry p" and "good_block p q data"
  shows "unat (PieceIndex q) < length (ps_states p)"
    and "block_no q < pcount (plen_at p (unat (PieceIndex q))) 16384"
    and "length data = plen (plen_at p (unat (PieceIndex q))) 16384 (block_no q)"
    and "unat (Begin q) = block_no q * 16384"
proof -
  obtain n where n: "ps_PieceLength p (PieceIndex q) = Inr n"
    using assms(2) by (auto simp: good_block_def ps_blockRequest_Inr)
  then show "unat (PieceIndex q) < length (ps_states p)"
    using ps.len_unat [OF assms(1)] by (auto simp: ps_Count_def)
  have un: "unat n = plen_at p (unat (PieceIndex q))"
    using n ps.len_unat [OF assms(1)] by (auto simp: plen_at_def)
  note num = ps.block_number [OF assms(1) _ n, of "Begin q" q]
  show "block_no q < pcount (plen_at p (unat (PieceIndex q))) 16384"
    and "length data = plen (plen_at p (unat (PieceIndex q))) 16384 (block_no q)"
    and "unat (Begin q) = block_no q * 16384"
    using num assms(2) by (simp_all add: good_block_def block_no_def un)
qed

lemma ps_StoreBlock_good:
  assumes "wf_ps p" and "good_block p q data" and "\<not> Complete (ps_states p ! unat (PieceIndex q))"
  shows "ps_StoreBlock p q data =
    (let st = prepared (plen_at p (unat (PieceIndex q))) (ps_states p ! unat (PieceIndex q));
         st' = stored st (block_no q) data in
     if Received st ! block_no q
     then (Inl (AlreadyReceived (PieceIndex q) (Begin q)), set_state p (PieceIndex q) st)
     else (Inr (allBlocksReceived st'), set_state p (PieceIndex q) st'))"
proof -
  let ?w = "PieceIndex q" and ?n = "plen_at p (unat (PieceIndex q))"
  let ?st = "prepared ?n (ps_states p ! unat ?w)"
  have geo: "wf_geometry p" using assms(1) by simp
  note f = good_block_facts [OF geo assms(2)]
  have e: "ps_blockRequest p ?w (Begin q) = Inr q" "of_nat (length data) = BlockLength q"
    using assms(2) by (simp_all add: good_block_def)
  obtain d where d: "Data ?st = Some d" "length d = ?n" "length (Received ?st) = pcount ?n 16384"
    using prepared_incomplete [OF wf_ps_state [OF assms(1) f(1)] assms(3)] by blast
  have k: "unat (Begin q div blockSize) = block_no q"
    by (simp add: unat_div_distrib block_no_def)
  have "block_no q * 16384 + length data \<le> ?n"
    using f plen_end [of 16384 "block_no q" ?n] by simp
  then show ?thesis
    using f d k e
    by (simp add: ps_StoreBlock_def ps_prepare_eq [OF geo f(1)] set_state_nth stored_def Let_def)
qed

text \<open>Everything \<^verbatim>\<open>StoreBlock\<close> can do on a well-formed set: refuse without effect, panic on a
  complete piece, or store into an incomplete one.\<close>

lemma ps_ReadBlock_no_panic: "ps_ReadBlock p q f oc \<noteq> Inl GoPanic"
  by (auto simp: ps_ReadBlock_def ps_blockRequest_def ps_PieceLength_def ps_PieceOffset_def Let_def
      bind_r_Inl_iff split: option.splits if_splits prod.splits)

lemma ps_StoreBlock_cases:
  assumes "wf_ps p" and "length data < 2 ^ 32"
  obtains (refused) er where "ps_StoreBlock p q data = (Inl er, p)" "er \<noteq> GoPanic" "\<not> good_block p q data"
  | (complete) "good_block p q data" "Complete (ps_states p ! unat (PieceIndex q))"
      "ps_StoreBlock p q data = (Inl GoPanic, p)"
  | (incomplete) "good_block p q data" "\<not> Complete (ps_states p ! unat (PieceIndex q))"
proof (cases "good_block p q data")
  case False
  have "ps_blockRequest p (PieceIndex q) (Begin q) \<noteq> Inr q \<or> of_nat (length data) \<noteq> BlockLength q"
    using False unat_of_nat_small [where 'a = 32, of "length data"] assms(2)
    by (auto simp: good_block_def)
  moreover have "ps_blockRequest p (PieceIndex q) (Begin q) \<noteq> Inl GoPanic"
    by (auto simp: ps_blockRequest_def ps_PieceLength_def Let_def bind_r_Inl_iff split: if_splits)
  ultimately have "\<exists>er. ps_StoreBlock p q data = (Inl er, p) \<and> er \<noteq> GoPanic"
    by (cases "ps_blockRequest p (PieceIndex q) (Begin q)") (auto simp: ps_StoreBlock_def)
  then show ?thesis using refused False by blast
next
  case good: True
  show ?thesis
  proof (cases "Complete (ps_states p ! unat (PieceIndex q))")
    case True
    have geo: "wf_geometry p" using assms(1) by simp
    note w = good_block_facts(1) [OF geo good]
    have "Received (ps_states p ! unat (PieceIndex q)) = []"
      using wf_ps_state [OF assms(1) w] True by (auto simp: wf_state_def split: option.splits)
    then have "ps_StoreBlock p q data = (Inl GoPanic, p)"
      using good True
      by (simp add: ps_StoreBlock_def good_block_def ps_prepare_eq [OF geo w] prepared_def)
    then show ?thesis using complete good True by blast
  qed (use incomplete good in blast)
qed

lemma wf_ps_StoreBlock:
  assumes "wf_ps p" and "length data < 2 ^ 32"
  shows "wf_ps (snd (ps_StoreBlock p q data))"
  using assms
proof (cases rule: ps_StoreBlock_cases [where q = q])
  case incomplete
  note f = good_block_facts [OF wf_ps_geometry [OF assms(1)] incomplete(1)]
  let ?st = "prepared (plen_at p (unat (PieceIndex q))) (ps_states p ! unat (PieceIndex q))"
  have "wf_state (plen_at p (unat (PieceIndex q))) ?st"
    by (intro wf_state_prepared wf_ps_state assms f)
  then show ?thesis
    using assms(1) f
    by (simp add: ps_StoreBlock_good [OF assms(1) incomplete] Let_def wf_ps_set_state wf_state_stored)
qed (use assms in auto)

lemma ps_StoreBlock_frame:
  assumes "wf_ps p" and "length data < 2 ^ 32"
  shows "ps_info (snd (ps_StoreBlock p q data)) = ps_info p"
    and "length (ps_states (snd (ps_StoreBlock p q data))) = length (ps_states p)"
    and "i < length (ps_states p) \<Longrightarrow>
      Complete (ps_states (snd (ps_StoreBlock p q data)) ! i) = Complete (ps_states p ! i)"
    and "i < length (ps_states p) \<Longrightarrow> i \<noteq> unat (PieceIndex q) \<Longrightarrow>
      ps_states (snd (ps_StoreBlock p q data)) ! i = ps_states p ! i"
  using assms
  by (cases rule: ps_StoreBlock_cases [where q = q];
      simp add: ps_StoreBlock_good Let_def set_state_nth)+

subsection \<open>Assembling a piece from its blocks\<close>

text \<open>Every block received so far agrees with the content \<open>c\<close> of the piece.\<close>

definition agrees :: "byte list \<Rightarrow> PieceState \<Rightarrow> bool" where
  "agrees c st \<longleftrightarrow>
     (case Data st of
        None \<Rightarrow> True
      | Some d \<Rightarrow> \<forall>k < length (Received st). Received st ! k \<longrightarrow>
          (\<forall>x. k * 16384 \<le> x \<longrightarrow> x < k * 16384 + plen (length c) 16384 k \<longrightarrow> d ! x = c ! x))"

definition block_of :: "byte list \<Rightarrow> nat \<Rightarrow> byte list" where
  "block_of c k = take (plen (length c) 16384 k) (drop (k * 16384) c)"

lemma nth_overwrite:
  assumes "b + length src \<le> length dst" and "x < length dst"
  shows "overwrite dst b src ! x = (if b \<le> x \<and> x < b + length src then src ! (x - b) else dst ! x)"
proof -
  consider "x < b" | "b \<le> x" "x < b + length src" | "b + length src \<le> x" by linarith
  then show ?thesis
    using assms by cases (auto simp: overwrite_def nth_append min_def)
qed

lemma agrees_prepared:
  assumes "agrees c st"
  shows "agrees c (prepared n st)"
  using assms by (simp add: agrees_def prepared_def)

lemma agrees_stored:
  assumes "agrees c st" and "wf_state (length c) st" and "k < pcount (length c) 16384"
  shows "agrees c (stored st k (block_of c k))"
proof (cases "Data st")
  case None
  then show ?thesis using assms(1) by (simp add: stored_def)
next
  case (Some d)
  have d: "length d = length c" "length (Received st) = pcount (length c) 16384"
    using assms(2) Some by (auto simp: wf_state_def)
  have e: "k * 16384 + plen (length c) 16384 k \<le> length c"
    using plen_end [of 16384 k "length c"] assms(3) by simp
  then have lb: "length (block_of c k) = plen (length c) 16384 k" by (simp add: block_of_def)
  have "overwrite d (k * 16384) (block_of c k) ! x = c ! x"
    if j: "j < pcount (length c) 16384" "(Received st)[k := True] ! j"
      and x: "j * 16384 \<le> x" "x < j * 16384 + plen (length c) 16384 j" for j x
  proof -
    have xl: "x < length c" using x plen_end [of 16384 j "length c"] j(1) by simp
    show ?thesis
    proof (cases "k * 16384 \<le> x \<and> x < k * 16384 + plen (length c) 16384 k")
      case True
      then show ?thesis using xl d e lb by (auto simp: nth_overwrite block_of_def less_diff_conv2)
    next
      case False
      then have "j \<noteq> k" using x by auto
      then have "Received st ! j" using j d(2) by simp
      then show ?thesis
        using False assms(1) j x xl d e lb Some by (auto simp: agrees_def nth_overwrite)
    qed
  qed
  then show ?thesis using Some d by (simp add: agrees_def stored_def)
qed

lemma agrees_all_received:
  assumes "agrees c st" and "wf_state (length c) st" and "allBlocksReceived st"
  shows "Data st = Some c"
proof -
  obtain d where d: "Data st = Some d" "length d = length c"
    "length (Received st) = pcount (length c) 16384"
    using assms(2,3) by (auto simp: wf_state_def allBlocksReceived_def split: option.splits)
  have all: "Received st ! k" if "k < length (Received st)" for k
    using assms(3) that by (auto simp: allBlocksReceived_def list_all_length)
  have "d ! x = c ! x" if lt: "x < length c" for x
  proof -
    obtain k where "k < pcount (length c) 16384" "k * 16384 \<le> x"
        "x < k * 16384 + plen (length c) 16384 k"
      using plen_unique [OF _ lt, of 16384] by (auto elim!: ex1E)
    then show ?thesis using assms(1) d all by (simp add: agrees_def)
  qed
  then show ?thesis using d by (simp add: nth_equalityI)
qed

definition store_blocks :: "PieceSet \<Rightarrow> (BlockRequest \<times> byte list) list \<Rightarrow> PieceSet" where
  "store_blocks p qs = fold (\<lambda>(q, data) p. snd (ps_StoreBlock p q data)) qs p"

lemma good_block_frame:
  assumes "wf_ps p" and "length data < 2 ^ 32"
  shows "good_block (snd (ps_StoreBlock p q data)) = good_block p"
    and "plen_at (snd (ps_StoreBlock p q data)) i = plen_at p i"
  using assms
  by (cases rule: ps_StoreBlock_cases [where q = q];
      simp add: ps_StoreBlock_good Let_def good_block_def fun_eq_iff)+

text \<open>Block \<open>k\<close> of piece \<open>i\<close> has arrived.\<close>

definition has_block :: "PieceSet \<Rightarrow> nat \<Rightarrow> nat \<Rightarrow> bool" where
  "has_block p i k \<longleftrightarrow> Data (ps_states p ! i) \<noteq> None \<and> Received (ps_states p ! i) ! k"

lemma has_block_stored:
  "Data (stored st k data) = None \<longleftrightarrow> Data st = None"
  "Data st = Some d \<Longrightarrow> j < length (Received st) \<Longrightarrow>
   Received (stored st k data) ! j \<longleftrightarrow> j = k \<or> Received st ! j"
  by (cases "j = k"; auto simp: stored_def split: option.splits)+

lemma has_block_StoreBlock:
  assumes "wf_ps p" and "length data < 2 ^ 32" and "i < length (ps_states p)"
    and "\<not> Complete (ps_states p ! i)" and "k < pcount (plen_at p i) 16384"
  shows "has_block p i k \<Longrightarrow> has_block (snd (ps_StoreBlock p q data)) i k"
    and "good_block p q data \<Longrightarrow> unat (PieceIndex q) = i \<Longrightarrow> block_no q = k \<Longrightarrow>
      has_block (snd (ps_StoreBlock p q data)) i k"
proof -
  obtain d where d: "Data (prepared (plen_at p i) (ps_states p ! i)) = Some d"
    "length (Received (prepared (plen_at p i) (ps_states p ! i))) = pcount (plen_at p i) 16384"
    using prepared_incomplete [OF wf_ps_state [OF assms(1,3)] assms(4)] by blast
  have p0: "has_block p i k \<Longrightarrow> Received (prepared (plen_at p i) (ps_states p ! i)) ! k"
    by (auto simp: has_block_def prepared_def)
  show "has_block p i k \<Longrightarrow> has_block (snd (ps_StoreBlock p q data)) i k"
    using assms(1,2)
  proof (cases rule: ps_StoreBlock_cases [where q = q])
    case incomplete
    assume h: "has_block p i k"
    show ?thesis
    proof (cases "unat (PieceIndex q) = i")
      case True
      then show ?thesis
        using d p0 [OF h] assms(3,5) ps_StoreBlock_good [OF assms(1) incomplete]
        by (auto simp: has_block_def Let_def set_state_nth has_block_stored simp del: not_None_eq)
    next
      case False
      then show ?thesis
        using h ps_StoreBlock_frame(4) [OF assms(1,2,3)] by (auto simp: has_block_def)
    qed
  qed auto
  show "good_block p q data \<Longrightarrow> unat (PieceIndex q) = i \<Longrightarrow> block_no q = k \<Longrightarrow>
      has_block (snd (ps_StoreBlock p q data)) i k"
    using d assms(3-5) ps_StoreBlock_good [OF assms(1)]
    by (auto simp: has_block_def Let_def set_state_nth has_block_stored simp del: not_None_eq)
qed

lemma agrees_StoreBlock:
  assumes "wf_ps p" and "length data < 2 ^ 32" and "i < length (ps_states p)"
    and "agrees c (ps_states p ! i)" and "length c = plen_at p i"
    and "good_block p q data \<Longrightarrow> unat (PieceIndex q) = i \<Longrightarrow> data = block_of c (block_no q)"
  shows "agrees c (ps_states (snd (ps_StoreBlock p q data)) ! i)"
  using assms(1,2)
proof (cases rule: ps_StoreBlock_cases [where q = q])
  case incomplete
  note f = good_block_facts [OF wf_ps_geometry [OF assms(1)] incomplete(1)]
  show ?thesis
  proof (cases "unat (PieceIndex q) = i")
    case True
    let ?st = "prepared (plen_at p i) (ps_states p ! i)"
    have "wf_state (length c) ?st"
      using wf_state_prepared [OF wf_ps_state [OF assms(1,3)]] assms(5) by simp
    then have "agrees c (stored ?st (block_no q) (block_of c (block_no q)))"
      using agrees_prepared [OF assms(4)] f(2) True assms(5) by (intro agrees_stored) auto
    then show ?thesis
      using True assms(3,6) agrees_prepared [OF assms(4)] incomplete(1)
        ps_StoreBlock_good [OF assms(1) incomplete]
      by (auto simp: Let_def set_state_nth)
  next
    case False
    then show ?thesis using ps_StoreBlock_frame(4) [OF assms(1,2,3)] assms(4) by auto
  qed
qed (use assms in auto)

lemma store_blocks_assemble:
  assumes "wf_ps p" and "i < length (ps_states p)" and "\<not> Complete (ps_states p ! i)"
    and "agrees c (ps_states p ! i)" and "length c = plen_at p i"
    and "\<forall>(q, data) \<in> set qs. length data < 2 ^ 32 \<and>
      (good_block p q data \<and> unat (PieceIndex q) = i \<longrightarrow> data = block_of c (block_no q))"
  shows "wf_ps (store_blocks p qs) \<and> length (ps_states (store_blocks p qs)) = length (ps_states p) \<and>
    plen_at (store_blocks p qs) i = plen_at p i \<and>
    \<not> Complete (ps_states (store_blocks p qs) ! i) \<and> agrees c (ps_states (store_blocks p qs) ! i) \<and>
    (\<forall>k < pcount (plen_at p i) 16384.
       has_block p i k \<or> (\<exists>(q, data) \<in> set qs. good_block p q data \<and> unat (PieceIndex q) = i \<and> block_no q = k) \<longrightarrow>
       has_block (store_blocks p qs) i k)"
  using assms
proof (induction qs arbitrary: p)
  case Nil
  then show ?case by (simp add: store_blocks_def)
next
  case (Cons qd qs)
  obtain q data where qd: "qd = (q, data)" by (cases qd)
  have len: "length data < 2 ^ 32"
    and ok: "good_block p q data \<Longrightarrow> unat (PieceIndex q) = i \<Longrightarrow> data = block_of c (block_no q)"
    using Cons.prems(6) qd by auto
  let ?p = "snd (ps_StoreBlock p q data)"
  note wf = Cons.prems(1) and i = Cons.prems(2)
  note fr = ps_StoreBlock_frame [OF wf len, where q = q] good_block_frame [OF wf len, where q = q]
  have IH: "wf_ps (store_blocks ?p qs) \<and> length (ps_states (store_blocks ?p qs)) = length (ps_states p) \<and>
      plen_at (store_blocks ?p qs) i = plen_at p i \<and>
      \<not> Complete (ps_states (store_blocks ?p qs) ! i) \<and> agrees c (ps_states (store_blocks ?p qs) ! i) \<and>
      (\<forall>k < pcount (plen_at p i) 16384.
        has_block ?p i k \<or> (\<exists>(q, data) \<in> set qs. good_block p q data \<and> unat (PieceIndex q) = i \<and> block_no q = k) \<longrightarrow>
        has_block (store_blocks ?p qs) i k)"
    using Cons.IH [of ?p] wf_ps_StoreBlock [OF wf len] agrees_StoreBlock [OF wf len i Cons.prems(4,5) ok]
      Cons.prems fr by simp
  moreover have "has_block ?p i k"
    if "k < pcount (plen_at p i) 16384"
      "has_block p i k \<or> good_block p q data \<and> unat (PieceIndex q) = i \<and> block_no q = k" for k
    using has_block_StoreBlock [OF wf len i Cons.prems(3) that(1), of q] that(2) by auto
  moreover have "store_blocks p (qd # qs) = store_blocks ?p qs"
    by (simp add: store_blocks_def qd)
  ultimately show ?case by (auto simp: qd)
qed

subsection \<open>Verification\<close>

text \<open>The file range of piece \<open>i\<close>, and the central invariant: every piece marked complete lies in
  the file with the digest the metainfo promises.\<close>

definition piece_bytes :: "PieceSet \<Rightarrow> osfile \<Rightarrow> nat \<Rightarrow> byte list" where
  "piece_bytes p f i = take (plen_at p i) (drop (i * ps_psize p) f)"

definition verified :: "PieceSet \<Rightarrow> osfile \<Rightarrow> bool" where
  "verified p f \<longleftrightarrow>
     (\<forall>i < length (ps_states p). Complete (ps_states p ! i) \<longrightarrow>
        length (piece_bytes p f i) = plen_at p i \<and>
        sha1_Sum (piece_bytes p f i) = PieceHashes (ps_info p) ! i)"

lemma piece_bytes_set_state [simp]: "piece_bytes (set_state p w st) f i = piece_bytes p f i"
  by (simp add: piece_bytes_def)

text \<open>Writing no more than a piece at its offset leaves every other complete piece alone.\<close>

lemma piece_bytes_other:
  assumes "wf_geometry p" and "i < length (ps_states p)" and "i \<noteq> j"
    and "length data \<le> plen_at p j" and "length (piece_bytes p f i) = plen_at p i"
  shows "piece_bytes p (file_put f (j * ps_psize p) data) i = piece_bytes p f i"
proof -
  have P: "0 < ps_psize p" using assms(1) by (simp add: wf_geometry_def)
  have "i * ps_psize p + plen_at p i \<le> j * ps_psize p \<or> j * ps_psize p + length data \<le> i * ps_psize p"
    using assms(3,4) plen_disjoint [OF P, of i j "ps_total p"] plen_disjoint [OF P, of j i "ps_total p"]
    by (auto simp: plen_at_def linorder_neq_iff)
  moreover have "i * ps_psize p + plen_at p i \<le> length f"
    using assms(5) plen_at_pos [OF assms(1,2)] by (auto simp: piece_bytes_def min_def split: if_splits)
  ultimately show ?thesis
    unfolding piece_bytes_def by (intro file_put_disjoint) auto
qed

lemma piece_bytes_own:
  "length data = plen_at p i \<Longrightarrow> piece_bytes p (file_put f (i * ps_psize p) data) i = data"
  using file_put_read [of data "i * ps_psize p" f] by (simp add: piece_bytes_def)

lemma verified_write:
  assumes "wf_geometry p" and "verified p f" and "length data \<le> plen_at p (unat w)"
    and "Complete st \<Longrightarrow> length data = plen_at p (unat w) \<and> sha1_Sum data = PieceHashes (ps_info p) ! unat w"
  shows "verified (set_state p w st) (file_put f (unat w * ps_psize p) data)"
  unfolding verified_def
proof (intro allI impI)
  fix i
  assume "i < length (ps_states (set_state p w st))" and c: "Complete (ps_states (set_state p w st) ! i)"
  then have i: "i < length (ps_states p)" by simp
  show "length (piece_bytes (set_state p w st) (file_put f (unat w * ps_psize p) data) i) =
      plen_at (set_state p w st) i \<and>
    sha1_Sum (piece_bytes (set_state p w st) (file_put f (unat w * ps_psize p) data) i) =
      PieceHashes (ps_info (set_state p w st)) ! i"
  proof (cases "i = unat w")
    case True
    then show ?thesis using c i assms(4) by (simp add: set_state_nth piece_bytes_own)
  next
    case False
    then have "length (piece_bytes p f i) = plen_at p i \<and> sha1_Sum (piece_bytes p f i) = PieceHashes (ps_info p) ! i"
      using c i assms(2) by (simp add: set_state_nth verified_def)
    then show ?thesis using piece_bytes_other [OF assms(1) i False assms(3)] by simp
  qed
qed

lemma verified_set_state:
  "verified p f \<Longrightarrow> \<not> Complete st \<Longrightarrow> verified (set_state p w st) f"
  by (auto simp: verified_def set_state_nth)

text \<open>A \<^verbatim>\<open>WriteAt\<close> writes a prefix of its data; it writes all of it when it says so.\<close>

lemma file_WriteAt_cases:
  obtains n err k where "file_WriteAt f oc data off = ((n, err), file_put f off (take k data))"
    "err = None \<Longrightarrow> n = length data \<Longrightarrow> take k data = data"
proof (cases oc)
  case IoOk
  then show ?thesis using that [of "length data" None "length data"] by (simp add: file_WriteAt_def)
qed (use that in \<open>auto simp: file_WriteAt_def\<close>)

lemma received_incomplete:
  assumes "wf_ps p" and "i < length (ps_states p)" and "allBlocksReceived (ps_states p ! i)"
  obtains d where "Data (ps_states p ! i) = Some d" "length d = plen_at p i"
    "\<not> Complete (ps_states p ! i)"
  using wf_ps_state [OF assms(1,2)] assms(3)
  by (auto simp: wf_state_def allBlocksReceived_def split: option.splits)

text \<open>What \<^verbatim>\<open>VerifyAndWrite\<close> can do with an assembled piece \<open>d\<close>.\<close>

lemma ps_VerifyAndWrite_cases:
  assumes "wf_ps p"
  obtains (refused) er where "ps_VerifyAndWrite p w (Some f) oc = (Some er, p, Some f)"
      "er = IndexOutOfRange w \<or> er = PieceIncomplete w"
      "unat w < length (ps_states p) \<Longrightarrow> \<not> allBlocksReceived (ps_states p ! unat w)"
  | (mismatch) d where "unat w < length (ps_states p)" "Data (ps_states p ! unat w) = Some d"
      "sha1_Sum d \<noteq> PieceHashes (ps_info p) ! unat w"
      "ps_VerifyAndWrite p w (Some f) oc = (Some (ErrPieceHashMismatch w),
         set_state p w ((ps_states p ! unat w)\<lparr>Data := None, Received := []\<rparr>), Some f)"
  | (failed) d k er where "unat w < length (ps_states p)" "allBlocksReceived (ps_states p ! unat w)"
      "Data (ps_states p ! unat w) = Some d"
      "length d = plen_at p (unat w)" "sha1_Sum d = PieceHashes (ps_info p) ! unat w"
      "ps_VerifyAndWrite p w (Some f) oc =
         (Some (PieceIo er), p, Some (file_put f (unat w * ps_psize p) (take k d)))"
  | (written) d where "unat w < length (ps_states p)" "Data (ps_states p ! unat w) = Some d"
      "length d = plen_at p (unat w)" "sha1_Sum d = PieceHashes (ps_info p) ! unat w"
      "ps_VerifyAndWrite p w (Some f) oc = (None,
         set_state p w ((ps_states p ! unat w)\<lparr>Complete := True, Data := None, Received := []\<rparr>),
         Some (file_put f (unat w * ps_psize p) d))"
proof -
  have geo: "wf_geometry p" using assms by simp
  have hashes: "length (PieceHashes (ps_info p)) = length (ps_states p)"
    using geo by (simp add: wf_geometry_def)
  show ?thesis
  proof (cases "unat w < length (ps_states p) \<and> allBlocksReceived (ps_states p ! unat w)")
    case False
    then have "\<exists>er. ps_VerifyAndWrite p w (Some f) oc = (Some er, p, Some f) \<and>
        (er = IndexOutOfRange w \<or> er = PieceIncomplete w)"
      by (cases "unat w < length (ps_states p)")
        (simp_all add: ps_VerifyAndWrite_def ge_count32 [OF geo] Let_def)
    then show ?thesis using refused False by blast
  next
    case True
    then have w: "unat w < length (ps_states p)" and all: "allBlocksReceived (ps_states p ! unat w)"
      by auto
    obtain d where d: "Data (ps_states p ! unat w) = Some d" "length d = plen_at p (unat w)"
      using received_incomplete [OF assms w all] by blast
    have off: "ps_PieceOffset p w = Inr (int (unat w * ps_psize p))"
      using ps_PieceOffset_in [OF geo w] .
    obtain n err k where wr: "file_WriteAt f oc d (unat w * ps_psize p) =
        ((n, err), file_put f (unat w * ps_psize p) (take k d))"
      and full: "err = None \<Longrightarrow> n = length d \<Longrightarrow> take k d = d"
      using file_WriteAt_cases by blast
    note step = ps_VerifyAndWrite_def [of p w "Some f" oc]
    have pre: "ps_VerifyAndWrite p w (Some f) oc =
      (if sha1_Sum d \<noteq> PieceHashes (ps_info p) ! unat w
       then (Some (ErrPieceHashMismatch w),
             set_state p w ((ps_states p ! unat w)\<lparr>Data := None, Received := []\<rparr>), Some f)
       else case err of
         Some er \<Rightarrow> (Some (PieceIo er), p, Some (file_put f (unat w * ps_psize p) (take k d)))
       | None \<Rightarrow> if n \<noteq> length d
           then (Some (PieceIo ErrShortWrite), p, Some (file_put f (unat w * ps_psize p) (take k d)))
           else (None, set_state p w ((ps_states p ! unat w)\<lparr>Complete := True, Data := None, Received := []\<rparr>),
             Some (file_put f (unat w * ps_psize p) (take k d))))"
      using w all d hashes by (simp add: step ge_count32 [OF geo] Let_def off wr flip: of_nat_mult
          split: option.split)
    show ?thesis
    proof (cases "sha1_Sum d = PieceHashes (ps_info p) ! unat w")
      case False
      then show ?thesis using mismatch [OF w d(1)] pre by simp
    next
      case True
      then show ?thesis
        using failed [OF w all d True] written [OF w d True] pre full by (auto split: option.splits if_splits)
    qed
  qed
qed

end
