(* ===== verification/PieceSet_Correct.thy ===== *)
theory PieceSet_Correct
  imports PieceSet_Laws
begin

text \<open>
  The correctness theorems of the piece set: accounting of bytes, assembly of pieces from blocks in
  any order, verification against the metainfo under every outcome of the file operations, serving
  of blocks, choice of the next block to request, and the bitfield announced to peers.
\<close>

subsection \<open>Reading blocks\<close>

lemma file_ReadAt_full:
  assumes "file_ReadAt f oc n off = (data, err)" and "err = None \<or> err = Some ErrEOF" and "length data = n"
  shows "data = take n (drop off f)"
  using assms
  by (auto simp: file_ReadAt_def Let_def min_def split: io_outcome.splits if_splits)

text \<open>Inside a piece, the position of a block is its offset from the start of the piece.\<close>

definition block_pos :: "PieceSet \<Rightarrow> BlockRequest \<Rightarrow> nat" where
  "block_pos p q = unat (PieceIndex q) * ps_psize p + unat (Begin q)"

lemma good_block_pos:
  assumes "wf_geometry p" and "ps_blockRequest p (PieceIndex q) (Begin q) = Inr q"
  shows "unat (PieceIndex q) < length (ps_states p)"
    and "unat (Begin q) + unat (BlockLength q) \<le> plen_at p (unat (PieceIndex q))"
    and "int64 (int (unat (PieceIndex q) * ps_psize p) + int (unat (Begin q))) = int (block_pos p q)"
proof -
  have g: "good_block p q (replicate (unat (BlockLength q)) 0)" using assms(2) by (simp add: good_block_def)
  note f = good_block_facts [OF assms(1) g]
  show w: "unat (PieceIndex q) < length (ps_states p)" by (rule f(1))
  show e: "unat (Begin q) + unat (BlockLength q) \<le> plen_at p (unat (PieceIndex q))"
    using f plen_end [of 16384 "block_no q" "plen_at p (unat (PieceIndex q))"] by simp
  have "0 < plen (plen_at p (unat (PieceIndex q))) 16384 (block_no q)" using f(2) by (simp add: plen_pos)
  then have "unat (Begin q) < plen_at p (unat (PieceIndex q))" using e f(3) by simp
  moreover have "unat (PieceIndex q) * ps_psize p + plen_at p (unat (PieceIndex q)) \<le> ps_total p"
    using w assms(1) unfolding plen_at_def by (intro plen_end) (auto simp: wf_geometry_def)
  ultimately have "block_pos p q < ps_total p" unfolding block_pos_def by linarith
  then have "in_int64 (int (block_pos p q))"
    using assms(1) unfolding wf_geometry_def in_int64_def by linarith
  then show "int64 (int (unat (PieceIndex q) * ps_psize p) + int (unat (Begin q))) = int (block_pos p q)"
    unfolding block_pos_def of_nat_add [symmetric] by (rule int64_id)
qed

lemma ps_ReadBlock_complete:
  assumes "wf_geometry p" and "ps_blockRequest p (PieceIndex q) (Begin q) = Inr q"
    and "ps_IsComplete p (PieceIndex q)"
  shows "ps_ReadBlock p q (Some f) oc =
    (case file_ReadAt f oc (unat (BlockLength q)) (block_pos p q) of (data, err) \<Rightarrow>
       if err \<noteq> None \<and> err \<noteq> Some ErrEOF then Inl (PieceIo (the err))
       else if length data \<noteq> unat (BlockLength q) then Inl (PieceIo ErrUnexpectedEOF)
       else Inr data)"
  using assms(2,3) unfolding ps_ReadBlock_def ps_PieceOffset_in [OF assms(1) good_block_pos(1) [OF assms(1,2)]]
  by (simp only: option.case bind_r.simps good_block_pos(3) [OF assms(1,2)] nat_int simp_thms if_True if_False)

lemma ps_ReadBlock_Inr:
  assumes "wf_geometry p" and "ps_ReadBlock p q (Some f) oc = Inr data"
  shows "ps_IsComplete p (PieceIndex q)" and "good_block p q data"
    and "data = take (unat (BlockLength q)) (drop (block_pos p q) f)"
proof -
  show c: "ps_IsComplete p (PieceIndex q)" using assms(2) by (auto simp: ps_ReadBlock_def split: if_splits)
  have r: "ps_blockRequest p (PieceIndex q) (Begin q) = Inr q"
    using assms(2) by (auto simp: ps_ReadBlock_def bind_r_iffs split: if_splits)
  have "length data = unat (BlockLength q) \<and> data = take (unat (BlockLength q)) (drop (block_pos p q) f)"
    using assms(2) ps_ReadBlock_complete [OF assms(1) r c, of f oc] file_ReadAt_full
    by (fastforce split: prod.splits if_splits)
  then show "good_block p q data" and "data = take (unat (BlockLength q)) (drop (block_pos p q) f)"
    using r unfolding good_block_def by blast+
qed

subsection \<open>Choosing the next block\<close>

text \<open>The request for block \<open>k\<close> of piece \<open>w\<close>.\<close>

definition request_no :: "PieceSet \<Rightarrow> uint32 \<Rightarrow> nat \<Rightarrow> BlockRequest" where
  "request_no p w k =
     \<lparr>PieceIndex = w, Begin = of_nat (k * 16384), BlockLength = of_nat (plen (plen_at p (unat w)) 16384 k)\<rparr>"

lemma ps_blockRequest_no:
  assumes "wf_geometry p" and "unat w < length (ps_states p)" and "k < pcount (plen_at p (unat w)) 16384"
  shows "ps_blockRequest p w (of_nat k * blockSize) = Inr (request_no p w k)"
    and "block_no (request_no p w k) = k"
proof -
  let ?n = "plen_at p (unat w)"
  have lt: "k * 16384 < ?n" using assms(3) by (simp add: less_pcount)
  then have "k * 16384 < 2 ^ 32" using plen_at_32 [OF assms(1), of "unat w"] by linarith
  then have b: "unat (of_nat (k * 16384) :: uint32) = k * 16384" by (intro unat_of_nat_small) simp
  have m: "(of_nat k * blockSize :: uint32) = of_nat (k * 16384)" by (simp add: blockSize_def)
  have "plen ?n 16384 k < 2 ^ 32" using plen_le [of ?n 16384 k] by simp
  then have l: "unat (of_nat (plen ?n 16384 k) :: uint32) = plen ?n 16384 k" by (simp add: unat_of_nat_small)
  have "unat (of_nat ?n :: uint32) = ?n" using plen_at_32 [OF assms(1)] by (simp add: unat_of_nat_small)
  then show "ps_blockRequest p w (of_nat k * blockSize) = Inr (request_no p w k)"
    unfolding m ps_blockRequest_Inr ps_PieceLength_in [OF assms(1,2)]
    using b l lt by (auto simp: request_no_def plen_def)
  show "block_no (request_no p w k) = k" using b by (simp add: block_no_def request_no_def)
qed

lemma nextMissing_loop_eq:
  assumes "wf_geometry p" and "unat w < length (ps_states p)"
  shows "i + length rs \<le> pcount (plen_at p (unat w)) 16384 \<Longrightarrow>
    nextMissing_loop p w isPending i rs =
      Inr (map_option (\<lambda>k. request_no p w k)
        (List.find (\<lambda>k. \<not> rs ! (k - i) \<and> \<not> isPending (request_no p w k)) [i..<i + length rs]))"
proof (induction rs arbitrary: i)
  case Nil
  then show ?case by simp
next
  case (Cons r rs)
  have i: "i < pcount (plen_at p (unat w)) 16384" using Cons.prems by simp
  have cong: "List.find (\<lambda>k. \<not> (r # rs) ! (k - i) \<and> \<not> isPending (request_no p w k)) [Suc i..<Suc i + length rs] =
      List.find (\<lambda>k. \<not> rs ! (k - Suc i) \<and> \<not> isPending (request_no p w k)) [Suc i..<Suc i + length rs]"
    by (rule find_cong) (auto simp: nth_Cons' Suc_diff_le)
  have up: "[i..<i + length (r # rs)] = i # [Suc i..<Suc i + length rs]"
    by (simp add: upt_rec)
  have IH: "nextMissing_loop p w isPending (Suc i) rs = Inr (map_option (\<lambda>k. request_no p w k)
      (List.find (\<lambda>k. \<not> rs ! (k - Suc i) \<and> \<not> isPending (request_no p w k)) [Suc i..<Suc i + length rs]))"
    using Cons.IH [of "Suc i"] Cons.prems by simp
  show ?case
    unfolding up find.simps cong nextMissing_loop.simps IH ps_blockRequest_no(1) [OF assms i] bind_r.simps
    by simp
qed

lemma ps_nextMissingBlock_eq:
  assumes "wf_ps p" and "unat w < length (ps_states p)"
  shows "ps_nextMissingBlock p w isPending =
    (let st = prepared (plen_at p (unat w)) (ps_states p ! unat w) in
     (Inr (map_option (request_no p w)
        (List.find (\<lambda>k. \<not> Received st ! k \<and> \<not> isPending (request_no p w k)) [0..<length (Received st)])),
      set_state p w st))"
proof -
  let ?st = "prepared (plen_at p (unat w)) (ps_states p ! unat w)" and ?geo = "wf_ps_geometry [OF assms(1)]"
  have geo: "wf_geometry p" using assms(1) by simp
  have "wf_state (plen_at p (unat w)) ?st" by (intro wf_state_prepared wf_ps_state assms)
  then have "length (Received ?st) \<le> pcount (plen_at p (unat w)) 16384"
    by (auto simp: wf_state_def split: option.splits)
  moreover have "request_no (set_state p w ?st) w = request_no p w"
    by (simp add: request_no_def fun_eq_iff)
  ultimately show ?thesis
    using nextMissing_loop_eq [of "set_state p w ?st" w 0 "Received ?st" isPending] geo assms(2)
    by (simp add: ps_nextMissingBlock_def ps_prepare_eq [OF geo assms(2)] set_state_nth Let_def)
qed

subsection \<open>Recheck of an existing file\<close>

lemma verifyExisting_loop_None:
  assumes "wf_ps p" and "verified p f" and "\<forall>i \<in> set is. i < length (ps_states p)"
    and "\<forall>st \<in> set (ps_states p). Data st = None"
    and "verifyExisting_loop is p f rd = (None, p')"
  shows "wf_ps p' \<and> verified p' f \<and> length (ps_states p') = length (ps_states p) \<and>
    (\<forall>i < length (ps_states p). Complete (ps_states p' ! i) \<longleftrightarrow> Complete (ps_states p ! i) \<or> i \<in> set is)"
  using assms
proof (induction "is" arbitrary: p)
  case Nil
  then show ?case by simp
next
  case (Cons i "is")
  let ?w = "of_nat i :: uint32"
  let ?p = "set_state p ?w ((ps_states p ! i)\<lparr>Complete := True\<rparr>)"
  have geo: "wf_geometry p" and i: "i < length (ps_states p)" using Cons.prems by auto
  have u: "unat ?w = i" using unat_of_nat_index [OF geo i] .
  have len: "ps_PieceLength p ?w = Inr (of_nat (plen_at p i))"
    and off: "ps_PieceOffset p ?w = Inr (int (i * ps_psize p))"
    using ps_PieceLength_in [OF geo, of ?w] ps_PieceOffset_in [OF geo, of ?w] i by (simp_all add: u)
  have n: "unat (of_nat (plen_at p i) :: uint32) = plen_at p i"
    using plen_at_32 [OF geo] by (simp add: unat_of_nat_small)
  obtain data err where rd: "file_ReadAt f (rd i) (plen_at p i) (i * ps_psize p) = (data, err)"
    by (cases "file_ReadAt f (rd i) (plen_at p i) (i * ps_psize p)")
  have hashes: "length (PieceHashes (ps_info p)) = length (ps_states p)"
    using geo by (simp add: wf_geometry_def)
  have ok: "err = None \<or> err = Some ErrEOF" "length data = plen_at p i"
      "sha1_Sum data = PieceHashes (ps_info p) ! i"
    and loop: "verifyExisting_loop is ?p f rd = (None, p')"
    using Cons.prems(5) i hashes
    by (auto simp: len off n u rd Let_def nat_int simp del: of_nat_mult split: if_splits)
  have data: "piece_bytes p f i = data"
    using file_ReadAt_full [OF rd ok(1,2)] by (simp add: piece_bytes_def)
  have "Data (ps_states p ! i) = None" using Cons.prems(4) i by simp
  moreover have "wf_state (plen_at p i) (ps_states p ! i)" using wf_ps_state [OF Cons.prems(1) i] .
  ultimately have "wf_state (plen_at p i) ((ps_states p ! i)\<lparr>Complete := True\<rparr>)"
    by (simp add: wf_state_def)
  then have wf: "wf_ps ?p" using wf_ps_set_state [OF Cons.prems(1), of ?w] by (simp add: u)
  have ver: "verified ?p f"
    using Cons.prems(2) ok data by (auto simp: verified_def set_state_nth u)
  have dat: "\<forall>st \<in> set (ps_states ?p). Data st = None"
    using Cons.prems(4) i by (simp add: all_set_conv_all_nth set_state_nth u)
  show ?case
    using Cons.IH [OF wf ver _ dat loop] Cons.prems(3) i by (auto simp: set_state_nth u)
qed

lemma verifyExisting_loop_ok:
  assumes "wf_geometry p" and "\<forall>i \<in> set is. i < length (ps_states p) \<and>
    length (piece_bytes p f i) = plen_at p i \<and> sha1_Sum (piece_bytes p f i) = PieceHashes (ps_info p) ! i"
  shows "\<exists>p'. verifyExisting_loop is p f (\<lambda>_. IoOk) = (None, p')"
  using assms
proof (induction "is" arbitrary: p)
  case Nil
  then show ?case by simp
next
  case (Cons i "is")
  let ?w = "of_nat i :: uint32"
  let ?p = "set_state p ?w ((ps_states p ! i)\<lparr>Complete := True\<rparr>)"
  have i: "i < length (ps_states p)" using Cons.prems by auto
  have u: "unat ?w = i" using unat_of_nat_index [OF Cons.prems(1) i] .
  have len: "ps_PieceLength p ?w = Inr (of_nat (plen_at p i))"
    and off: "ps_PieceOffset p ?w = Inr (int (i * ps_psize p))"
    using ps_PieceLength_in [OF Cons.prems(1), of ?w] ps_PieceOffset_in [OF Cons.prems(1), of ?w] i
    by (simp_all add: u)
  have n: "unat (of_nat (plen_at p i) :: uint32) = plen_at p i"
    using plen_at_32 [OF Cons.prems(1)] by (simp add: unat_of_nat_small)
  have hashes: "length (PieceHashes (ps_info p)) = length (ps_states p)"
    using Cons.prems(1) by (simp add: wf_geometry_def)
  have rd: "file_ReadAt f IoOk (plen_at p i) (i * ps_psize p) = (piece_bytes p f i, None)"
    using Cons.prems(2) by (simp add: file_ReadAt_def piece_bytes_def Let_def)
  have "\<exists>p'. verifyExisting_loop is ?p f (\<lambda>_. IoOk) = (None, p')"
    using Cons.IH [of ?p] Cons.prems by simp
  then show ?case
    using Cons.prems(2) hashes i by (simp add: len off n u rd Let_def nat_int del: of_nat_mult)
qed

subsection \<open>Bitfield\<close>

unbundle bit_operations_syntax

text \<open>The test of \<^verbatim>\<open>hasPiece\<close>: the bit of piece \<open>i\<close>, counted from the high end of each byte.\<close>

definition bit_set :: "byte list \<Rightarrow> nat \<Rightarrow> bool" where
  "bit_set bits i \<longleftrightarrow> i div 8 < length bits \<and> bits ! (i div 8) AND piece_mask i \<noteq> 0"

lemma and_piece_mask: "b AND piece_mask i \<noteq> 0 \<longleftrightarrow> bit b (7 - i mod 8)"
proof
  assume "b AND piece_mask i \<noteq> 0"
  then obtain n where "bit (b AND piece_mask i) n" using bit_eqI [of "b AND piece_mask i" 0] by auto
  then show "bit b (7 - i mod 8)" by (auto simp: piece_mask_def bit_simps)
next
  assume "bit b (7 - i mod 8)"
  then have "bit (b AND piece_mask i) (7 - i mod 8)" by (auto simp: piece_mask_def bit_simps)
  then show "b AND piece_mask i \<noteq> 0" by auto
qed

lemma bit_or_piece_mask: "bit (b OR piece_mask i) (7 - j mod 8) \<longleftrightarrow> bit b (7 - j mod 8) \<or> i mod 8 = j mod 8"
proof -
  have "i mod 8 < 8" "j mod 8 < 8" by auto
  then show ?thesis by (auto simp: piece_mask_def bit_simps)
qed

lemma bit_set_update:
  assumes "i div 8 < length bits"
  shows "bit_set (bits[i div 8 := bits ! (i div 8) OR piece_mask i]) j \<longleftrightarrow> bit_set bits j \<or> i = j"
proof (cases "i div 8 = j div 8")
  case True
  then have "i mod 8 = j mod 8 \<longleftrightarrow> i = j" by (metis mod_div_mult_eq)
  then show ?thesis
    using assms True by (simp add: bit_set_def and_piece_mask bit_or_piece_mask)
next
  case False
  then show ?thesis by (auto simp: bit_set_def)
qed

lemma piecesBitfield_loop:
  assumes "\<forall>i \<in> set is. i div 8 < length bits"
  shows "length (piecesBitfield_loop is p bits) = length bits \<and>
    (bit_set (piecesBitfield_loop is p bits) j \<longleftrightarrow>
       bit_set bits j \<or> j \<in> set is \<and> ps_IsComplete p (of_nat j))"
  using assms
proof (induction "is" arbitrary: bits)
  case Nil
  then show ?case by simp
next
  case (Cons i "is")
  show ?case
  proof (cases "ps_IsComplete p (of_nat i)")
    case True
    then show ?thesis
      using Cons.IH [of "bits[i div 8 := bits ! (i div 8) OR piece_mask i]"] Cons.prems
      by (auto simp: bit_set_update)
  next
    case False
    then show ?thesis using Cons by auto
  qed
qed

lemma bit_set_zero: "\<not> bit_set (replicate n 0) j"
  by (simp add: bit_set_def)

lemma PiecesBitfield_bits:
  assumes "wf_geometry p"
  shows "length (PiecesBitfield p) = (ps_Count p + 7) div 8"
    and "bit_set (PiecesBitfield p) j \<longleftrightarrow> j < ps_Count p \<and> Complete (ps_states p ! j)"
proof -
  have "\<forall>i \<in> set [0..<ps_Count p]. i div 8 < length (replicate ((ps_Count p + 7) div 8) (0 :: byte))"
    by auto
  note l = piecesBitfield_loop [OF this, of p]
  show "length (PiecesBitfield p) = (ps_Count p + 7) div 8"
    using l by (simp add: PiecesBitfield_def)
  show "bit_set (PiecesBitfield p) j \<longleftrightarrow> j < ps_Count p \<and> Complete (ps_states p ! j)"
    using l [of j] unat_of_nat_index [OF assms, of j]
    by (auto simp: PiecesBitfield_def bit_set_zero ps_IsComplete_def less_count32 [OF assms] ps_Count_def)
qed

lemma filter_upt_nth: "length (filter (\<lambda>i. P (xs ! i)) [0..<length xs]) = length (filter P xs)"
  by (subst map_nth [of xs, symmetric], subst filter_map) (simp add: comp_def)

subsection \<open>Correctness of the piece set\<close>

text \<open>Layout: for content information accepted by \<^verbatim>\<open>NewPieceSet\<close> (with a 64-bit length and fewer
  than 2^32 pieces) the set is well formed and empty, and the pieces tile the file: every byte position
  lies in exactly one piece, at the offset \<^verbatim>\<open>PieceOffset\<close> and within the length \<^verbatim>\<open>PieceLength\<close> give.\<close>

theorem NewPieceSet_tiles:
  assumes "NewPieceSet info = Inr p" and "in_int64 (Length info)" and "length (PieceHashes info) < 2 ^ 32"
    and "x < nat (Length info)"
  shows "wf_ps p \<and> ps_CompletedCount p = 0 \<and>
    (\<exists>!w. \<exists>n off. ps_PieceLength p w = Inr n \<and> ps_PieceOffset p w = Inr off \<and>
       nat off \<le> x \<and> x < nat off + unat n)"
  using NewPieceSet_wf [OF assms(1-3)] ps.pieces_tile [of p x] assms(4)
  by (simp add: ps_CompletedCount_def newPieceState_def)

definition demo_info :: Info where
  "demo_info = \<lparr>Name = [97], Length = 3, PieceLength = 2, PieceHashes = [sha1_Sum [1, 2], sha1_Sum [3]]\<rparr>"

definition demo_ps :: PieceSet where
  "demo_ps = \<lparr>ps_info = demo_info, ps_states = [newPieceState, newPieceState]\<rparr>"

lemma NewPieceSet_demo: "NewPieceSet demo_info = Inr demo_ps"
  by (simp add: NewPieceSet_def demo_info_def expectedPieces_def demo_ps_def numeral_2_eq_2 int64_def Let_def)

lemma demo_small: "in_int64 (Length demo_info)" "length (PieceHashes demo_info) < 2 ^ 32"
  by (simp_all add: demo_info_def in_int64_def)

lemma wf_demo_ps: "wf_ps demo_ps"
  by (rule NewPieceSet_wf(1) [OF NewPieceSet_demo demo_small])

text \<open>C19. Accounting: the byte counters never panic and never wrap.  \<^verbatim>\<open>BytesLeft\<close> is the sum of the
  lengths of the incomplete pieces, \<^verbatim>\<open>BytesComplete\<close> the rest of the content, and the set reports
  itself complete exactly when every piece is.\<close>

theorem ps_BytesLeft_accounting:
  assumes "wf_ps p"
  shows "\<exists>left complete.
    ps_BytesLeft p = Inr left \<and> ps_BytesComplete p = Inr complete \<and>
    unat left = (\<Sum>i < ps_Count p. if Complete (ps_states p ! i) then 0 else plen_at p i) \<and>
    unat left + unat complete = nat (Length (ps_info p)) \<and>
    ps_Complete p = Inr (ps_CompletedCount p = ps_Count p)"
proof -
  have geo: "wf_geometry p" using assms by simp
  define left :: uint64 where "left = of_nat (bytes_missing p)"
  define total :: uint64 where "total = of_int (Length (ps_info p))"
  have t: "unat total = ps_total p" "total = of_nat (ps_total p)"
    using geo by (auto simp: total_def wf_geometry_def in_int64_def unat_of_nat_small simp flip: of_nat_nat)
  have "ps_total p < 2 ^ 63" using geo by (auto simp: wf_geometry_def in_int64_def)
  then have "bytes_missing p < 2 ^ 64" using bytes_missing_le [OF geo] by simp
  then have l: "unat left = bytes_missing p" by (simp add: left_def unat_of_nat_small)
  then have "left \<le> total" using bytes_missing_le [OF geo] by (simp add: word_le_nat_alt t(1))
  then have s: "unat (total - left) = unat total - unat left" by (rule unat_sub)
  have "ps_Complete p = Inr (bytes_missing p = 0)"
    using l by (simp add: ps_Complete_def ps_BytesLeft_exact [OF geo] flip: left_def) (simp add: unat_eq_0 flip: l)
  also have "bytes_missing p = 0 \<longleftrightarrow> ps_CompletedCount p = ps_Count p"
    unfolding bytes_missing_0 [OF geo] ps_CompletedCount_def ps_Count_def
    by (metis filter_True length_filter_less less_irrefl)
  finally have "ps_Complete p = Inr (ps_CompletedCount p = ps_Count p)" .
  moreover have "ps_BytesLeft p = Inr left" "ps_BytesComplete p = Inr (total - left)"
    by (simp_all add: ps_BytesLeft_exact [OF geo] ps_BytesComplete_def left_def total_def)
  moreover have "unat left + unat (total - left) = ps_total p"
    using l s t(1) bytes_missing_le [OF geo] by simp
  ultimately show ?thesis using l by (auto simp: bytes_missing_def ps_Count_def)
qed

theorem ps_BytesLeft_accounting_witness:
  "\<exists>left complete. ps_BytesLeft demo_ps = Inr left \<and> ps_BytesComplete demo_ps = Inr complete \<and>
     unat left + unat complete = 3 \<and> ps_Complete demo_ps = Inr False"
  using ps_BytesLeft_accounting [OF wf_demo_ps]
  by (auto simp: demo_ps_def demo_info_def newPieceState_def ps_CompletedCount_def ps_Count_def)

text \<open>C18. Storing a block keeps the set well formed, changes no piece but the requested one and no
  completion flag, and cannot panic except in one case: a well-formed block of a piece that is
  already complete indexes an empty slice.\<close>

theorem ps_StoreBlock_safe:
  assumes "wf_ps p" and "length data < 2 ^ 32" and "ps_StoreBlock p q data = (res, p')"
  shows "wf_ps p' \<and> ps_info p' = ps_info p \<and>
    map Complete (ps_states p') = map Complete (ps_states p) \<and>
    (\<forall>i < ps_Count p. i \<noteq> unat (PieceIndex q) \<longrightarrow> ps_states p' ! i = ps_states p ! i) \<and>
    (res = Inl GoPanic \<longleftrightarrow> good_block p q data \<and> ps_IsComplete p (PieceIndex q))"
proof -
  note fr = ps_StoreBlock_frame [OF assms(1,2), where q = q]
  have p': "p' = snd (ps_StoreBlock p q data)" using assms(3) by simp
  have "map Complete (ps_states p') = map Complete (ps_states p)"
    using fr by (intro nth_equalityI) (simp_all add: p')
  moreover have "res = Inl GoPanic \<longleftrightarrow> good_block p q data \<and> ps_IsComplete p (PieceIndex q)"
    using assms(1,2)
  proof (cases rule: ps_StoreBlock_cases [where q = q])
    case complete
    then show ?thesis
      using assms(3) good_block_facts(1) [OF wf_ps_geometry [OF assms(1)] complete(1)]
      by (simp add: ps_IsComplete_def less_count32 [OF wf_ps_geometry [OF assms(1)]])
  next
    case incomplete
    then show ?thesis
      using assms(3) ps_StoreBlock_good [OF assms(1) incomplete]
      by (auto simp: ps_IsComplete_def Let_def split: if_splits)
  qed (use assms(3) in auto)
  ultimately show ?thesis
    using wf_ps_StoreBlock [OF assms(1,2), of q] fr by (simp add: p' ps_Count_def)
qed

definition demo_req :: BlockRequest where
  "demo_req = \<lparr>PieceIndex = 0, Begin = 0, BlockLength = 2\<rparr>"

lemma demo_plen: "plen_at demo_ps 0 = 2" "plen_at demo_ps 1 = 1"
  by (simp_all add: plen_at_def plen_def demo_ps_def demo_info_def)

lemma demo_good: "good_block demo_ps demo_req [a, b]"
  using ps_PieceLength_in [OF wf_ps_geometry [OF wf_demo_ps], of 0]
  by (simp add: good_block_def demo_req_def ps_blockRequest_Inr demo_plen) (simp add: demo_ps_def)

theorem ps_StoreBlock_safe_witness:
  "wf_ps (snd (ps_StoreBlock demo_ps demo_req [1, 2])) \<and>
   fst (ps_StoreBlock demo_ps demo_req [1, 2]) \<noteq> Inl GoPanic"
  using ps_StoreBlock_safe [OF wf_demo_ps, of "[1, 2]" demo_req]
  by (cases "ps_StoreBlock demo_ps demo_req [1, 2]")
    (auto simp: ps_IsComplete_def demo_ps_def newPieceState_def demo_req_def)

lemma store_blocks_ready:
  assumes "wf_ps p" and "i < ps_Count p" and "\<not> Complete (ps_states p ! i)"
    and "Data (ps_states p ! i) = None" and "length c = plen_at p i"
    and "\<forall>(q, data) \<in> set qs. length data < 2 ^ 32 \<and>
      (good_block p q data \<and> unat (PieceIndex q) = i \<longrightarrow> data = block_of c (block_no q))"
    and "\<forall>k < pcount (length c) 16384.
      \<exists>(q, data) \<in> set qs. good_block p q data \<and> unat (PieceIndex q) = i \<and> block_no q = k"
  shows "Data (ps_states (store_blocks p qs) ! i) = Some c \<and>
    allBlocksReceived (ps_states (store_blocks p qs) ! i)"
proof -
  let ?p = "store_blocks p qs"
  have i: "i < length (ps_states p)" using assms(2) by (simp add: ps_Count_def)
  have "agrees c (ps_states p ! i)" using assms(4) by (simp add: agrees_def)
  note A = store_blocks_assemble [OF assms(1) i assms(3) this assms(5,6)]
  have pos: "0 < length c" using plen_at_pos [OF wf_ps_geometry [OF assms(1)] i] assms(5) by simp
  then have "0 < pcount (length c) 16384" by (simp add: less_pcount)
  moreover have has: "has_block ?p i k" if "k < pcount (length c) 16384" for k
    using A assms(5,7) that by auto
  ultimately obtain d where d: "Data (ps_states ?p ! i) = Some d" by (auto simp: has_block_def)
  have wf: "wf_state (length c) (ps_states ?p ! i)"
    using wf_ps_state [of ?p i] A i assms(5) by simp
  then have l: "length d = length c" "length (Received (ps_states ?p ! i)) = pcount (length c) 16384"
    using d by (auto simp: wf_state_def)
  have "allBlocksReceived (ps_states ?p ! i)"
    using d l has pos \<open>0 < pcount (length c) 16384\<close>
    by (auto simp: allBlocksReceived_def list_all_length has_block_def)
  then show ?thesis using agrees_all_received [OF _ wf] A by blast
qed

text \<open>C16. Assembly: blocks may arrive in any order, repeated, and mixed with blocks of other pieces
  and with malformed ones.  When every well-formed block of piece \<open>i\<close> carries its part of the
  content \<open>c\<close> and each block has arrived at least once, the piece is ready and holds exactly \<open>c\<close>.\<close>

theorem store_blocks_any_order:
  assumes "wf_ps p" and "i < ps_Count p" and "\<not> Complete (ps_states p ! i)"
    and "Data (ps_states p ! i) = None" and "length c = plen_at p i"
    and "\<forall>(q, data) \<in> set qs. length data < 2 ^ 32 \<and>
      (good_block p q data \<and> unat (PieceIndex q) = i \<longrightarrow> data = block_of c (block_no q))"
    and "\<forall>k < pcount (length c) 16384.
      \<exists>(q, data) \<in> set qs. good_block p q data \<and> unat (PieceIndex q) = i \<and> block_no q = k"
  shows "Data (ps_states (store_blocks p qs) ! i) = Some c \<and>
    allBlocksReceived (ps_states (store_blocks p qs) ! i)"
  by (rule store_blocks_ready [OF assms])

theorem store_blocks_any_order_witness:
  "Data (ps_states (store_blocks demo_ps [(demo_req, [1, 2])]) ! 0) = Some [1, 2]"
proof -
  have "pcount (Suc (Suc 0)) 16384 = 1" by (simp add: pcount_def)
  then show ?thesis
    using store_blocks_any_order [of demo_ps 0 "[1, 2]" "[(demo_req, [1, 2])]"] wf_demo_ps demo_good [of 1 2]
    by (simp add: demo_plen block_of_def block_no_def plen_def)
      (simp add: demo_ps_def newPieceState_def ps_Count_def demo_req_def)
qed

text \<open>C15. Integrity: whatever the file system does (complete, short or failed write), \<^verbatim>\<open>VerifyAndWrite\<close>
  keeps the set well formed and every piece marked complete on disk with the digest of the metainfo,
  and it does not panic.  It reports success only for an assembled piece whose digest matches, which
  is then in the file and marked complete.\<close>

theorem ps_VerifyAndWrite_verified:
  assumes "wf_ps p" and "verified p f" and "ps_VerifyAndWrite p w (Some f) oc = (res, p', f')"
  shows "\<exists>g. f' = Some g \<and> wf_ps p' \<and> verified p' g \<and> res \<noteq> Some GoPanic \<and>
    (res = None \<longrightarrow>
       ps_IsComplete p' w \<and>
       Data (ps_states p ! unat w) = Some (piece_bytes p' g (unat w)) \<and>
       sha1_Sum (piece_bytes p' g (unat w)) = PieceHashes (ps_info p) ! unat w)"
  using assms(1)
proof (cases rule: ps_VerifyAndWrite_cases [where w = w and f = f and oc = oc])
  case (refused er)
  then show ?thesis using assms by auto
next
  case (mismatch d)
  have st: "wf_state (plen_at p (unat w)) (ps_states p ! unat w)" by (rule wf_ps_state [OF assms(1) mismatch(1)])
  then have "\<not> Complete (ps_states p ! unat w)" using mismatch(2) by (simp add: wf_state_def)
  then have "wf_ps p' \<and> verified p' f"
    using mismatch(4) assms by (auto intro!: wf_ps_set_state verified_set_state simp: wf_state_def)
  then show ?thesis using mismatch(4) assms(3) by auto
next
  case (failed d k er)
  have st: "wf_state (plen_at p (unat w)) (ps_states p ! unat w)" by (rule wf_ps_state [OF assms(1) failed(1)])
  then have "\<not> Complete (ps_states p ! unat w)" using failed(3) by (simp add: wf_state_def)
  then have "verified (set_state p w (ps_states p ! unat w)) (file_put f (unat w * ps_psize p) (take k d))"
    using assms failed(4) by (intro verified_write) auto
  then show ?thesis using failed(6) assms by auto
next
  case (written d)
  let ?st = "(ps_states p ! unat w)\<lparr>Complete := True, Data := None, Received := []\<rparr>"
  have "verified (set_state p w ?st) (file_put f (unat w * ps_psize p) d)"
    using assms written(3,4) by (intro verified_write) auto
  moreover have "wf_ps (set_state p w ?st)" using assms(1) by (intro wf_ps_set_state) (auto simp: wf_state_def)
  moreover have "ps_IsComplete (set_state p w ?st) w"
    using written(1) less_count32 [OF wf_ps_geometry [OF assms(1)]] by (simp add: ps_IsComplete_def set_state_nth)
  ultimately show ?thesis
    using written assms(3) by (auto simp: piece_bytes_own)
qed

definition demo_full :: PieceSet where
  "demo_full = snd (ps_StoreBlock demo_ps demo_req [1, 2])"

lemma demo_full_eq:
  "demo_full = set_state demo_ps 0 \<lparr>Complete = False, Data = Some [1, 2], Received = [True]\<rparr>"
proof -
  have "pcount 2 16384 = 1" by (simp add: pcount_def)
  then have "prepared 2 newPieceState = \<lparr>Complete = False, Data = Some [0, 0], Received = [False]\<rparr>"
    by (simp add: prepared_def newPieceState_def numeral_2_eq_2)
  then show ?thesis
    using ps_StoreBlock_good [OF wf_demo_ps demo_good [of 1 2]] demo_plen(1)
    by (simp add: demo_full_def demo_req_def block_no_def stored_def overwrite_def)
      (simp add: demo_ps_def newPieceState_def demo_req_def overwrite_def Let_def)
qed

lemma wf_demo_full: "wf_ps demo_full"
  using wf_ps_StoreBlock [OF wf_demo_ps, of "[1, 2]" demo_req] by (simp add: demo_full_def)

lemma demo_full_write:
  "ps_VerifyAndWrite demo_full 0 (Some []) IoOk =
   (None, set_state demo_ps 0 \<lparr>Complete = True, Data = None, Received = []\<rparr>, Some [1, 2])"
  by (simp add: ps_VerifyAndWrite_def demo_full_eq set_state_def demo_ps_def demo_info_def Let_def
      allBlocksReceived_def ps_PieceOffset_def int64_def file_WriteAt_def file_put_def newPieceState_def)

theorem ps_VerifyAndWrite_verified_witness:
  "verified (set_state demo_ps 0 \<lparr>Complete = True, Data = None, Received = []\<rparr>) [1, 2]"
proof -
  have "verified demo_full []"
    by (simp add: verified_def demo_full_eq) (auto simp: demo_ps_def set_state_def less_Suc_eq newPieceState_def)
  then show ?thesis using ps_VerifyAndWrite_verified [OF wf_demo_full _ demo_full_write] by simp
qed

text \<open>Corrupt data is dropped: when the digest of an assembled piece differs from the metainfo, the
  file is not touched, no other piece changes, and the piece is asked for again from its first
  block.\<close>

theorem ps_VerifyAndWrite_mismatch:
  assumes "wf_ps p" and "unat w < ps_Count p" and "allBlocksReceived (ps_states p ! unat w)"
    and "Data (ps_states p ! unat w) = Some d" and "sha1_Sum d \<noteq> PieceHashes (ps_info p) ! unat w"
  shows "\<exists>p'. ps_VerifyAndWrite p w (Some f) oc = (Some (ErrPieceHashMismatch w), p', Some f) \<and>
    (\<forall>i < ps_Count p. i \<noteq> unat w \<longrightarrow> ps_states p' ! i = ps_states p ! i) \<and>
    fst (ps_nextMissingBlock p' w (\<lambda>_. False)) =
      Inr (Some \<lparr>PieceIndex = w, Begin = 0, BlockLength = of_nat (min 16384 (plen_at p (unat w)))\<rparr>)"
proof -
  have w: "unat w < length (ps_states p)" using assms(2) by (simp add: ps_Count_def)
  let ?st = "(ps_states p ! unat w)\<lparr>Data := None, Received := []\<rparr>" and ?n = "plen_at p (unat w)"
  let ?p = "set_state p w ?st"
  have eq: "ps_VerifyAndWrite p w (Some f) oc = (Some (ErrPieceHashMismatch w), ?p, Some f)"
    using assms(1) by (cases rule: ps_VerifyAndWrite_cases [where w = w and f = f and oc = oc]) (use assms w in auto)
  have nc: "\<not> Complete (ps_states p ! unat w)" using received_incomplete [OF assms(1) w assms(3)] .
  then have wf: "wf_ps ?p" using assms(1) by (intro wf_ps_set_state) (auto simp: wf_state_def)
  have "0 < ?n" using plen_at_pos [OF wf_ps_geometry [OF assms(1)] w] .
  then have "0 < pcount ?n 16384" by (simp add: less_pcount)
  then obtain k where k: "pcount ?n 16384 = Suc k" by (cases "pcount ?n 16384") auto
  have "prepared ?n ?st = ?st\<lparr>Data := Some (replicate ?n 0), Received := replicate (Suc k) False\<rparr>"
    using nc k by (simp add: prepared_def)
  then have "fst (ps_nextMissingBlock ?p w (\<lambda>_. False)) = Inr (Some (request_no ?p w 0))"
    using ps_nextMissingBlock_eq [OF wf, of w "\<lambda>_. False"] w
    by (simp add: set_state_nth Let_def upt_rec del: upt_Suc)
  then show ?thesis using eq by (simp add: request_no_def plen_def set_state_nth ps_Count_def)
qed

definition demo_bad_info :: Info where
  "demo_bad_info = demo_info\<lparr>PieceHashes := [[], []]\<rparr>"

definition demo_bad :: PieceSet where
  "demo_bad = \<lparr>ps_info = demo_bad_info,
     ps_states = [\<lparr>Complete = False, Data = Some [1, 1], Received = [True]\<rparr>, newPieceState]\<rparr>"

text \<open>A failed write loses the piece: after an I/O error the assembled data stay with every block
  marked received, so the piece is neither complete nor ever requested again, every further block for
  it is refused, and only another call of \<^verbatim>\<open>VerifyAndWrite\<close> could finish it.\<close>

theorem ps_VerifyAndWrite_failed_write_stuck:
  assumes "wf_ps p" and "ps_VerifyAndWrite p w (Some f) oc = (Some (PieceIo er), p', f')"
  shows "\<not> ps_IsComplete p' w \<and> fst (ps_nextMissingBlock p' w isPending) = Inr None \<and>
    (\<forall>q data. PieceIndex q = w \<and> length data < 2 ^ 32 \<longrightarrow> (\<exists>er. fst (ps_StoreBlock p' q data) = Inl er))"
  using assms(1)
proof (cases rule: ps_VerifyAndWrite_cases [where w = w and f = f and oc = oc])
  case (failed d k er')
  let ?w = "unat w"
  have p': "p' = p" using failed(6) assms(2) by simp
  have nc: "\<not> Complete (ps_states p ! ?w)" using received_incomplete [OF assms(1) failed(1,2)] .
  have prep: "prepared (plen_at p ?w) (ps_states p ! ?w) = ps_states p ! ?w"
    using failed(3) by (simp add: prepared_def)
  have all: "Received (ps_states p ! ?w) ! k" if "k < length (Received (ps_states p ! ?w))" for k
    using failed(2) that by (auto simp: allBlocksReceived_def list_all_length)
  have "List.find (\<lambda>k. \<not> Received (ps_states p ! ?w) ! k \<and> \<not> isPending (request_no p w k))
      [0..<length (Received (ps_states p ! ?w))] = None"
    using all by (auto simp: find_None_iff)
  then have "fst (ps_nextMissingBlock p w isPending) = Inr None"
    using ps_nextMissingBlock_eq [OF assms(1) failed(1), of isPending] by (simp add: prep Let_def)
  moreover have "\<exists>er. fst (ps_StoreBlock p q data) = Inl er"
    if q: "PieceIndex q = w" and len: "length data < 2 ^ 32" for q data
    using assms(1) len
  proof (cases rule: ps_StoreBlock_cases [where q = q])
    case incomplete
    have "block_no q < length (Received (ps_states p ! ?w))"
      using good_block_facts(2) [OF wf_ps_geometry [OF assms(1)] incomplete(1)]
        wf_ps_state [OF assms(1) failed(1)] failed(3) q by (simp add: wf_state_def)
    then show ?thesis
      using ps_StoreBlock_good [OF assms(1) incomplete] q prep all by (simp add: Let_def)
  qed auto
  ultimately show ?thesis using nc by (simp add: p' ps_IsComplete_def)
qed (use assms(2) in auto)

text \<open>A failing disk under the assembled piece \<open>demo_full\<close>.\<close>

text \<open>C17. Serving: what \<^verbatim>\<open>ReadBlock\<close> returns is the requested range of a piece that is complete and
  whose bytes in the file have the digest of the metainfo; and for a well-formed request of a
  complete piece it does return it when the read succeeds.\<close>

theorem ps_ReadBlock_serves_verified:
  assumes "wf_ps p" and "verified p f"
  shows "(\<forall>oc data. ps_ReadBlock p q (Some f) oc = Inr data \<longrightarrow>
       ps_IsComplete p (PieceIndex q) \<and> length data = unat (BlockLength q) \<and>
       data = take (unat (BlockLength q)) (drop (unat (Begin q)) (piece_bytes p f (unat (PieceIndex q)))) \<and>
       sha1_Sum (piece_bytes p f (unat (PieceIndex q))) = PieceHashes (ps_info p) ! unat (PieceIndex q)) \<and>
    (ps_IsComplete p (PieceIndex q) \<and> ps_blockRequest p (PieceIndex q) (Begin q) = Inr q \<longrightarrow>
       (\<exists>data. ps_ReadBlock p q (Some f) IoOk = Inr data))"
proof (intro conjI allI impI; (elim conjE)?)
  let ?i = "unat (PieceIndex q)"
  have geo: "wf_geometry p" using assms(1) by simp
  have slice: "take (unat (BlockLength q)) (drop (block_pos p q) f) =
      take (unat (BlockLength q)) (drop (unat (Begin q)) (piece_bytes p f ?i))"
    if "ps_blockRequest p (PieceIndex q) (Begin q) = Inr q"
    using good_block_pos(2) [OF geo that]
    by (simp add: piece_bytes_def block_pos_def drop_take min_def add.commute)
  have ver: "length (piece_bytes p f ?i) = plen_at p ?i \<and> sha1_Sum (piece_bytes p f ?i) = PieceHashes (ps_info p) ! ?i"
    if "ps_IsComplete p (PieceIndex q)"
    using that assms(2) by (simp add: ps_IsComplete_def less_count32 [OF geo] verified_def)
  fix oc data
  assume r: "ps_ReadBlock p q (Some f) oc = Inr data"
  note R = ps_ReadBlock_Inr [OF geo r]
  show "ps_IsComplete p (PieceIndex q)" by (rule R(1))
  show "length data = unat (BlockLength q)" using R(2) by (simp add: good_block_def)
  show "data = take (unat (BlockLength q)) (drop (unat (Begin q)) (piece_bytes p f ?i))"
    using R slice by (simp add: good_block_def)
  show "sha1_Sum (piece_bytes p f ?i) = PieceHashes (ps_info p) ! ?i" using ver R(1) by blast
next
  let ?i = "unat (PieceIndex q)"
  have geo: "wf_geometry p" using assms(1) by simp
  assume c: "ps_IsComplete p (PieceIndex q)" and r: "ps_blockRequest p (PieceIndex q) (Begin q) = Inr q"
  have "length (piece_bytes p f ?i) = plen_at p ?i" "0 < plen_at p ?i"
    using c assms(2) plen_at_pos [OF geo] by (simp_all add: ps_IsComplete_def less_count32 [OF geo] verified_def)
  then have "?i * ps_psize p + plen_at p ?i \<le> length f"
    by (auto simp: piece_bytes_def min_def split: if_splits)
  then have "block_pos p q + unat (BlockLength q) \<le> length f"
    using good_block_pos(2) [OF geo r] by (simp add: block_pos_def)
  then have "file_ReadAt f IoOk (unat (BlockLength q)) (block_pos p q) =
      (take (unat (BlockLength q)) (drop (block_pos p q) f), None)"
    by (simp add: file_ReadAt_def Let_def)
  then show "\<exists>data. ps_ReadBlock p q (Some f) IoOk = Inr data"
    using \<open>block_pos p q + unat (BlockLength q) \<le> length f\<close>
    by (simp add: ps_ReadBlock_complete [OF geo r c])
qed

definition demo_done :: PieceSet where
  "demo_done = set_state demo_ps 0 \<lparr>Complete = True, Data = None, Received = []\<rparr>"

lemma wf_demo_done: "wf_ps demo_done"
  using wf_demo_ps by (simp add: demo_done_def wf_ps_set_state wf_state_def)

lemma verified_demo_done: "verified demo_done [1, 2]"
  by (simp add: verified_def demo_done_def piece_bytes_def plen_at_def plen_def set_state_def
      demo_ps_def demo_info_def newPieceState_def less_Suc_eq)

theorem ps_ReadBlock_serves_verified_witness:
  "\<exists>data. ps_ReadBlock demo_done demo_req (Some [1, 2]) IoOk = Inr data \<and> data = [1, 2]"
proof -
  have c: "ps_IsComplete demo_done (PieceIndex demo_req)"
    by (simp add: demo_done_def ps_IsComplete_def demo_req_def demo_ps_def set_state_def)
  have r: "ps_blockRequest demo_done (PieceIndex demo_req) (Begin demo_req) = Inr demo_req"
    using demo_good [of 1 2] by (simp add: demo_done_def good_block_def)
  obtain data where d: "ps_ReadBlock demo_done demo_req (Some [1, 2]) IoOk = Inr data"
    using ps_ReadBlock_serves_verified [OF wf_demo_done verified_demo_done, of demo_req] c r by blast
  then have "data = take 2 (piece_bytes demo_done [1, 2] 0)"
    using ps_ReadBlock_serves_verified [OF wf_demo_done verified_demo_done, of demo_req]
    by (auto simp: demo_req_def)
  then show ?thesis using d demo_plen(1) by (simp add: demo_done_def piece_bytes_def)
qed

text \<open>Requesting: on a piece of the torrent, \<^verbatim>\<open>nextMissingBlock\<close> proposes the first block, in
  order, that has neither arrived nor is pending, with its aligned offset and exact length; it
  proposes nothing only when there is no such block.  It cannot fail and changes nothing but the
  buffer of that piece.\<close>

theorem ps_nextMissingBlock_first:
  assumes "wf_ps p" and "unat w < ps_Count p" and "\<not> ps_IsComplete p w"
    and "ps_nextMissingBlock p w isPending = (res, p')"
  shows "wf_ps p' \<and> map Complete (ps_states p') = map Complete (ps_states p) \<and>
    (case res of
       Inl _ \<Rightarrow> False
     | Inr None \<Rightarrow> \<forall>k < pcount (plen_at p (unat w)) 16384.
         has_block p (unat w) k \<or> isPending (request_no p w k)
     | Inr (Some q) \<Rightarrow> \<exists>k < pcount (plen_at p (unat w)) 16384.
         q = request_no p w k \<and> ps_blockRequest p w (Begin q) = Inr q \<and>
         \<not> has_block p (unat w) k \<and> \<not> isPending q \<and>
         (\<forall>j < k. has_block p (unat w) j \<or> isPending (request_no p w j)))"
proof -
  let ?i = "unat w" and ?st = "prepared (plen_at p (unat w)) (ps_states p ! unat w)"
  have geo: "wf_geometry p" and i: "?i < length (ps_states p)" using assms(1,2) by (simp_all add: ps_Count_def)
  have nc: "\<not> Complete (ps_states p ! ?i)" using assms(3) i by (simp add: ps_IsComplete_def less_count32 [OF geo])
  have eq: "res = Inr (map_option (request_no p w)
      (List.find (\<lambda>k. \<not> Received ?st ! k \<and> \<not> isPending (request_no p w k)) [0..<length (Received ?st)]))"
    and p': "p' = set_state p w ?st"
    using assms(4) ps_nextMissingBlock_eq [OF assms(1) i, of isPending] by (simp_all add: Let_def)
  have len: "length (Received ?st) = pcount (plen_at p ?i) 16384"
    using prepared_incomplete [OF wf_ps_state [OF assms(1) i] nc] by blast
  have has: "Received ?st ! k \<longleftrightarrow> has_block p ?i k" if "k < pcount (plen_at p ?i) 16384" for k
    using that nc by (auto simp: has_block_def prepared_def)
  have "wf_ps p'" unfolding p' by (intro wf_ps_set_state wf_state_prepared wf_ps_state assms i)
  moreover have "map Complete (ps_states p') = map Complete (ps_states p)"
    by (rule nth_equalityI) (auto simp: p' set_state_nth)
  moreover have "case res of
       Inl _ \<Rightarrow> False
     | Inr None \<Rightarrow> \<forall>k < pcount (plen_at p ?i) 16384. has_block p ?i k \<or> isPending (request_no p w k)
     | Inr (Some q) \<Rightarrow> \<exists>k < pcount (plen_at p ?i) 16384.
         q = request_no p w k \<and> ps_blockRequest p w (Begin q) = Inr q \<and>
         \<not> has_block p ?i k \<and> \<not> isPending q \<and>
         (\<forall>j < k. has_block p ?i j \<or> isPending (request_no p w j))"
  proof (cases "List.find (\<lambda>k. \<not> Received ?st ! k \<and> \<not> isPending (request_no p w k)) [0..<length (Received ?st)]")
    case None
    then have "res = Inr None" by (simp add: eq)
    then show ?thesis using has None by (auto simp: find_None_iff len)
  next
    case (Some k)
    then obtain n where n: "n < length (Received ?st)" "k = n" "\<not> Received ?st ! n" "\<not> isPending (request_no p w n)"
      "\<forall>j < n. Received ?st ! j \<or> isPending (request_no p w j)"
      by (auto simp: find_Some_iff)
    have "Begin (request_no p w k) = of_nat k * blockSize" by (simp add: request_no_def blockSize_def)
    then show ?thesis
      using n has ps_blockRequest_no(1) [OF geo i, of k] Some by (auto simp: eq len intro!: exI [of _ k])
  qed
  ultimately show ?thesis by blast
qed

text \<open>The bitfield sent to peers has one bit per piece, high bit first, padded with zeros to whole
  bytes; bit \<open>j\<close> is set exactly when piece \<open>j\<close> is complete, and \<^verbatim>\<open>bitCount\<close> on it recovers the
  number of complete pieces.\<close>

theorem PiecesBitfield_exact:
  assumes "wf_ps p"
  shows "length (PiecesBitfield p) = (ps_Count p + 7) div 8 \<and>
    (\<forall>j. bit_set (PiecesBitfield p) j \<longleftrightarrow> j < ps_Count p \<and> Complete (ps_states p ! j)) \<and>
    bitCount (PiecesBitfield p) (ps_Count p) = ps_CompletedCount p"
proof -
  note B = PiecesBitfield_bits [OF wf_ps_geometry [OF assms]]
  have "bitCount (PiecesBitfield p) (ps_Count p) =
      length (filter (\<lambda>j. bit_set (PiecesBitfield p) j) [0..<ps_Count p])"
    by (simp add: bitCount_def bit_set_def)
  also have "\<dots> = length (filter (\<lambda>j. Complete (ps_states p ! j)) [0..<length (ps_states p)])"
    by (rule arg_cong [where f = length], rule filter_cong) (auto simp: B ps_Count_def)
  also have "\<dots> = ps_CompletedCount p"
    unfolding filter_upt_nth ps_CompletedCount_def ..
  finally show ?thesis using B by blast
qed

text \<open>Seeding: a recheck that succeeds on a fresh set has found every piece in the file with its
  digest and marks them all complete; and it does succeed when the file holds the content and can be
  read.\<close>

theorem ps_VerifyExisting_complete:
  assumes "wf_ps p" and "\<forall>st \<in> set (ps_states p). st = newPieceState"
  shows "(\<forall>rd p'. ps_VerifyExisting p (Some f) rd = (None, p') \<longrightarrow>
       wf_ps p' \<and> verified p' f \<and> ps_Complete p' = Inr True) \<and>
    ((\<forall>i < ps_Count p. length (piece_bytes p f i) = plen_at p i \<and>
         sha1_Sum (piece_bytes p f i) = PieceHashes (ps_info p) ! i) \<longrightarrow>
       (\<exists>p'. ps_VerifyExisting p (Some f) (\<lambda>_. IoOk) = (None, p')))"
proof (intro conjI allI impI)
  fix rd p'
  assume e: "ps_VerifyExisting p (Some f) rd = (None, p')"
  have "verified p f" using assms(2) by (auto simp: verified_def newPieceState_def all_set_conv_all_nth)
  moreover have "\<forall>st \<in> set (ps_states p). Data st = None" using assms(2) by (auto simp: newPieceState_def)
  ultimately have V: "wf_ps p' \<and> verified p' f \<and> length (ps_states p') = length (ps_states p) \<and>
      (\<forall>i < length (ps_states p). Complete (ps_states p' ! i))"
    using verifyExisting_loop_None [OF assms(1), of f "[0..<length (ps_states p)]" rd p'] e
    by (simp add: ps_VerifyExisting_def)
  then show "wf_ps p'" "verified p' f" by auto
  have "bytes_missing p' = 0"
    using V bytes_missing_0 [of p'] by (simp add: all_set_conv_all_nth)
  then show "ps_Complete p' = Inr True" using V by (simp add: ps_Complete_def ps_BytesLeft_exact)
next
  assume "\<forall>i < ps_Count p. length (piece_bytes p f i) = plen_at p i \<and>
    sha1_Sum (piece_bytes p f i) = PieceHashes (ps_info p) ! i"
  then show "\<exists>p'. ps_VerifyExisting p (Some f) (\<lambda>_. IoOk) = (None, p')"
    using verifyExisting_loop_ok [of p "[0..<length (ps_states p)]" f] assms(1)
    by (simp add: ps_VerifyExisting_def ps_Count_def)
qed

end
