(* ===== verification/FileStorage.thy ===== *)
theory FileStorage
  imports PieceSet_Correct
begin

text \<open>
  The second design of the content store, \<^verbatim>\<open>src/torrent/piece.go\<close> and \<^verbatim>\<open>src/torrent/file.go\<close>: a piece is
  an explicit state machine with a generation counter, and verification and writing run in a worker
  that owns the buffer of the piece until its result is applied.  Go methods on \<^verbatim>\<open>*piece\<close> return the
  changed piece beside their result; an error leaves the piece as it is.
\<close>

subsection \<open>Pieces: \<^verbatim>\<open>piece.go\<close>\<close>

datatype pieceState = pieceMissing | pieceReceiving | pieceAssembled | pieceFinalizing | pieceComplete

record piece =
  pc_state :: pieceState
  generation :: uint64
  pc_buffer :: "byte list option"  \<comment> \<open>\<open>None\<close> is the nil slice\<close>
  receivedBlocks :: "bool list"

datatype fs_error =
    FsFileNotOpen
  | FsNegativeLength
  | FsBadPieceLength
  | FsBadBlockLength
  | FsHashCount nat int
  | FsStat io_error
  | ErrInvalidPiece
  | ErrInvalidBlock
  | ErrPieceInvalidState
  | FsHashMismatch
  | FsIo io_error
  | FsPanic

definition newPiece :: piece where
  "newPiece = \<lparr>pc_state = pieceMissing, generation = 0, pc_buffer = None, receivedBlocks = []\<rparr>"

definition blockCountFor :: "uint32 \<Rightarrow> uint32 \<Rightarrow> nat" where
  "blockCountFor pieceLength blockLen = unat ((pieceLength - 1) div blockLen + 1)"

definition requestLengthFor :: "uint32 \<Rightarrow> uint32 \<Rightarrow> uint32 \<Rightarrow> uint32" where
  "requestLengthFor pieceLength begin blockLen =
     (if blockLen = 0 \<or> begin \<ge> pieceLength then 0
      else let remaining = pieceLength - begin in
        if remaining < blockLen then remaining else blockLen)"

definition pc_prepare :: "piece \<Rightarrow> uint32 \<Rightarrow> uint32 \<Rightarrow> fs_error + piece" where
  "pc_prepare p len blockLen =
     (if pc_state p \<noteq> pieceMissing \<or> len = 0 \<or> blockLen = 0 then Inl ErrPieceInvalidState
      else Inr \<lparr>pc_state = pieceReceiving, generation = generation p + 1,
                pc_buffer = Some (replicate (unat len) 0),
                receivedBlocks = replicate (blockCountFor len blockLen) False\<rparr>)"

definition pc_allBlocksReceived :: "piece \<Rightarrow> bool" where
  "pc_allBlocksReceived p \<longleftrightarrow>
     pc_state p = pieceReceiving \<and> pc_buffer p \<noteq> None \<and> receivedBlocks p \<noteq> [] \<and>
     list_all (\<lambda>r. r) (receivedBlocks p)"

definition pc_acceptBlock ::
    "piece \<Rightarrow> uint32 \<Rightarrow> byte list \<Rightarrow> uint32 \<Rightarrow> (fs_error + bool) \<times> piece" where
  "pc_acceptBlock p begin data blockLen =
     (case pc_buffer p of
        None \<Rightarrow> (Inl ErrPieceInvalidState, p)
      | Some buf \<Rightarrow>
     if pc_state p \<noteq> pieceReceiving \<or> receivedBlocks p = [] then (Inl ErrPieceInvalidState, p)
     else if blockLen = 0 \<or> begin mod blockLen \<noteq> 0 then (Inl ErrInvalidBlock, p)
     else let expectedLength = requestLengthFor (of_nat (length buf)) begin blockLen in
     if expectedLength = 0 \<or> of_nat (length data) \<noteq> expectedLength then (Inl ErrInvalidBlock, p)
     else let blockIndex = unat (begin div blockLen) in
     if blockIndex \<ge> length (receivedBlocks p) \<or> receivedBlocks p ! blockIndex
     then (Inl ErrInvalidBlock, p)
     else if unat begin + length data > length buf then (Inl FsPanic, p)
     else let p1 = p\<lparr>pc_buffer := Some (overwrite buf (unat begin) data),
                     receivedBlocks := (receivedBlocks p)[blockIndex := True]\<rparr> in
     if \<not> pc_allBlocksReceived p1 then (Inr False, p1)
     else (Inr True, p1\<lparr>pc_state := pieceAssembled, receivedBlocks := []\<rparr>))"

definition takeForFinalization :: "piece \<Rightarrow> (fs_error + byte list \<times> uint64) \<times> piece" where
  "takeForFinalization p =
     (case pc_buffer p of
        None \<Rightarrow> (Inl ErrPieceInvalidState, p)
      | Some buf \<Rightarrow>
          if pc_state p \<noteq> pieceAssembled then (Inl ErrPieceInvalidState, p)
          else (Inr (buf, generation p), p\<lparr>pc_buffer := None, pc_state := pieceFinalizing\<rparr>))"

definition pc_markComplete :: "piece \<Rightarrow> uint64 \<Rightarrow> bool \<times> piece" where
  "pc_markComplete p gen =
     (if pc_state p \<noteq> pieceFinalizing \<or> generation p \<noteq> gen then (False, p)
      else (True, p\<lparr>pc_state := pieceComplete\<rparr>))"

definition pc_reject :: "piece \<Rightarrow> uint64 \<Rightarrow> bool \<times> piece" where
  "pc_reject p gen =
     (if pc_state p \<noteq> pieceFinalizing \<or> generation p \<noteq> gen then (False, p)
      else (True, p\<lparr>pc_state := pieceMissing, pc_buffer := None, receivedBlocks := []\<rparr>))"

definition pc_restore :: "piece \<Rightarrow> uint64 \<Rightarrow> byte list option \<Rightarrow> bool \<times> piece" where
  "pc_restore p gen buf =
     (if pc_state p \<noteq> pieceFinalizing \<or> generation p \<noteq> gen \<or> buf = None then (False, p)
      else (True, p\<lparr>pc_state := pieceAssembled, pc_buffer := buf\<rparr>))"

definition markExistingComplete :: "piece \<Rightarrow> piece" where
  "markExistingComplete p = p\<lparr>pc_state := pieceComplete, pc_buffer := None, receivedBlocks := []\<rparr>"

definition pc_complete :: "piece \<Rightarrow> bool" where
  "pc_complete p \<longleftrightarrow> pc_state p = pieceComplete"

subsection \<open>The store: \<^verbatim>\<open>file.go\<close>\<close>

definition defaultBlockLength :: uint32 where
  "defaultBlockLength = 16 * 1024"

record fileStorage =
  fs_file :: osfile
  fs_info :: Info
  blockLength :: uint32
  fs_pieces :: "piece list"

abbreviation fs_count32 :: "fileStorage \<Rightarrow> uint32" where
  "fs_count32 fs \<equiv> of_nat (length (fs_pieces fs))"

definition fs_count :: "fileStorage \<Rightarrow> nat" where
  "fs_count fs = length (fs_pieces fs)"

definition pieceAt :: "fileStorage \<Rightarrow> uint32 \<Rightarrow> piece option" where
  "pieceAt fs index = (if index \<ge> fs_count32 fs then None else Some (fs_pieces fs ! unat index))"

definition set_piece :: "fileStorage \<Rightarrow> uint32 \<Rightarrow> piece \<Rightarrow> fileStorage" where
  "set_piece fs index p = fs\<lparr>fs_pieces := (fs_pieces fs)[unat index := p]\<rparr>"

definition fs_pieceOffset :: "fileStorage \<Rightarrow> uint32 \<Rightarrow> fs_error + int" where
  "fs_pieceOffset fs index =
     (case pieceAt fs index of
        None \<Rightarrow> Inl ErrInvalidPiece
      | Some _ \<Rightarrow> Inr (int64 (int (unat index) * PieceLength (fs_info fs))))"

definition fs_pieceLength :: "fileStorage \<Rightarrow> uint32 \<Rightarrow> fs_error + uint32" where
  "fs_pieceLength fs index =
     bind_r (fs_pieceOffset fs index) (\<lambda>offset.
       let remaining = int64 (Length (fs_info fs) - offset) in
       if remaining \<le> 0 then Inl ErrInvalidPiece
       else Inr (of_int (if remaining < PieceLength (fs_info fs) then remaining
                         else PieceLength (fs_info fs))))"

fun recheck_loop ::
    "nat list \<Rightarrow> fileStorage \<Rightarrow> int \<Rightarrow> (nat \<Rightarrow> io_outcome) \<Rightarrow> fs_error option \<times> fileStorage"
where
  "recheck_loop [] fs existingSize rd = (None, fs)"
| "recheck_loop (index # is) fs existingSize rd =
     (let pieceIndex = of_nat index in
      case fs_pieceOffset fs pieceIndex of
        Inl er \<Rightarrow> (Some er, fs)
      | Inr offset \<Rightarrow>
      case fs_pieceLength fs pieceIndex of
        Inl er \<Rightarrow> (Some er, fs)
      | Inr len \<Rightarrow>
      if existingSize < int64 (offset + int (unat len)) then recheck_loop is fs existingSize rd
      else case file_ReadAt (fs_file fs) (rd index) (unat len) (nat offset) of
        (data, err) \<Rightarrow>
      if err \<noteq> None \<and> err \<noteq> Some ErrEOF then (Some (FsIo (the err)), fs)
      else if length data = unat len \<and> index \<ge> length (PieceHashes (fs_info fs)) then (Some FsPanic, fs)
      else if length data = unat len \<and> VerifyPiece data (PieceHashes (fs_info fs) ! index)
      then recheck_loop is
             (fs\<lparr>fs_pieces := (fs_pieces fs)[index := markExistingComplete (fs_pieces fs ! index)]\<rparr>)
             existingSize rd
      else recheck_loop is fs existingSize rd)"

definition recheck :: "fileStorage \<Rightarrow> int \<Rightarrow> (nat \<Rightarrow> io_outcome) \<Rightarrow> fs_error option \<times> fileStorage" where
  "recheck fs existingSize rd = recheck_loop [0..<length (fs_pieces fs)] fs existingSize rd"

text \<open>\<open>stat\<close> is the size \<^verbatim>\<open>file.Stat\<close> reports, or its error.\<close>

definition newFileStorage ::
    "osfile option \<Rightarrow> Info \<Rightarrow> uint32 \<Rightarrow> io_error + int \<Rightarrow> (nat \<Rightarrow> io_outcome) \<Rightarrow> fs_error + fileStorage" where
  "newFileStorage f info blockLen stat rd =
     (case f of
        None \<Rightarrow> Inl FsFileNotOpen
      | Some content \<Rightarrow>
     if Length info < 0 then Inl FsNegativeLength
     else if PieceLength info \<le> 0 \<or> PieceLength info > 2 ^ 32 - 1 then Inl FsBadPieceLength
     else if blockLen = 0 then Inl FsBadBlockLength
     else let expected = expectedPieces (Length info) (PieceLength info) in
     if int (length (PieceHashes info)) \<noteq> expected
     then Inl (FsHashCount (length (PieceHashes info)) expected)
     else bind_r (map_sum FsStat id stat) (\<lambda>size.
       case recheck \<lparr>fs_file = content, fs_info = info, blockLength = blockLen,
                      fs_pieces = replicate (nat expected) newPiece\<rparr> size rd of
         (Some er, _) \<Rightarrow> Inl er
       | (None, fs) \<Rightarrow> Inr fs))"

definition fs_blockRequest :: "fileStorage \<Rightarrow> uint32 \<Rightarrow> uint32 \<Rightarrow> fs_error + BlockRequest" where
  "fs_blockRequest fs index begin =
     (if begin mod blockLength fs \<noteq> 0 then Inl ErrInvalidBlock
      else bind_r (fs_pieceLength fs index) (\<lambda>pieceLength.
        let len = requestLengthFor pieceLength begin (blockLength fs) in
        if len = 0 then Inl ErrInvalidBlock
        else Inr \<lparr>PieceIndex = index, Begin = begin, BlockLength = len\<rparr>))"

text \<open>The step both \<^verbatim>\<open>nextMissingBlock\<close> and \<^verbatim>\<open>acceptBlock\<close> open with: a missing piece is prepared.\<close>

definition prepare_missing :: "fileStorage \<Rightarrow> uint32 \<Rightarrow> piece \<Rightarrow> fs_error + piece" where
  "prepare_missing fs index p =
     (if pc_state p = pieceMissing
      then bind_r (fs_pieceLength fs index) (\<lambda>len. pc_prepare p len (blockLength fs))
      else Inr p)"

fun fs_nextMissing_loop ::
    "fileStorage \<Rightarrow> uint32 \<Rightarrow> (BlockRequest \<Rightarrow> bool) option \<Rightarrow> nat \<Rightarrow> bool list \<Rightarrow> fs_error + BlockRequest option"
where
  "fs_nextMissing_loop fs index isPending i [] = Inr None"
| "fs_nextMissing_loop fs index isPending i (received # rs) =
     (if received then fs_nextMissing_loop fs index isPending (Suc i) rs
      else bind_r (fs_blockRequest fs index (of_nat i * blockLength fs)) (\<lambda>request.
        if (case isPending of None \<Rightarrow> True | Some f \<Rightarrow> \<not> f request) then Inr (Some request)
        else fs_nextMissing_loop fs index isPending (Suc i) rs))"

definition fs_nextMissingBlock ::
    "fileStorage \<Rightarrow> uint32 \<Rightarrow> (BlockRequest \<Rightarrow> bool) option \<Rightarrow> (fs_error + BlockRequest option) \<times> fileStorage" where
  "fs_nextMissingBlock fs index isPending =
     (case pieceAt fs index of
        None \<Rightarrow> (Inl ErrInvalidPiece, fs)
      | Some p \<Rightarrow>
     (case prepare_missing fs index p of
        Inl er \<Rightarrow> (Inl er, fs)
      | Inr p1 \<Rightarrow>
          let fs1 = set_piece fs index p1 in
          if pc_state p1 \<noteq> pieceReceiving then (Inr None, fs1)
          else (fs_nextMissing_loop fs1 index isPending 0 (receivedBlocks p1), fs1)))"

definition fs_acceptBlock ::
    "fileStorage \<Rightarrow> BlockRequest \<Rightarrow> byte list \<Rightarrow> (fs_error + bool) \<times> fileStorage" where
  "fs_acceptBlock fs request data =
     (case fs_blockRequest fs (PieceIndex request) (Begin request) of
        Inl er \<Rightarrow> (Inl er, fs)
      | Inr expected \<Rightarrow>
     if request \<noteq> expected \<or> of_nat (length data) \<noteq> BlockLength request then (Inl ErrInvalidBlock, fs)
     else case pieceAt fs (PieceIndex request) of
        None \<Rightarrow> (Inl ErrInvalidPiece, fs)
      | Some p \<Rightarrow>
     (case prepare_missing fs (PieceIndex request) p of
        Inl er \<Rightarrow> (Inl er, fs)
      | Inr p1 \<Rightarrow>
          (case pc_acceptBlock p1 (Begin request) data (blockLength fs) of
             (res, p2) \<Rightarrow> (res, set_piece fs (PieceIndex request) p2))))"

record pieceFinalizeJob =
  job_pieceIndex :: uint32
  job_generation :: uint64
  job_buffer :: "byte list"

record pieceFinalizeResult =
  res_pieceIndex :: uint32
  res_generation :: uint64
  res_buffer :: "byte list option"
  res_err :: "fs_error option"

definition takeFinalizeJob :: "fileStorage \<Rightarrow> uint32 \<Rightarrow> (fs_error + pieceFinalizeJob) \<times> fileStorage" where
  "takeFinalizeJob fs index =
     (case pieceAt fs index of
        None \<Rightarrow> (Inl ErrInvalidPiece, fs)
      | Some p \<Rightarrow>
     (case takeForFinalization p of
        (Inl er, _) \<Rightarrow> (Inl er, fs)
      | (Inr (buf, gen), p1) \<Rightarrow>
          (Inr \<lparr>job_pieceIndex = index, job_generation = gen, job_buffer = buf\<rparr>, set_piece fs index p1)))"

text \<open>The worker: it reads the geometry, which never changes, and writes the file; it does not touch
  the pieces.\<close>

definition verifyAndWritePiece ::
    "fileStorage \<Rightarrow> pieceFinalizeJob \<Rightarrow> io_outcome \<Rightarrow> pieceFinalizeResult \<times> osfile" where
  "verifyAndWritePiece fs job oc =
     (let result = \<lparr>res_pieceIndex = job_pieceIndex job, res_generation = job_generation job,
                    res_buffer = Some (job_buffer job), res_err = None\<rparr> in
      case fs_pieceLength fs (job_pieceIndex job) of
        Inl _ \<Rightarrow> (result\<lparr>res_err := Some ErrInvalidPiece\<rparr>, fs_file fs)
      | Inr len \<Rightarrow>
      if of_nat (length (job_buffer job)) \<noteq> len then (result\<lparr>res_err := Some ErrInvalidPiece\<rparr>, fs_file fs)
      else if unat (job_pieceIndex job) \<ge> length (PieceHashes (fs_info fs))
      then (result\<lparr>res_err := Some FsPanic\<rparr>, fs_file fs)
      else if \<not> VerifyPiece (job_buffer job) (PieceHashes (fs_info fs) ! unat (job_pieceIndex job))
      then (result\<lparr>res_buffer := None, res_err := Some FsHashMismatch\<rparr>, fs_file fs)
      else case fs_pieceOffset fs (job_pieceIndex job) of
        Inl er \<Rightarrow> (result\<lparr>res_err := Some er\<rparr>, fs_file fs)
      | Inr offset \<Rightarrow>
      case file_WriteAt (fs_file fs) oc (job_buffer job) (nat offset) of
        ((n, err), f) \<Rightarrow>
      (case err of
         Some er \<Rightarrow> (result\<lparr>res_err := Some (FsIo er)\<rparr>, f)
       | None \<Rightarrow>
           if n \<noteq> length (job_buffer job) then (result\<lparr>res_err := Some (FsIo ErrShortWrite)\<rparr>, f)
           else (result\<lparr>res_buffer := None\<rparr>, f)))"

definition applyFinalizeResult :: "fileStorage \<Rightarrow> pieceFinalizeResult \<Rightarrow> bool \<times> fileStorage" where
  "applyFinalizeResult fs result =
     (case pieceAt fs (res_pieceIndex result) of
        None \<Rightarrow> (False, fs)
      | Some p \<Rightarrow>
     (case (if res_err result = None then pc_markComplete p (res_generation result)
            else if res_err result = Some FsHashMismatch then pc_reject p (res_generation result)
            else pc_restore p (res_generation result) (res_buffer result)) of
        (ok, p1) \<Rightarrow> (ok, set_piece fs (res_pieceIndex result) p1)))"

definition fs_readBlock :: "fileStorage \<Rightarrow> BlockRequest \<Rightarrow> io_outcome \<Rightarrow> fs_error + byte list" where
  "fs_readBlock fs request oc =
     (case pieceAt fs (PieceIndex request) of
        None \<Rightarrow> Inl ErrInvalidPiece
      | Some p \<Rightarrow>
     if \<not> pc_complete p then Inl ErrInvalidPiece
     else bind_r (fs_blockRequest fs (PieceIndex request) (Begin request)) (\<lambda>expected.
     if request \<noteq> expected then Inl ErrInvalidBlock
     else bind_r (fs_pieceOffset fs (PieceIndex request)) (\<lambda>offset.
     case file_ReadAt (fs_file fs) oc (unat (BlockLength request))
            (nat (int64 (offset + int (unat (Begin request))))) of
       (data, err) \<Rightarrow>
     if err \<noteq> None \<and> err \<noteq> Some ErrEOF then Inl (FsIo (the err))
     else if length data \<noteq> unat (BlockLength request) then Inl (FsIo ErrUnexpectedEOF)
     else Inr data)))"

definition fs_completedCount :: "fileStorage \<Rightarrow> nat" where
  "fs_completedCount fs = length (filter pc_complete (fs_pieces fs))"

fun fs_bytesLeft_loop :: "fileStorage \<Rightarrow> nat \<Rightarrow> piece list \<Rightarrow> uint64 \<Rightarrow> fs_error + uint64" where
  "fs_bytesLeft_loop fs i [] left = Inr left"
| "fs_bytesLeft_loop fs i (p # ps) left =
     (if pc_complete p then fs_bytesLeft_loop fs (Suc i) ps left
      else case fs_pieceLength fs (of_nat i) of
        Inl _ \<Rightarrow> Inl FsPanic
      | Inr len \<Rightarrow> fs_bytesLeft_loop fs (Suc i) ps (left + ucast len))"

definition fs_bytesLeft :: "fileStorage \<Rightarrow> fs_error + uint64" where
  "fs_bytesLeft fs = fs_bytesLeft_loop fs 0 (fs_pieces fs) 0"

definition fs_complete :: "fileStorage \<Rightarrow> fs_error + bool" where
  "fs_complete fs = bind_r (fs_bytesLeft fs) (\<lambda>left. Inr (left = 0))"

unbundle bit_operations_syntax

fun fs_bitfield_loop :: "nat list \<Rightarrow> fileStorage \<Rightarrow> byte list \<Rightarrow> byte list" where
  "fs_bitfield_loop [] fs bits = bits"
| "fs_bitfield_loop (index # is) fs bits =
     (if pc_complete (fs_pieces fs ! index)
      then fs_bitfield_loop is fs
             (bits[index div 8 := bits ! (index div 8) OR push_bit (7 - index mod 8) 1])
      else fs_bitfield_loop is fs bits)"

definition fs_bitfield :: "fileStorage \<Rightarrow> byte list" where
  "fs_bitfield fs =
     fs_bitfield_loop [0..<length (fs_pieces fs)] fs (replicate ((length (fs_pieces fs) + 7) div 8) 0)"

end
