(* ===== verification/FileStorage_Laws.thy ===== *)
theory FileStorage_Laws
  imports FileStorage
begin

text \<open>
  What \<^verbatim>\<open>fileStorage\<close> promises: it is a block layout for every block length, its pieces keep the
  shape of their state, and through the abstraction \<open>ps_of\<close> it is the same content store as
  \<^verbatim>\<open>PieceSet\<close>.
\<close>

subsection \<open>Abstraction to a piece set\<close>

definition abs_piece :: "nat \<Rightarrow> piece \<Rightarrow> PieceState" where
  "abs_piece bl p =
     (case pc_state p of
        pieceReceiving \<Rightarrow> \<lparr>Complete = False, Data = pc_buffer p, Received = receivedBlocks p\<rparr>
      | pieceAssembled \<Rightarrow> \<lparr>Complete = False, Data = pc_buffer p,
          Received = replicate (pcount (length (the (pc_buffer p))) bl) True\<rparr>
      | pieceComplete \<Rightarrow> \<lparr>Complete = True, Data = None, Received = []\<rparr>
      | _ \<Rightarrow> newPieceState)"

definition ps_of :: "fileStorage \<Rightarrow> PieceSet" where
  "ps_of fs = \<lparr>ps_info = fs_info fs, ps_states = map (abs_piece (unat (blockLength fs))) (fs_pieces fs)\<rparr>"

lemma ps_of_simps [simp]:
  "ps_info (ps_of fs) = fs_info fs"
  "length (ps_states (ps_of fs)) = length (fs_pieces fs)"
  "i < length (fs_pieces fs) \<Longrightarrow> ps_states (ps_of fs) ! i = abs_piece (unat (blockLength fs)) (fs_pieces fs ! i)"
  by (simp_all add: ps_of_def)

lemma Complete_abs_piece [simp]: "Complete (abs_piece bl p) \<longleftrightarrow> pc_complete p"
  by (simp add: abs_piece_def pc_complete_def newPieceState_def split: pieceState.split)

definition wf_piece :: "nat \<Rightarrow> nat \<Rightarrow> piece \<Rightarrow> bool" where
  "wf_piece bl n p \<longleftrightarrow>
     (case pc_state p of
        pieceReceiving \<Rightarrow> (\<exists>d. pc_buffer p = Some d \<and> length d = n) \<and>
          length (receivedBlocks p) = pcount n bl \<and> \<not> list_all (\<lambda>r. r) (receivedBlocks p)
      | pieceAssembled \<Rightarrow> (\<exists>d. pc_buffer p = Some d \<and> length d = n) \<and> receivedBlocks p = []
      | _ \<Rightarrow> pc_buffer p = None \<and> receivedBlocks p = [])"

abbreviation fs_plen :: "fileStorage \<Rightarrow> nat \<Rightarrow> nat" where
  "fs_plen fs i \<equiv> plen_at (ps_of fs) i"

abbreviation fs_bsize :: "fileStorage \<Rightarrow> nat" where
  "fs_bsize fs \<equiv> unat (blockLength fs)"

definition fs_geometry :: "fileStorage \<Rightarrow> bool" where
  "fs_geometry fs \<longleftrightarrow> wf_geometry (ps_of fs) \<and> blockLength fs \<noteq> 0"

definition wf_fs :: "fileStorage \<Rightarrow> bool" where
  "wf_fs fs \<longleftrightarrow>
     fs_geometry fs \<and> (\<forall>i < length (fs_pieces fs). wf_piece (fs_bsize fs) (fs_plen fs i) (fs_pieces fs ! i))"

lemma wf_fs_geometry [simp]: "wf_fs fs \<Longrightarrow> fs_geometry fs"
  by (simp add: wf_fs_def)

lemma fs_geometry_ps [simp]: "fs_geometry fs \<Longrightarrow> wf_geometry (ps_of fs)"
  by (simp add: fs_geometry_def)

lemma wf_fs_piece:
  "wf_fs fs \<Longrightarrow> i < length (fs_pieces fs) \<Longrightarrow> wf_piece (fs_bsize fs) (fs_plen fs i) (fs_pieces fs ! i)"
  by (simp add: wf_fs_def)

lemma fs_plen_pos: "fs_geometry fs \<Longrightarrow> i < length (fs_pieces fs) \<Longrightarrow> 0 < fs_plen fs i"
  using plen_at_pos [of "ps_of fs" i] by simp

lemma fs_plen_32: "fs_geometry fs \<Longrightarrow> fs_plen fs i < 2 ^ 32"
  using plen_at_32 [of "ps_of fs" i] by simp

subsection \<open>Geometry\<close>

lemma pieceAt_in: "fs_geometry fs \<Longrightarrow> unat w < length (fs_pieces fs) \<Longrightarrow> pieceAt fs w = Some (fs_pieces fs ! unat w)"
  using ge_count32 [of "ps_of fs" w] by (simp add: pieceAt_def)

lemma pieceAt_out: "fs_geometry fs \<Longrightarrow> length (fs_pieces fs) \<le> unat w \<Longrightarrow> pieceAt fs w = None"
  using ge_count32 [of "ps_of fs" w] by (simp add: pieceAt_def)

lemma pieceAt_Some:
  "fs_geometry fs \<Longrightarrow> pieceAt fs w = Some p \<longleftrightarrow> unat w < length (fs_pieces fs) \<and> p = fs_pieces fs ! unat w"
  by (cases "unat w < length (fs_pieces fs)") (auto simp: pieceAt_in pieceAt_out)

lemma fs_pieceOffset_eq: "fs_pieceOffset fs w = map_sum (\<lambda>_. ErrInvalidPiece) id (ps_PieceOffset (ps_of fs) w)"
  by (simp add: fs_pieceOffset_def ps_PieceOffset_def pieceAt_def)

lemma fs_pieceLength_eq: "fs_pieceLength fs w = map_sum (\<lambda>_. ErrInvalidPiece) id (ps_PieceLength (ps_of fs) w)"
  by (simp add: fs_pieceLength_def fs_pieceOffset_def ps_PieceLength_def pieceAt_def Let_def)

lemma fs_pieceLength_in:
  "fs_geometry fs \<Longrightarrow> unat w < length (fs_pieces fs) \<Longrightarrow> fs_pieceLength fs w = Inr (of_nat (fs_plen fs (unat w)))"
  using ps_PieceLength_in [of "ps_of fs" w] by (simp add: fs_pieceLength_eq)

lemma fs_pieceOffset_in:
  "fs_geometry fs \<Longrightarrow> unat w < length (fs_pieces fs) \<Longrightarrow>
   fs_pieceOffset fs w = Inr (int (unat w * nat (PieceLength (fs_info fs))))"
  using ps_PieceOffset_in [of "ps_of fs" w] by (simp add: fs_pieceOffset_eq)

lemma unat_requestLengthFor: "bl \<noteq> 0 \<Longrightarrow> unat (requestLengthFor n b bl) = min (unat bl) (unat n - unat b)"
proof (cases "n \<le> b")
  case True
  then show ?thesis by (simp add: requestLengthFor_def word_le_nat_alt)
next
  case False
  assume "bl \<noteq> 0"
  moreover have "unat (n - b) = unat n - unat b"
    using False by (simp add: unat_sub_if' word_le_nat_alt)
  ultimately show ?thesis
    using False by (auto simp: requestLengthFor_def Let_def word_less_nat_alt min_def)
qed

lemma unat_mod_zero: "b mod bl = 0 \<longleftrightarrow> unat bl dvd unat (b :: uint32)"
proof -
  have "b mod bl = 0 \<longleftrightarrow> unat (b mod bl) = 0" by (simp add: unat_eq_0)
  then show ?thesis by (simp add: unat_mod dvd_eq_mod_eq_0)
qed

lemma fs_blockRequest_Inr:
  assumes "blockLength fs \<noteq> 0"
  shows "fs_blockRequest fs w b = Inr q \<longleftrightarrow>
     (\<exists>n. fs_pieceLength fs w = Inr n \<and> fs_bsize fs dvd unat b \<and> unat b < unat n \<and>
          PieceIndex q = w \<and> Begin q = b \<and> unat (BlockLength q) = min (fs_bsize fs) (unat n - unat b))"
proof -
  note len = unat_requestLengthFor [OF assms]
  have "0 < fs_bsize fs" using assms by (simp add: unat_gt_0)
  then have "requestLengthFor n b (blockLength fs) = 0 \<longleftrightarrow> unat n \<le> unat b" for n
    using len [of n b] by (simp add: unat_eq_0 [symmetric] min_def split: if_splits)
  moreover have "BlockLength q = requestLengthFor n b (blockLength fs) \<longleftrightarrow>
      unat (BlockLength q) = min (fs_bsize fs) (unat n - unat b)"
    for n by (simp add: word_unat_eq_iff len)
  moreover have "Inr \<lparr>PieceIndex = w, Begin = b, BlockLength = l\<rparr> = Inr q \<longleftrightarrow>
      PieceIndex q = w \<and> Begin q = b \<and> BlockLength q = l" for l
    by (cases q) auto
  ultimately show ?thesis
    by (cases "fs_pieceLength fs w") (auto simp: fs_blockRequest_def unat_mod_zero Let_def)
qed

interpretation fl: block_layout fs_geometry fs_count "\<lambda>fs. nat (Length (fs_info fs))"
  "\<lambda>fs. nat (PieceLength (fs_info fs))" fs_pieceLength fs_pieceOffset fs_bsize fs_blockRequest
proof
  fix fs :: fileStorage and w b :: uint32 and q :: BlockRequest
  assume wf: "fs_geometry fs"
  then have geo: "wf_geometry (ps_of fs)" and bl: "blockLength fs \<noteq> 0" by (simp_all add: fs_geometry_def)
  show "0 < nat (PieceLength (fs_info fs)) \<and> nat (PieceLength (fs_info fs)) < 2 ^ 32"
    using ps.psize [OF geo] by simp
  show "fs_count fs = pcount (nat (Length (fs_info fs))) (nat (PieceLength (fs_info fs))) \<and> fs_count fs < 2 ^ 32"
    using ps.count [OF geo] by (simp add: ps_Count_def fs_count_def)
  show "fs_pieceLength fs w = Inr (of_nat (plen (nat (Length (fs_info fs))) (nat (PieceLength (fs_info fs))) (unat w)))"
    if "unat w < fs_count fs"
    using fs_pieceLength_in [OF wf] that by (simp add: fs_count_def plen_at_def)
  show "\<exists>e. fs_pieceLength fs w = Inl e" if "fs_count fs \<le> unat w"
    using pieceAt_out [OF wf] that by (simp add: fs_pieceLength_def fs_pieceOffset_def fs_count_def)
  show "fs_pieceOffset fs w = Inr (int (unat w * nat (PieceLength (fs_info fs))))" if "unat w < fs_count fs"
    using fs_pieceOffset_in [OF wf] that by (simp add: fs_count_def)
  show "\<exists>e. fs_pieceOffset fs w = Inl e" if "fs_count fs \<le> unat w"
    using pieceAt_out [OF wf] that by (simp add: fs_pieceOffset_def fs_count_def)
  show "0 < fs_bsize fs" using bl by (simp add: unat_gt_0)
  show "fs_blockRequest fs w b = Inr q \<longleftrightarrow>
      (\<exists>n. fs_pieceLength fs w = Inr n \<and> fs_bsize fs dvd unat b \<and> unat b < unat n \<and>
           PieceIndex q = w \<and> Begin q = b \<and> unat (BlockLength q) = min (fs_bsize fs) (unat n - unat b))"
    by (rule fs_blockRequest_Inr [OF bl])
qed

subsection \<open>Updating one piece\<close>

lemma set_piece_simps [simp]:
  "fs_info (set_piece fs w p) = fs_info fs" "blockLength (set_piece fs w p) = blockLength fs"
  "fs_file (set_piece fs w p) = fs_file fs" "length (fs_pieces (set_piece fs w p)) = length (fs_pieces fs)"
  "fs_plen (set_piece fs w p) i = fs_plen fs i"
  by (simp_all add: set_piece_def ps_of_def plen_at_def)

lemma set_piece_nth:
  "i < length (fs_pieces fs) \<Longrightarrow>
   fs_pieces (set_piece fs w p) ! i = (if i = unat w then p else fs_pieces fs ! i)"
  by (simp add: set_piece_def nth_list_update)

lemma ps_of_set_piece:
  "ps_of (set_piece fs w p) = set_state (ps_of fs) w (abs_piece (fs_bsize fs) p)"
  by (simp add: ps_of_def set_piece_def set_state_def map_update)

lemma fs_geometry_set_piece [simp]: "fs_geometry (set_piece fs w p) = fs_geometry fs"
  by (simp add: fs_geometry_def ps_of_set_piece)

lemma fs_blockRequest_set_piece [simp]: "fs_blockRequest (set_piece fs w p) = fs_blockRequest fs"
  by (simp add: fs_blockRequest_def fs_pieceLength_eq ps_of_set_piece fun_eq_iff cong: if_cong)

lemma set_piece_same [simp]: "set_piece fs w (fs_pieces fs ! unat w) = fs"
  by (simp add: set_piece_def)

lemma set_piece_twice [simp]: "set_piece (set_piece fs w p) w p' = set_piece fs w p'"
  by (simp add: set_piece_def)

lemma wf_fs_set_piece:
  "wf_fs fs \<Longrightarrow> wf_piece (fs_bsize fs) (fs_plen fs (unat w)) p \<Longrightarrow> wf_fs (set_piece fs w p)"
  by (simp add: wf_fs_def set_piece_nth)

subsection \<open>Preparing and filling a piece\<close>

lemma blockCountFor_pcount:
  assumes "0 < unat n" and "bl \<noteq> 0"
  shows "blockCountFor n bl = pcount (unat n) (unat bl)"
proof -
  have "unat (n - 1) = unat n - 1" using assms by (simp add: unat_minus_one unat_gt_0)
  then have d: "unat ((n - 1) div bl) = (unat n - 1) div unat bl" by (simp add: unat_div_distrib)
  have "(unat n - 1) div unat bl \<le> unat n - 1" by (rule div_le_dividend)
  then have "(unat n - 1) div unat bl + 1 < 2 ^ 32"
    using unat_uint32_bound [of n] assms(1) by linarith
  then have "unat ((n - 1) div bl + 1) = (unat n - 1) div unat bl + 1"
    using d by (subst unat_word_ariths) simp
  then show ?thesis using assms by (simp add: blockCountFor_def pcount_alt unat_gt_0)
qed

text \<open>A missing piece gets a fresh buffer and the next generation; any other piece stays.\<close>

definition prep :: "nat \<Rightarrow> nat \<Rightarrow> piece \<Rightarrow> piece" where
  "prep bl n p =
     (if pc_state p = pieceMissing
      then \<lparr>pc_state = pieceReceiving, generation = generation p + 1,
            pc_buffer = Some (replicate n 0), receivedBlocks = replicate (pcount n bl) False\<rparr>
      else p)"

lemma prepare_missing_eq:
  assumes "fs_geometry fs" and "unat w < length (fs_pieces fs)"
  shows "prepare_missing fs w p = Inr (prep (fs_bsize fs) (fs_plen fs (unat w)) p)"
proof -
  let ?n = "fs_plen fs (unat w)"
  have n: "unat (of_nat ?n :: uint32) = ?n" using fs_plen_32 [OF assms(1)] by (simp add: unat_of_nat_small)
  have pos: "0 < ?n" using fs_plen_pos [OF assms] .
  have bl: "blockLength fs \<noteq> 0" using assms(1) by (simp add: fs_geometry_def)
  have "(of_nat ?n :: uint32) \<noteq> 0" using pos n by (metis less_irrefl unat_0)
  moreover have "blockCountFor (of_nat ?n) (blockLength fs) = pcount ?n (fs_bsize fs)"
    using blockCountFor_pcount [OF _ bl, of "of_nat ?n"] pos by (simp only: n)
  ultimately show ?thesis
    using bl n by (simp add: prepare_missing_def fs_pieceLength_in [OF assms] pc_prepare_def prep_def)
qed

lemma wf_piece_prep:
  assumes "wf_piece bl n p" and "0 < n" and "0 < bl"
  shows "wf_piece bl n (prep bl n p)"
  using assms pcount_pos [of bl n] by (auto simp: wf_piece_def prep_def list_all_length split: pieceState.splits)

text \<open>Block \<open>k\<close> stored into a receiving piece; the last one assembles it.\<close>

definition fill :: "nat \<Rightarrow> piece \<Rightarrow> nat \<Rightarrow> byte list \<Rightarrow> piece" where
  "fill bl p k data =
     (let p1 = p\<lparr>pc_buffer := map_option (\<lambda>d. overwrite d (k * bl) data) (pc_buffer p),
                 receivedBlocks := (receivedBlocks p)[k := True]\<rparr> in
      if pc_allBlocksReceived p1 then p1\<lparr>pc_state := pieceAssembled, receivedBlocks := []\<rparr> else p1)"

lemma wf_piece_fill:
  assumes "wf_piece bl n p" and "pc_state p = pieceReceiving" and "k < pcount n bl"
    and "length data = plen n bl k" and "0 < bl"
  shows "wf_piece bl n (fill bl p k data)"
proof -
  obtain d where d: "pc_buffer p = Some d" "length d = n" "length (receivedBlocks p) = pcount n bl"
    using assms(1,2) by (auto simp: wf_piece_def)
  have "k * bl + length data \<le> n" using plen_end [OF assms(5,3)] assms(4) by simp
  moreover have "(receivedBlocks p)[k := True] \<noteq> []" using d(3) assms(3) by auto
  ultimately show ?thesis
    using d assms(2) by (auto simp: wf_piece_def fill_def Let_def pc_allBlocksReceived_def)
qed

text \<open>A request that names a block of the torrent, with data of its length.\<close>

definition fs_good :: "fileStorage \<Rightarrow> BlockRequest \<Rightarrow> byte list \<Rightarrow> bool" where
  "fs_good fs q data \<longleftrightarrow>
     fs_blockRequest fs (PieceIndex q) (Begin q) = Inr q \<and> length data = unat (BlockLength q)"

definition fs_block_no :: "fileStorage \<Rightarrow> BlockRequest \<Rightarrow> nat" where
  "fs_block_no fs q = unat (Begin q) div fs_bsize fs"

lemma fs_good_facts:
  assumes "fs_geometry fs" and "fs_good fs q data"
  shows "unat (PieceIndex q) < length (fs_pieces fs)"
    and "fs_block_no fs q < pcount (fs_plen fs (unat (PieceIndex q))) (fs_bsize fs)"
    and "length data = plen (fs_plen fs (unat (PieceIndex q))) (fs_bsize fs) (fs_block_no fs q)"
    and "unat (Begin q) = fs_block_no fs q * fs_bsize fs"
    and "unat (BlockLength q) = min (fs_bsize fs) (fs_plen fs (unat (PieceIndex q)) - unat (Begin q))"
    and "unat (Begin q) < fs_plen fs (unat (PieceIndex q))"
proof -
  have req: "fs_blockRequest fs (PieceIndex q) (Begin q) = Inr q" and l: "length data = unat (BlockLength q)"
    using assms(2) by (auto simp: fs_good_def)
  obtain n where n: "fs_pieceLength fs (PieceIndex q) = Inr n" and b: "unat (Begin q) < unat n"
    and m: "unat (BlockLength q) = min (fs_bsize fs) (unat n - unat (Begin q))"
    using req fl.block_req [OF assms(1)] by auto
  then show "unat (PieceIndex q) < length (fs_pieces fs)"
    using fl.len_unat [OF assms(1)] by (auto simp: fs_count_def)
  have un: "unat n = fs_plen fs (unat (PieceIndex q))"
    using n fl.len_unat [OF assms(1)] by (auto simp: plen_at_def)
  note num = fl.block_number [OF assms(1) req n]
  show "fs_block_no fs q < pcount (fs_plen fs (unat (PieceIndex q))) (fs_bsize fs)"
    and "length data = plen (fs_plen fs (unat (PieceIndex q))) (fs_bsize fs) (fs_block_no fs q)"
    and "unat (Begin q) = fs_block_no fs q * fs_bsize fs"
    using num l by (simp_all add: fs_block_no_def un)
  show "unat (BlockLength q) = min (fs_bsize fs) (fs_plen fs (unat (PieceIndex q)) - unat (Begin q))"
    and "unat (Begin q) < fs_plen fs (unat (PieceIndex q))"
    using b m by (simp_all add: un)
qed

lemma pc_acceptBlock_eq:
  assumes "fs_geometry fs" and "fs_good fs q data"
    and "wf_piece (fs_bsize fs) (fs_plen fs (unat (PieceIndex q))) p"
  shows "pc_acceptBlock p (Begin q) data (blockLength fs) =
    (if pc_state p \<noteq> pieceReceiving then (Inl ErrPieceInvalidState, p)
     else if receivedBlocks p ! fs_block_no fs q then (Inl ErrInvalidBlock, p)
     else let p' = fill (fs_bsize fs) p (fs_block_no fs q) data in
       (Inr (pc_state p' = pieceAssembled), p'))"
proof (cases "pc_state p = pieceReceiving")
  case False
  then show ?thesis by (simp add: pc_acceptBlock_def split: option.split)
next
  case True
  let ?n = "fs_plen fs (unat (PieceIndex q))" and ?k = "fs_block_no fs q"
  note f = fs_good_facts [OF assms(1,2)]
  have bl: "blockLength fs \<noteq> 0" using assms(1) by (simp add: fs_geometry_def)
  then have blp: "0 < fs_bsize fs" by (simp add: unat_gt_0)
  obtain d where d: "pc_buffer p = Some d" "length d = ?n" "length (receivedBlocks p) = pcount ?n (fs_bsize fs)"
    using assms(3) True by (auto simp: wf_piece_def)
  have n: "unat (of_nat (length d) :: uint32) = ?n"
    using fs_plen_32 [OF assms(1)] d(2) by (simp add: unat_of_nat_small)
  have "requestLengthFor (of_nat (length d)) (Begin q) (blockLength fs) = BlockLength q"
    using f(5) by (simp add: word_unat_eq_iff unat_requestLengthFor [OF bl] n)
  moreover have "of_nat (length data) = BlockLength q" using assms(2) by (simp add: fs_good_def)
  moreover have "BlockLength q \<noteq> 0" using f(5,6) blp by (auto simp flip: unat_eq_0)
  moreover have "Begin q mod blockLength fs = 0" using f(4) by (simp add: unat_mod_zero)
  moreover have "unat (Begin q div blockLength fs) = ?k" by (simp add: unat_div_distrib fs_block_no_def)
  moreover have "receivedBlocks p \<noteq> []" using d(3) f(2) by auto
  moreover have "?k * fs_bsize fs + length data \<le> length d"
    using plen_end [OF blp f(2)] f(3) d(2) by simp
  ultimately show ?thesis
    using True bl d f(2,4) by (simp add: pc_acceptBlock_def fill_def Let_def)
qed

lemma fs_acceptBlock_good:
  assumes "wf_fs fs" and "fs_good fs q data"
  shows "fs_acceptBlock fs q data =
    (let p = prep (fs_bsize fs) (fs_plen fs (unat (PieceIndex q))) (fs_pieces fs ! unat (PieceIndex q)) in
     if pc_state p \<noteq> pieceReceiving then (Inl ErrPieceInvalidState, fs)
     else if receivedBlocks p ! fs_block_no fs q then (Inl ErrInvalidBlock, set_piece fs (PieceIndex q) p)
     else let p' = fill (fs_bsize fs) p (fs_block_no fs q) data in
       (Inr (pc_state p' = pieceAssembled), set_piece fs (PieceIndex q) p'))"
proof -
  let ?w = "PieceIndex q" and ?n = "fs_plen fs (unat (PieceIndex q))"
  let ?p = "prep (fs_bsize fs) ?n (fs_pieces fs ! unat ?w)"
  have geo: "fs_geometry fs" using assms(1) by simp
  note f = fs_good_facts [OF geo assms(2)]
  have "0 < fs_bsize fs" using geo by (simp add: fs_geometry_def unat_gt_0)
  then have wf: "wf_piece (fs_bsize fs) ?n ?p"
    by (intro wf_piece_prep wf_fs_piece assms f fs_plen_pos geo)
  have "set_piece fs ?w ?p = fs" if "pc_state ?p \<noteq> pieceReceiving"
    using that by (auto simp: prep_def split: if_splits)
  then show ?thesis
    using assms(2)
    by (auto simp: fs_acceptBlock_def fs_good_def pieceAt_in [OF geo f(1)] prepare_missing_eq [OF geo f(1)]
        pc_acceptBlock_eq [OF geo assms(2) wf] Let_def)
qed

lemma fs_acceptBlock_bad:
  assumes "\<not> fs_good fs q data" and "length data < 2 ^ 32"
  shows "\<exists>er. fs_acceptBlock fs q data = (Inl er, fs) \<and> er \<noteq> FsPanic"
proof -
  have "fs_blockRequest fs (PieceIndex q) (Begin q) \<noteq> Inr q \<or> of_nat (length data) \<noteq> BlockLength q"
    using assms unat_of_nat_small [where 'a = 32, of "length data"] by (auto simp: fs_good_def)
  moreover have "fs_blockRequest fs (PieceIndex q) (Begin q) \<noteq> Inl FsPanic"
    by (auto simp: fs_blockRequest_def fs_pieceLength_def fs_pieceOffset_def Let_def bind_r_Inl_iff
        split: if_splits option.splits)
  ultimately show ?thesis
    by (cases "fs_blockRequest fs (PieceIndex q) (Begin q)") (auto simp: fs_acceptBlock_def)
qed

lemma wf_fs_acceptBlock:
  assumes "wf_fs fs" and "length data < 2 ^ 32"
  shows "wf_fs (snd (fs_acceptBlock fs q data))"
proof (cases "fs_good fs q data")
  case False
  then show ?thesis using fs_acceptBlock_bad [OF _ assms(2)] assms(1) by fastforce
next
  case True
  have geo: "fs_geometry fs" using assms(1) by simp
  note f = fs_good_facts [OF geo True]
  have bl: "0 < fs_bsize fs" using geo by (simp add: fs_geometry_def unat_gt_0)
  let ?p = "prep (fs_bsize fs) (fs_plen fs (unat (PieceIndex q))) (fs_pieces fs ! unat (PieceIndex q))"
  have "wf_piece (fs_bsize fs) (fs_plen fs (unat (PieceIndex q))) ?p"
    by (intro wf_piece_prep wf_fs_piece assms f fs_plen_pos geo bl)
  then show ?thesis
    using assms(1) f(2,3) bl
    by (simp add: fs_acceptBlock_good [OF assms(1) True] Let_def wf_fs_set_piece wf_piece_fill)
qed

end
