(* ===== verification/Systems.thy ===== *)
theory Systems
  imports Mole_Prelude
begin

text \<open>
  The two proof schemes the components share: invariants of step relations, and refinement of one
  state machine by another through an abstraction function.
\<close>

subsection \<open>Invariants of step systems\<close>

text \<open>A predicate that holds initially and survives every step holds in every reachable state.\<close>

inductive reaches :: "('s \<Rightarrow> 's \<Rightarrow> bool) \<Rightarrow> 's \<Rightarrow> 's \<Rightarrow> bool" for step where
  reaches_refl: "reaches step s s"
| reaches_step: "reaches step s s' \<Longrightarrow> step s' s'' \<Longrightarrow> reaches step s s''"

lemma reaches_first: "reaches step s' s'' \<Longrightarrow> step s s' \<Longrightarrow> reaches step s s''"
  by (induction rule: reaches.induct) (auto intro: reaches.intros)

locale invariant_system =
  fixes step :: "'s \<Rightarrow> 's \<Rightarrow> bool"
    and inv :: "'s \<Rightarrow> bool"
  assumes inv_step: "inv s \<Longrightarrow> step s s' \<Longrightarrow> inv s'"
begin

lemma inv_reaches: "reaches step s s' \<Longrightarrow> inv s \<Longrightarrow> inv s'"
  by (induction rule: reaches.induct) (auto intro: inv_step)

text \<open>What every step from an invariant state only lets grow, every run lets grow.\<close>

lemma mono_reaches:
  assumes "reaches step s s'" and "inv s"
    and "\<And>a b. inv a \<Longrightarrow> step a b \<Longrightarrow> f a \<le> (f b :: 'o::preorder)"
  shows "f s \<le> f s'"
  using assms(1,2)
proof (induction rule: reaches.induct)
  case (reaches_step s s' s'')
  then show ?case using assms(3) inv_reaches order_trans by blast
qed simp

end

subsection \<open>Functional refinement\<close>

text \<open>A machine answers an operation and moves to its next state; a run collects the answers.\<close>

fun run_ops :: "('op \<Rightarrow> 's \<Rightarrow> 'o \<times> 's) \<Rightarrow> 'op list \<Rightarrow> 's \<Rightarrow> 'o list \<times> 's" where
  "run_ops exec [] s = ([], s)"
| "run_ops exec (op # ops) s =
     (case exec op s of (out, s1) \<Rightarrow> (case run_ops exec ops s1 of (outs, s2) \<Rightarrow> (out # outs, s2)))"

text \<open>A machine whose answer can be a crash stops there: the answer is the last of its run.\<close>

fun run_until :: "('o \<Rightarrow> bool) \<Rightarrow> ('op \<Rightarrow> 's \<Rightarrow> 'o \<times> 's) \<Rightarrow> 'op list \<Rightarrow> 's \<Rightarrow> 'o list \<times> 's" where
  "run_until crashed exec [] s = ([], s)"
| "run_until crashed exec (op # ops) s =
     (case exec op s of (out, s1) \<Rightarrow>
        if crashed out then ([out], s1)
        else (case run_until crashed exec ops s1 of (outs, s2) \<Rightarrow> (out # outs, s2)))"

lemma run_until_crash:
  assumes "run_until crashed exec ops s = (outs, s')"
  shows "if \<exists>out \<in> set outs. crashed out
    then \<exists>before out. outs = before @ [out] \<and> crashed out \<and> (\<forall>o' \<in> set before. \<not> crashed o')
    else length outs = length ops"
  using assms
proof (induction ops arbitrary: s outs s')
  case (Cons op ops)
  obtain out s1 where e: "exec op s = (out, s1)" by fastforce
  obtain outs' s2 where r: "run_until crashed exec ops s1 = (outs', s2)" by fastforce
  show ?case
  proof (cases "crashed out")
    case True
    then show ?thesis using Cons.prems e by (auto intro!: exI [of _ "[]"])
  next
    case False
    then have "outs = out # outs'" using Cons.prems e r by simp
    then show ?thesis
      using Cons.IH [OF r] False
      by (force split: if_splits intro: exI [of _ "out # _"])
  qed
qed simp

text \<open>The concrete machine does not crash: where the abstract one does, it gives the answer \<open>recover\<close> instead.  If every
  operation commutes with the abstraction up to that, the concrete machine gives the answers of the abstract one until
  this one crashes.\<close>

locale refinement =
  fixes cexec :: "'op \<Rightarrow> 'c \<Rightarrow> 'o \<times> 'c"
    and aexec :: "'op \<Rightarrow> 'a \<Rightarrow> 'o \<times> 'a"
    and abs :: "'c \<Rightarrow> 'a"
    and inv :: "'c \<Rightarrow> bool"
    and legal :: "'op \<Rightarrow> bool"
    and crashed :: "'o \<Rightarrow> bool"
    and recover :: "'o \<Rightarrow> 'o"
  assumes inv_exec: "inv c \<Longrightarrow> legal op \<Longrightarrow> inv (snd (cexec op c))"
    and commutes: "inv c \<Longrightarrow> legal op \<Longrightarrow> apsnd abs (cexec op c) = apfst recover (aexec op (abs c))"
    and recover_safe: "\<not> crashed (recover out)"
    and recover_same: "\<not> crashed out \<Longrightarrow> recover out = out"
begin

lemma exec_refines:
  assumes "inv c" and "legal op" and "aexec op (abs c) = (out, a)"
  obtains c1 where "cexec op c = (recover out, c1)" "abs c1 = a" "inv c1"
  using commutes [OF assms(1,2)] inv_exec [OF assms(1,2)] assms(3) by (cases "cexec op c") auto

lemma never_crashes:
  assumes "inv c" and "list_all legal ops" and "run_ops cexec ops c = (outs, c')"
  shows "\<forall>out \<in> set outs. \<not> crashed out"
  using assms
proof (induction ops arbitrary: c outs)
  case (Cons op ops)
  obtain out a where a: "aexec op (abs c) = (out, a)" by fastforce
  then obtain c1 where "cexec op c = (recover out, c1)" "inv c1"
    using exec_refines [of c op out a] Cons.prems by auto
  then show ?case
    using Cons.IH [of c1] Cons.prems recover_safe by (cases "run_ops cexec ops c1") auto
qed simp

lemma run_refines:
  assumes "inv c" and "list_all legal ops" and "run_until crashed aexec ops (abs c) = (outs, a)"
  shows "\<exists>c'. run_ops cexec (take (length outs) ops) c = (map recover outs, c') \<and> abs c' = a \<and> inv c'"
  using assms
proof (induction ops arbitrary: c outs a)
  case (Cons op ops)
  obtain out a1 where a: "aexec op (abs c) = (out, a1)" by fastforce
  then obtain c1 where c1: "cexec op c = (recover out, c1)" "abs c1 = a1" "inv c1"
    using exec_refines [of c op out a1] Cons.prems by auto
  show ?case
  proof (cases "crashed out")
    case True
    then have "outs = [out]" "a = a1" using Cons.prems a by auto
    then show ?thesis using c1 by simp
  next
    case False
    obtain outs' a2 where r: "run_until crashed aexec ops (abs c1) = (outs', a2)" by fastforce
    then show ?thesis using Cons.IH [OF c1(3) _ r] Cons.prems a c1 False by auto
  qed
qed simp

end

end
