(* ===== verification/FileStorage_Correct.thy ===== *)
theory FileStorage_Correct
  imports FileStorage_Laws Systems
begin

text \<open>
  The two content stores of \<^verbatim>\<open>src/torrent\<close> agree: with the default block length, and a worker that is
  run to its end before the next operation, \<^verbatim>\<open>fileStorage\<close> refines \<^verbatim>\<open>PieceSet\<close> operation by operation, up to
  the panics of \<^verbatim>\<open>PieceSet\<close>.
\<close>

subsection \<open>Refinement of the piece set\<close>

text \<open>The two stores report different errors for the same cause; results are compared up to them.  Where \<^verbatim>\<open>PieceSet\<close>
  panics and \<^verbatim>\<open>fileStorage\<close> returns an error, the observations below tell the two apart.\<close>

abbreviation err_free :: "'e + 'a \<Rightarrow> unit + 'a" where
  "err_free \<equiv> map_sum (\<lambda>_. ()) id"

definition standard :: "fileStorage \<Rightarrow> bool" where
  "standard fs \<longleftrightarrow> wf_fs fs \<and> blockLength fs = defaultBlockLength \<and>
     (\<forall>p \<in> set (fs_pieces fs). pc_state p \<noteq> pieceFinalizing)"

lemma standardD:
  assumes "standard fs"
  shows "wf_fs fs" "fs_geometry fs" "wf_geometry (ps_of fs)" "blockLength fs = blockSize" "fs_bsize fs = 16384"
    "\<And>i. i < length (fs_pieces fs) \<Longrightarrow> pc_state (fs_pieces fs ! i) \<noteq> pieceFinalizing"
  using assms by (auto simp: standard_def defaultBlockLength_def blockSize_def all_set_conv_all_nth)

lemma wf_state_abs: "wf_piece 16384 n p \<Longrightarrow> wf_state n (abs_piece 16384 p)"
  by (auto simp: wf_piece_def wf_state_def abs_piece_def newPieceState_def split: pieceState.splits)

lemma wf_ps_of: "standard fs \<Longrightarrow> wf_ps (ps_of fs)"
  using standardD [of fs] wf_fs_piece [of fs] by (auto simp: wf_ps_def intro: wf_state_abs)

lemma abs_prep:
  "wf_piece 16384 n p \<Longrightarrow> pc_state p \<noteq> pieceFinalizing \<Longrightarrow>
   abs_piece 16384 (prep 16384 n p) = prepared n (abs_piece 16384 p)"
  by (auto simp: abs_piece_def prep_def prepared_def wf_piece_def newPieceState_def split: pieceState.splits)

lemma all_True_replicate: "list_all (\<lambda>r. r) xs \<longleftrightarrow> xs = replicate (length xs) True"
  by (induction xs) auto

lemma abs_fill:
  assumes "wf_piece 16384 n p" and "pc_state p = pieceReceiving" and "k < pcount n 16384"
    and "length data = plen n 16384 k"
  shows "abs_piece 16384 (fill 16384 p k data) = stored (abs_piece 16384 p) k data"
    and "pc_state (fill 16384 p k data) = pieceAssembled \<longleftrightarrow> allBlocksReceived (stored (abs_piece 16384 p) k data)"
proof -
  obtain d where d: "pc_buffer p = Some d" "length d = n" "length (receivedBlocks p) = pcount n 16384"
    using assms(1,2) by (auto simp: wf_piece_def)
  have l: "k * 16384 + length data \<le> n" using plen_end [of 16384 k n] assms(3,4) by simp
  have ne: "receivedBlocks p \<noteq> []" using d(3) assms(3) by auto
  have "0 < n" using assms(3) by (simp add: pcount_def)
  then have "overwrite d (k * 16384) data \<noteq> []" using l d(2) length_overwrite [of "k * 16384" data d] by (metis length_greater_0_conv)
  then show "pc_state (fill 16384 p k data) = pieceAssembled \<longleftrightarrow>
      allBlocksReceived (stored (abs_piece 16384 p) k data)"
    using d assms(2) ne
    by (simp add: fill_def Let_def pc_allBlocksReceived_def abs_piece_def stored_def allBlocksReceived_def)
  show "abs_piece 16384 (fill 16384 p k data) = stored (abs_piece 16384 p) k data"
    using d assms(2) ne l all_True_replicate [of "(receivedBlocks p)[k := True]"]
    by (auto simp: fill_def Let_def pc_allBlocksReceived_def abs_piece_def stored_def)
qed

text \<open>The requests of the two stores are the same.\<close>

fun fs_err :: "piece_error \<Rightarrow> fs_error" where
  "fs_err (UnalignedBlock _) = ErrInvalidBlock"
| "fs_err (BlockOutsidePiece _ _) = ErrInvalidBlock"
| "fs_err _ = ErrInvalidPiece"

lemma fs_blockRequest_eq:
  assumes "blockLength fs = blockSize"
  shows "fs_blockRequest fs w b = map_sum fs_err id (ps_blockRequest (ps_of fs) w b)"
proof -
  have "requestLengthFor n b blockSize = requestLength n b" for n
    by (simp add: requestLengthFor_def requestLength_def blockSize_def Let_def)
  then show ?thesis
    using assms
    by (auto simp: fs_blockRequest_def ps_blockRequest_def fs_pieceLength_eq ps_PieceLength_def Let_def)
qed

lemma fs_good_eq: "blockLength fs = blockSize \<Longrightarrow> fs_good fs q data = good_block (ps_of fs) q data"
  by (simp add: fs_good_def good_block_def fs_blockRequest_eq)

lemma fs_acceptBlock_refines:
  assumes "standard fs" and "length data < 2 ^ 32"
  shows "map_prod err_free ps_of (fs_acceptBlock fs q data) = map_prod err_free id (ps_StoreBlock (ps_of fs) q data)"
proof (cases "fs_good fs q data")
  case False
  then have "\<not> good_block (ps_of fs) q data" using fs_good_eq standardD(4) [OF assms(1)] by simp
  then obtain er where "ps_StoreBlock (ps_of fs) q data = (Inl er, ps_of fs)"
    using ps_StoreBlock_cases [OF wf_ps_of [OF assms(1)] assms(2), of q] by metis
  then show ?thesis using fs_acceptBlock_bad [OF False assms(2)] by auto
next
  case True
  note S = standardD [OF assms(1)]
  let ?w = "unat (PieceIndex q)" and ?p = "fs_pieces fs ! unat (PieceIndex q)"
  let ?n = "fs_plen fs (unat (PieceIndex q))"
  have good: "good_block (ps_of fs) q data" using True fs_good_eq S(4) by simp
  note f = fs_good_facts [OF S(2) True]
  note wf = wf_fs_piece [OF S(1) f(1), unfolded S(5)]
  have k: "fs_block_no fs q = block_no q" by (simp add: fs_block_no_def block_no_def S(5))
  note A = fs_acceptBlock_good [OF S(1) True, unfolded S(5) k Let_def]
  note prep = abs_prep [OF wf S(6) [OF f(1)]]
  show ?thesis
  proof (cases "pc_complete ?p")
    case complete: True
    then have "ps_StoreBlock (ps_of fs) q data = (Inl GoPanic, ps_of fs)"
      using ps_StoreBlock_cases [OF wf_ps_of [OF assms(1)] assms(2), of q] good f(1) by (metis Complete_abs_piece ps_of_simps(3))
    then show ?thesis using complete by (simp add: A prep_def pc_complete_def)
  next
    case incomplete: False
    then have nc: "\<not> Complete (ps_states (ps_of fs) ! ?w)" using f(1) by simp
    note B = ps_StoreBlock_good [OF wf_ps_of [OF assms(1)] good nc, unfolded Let_def ps_of_simps(3) [OF f(1)] S(5)]
    have wfp: "wf_piece 16384 ?n (prep 16384 ?n ?p)"
      using wf_piece_prep [OF wf fs_plen_pos [OF S(2) f(1)]] by simp
    show ?thesis
    proof (cases "pc_state (prep 16384 ?n ?p) = pieceReceiving")
      case recv: True
      have rb: "receivedBlocks (prep 16384 ?n ?p) = Received (prepared ?n (abs_piece 16384 ?p))"
        unfolding prep [symmetric] using recv by (simp add: abs_piece_def)
      note fill = abs_fill [OF wfp recv f(2,3) [unfolded S(5) k]]
      show ?thesis
        by (simp add: A B recv rb fill prep ps_of_set_piece S(5))
    next
      case False
      then have st: "pc_state ?p = pieceAssembled"
        using incomplete S(6) [OF f(1)] by (cases "pc_state ?p") (auto simp: prep_def pc_complete_def)
      then obtain d where d: "pc_buffer ?p = Some d" "length d = ?n" using wf by (auto simp: wf_piece_def)
      have "Received (prepared ?n (abs_piece 16384 ?p)) ! block_no q"
        using st d f(2) by (simp add: abs_piece_def prepared_def S(5) k)
      moreover have "prepared ?n (abs_piece 16384 ?p) = ps_states (ps_of fs) ! ?w"
        using st d f(1) by (simp add: abs_piece_def prepared_def S(5))
      ultimately show ?thesis using False by (simp add: A B del: ps_of_simps(3))
    qed
  qed
qed

lemma nextMissing_loop_refines:
  assumes "blockLength fs = blockSize"
  shows "fs_nextMissing_loop fs w (Some isPending) i rs =
    map_sum fs_err id (nextMissing_loop (ps_of fs) w isPending i rs)"
proof (induction rs arbitrary: i)
  case (Cons r rs)
  show ?case
    using Cons.IH [of "Suc i"] fs_blockRequest_eq [OF assms, of w "of_nat i * blockSize"] assms
    by (cases "ps_blockRequest (ps_of fs) w (of_nat i * blockSize)") auto
qed simp

lemma map_sum_twice [simp]: "map_sum f id (map_sum g id x) = map_sum (f \<circ> g) id x"
  by (cases x) auto

lemma fs_nextMissingBlock_refines:
  assumes "standard fs"
  shows "map_prod err_free ps_of (fs_nextMissingBlock fs w (Some isPending)) =
    map_prod err_free id (ps_nextMissingBlock (ps_of fs) w isPending)"
proof (cases "unat w < length (fs_pieces fs)")
  case False
  note S = standardD [OF assms]
  have "ps_prepare (ps_of fs) w = (Inl GoPanic, ps_of fs)"
    using False by (simp add: ps_prepare_def ps_IsComplete_def less_count32 [OF S(3), simplified])
  then show ?thesis using pieceAt_out [OF S(2), of w] False
    by (simp add: fs_nextMissingBlock_def ps_nextMissingBlock_def)
next
  case w: True
  note S = standardD [OF assms]
  let ?p = "fs_pieces fs ! unat w" and ?n = "fs_plen fs (unat w)"
  let ?q = "prep 16384 ?n ?p"
  note wf = wf_fs_piece [OF S(1) w, unfolded S(5)]
  note prep = abs_prep [OF wf S(6) [OF w]]
  have B: "ps_nextMissingBlock (ps_of fs) w isPending =
      (nextMissing_loop (set_state (ps_of fs) w (abs_piece 16384 ?q)) w isPending 0 (Received (abs_piece 16384 ?q)),
       set_state (ps_of fs) w (abs_piece 16384 ?q))"
    using w by (simp add: ps_nextMissingBlock_def ps_prepare_eq [OF S(3)] prep set_state_nth S(5))
  have A: "fs_nextMissingBlock fs w (Some isPending) =
      (if pc_state ?q \<noteq> pieceReceiving then Inr None
       else fs_nextMissing_loop (set_piece fs w ?q) w (Some isPending) 0 (receivedBlocks ?q), set_piece fs w ?q)"
    by (simp add: fs_nextMissingBlock_def pieceAt_in [OF S(2) w] prepare_missing_eq [OF S(2) w] S(5) Let_def)
  show ?thesis
  proof (cases "pc_state ?q = pieceReceiving")
    case True
    then show ?thesis
      by (simp add: A B nextMissing_loop_refines [of "set_piece fs w ?q"] S(4,5) ps_of_set_piece abs_piece_def comp_def)
  next
    case False
    have all: "nextMissing_loop p w isPending i (replicate m True) = Inr None" for p i m
      by (induction m arbitrary: i) auto
    have "\<exists>m. Received (abs_piece 16384 ?q) = replicate m True"
      using False S(6) [OF w] by (cases "pc_state ?q") (auto simp: abs_piece_def newPieceState_def prep_def)
    then show ?thesis using False by (auto simp: A B all ps_of_set_piece S(5))
  qed
qed

text \<open>A worker run to its end: take the job, verify and write it, apply the result.\<close>

definition finalize :: "fileStorage \<Rightarrow> uint32 \<Rightarrow> io_outcome \<Rightarrow> fs_error option \<times> fileStorage" where
  "finalize fs w oc =
     (case takeFinalizeJob fs w of
        (Inl er, fs1) \<Rightarrow> (Some er, fs1)
      | (Inr job, fs1) \<Rightarrow>
          (case verifyAndWritePiece fs1 job oc of
             (result, f) \<Rightarrow> (res_err result, snd (applyFinalizeResult (fs1\<lparr>fs_file := f\<rparr>) result))))"

lemma takeFinalizeJob_in:
  assumes "fs_geometry fs" and "unat w < length (fs_pieces fs)"
  shows "pc_state (fs_pieces fs ! unat w) = pieceAssembled \<Longrightarrow> pc_buffer (fs_pieces fs ! unat w) = Some d \<Longrightarrow>
      takeFinalizeJob fs w =
        (Inr \<lparr>job_pieceIndex = w, job_generation = generation (fs_pieces fs ! unat w), job_buffer = d\<rparr>,
         set_piece fs w ((fs_pieces fs ! unat w)\<lparr>pc_buffer := None, pc_state := pieceFinalizing\<rparr>))"
    and "pc_state (fs_pieces fs ! unat w) \<noteq> pieceAssembled \<Longrightarrow>
      takeFinalizeJob fs w = (Inl ErrPieceInvalidState, fs)"
  by (auto simp: takeFinalizeJob_def pieceAt_in [OF assms] takeForFinalization_def split: option.splits)

text \<open>What the worker reports of a job whose buffer has the length of its piece.\<close>

abbreviation job_result :: "pieceFinalizeJob \<Rightarrow> byte list option \<Rightarrow> fs_error option \<Rightarrow> pieceFinalizeResult" where
  "job_result job buf err \<equiv> \<lparr>res_pieceIndex = job_pieceIndex job, res_generation = job_generation job,
     res_buffer = buf, res_err = err\<rparr>"

abbreviation fs_offset :: "fileStorage \<Rightarrow> uint32 \<Rightarrow> nat" where
  "fs_offset fs w \<equiv> unat w * nat (PieceLength (fs_info fs))"

lemma verifyAndWritePiece_eq:
  assumes "fs_geometry fs" and "unat (job_pieceIndex job) < length (fs_pieces fs)"
    and "length (job_buffer job) = fs_plen fs (unat (job_pieceIndex job))"
    and "file_WriteAt (fs_file fs) oc (job_buffer job) (fs_offset fs (job_pieceIndex job)) = ((n, err), f)"
  shows "verifyAndWritePiece fs job oc =
    (if sha1_Sum (job_buffer job) \<noteq> PieceHashes (fs_info fs) ! unat (job_pieceIndex job)
     then (job_result job None (Some FsHashMismatch), fs_file fs)
     else case err of
       Some er \<Rightarrow> (job_result job (Some (job_buffer job)) (Some (FsIo er)), f)
     | None \<Rightarrow> if n \<noteq> length (job_buffer job)
         then (job_result job (Some (job_buffer job)) (Some (FsIo ErrShortWrite)), f)
         else (job_result job None None, f))"
proof -
  have "length (PieceHashes (fs_info fs)) = length (fs_pieces fs)"
    using assms(1) by (simp add: fs_geometry_def wf_geometry_def)
  then show ?thesis
    using assms(2-4)
    by (simp add: verifyAndWritePiece_def fs_pieceLength_in [OF assms(1,2)] fs_pieceOffset_in [OF assms(1,2)]
        Let_def VerifyPiece_def HashPiece_def nat_int del: of_nat_mult split: option.split)
qed

lemma fs_file_update [simp]:
  "ps_of (fs\<lparr>fs_file := f\<rparr>) = ps_of fs" "fs_geometry (fs\<lparr>fs_file := f\<rparr>) = fs_geometry fs"
  "wf_fs (fs\<lparr>fs_file := f\<rparr>) = wf_fs fs" "standard (fs\<lparr>fs_file := f\<rparr>) = standard fs"
  by (simp_all add: ps_of_def fs_geometry_def wf_fs_def standard_def)

lemma applyFinalizeResult_fresh:
  assumes "fs_geometry fs" and "unat (res_pieceIndex r) < length (fs_pieces fs)"
    and "pc_state (fs_pieces fs ! unat (res_pieceIndex r)) = pieceFinalizing"
    and "generation (fs_pieces fs ! unat (res_pieceIndex r)) = res_generation r"
    and "res_err r = None \<or> res_err r = Some FsHashMismatch \<or> res_buffer r \<noteq> None"
  shows "applyFinalizeResult fs r =
    (True, set_piece fs (res_pieceIndex r)
       (let p = fs_pieces fs ! unat (res_pieceIndex r) in
        if res_err r = None then p\<lparr>pc_state := pieceComplete\<rparr>
        else if res_err r = Some FsHashMismatch then p\<lparr>pc_state := pieceMissing, pc_buffer := None, receivedBlocks := []\<rparr>
        else p\<lparr>pc_state := pieceAssembled, pc_buffer := res_buffer r\<rparr>))"
  using assms(3-5)
  by (auto simp: applyFinalizeResult_def pieceAt_in [OF assms(1,2)] pc_markComplete_def pc_reject_def
      pc_restore_def Let_def)

lemma set_piece_fs_file [simp]: "set_piece (fs\<lparr>fs_file := f\<rparr>) w p = set_piece fs w p\<lparr>fs_file := f\<rparr>"
  by (simp add: set_piece_def)

lemma set_piece_fs_file_same [simp]: "set_piece fs w p\<lparr>fs_file := fs_file fs\<rparr> = set_piece fs w p"
  by (simp add: set_piece_def)

lemma standard_set_piece:
  "standard fs \<Longrightarrow> wf_piece 16384 (fs_plen fs (unat w)) p \<Longrightarrow> pc_state p \<noteq> pieceFinalizing \<Longrightarrow>
   standard (set_piece fs w p)"
  using set_update_subset_insert [of "fs_pieces fs" "unat w" p]
  by (auto simp: standard_def wf_fs_set_piece set_piece_def defaultBlockLength_def
      dest!: wf_fs_set_piece [of fs w p])

lemma finalize_assembled:
  assumes "standard fs" and "unat w < length (fs_pieces fs)"
    and "pc_state (fs_pieces fs ! unat w) = pieceAssembled" and "pc_buffer (fs_pieces fs ! unat w) = Some d"
  shows "finalize fs w oc =
    (let p = fs_pieces fs ! unat w; off = unat w * nat (PieceLength (fs_info fs)) in
     if sha1_Sum d \<noteq> PieceHashes (fs_info fs) ! unat w
     then (Some FsHashMismatch, set_piece fs w (p\<lparr>pc_state := pieceMissing, pc_buffer := None, receivedBlocks := []\<rparr>))
     else case file_WriteAt (fs_file fs) oc d off of ((n, err), f) \<Rightarrow>
       (case err of
          Some er \<Rightarrow> (Some (FsIo er), fs\<lparr>fs_file := f\<rparr>)
        | None \<Rightarrow> if n \<noteq> length d then (Some (FsIo ErrShortWrite), fs\<lparr>fs_file := f\<rparr>)
            else (None, set_piece fs w (p\<lparr>pc_buffer := None, pc_state := pieceComplete\<rparr>)\<lparr>fs_file := f\<rparr>)))"
proof -
  note S = standardD [OF assms(1)]
  let ?p = "fs_pieces fs ! unat w"
  let ?job = "\<lparr>job_pieceIndex = w, job_generation = generation ?p, job_buffer = d\<rparr>"
  let ?fs = "set_piece fs w (?p\<lparr>pc_buffer := None, pc_state := pieceFinalizing\<rparr>)"
  have l: "length d = fs_plen fs (unat w)" "receivedBlocks ?p = []"
    using wf_fs_piece [OF S(1) assms(2)] assms(3,4) by (auto simp: wf_piece_def)
  have geo: "fs_geometry ?fs" and w: "unat w < length (fs_pieces ?fs)" using S(2) assms(2) by auto
  have p1: "fs_pieces ?fs ! unat w = ?p\<lparr>pc_buffer := None, pc_state := pieceFinalizing\<rparr>"
    using assms(2) by (simp add: set_piece_nth)
  have "?p\<lparr>pc_state := pieceAssembled, pc_buffer := Some d\<rparr> = ?p" using assms(3,4) by (cases ?p) simp
  then have same: "set_piece fs w (?p\<lparr>pc_state := pieceAssembled, pc_buffer := Some d\<rparr>) = fs"
    by (simp only: set_piece_same)
  obtain n err f where wr: "file_WriteAt (fs_file fs) oc d (fs_offset fs w) = ((n, err), f)"
    by (metis surj_pair)
  have V: "verifyAndWritePiece ?fs ?job oc =
      (if sha1_Sum d \<noteq> PieceHashes (fs_info fs) ! unat w then (job_result ?job None (Some FsHashMismatch), fs_file fs)
       else case err of
         Some er \<Rightarrow> (job_result ?job (Some d) (Some (FsIo er)), f)
       | None \<Rightarrow> if n \<noteq> length d then (job_result ?job (Some d) (Some (FsIo ErrShortWrite)), f)
           else (job_result ?job None None, f))"
    using verifyAndWritePiece_eq [of ?fs ?job oc n err f] geo w l(1) wr by (simp split: option.splits)
  have A: "applyFinalizeResult (?fs\<lparr>fs_file := g\<rparr>) \<lparr>res_pieceIndex = w, res_generation = generation ?p, res_buffer = buf, res_err = e\<rparr> =
      (True, set_piece fs w
         (if e = None then ?p\<lparr>pc_buffer := None, pc_state := pieceComplete\<rparr>
          else if e = Some FsHashMismatch then ?p\<lparr>pc_state := pieceMissing, pc_buffer := None, receivedBlocks := []\<rparr>
          else ?p\<lparr>pc_state := pieceAssembled, pc_buffer := buf\<rparr>)\<lparr>fs_file := g\<rparr>)"
    if "e = None \<or> e = Some FsHashMismatch \<or> buf \<noteq> None" for g buf e
    using applyFinalizeResult_fresh [of "?fs\<lparr>fs_file := g\<rparr>" "job_result ?job buf e"] geo w p1 that
    by (simp add: Let_def split: if_splits)
  show ?thesis
    using same wr
    by (simp add: finalize_def takeFinalizeJob_in(1) [OF S(2) assms(2-4)] V A Let_def split: option.split)
qed

lemma finalize_refines:
  assumes "standard fs" and "finalize fs w oc = (e, fs')"
    and "ps_VerifyAndWrite (ps_of fs) w (Some (fs_file fs)) oc = (e', p', f')"
  shows "(e = None \<longleftrightarrow> e' = None) \<and> p' = ps_of fs' \<and> f' = Some (fs_file fs') \<and> standard fs'"
proof (cases "unat w < length (fs_pieces fs) \<and> pc_state (fs_pieces fs ! unat w) = pieceAssembled")
  case False
  note S = standardD [OF assms(1)]
  have "\<exists>er. takeFinalizeJob fs w = (Inl er, fs)"
  proof (cases "unat w < length (fs_pieces fs)")
    case True
    then show ?thesis using takeFinalizeJob_in(2) [OF S(2)] False by blast
  next
    case False
    then show ?thesis using pieceAt_out [OF S(2), of w] by (simp add: takeFinalizeJob_def)
  qed
  moreover have "\<not> allBlocksReceived (abs_piece 16384 (fs_pieces fs ! unat w))" if "unat w < length (fs_pieces fs)"
    using False that wf_fs_piece [OF S(1) that]
    by (auto simp: abs_piece_def wf_piece_def allBlocksReceived_def newPieceState_def split: pieceState.splits)
  then have "\<exists>er. ps_VerifyAndWrite (ps_of fs) w (Some (fs_file fs)) oc = (Some er, ps_of fs, Some (fs_file fs))"
    using ge_count32 [OF S(3), of w] by (simp add: ps_VerifyAndWrite_def Let_def S(5))
  ultimately show ?thesis using assms by (auto simp: finalize_def)
next
  case True
  note S = standardD [OF assms(1)]
  let ?p = "fs_pieces fs ! unat w"
  have w: "unat w < length (fs_pieces fs)" and st: "pc_state ?p = pieceAssembled" using True by auto
  note wf = wf_fs_piece [OF S(1) w, unfolded S(5)]
  obtain d where d: "pc_buffer ?p = Some d" "length d = fs_plen fs (unat w)" "receivedBlocks ?p = []"
    using wf st by (auto simp: wf_piece_def)
  obtain n err f where wr: "file_WriteAt (fs_file fs) oc d (fs_offset fs w) = ((n, err), f)"
    by (metis surj_pair)
  have h: "length (PieceHashes (fs_info fs)) = length (fs_pieces fs)"
    using S(3) by (simp add: wf_geometry_def)
  have pos: "0 < fs_plen fs (unat w)" using fs_plen_pos [OF S(2) w] .
  have abs: "abs_piece 16384 ?p = \<lparr>Complete = False, Data = Some d, Received = replicate (pcount (length d) 16384) True\<rparr>"
    using st d by (simp add: abs_piece_def)
  have all: "allBlocksReceived (abs_piece 16384 ?p)"
    using pos d(2) pcount_pos [of 16384 "length d"]
    by (auto simp: abs allBlocksReceived_def list_all_length)
  have off: "ps_PieceOffset (ps_of fs) w = Inr (int (fs_offset fs w))"
    using ps_PieceOffset_in [OF S(3), of w] w by simp
  have P: "ps_VerifyAndWrite (ps_of fs) w (Some (fs_file fs)) oc =
      (if sha1_Sum d \<noteq> PieceHashes (fs_info fs) ! unat w
       then (Some (ErrPieceHashMismatch w), set_state (ps_of fs) w newPieceState, Some (fs_file fs))
       else case err of
         Some er \<Rightarrow> (Some (PieceIo er), ps_of fs, Some f)
       | None \<Rightarrow> if n \<noteq> length d then (Some (PieceIo ErrShortWrite), ps_of fs, Some f)
           else (None, set_state (ps_of fs) w \<lparr>Complete = True, Data = None, Received = []\<rparr>, Some f))"
    using w h all wr ge_count32 [OF S(3), of w]
    by (simp add: ps_VerifyAndWrite_def Let_def S(5) off nat_int abs newPieceState_def
        del: of_nat_mult split: option.split)
  note F = finalize_assembled [OF assms(1) w st d(1), of oc, unfolded Let_def wr prod.case]
  have wfM: "wf_piece 16384 (fs_plen fs (unat w)) (?p\<lparr>pc_state := pieceMissing, pc_buffer := None, receivedBlocks := []\<rparr>)"
    and wfC: "wf_piece 16384 (fs_plen fs (unat w)) (?p\<lparr>pc_buffer := None, pc_state := pieceComplete\<rparr>)"
    using d(3) by (simp_all add: wf_piece_def)
  have absM: "abs_piece 16384 (?p\<lparr>pc_state := pieceMissing, pc_buffer := None, receivedBlocks := []\<rparr>) = newPieceState"
    and absC: "abs_piece 16384 (?p\<lparr>pc_buffer := None, pc_state := pieceComplete\<rparr>) =
      \<lparr>Complete = True, Data = None, Received = []\<rparr>"
    by (simp_all add: abs_piece_def)
  show ?thesis
    using assms F P standard_set_piece [OF assms(1) wfM] standard_set_piece [OF assms(1) wfC]
    by (auto simp: ps_of_set_piece S(5) absM absC split: if_splits option.splits)
qed

lemma standard_acceptBlock:
  assumes "standard fs" and "length data < 2 ^ 32"
  shows "standard (snd (fs_acceptBlock fs q data))"
proof (cases "fs_good fs q data")
  case False
  then show ?thesis using fs_acceptBlock_bad [OF _ assms(2)] assms(1) by fastforce
next
  case True
  note S = standardD [OF assms(1)]
  note f = fs_good_facts [OF S(2) True]
  let ?p = "prep 16384 (fs_plen fs (unat (PieceIndex q))) (fs_pieces fs ! unat (PieceIndex q))"
  have wf: "wf_piece 16384 (fs_plen fs (unat (PieceIndex q))) ?p"
    using wf_piece_prep [OF wf_fs_piece [OF S(1) f(1), unfolded S(5)] fs_plen_pos [OF S(2) f(1)]] by simp
  have "wf_piece 16384 (fs_plen fs (unat (PieceIndex q))) (fill 16384 ?p (fs_block_no fs q) data)"
    if "pc_state ?p = pieceReceiving"
    using wf_piece_fill [OF wf that] f(2,3) by (simp add: S(5))
  moreover have "pc_state (fill 16384 ?p (fs_block_no fs q) data) \<noteq> pieceFinalizing" if "pc_state ?p = pieceReceiving"
    using that by (simp add: fill_def Let_def)
  ultimately show ?thesis
    using wf standard_set_piece [OF assms(1)] assms(1)
    by (auto simp: fs_acceptBlock_good [OF S(1) True] Let_def S(5))
qed

lemma fs_nextMissingBlock_snd:
  assumes "fs_geometry fs"
  shows "snd (fs_nextMissingBlock fs w isPending) =
    (if unat w < length (fs_pieces fs)
     then set_piece fs w (prep (fs_bsize fs) (fs_plen fs (unat w)) (fs_pieces fs ! unat w)) else fs)"
  using assms by (simp add: fs_nextMissingBlock_def pieceAt_in pieceAt_out prepare_missing_eq Let_def)

lemma standard_nextMissingBlock:
  assumes "standard fs"
  shows "standard (snd (fs_nextMissingBlock fs w isPending))"
proof (cases "unat w < length (fs_pieces fs)")
  case True
  note S = standardD [OF assms]
  have "wf_piece 16384 (fs_plen fs (unat w)) (prep 16384 (fs_plen fs (unat w)) (fs_pieces fs ! unat w))"
    using wf_piece_prep [OF wf_fs_piece [OF S(1) True, unfolded S(5)] fs_plen_pos [OF S(2) True]] by simp
  moreover have "pc_state (prep 16384 (fs_plen fs (unat w)) (fs_pieces fs ! unat w)) \<noteq> pieceFinalizing"
    using S(6) [OF True] by (simp add: prep_def)
  ultimately show ?thesis
    using True standard_set_piece [OF assms] by (simp add: fs_nextMissingBlock_snd [OF S(2)] S(5))
qed (use assms standardD(2) [OF assms] in \<open>simp add: fs_nextMissingBlock_snd\<close>)

subsection \<open>What is observed of the two stores\<close>

lemma fs_readBlock_agrees:
  assumes "standard fs"
  shows "err_free (fs_readBlock fs q oc) = err_free (ps_ReadBlock (ps_of fs) q (Some (fs_file fs)) oc)"
proof -
  note S = standardD [OF assms]
  have offs: "err_free (fs_pieceOffset fs w) = err_free (ps_PieceOffset (ps_of fs) w)" for w
    by (cases "ps_PieceOffset (ps_of fs) w") (auto simp: fs_pieceOffset_eq)
  show ?thesis
  proof (cases "ps_IsComplete (ps_of fs) (PieceIndex q)")
    case False
    then have "\<exists>er. fs_readBlock fs q oc = Inl er"
      by (cases "unat (PieceIndex q) < length (fs_pieces fs)")
        (auto simp: fs_readBlock_def ps_IsComplete_def less_count32 [OF S(3), simplified] pieceAt_in [OF S(2)]
          pieceAt_out [OF S(2)])
    then show ?thesis using False by (auto simp: ps_ReadBlock_def)
  next
    case True
    then have w: "unat (PieceIndex q) < length (fs_pieces fs)" "pc_complete (fs_pieces fs ! unat (PieceIndex q))"
      using less_count32 [OF S(3), of "PieceIndex q"] by (auto simp: ps_IsComplete_def)
    show ?thesis
      using True w
      by (cases "ps_blockRequest (ps_of fs) (PieceIndex q) (Begin q)")
        (auto simp: fs_readBlock_def ps_ReadBlock_def pieceAt_in [OF S(2)] fs_blockRequest_eq [OF S(4)]
          fs_pieceOffset_in [OF S(2)] ps_PieceOffset_in [OF S(3)] split: prod.splits)
  qed
qed

lemma fs_bytesLeft_agrees: "err_free (fs_bytesLeft fs) = err_free (ps_BytesLeft (ps_of fs))"
proof -
  have "err_free (fs_bytesLeft_loop fs i pl left) =
      err_free (bytesLeft_loop (ps_of fs) i (map (abs_piece (fs_bsize fs)) pl) left)" for i pl left
  proof (induction pl arbitrary: i left)
    case (Cons p pl)
    show ?case
      using Cons.IH by (cases "ps_PieceLength (ps_of fs) (of_nat i)") (auto simp: fs_pieceLength_eq)
  qed simp
  then show ?thesis by (simp add: fs_bytesLeft_def ps_BytesLeft_def ps_of_def)
qed

lemma fs_complete_agrees: "err_free (fs_complete fs) = err_free (ps_Complete (ps_of fs))"
  using fs_bytesLeft_agrees [of fs]
  by (cases "fs_bytesLeft fs"; cases "ps_BytesLeft (ps_of fs)") (auto simp: fs_complete_def ps_Complete_def)

lemma fs_completedCount_agrees: "fs_completedCount fs = ps_CompletedCount (ps_of fs)"
  by (simp add: fs_completedCount_def ps_CompletedCount_def ps_of_def filter_map comp_def)

lemma fs_bitfield_agrees:
  assumes "fs_geometry fs"
  shows "fs_bitfield fs = PiecesBitfield (ps_of fs)"
proof -
  note geo = fs_geometry_ps [OF assms]
  have "ps_IsComplete (ps_of fs) (of_nat i) = pc_complete (fs_pieces fs ! i)" if "i < length (fs_pieces fs)" for i
    using that less_count32 [OF geo, of "of_nat i"] unat_of_nat_index [OF geo, of i]
    by (simp add: ps_IsComplete_def)
  then have "fs_bitfield_loop is fs bits = piecesBitfield_loop is (ps_of fs) bits"
    if "\<forall>i \<in> set is. i < length (fs_pieces fs)" for "is" bits
    using that by (induction "is" arbitrary: bits) (simp_all add: piece_mask_def)
  then show ?thesis by (simp add: fs_bitfield_def PiecesBitfield_def ps_Count_def)
qed

text \<open>The operations of a content store and what a client sees of them, for both implementations: a value, a returned
  error, or a panic.\<close>

datatype content_op =
    OpNext uint32 "BlockRequest \<Rightarrow> bool"
  | OpStore BlockRequest "byte list"
  | OpFinalize uint32 io_outcome
  | OpRead BlockRequest io_outcome
  | OpLeft
  | OpComplete
  | OpCompletedCount
  | OpBitfield

datatype 'a answer = Answered 'a | Failed | Panicked

definition answer_of :: "'e \<Rightarrow> 'e + 'a \<Rightarrow> 'a answer" where
  "answer_of panic r = (case r of Inr v \<Rightarrow> Answered v | Inl er \<Rightarrow> if er = panic then Panicked else Failed)"

definition err_answer :: "'e \<Rightarrow> 'e option \<Rightarrow> unit answer" where
  "err_answer panic e = answer_of panic (case e of None \<Rightarrow> Inr () | Some er \<Rightarrow> Inl er)"

datatype content_obs =
    ObsNext "BlockRequest option answer"
  | ObsStore "bool answer"
  | ObsFinalize "unit answer"
  | ObsRead "byte list answer"
  | ObsLeft "uint64 answer"
  | ObsComplete "bool answer"
  | ObsCompletedCount nat
  | ObsBitfield "byte list"

fun fs_exec :: "content_op \<Rightarrow> fileStorage \<Rightarrow> content_obs \<times> fileStorage" where
  "fs_exec (OpNext w isPending) fs = apfst (ObsNext \<circ> answer_of FsPanic) (fs_nextMissingBlock fs w (Some isPending))"
| "fs_exec (OpStore q data) fs = apfst (ObsStore \<circ> answer_of FsPanic) (fs_acceptBlock fs q data)"
| "fs_exec (OpFinalize w oc) fs = apfst (ObsFinalize \<circ> err_answer FsPanic) (finalize fs w oc)"
| "fs_exec (OpRead q oc) fs = (ObsRead (answer_of FsPanic (fs_readBlock fs q oc)), fs)"
| "fs_exec OpLeft fs = (ObsLeft (answer_of FsPanic (fs_bytesLeft fs)), fs)"
| "fs_exec OpComplete fs = (ObsComplete (answer_of FsPanic (fs_complete fs)), fs)"
| "fs_exec OpCompletedCount fs = (ObsCompletedCount (fs_completedCount fs), fs)"
| "fs_exec OpBitfield fs = (ObsBitfield (fs_bitfield fs), fs)"

fun ps_exec :: "content_op \<Rightarrow> PieceSet \<times> osfile \<Rightarrow> content_obs \<times> PieceSet \<times> osfile" where
  "ps_exec (OpNext w isPending) (p, f) =
     map_prod (ObsNext \<circ> answer_of GoPanic) (\<lambda>p'. (p', f)) (ps_nextMissingBlock p w isPending)"
| "ps_exec (OpStore q data) (p, f) = map_prod (ObsStore \<circ> answer_of GoPanic) (\<lambda>p'. (p', f)) (ps_StoreBlock p q data)"
| "ps_exec (OpFinalize w oc) (p, f) =
     (case ps_VerifyAndWrite p w (Some f) oc of (e, p', f') \<Rightarrow> (ObsFinalize (err_answer GoPanic e), p', the f'))"
| "ps_exec (OpRead q oc) (p, f) = (ObsRead (answer_of GoPanic (ps_ReadBlock p q (Some f) oc)), p, f)"
| "ps_exec OpLeft (p, f) = (ObsLeft (answer_of GoPanic (ps_BytesLeft p)), p, f)"
| "ps_exec OpComplete (p, f) = (ObsComplete (answer_of GoPanic (ps_Complete p)), p, f)"
| "ps_exec OpCompletedCount (p, f) = (ObsCompletedCount (ps_CompletedCount p), p, f)"
| "ps_exec OpBitfield (p, f) = (ObsBitfield (PiecesBitfield p), p, f)"

fun panicked :: "content_obs \<Rightarrow> bool" where
  "panicked (ObsNext a) \<longleftrightarrow> a = Panicked"
| "panicked (ObsStore a) \<longleftrightarrow> a = Panicked"
| "panicked (ObsFinalize a) \<longleftrightarrow> a = Panicked"
| "panicked (ObsRead a) \<longleftrightarrow> a = Panicked"
| "panicked (ObsLeft a) \<longleftrightarrow> a = Panicked"
| "panicked (ObsComplete a) \<longleftrightarrow> a = Panicked"
| "panicked _ \<longleftrightarrow> False"

text \<open>The error that \<^verbatim>\<open>fileStorage\<close> returns where \<^verbatim>\<open>PieceSet\<close> panics.\<close>

fun returned :: "'a answer \<Rightarrow> 'a answer" where
  "returned Panicked = Failed"
| "returned a = a"

fun as_error :: "content_obs \<Rightarrow> content_obs" where
  "as_error (ObsNext a) = ObsNext (returned a)"
| "as_error (ObsStore a) = ObsStore (returned a)"
| "as_error (ObsFinalize a) = ObsFinalize (returned a)"
| "as_error (ObsRead a) = ObsRead (returned a)"
| "as_error (ObsLeft a) = ObsLeft (returned a)"
| "as_error (ObsComplete a) = ObsComplete (returned a)"
| "as_error out = out"

text \<open>A block arrives in a peer message, whose length is a 32-bit number.\<close>

fun wire_op :: "content_op \<Rightarrow> bool" where
  "wire_op (OpStore q data) \<longleftrightarrow> length data < 2 ^ 32"
| "wire_op _ \<longleftrightarrow> True"

abbreviation content_of :: "fileStorage \<Rightarrow> PieceSet \<times> osfile" where
  "content_of fs \<equiv> (ps_of fs, fs_file fs)"

lemma fs_file_kept [simp]:
  "fs_file (snd (fs_acceptBlock fs q data)) = fs_file fs"
  "fs_file (snd (fs_nextMissingBlock fs w isPending)) = fs_file fs"
  by (auto simp: fs_acceptBlock_def fs_nextMissingBlock_def Let_def split: sum.splits option.splits prod.splits)

subsubsection \<open>Where a store can panic\<close>

lemma answer_simps [simp]:
  "answer_of panic (Inr v) = Answered v"
  "answer_of panic (Inl er) = (if er = panic then Panicked else Failed)"
  "err_answer panic None = Answered ()"
  "err_answer panic (Some er) = (if er = panic then Panicked else Failed)"
  by (simp_all add: answer_of_def err_answer_def)

lemma answer_Panicked [simp]:
  "answer_of panic r = Panicked \<longleftrightarrow> r = Inl panic" "err_answer panic e = Panicked \<longleftrightarrow> e = Some panic"
  by (cases r; simp) (cases e; simp)

lemma returned_safe [simp]: "returned a \<noteq> Panicked"
  by (cases a) simp_all

lemma returned_same: "a \<noteq> Panicked \<Longrightarrow> returned a = a"
  by (cases a) simp_all

lemma answer_returned: "err_free r = err_free r' \<Longrightarrow> r \<noteq> Inl panic \<Longrightarrow> answer_of panic r = returned (answer_of panic' r')"
  by (cases r; cases r') auto

lemma err_answer_returned:
  "(e = None \<longleftrightarrow> e' = None) \<Longrightarrow> e \<noteq> Some panic \<Longrightarrow> err_answer panic e = returned (err_answer panic' e')"
  by (cases e; cases e') auto

text \<open>\<^verbatim>\<open>fileStorage\<close> never does.\<close>

lemma fs_acceptBlock_no_panic:
  assumes "wf_fs fs" and "length data < 2 ^ 32"
  shows "fst (fs_acceptBlock fs q data) \<noteq> Inl FsPanic"
proof (cases "fs_good fs q data")
  case True
  then show ?thesis by (simp add: fs_acceptBlock_good [OF assms(1)] Let_def)
next
  case False
  then show ?thesis using fs_acceptBlock_bad [OF False assms(2)] by auto
qed

lemma fs_blockRequest_no_panic [simp]: "fs_blockRequest fs w b \<noteq> Inl FsPanic"
  by (auto simp: fs_blockRequest_def fs_pieceLength_def fs_pieceOffset_def Let_def bind_r_Inl_iff
      split: if_splits option.splits)

lemma fs_nextMissingBlock_no_panic:
  assumes "fs_geometry fs"
  shows "fst (fs_nextMissingBlock fs w isPending) \<noteq> Inl FsPanic"
proof -
  have "fs_nextMissing_loop fs' w isPending i rs \<noteq> Inl FsPanic" for fs' i rs
    by (induction rs arbitrary: i) (auto simp: bind_r_Inl_iff)
  then show ?thesis
    using assms
    by (cases "unat w < length (fs_pieces fs)")
      (simp_all add: fs_nextMissingBlock_def pieceAt_in pieceAt_out prepare_missing_eq Let_def)
qed

lemma finalize_no_panic:
  assumes "standard fs"
  shows "fst (finalize fs w oc) \<noteq> Some FsPanic"
proof (cases "unat w < length (fs_pieces fs) \<and> pc_state (fs_pieces fs ! unat w) = pieceAssembled")
  case True
  then obtain d where "pc_buffer (fs_pieces fs ! unat w) = Some d"
    using wf_fs_piece [OF standardD(1) [OF assms], of "unat w"] by (auto simp: wf_piece_def)
  then show ?thesis
    using True finalize_assembled [OF assms, of w] by (simp add: Let_def split: prod.split option.split)
next
  case False
  have "takeFinalizeJob fs w \<in> {(Inl ErrInvalidPiece, fs), (Inl ErrPieceInvalidState, fs)}"
    using False takeFinalizeJob_in(2) [OF standardD(2) [OF assms], of w] pieceAt_out [OF standardD(2) [OF assms], of w]
    by (cases "unat w < length (fs_pieces fs)") (simp_all add: takeFinalizeJob_def)
  then show ?thesis by (auto simp: finalize_def)
qed

lemma fs_readBlock_no_panic: "fs_readBlock fs q oc \<noteq> Inl FsPanic"
  by (auto simp: fs_readBlock_def fs_pieceOffset_def Let_def bind_r_Inl_iff split: option.splits if_splits prod.splits)

lemma fs_bytesLeft_no_panic:
  assumes "fs_geometry fs"
  shows "fs_bytesLeft fs \<noteq> Inl FsPanic" and "fs_complete fs \<noteq> Inl FsPanic"
proof -
  obtain n where "fs_bytesLeft fs = Inr n"
    using fs_bytesLeft_agrees [of fs] ps_BytesLeft_exact [OF fs_geometry_ps [OF assms]]
    by (cases "fs_bytesLeft fs") auto
  then show "fs_bytesLeft fs \<noteq> Inl FsPanic" "fs_complete fs \<noteq> Inl FsPanic" by (simp_all add: fs_complete_def)
qed

text \<open>\<^verbatim>\<open>PieceSet\<close> does on a block of a complete piece and on an index out of range.\<close>

fun panics_at :: "PieceSet \<Rightarrow> content_op \<Rightarrow> bool" where
  "panics_at p (OpStore q data) \<longleftrightarrow> good_block p q data \<and> ps_IsComplete p (PieceIndex q)"
| "panics_at p (OpNext w isPending) \<longleftrightarrow> length (ps_states p) \<le> unat w"
| "panics_at p _ \<longleftrightarrow> False"

lemma ps_StoreBlock_panic:
  assumes "wf_ps p" and "length data < 2 ^ 32"
  shows "fst (ps_StoreBlock p q data) = Inl GoPanic \<longleftrightarrow> good_block p q data \<and> ps_IsComplete p (PieceIndex q)"
  using assms
proof (cases rule: ps_StoreBlock_cases [where q = q])
  case complete
  then show ?thesis
    using good_block_facts(1) [OF wf_ps_geometry [OF assms(1)] complete(1)]
    by (simp add: ps_IsComplete_def less_count32 [OF wf_ps_geometry [OF assms(1)]])
next
  case incomplete
  then show ?thesis by (simp add: ps_StoreBlock_good [OF assms(1)] ps_IsComplete_def Let_def)
qed simp_all

lemma ps_nextMissingBlock_panic:
  assumes "wf_geometry p"
  shows "fst (ps_nextMissingBlock p w isPending) = Inl GoPanic \<longleftrightarrow> length (ps_states p) \<le> unat w"
proof -
  have request: "ps_blockRequest p' w b \<noteq> Inl GoPanic" for p' b
    by (auto simp: ps_blockRequest_def ps_PieceLength_def Let_def bind_r_Inl_iff split: if_splits)
  have "nextMissing_loop p' w isPending i rs \<noteq> Inl GoPanic" for p' i rs
    by (induction rs arbitrary: i) (auto simp: bind_r_Inl_iff request)
  moreover have "ps_prepare p w = (Inl GoPanic, p)" if "length (ps_states p) \<le> unat w"
    using that by (simp add: ps_prepare_def ps_IsComplete_def less_count32 [OF assms])
  ultimately show ?thesis
    by (cases "unat w < length (ps_states p)") (simp_all add: ps_nextMissingBlock_def ps_prepare_eq [OF assms])
qed

lemma ps_VerifyAndWrite_no_panic:
  assumes "wf_geometry p"
  shows "fst (ps_VerifyAndWrite p w f oc) \<noteq> Some GoPanic"
proof -
  have "ps_PieceOffset p w \<noteq> Inl GoPanic" by (simp add: ps_PieceOffset_def Let_def)
  moreover have "length (PieceHashes (ps_info p)) = length (ps_states p)" using assms by (simp add: wf_geometry_def)
  ultimately show ?thesis
    using ge_count32 [OF assms, of w]
    by (auto simp: ps_VerifyAndWrite_def Let_def split: option.splits if_splits sum.splits prod.splits)
qed

lemma panicked_ps_exec:
  assumes "wf_ps p" and "wire_op op"
  shows "panicked (fst (ps_exec op (p, f))) \<longleftrightarrow> panics_at p op"
proof (cases op)
  case (OpNext w isPending)
  then show ?thesis using ps_nextMissingBlock_panic [of p w isPending] assms by simp
next
  case (OpStore q data)
  then show ?thesis using ps_StoreBlock_panic [of p data q] assms by simp
next
  case (OpFinalize w oc)
  then show ?thesis
    using ps_VerifyAndWrite_no_panic [of p w "Some f" oc] assms by (auto split: prod.split)
qed (use assms in \<open>simp_all add: ps_ReadBlock_no_panic ps_BytesLeft_exact ps_Complete_def\<close>)

subsubsection \<open>The refinement\<close>

lemma fs_exec_refines:
  assumes "standard fs" and "wire_op op"
  shows "apsnd content_of (fs_exec op fs) = apfst as_error (ps_exec op (content_of fs))" and "standard (snd (fs_exec op fs))"
proof -
  note S = standardD [OF assms(1)]
  have "apsnd content_of (fs_exec op fs) = apfst as_error (ps_exec op (content_of fs)) \<and> standard (snd (fs_exec op fs))"
  proof (cases op)
    case (OpNext w isPending)
    obtain r fs' where e: "fs_nextMissingBlock fs w (Some isPending) = (r, fs')" by fastforce
    obtain r' p' where e': "ps_nextMissingBlock (ps_of fs) w isPending = (r', p')" by fastforce
    have "err_free r = err_free r'" "p' = ps_of fs'"
      using fs_nextMissingBlock_refines [OF assms(1), of w isPending] e e' by auto
    then show ?thesis
      using e e' fs_file_kept(2) [of fs w "Some isPending"] OpNext standard_nextMissingBlock [OF assms(1), of w "Some isPending"]
        answer_returned [of r r' FsPanic GoPanic] fs_nextMissingBlock_no_panic [OF S(2), of w "Some isPending"] by simp
  next
    case (OpStore q data)
    obtain r fs' where e: "fs_acceptBlock fs q data = (r, fs')" by fastforce
    obtain r' p' where e': "ps_StoreBlock (ps_of fs) q data = (r', p')" by fastforce
    have l: "length data < 2 ^ 32" using assms(2) OpStore by simp
    have "err_free r = err_free r'" "p' = ps_of fs'" using fs_acceptBlock_refines [OF assms(1) l, of q] e e' by auto
    then show ?thesis
      using e e' fs_file_kept(1) [of fs q data] OpStore standard_acceptBlock [OF assms(1) l, of q]
        answer_returned [of r r' FsPanic GoPanic] fs_acceptBlock_no_panic [OF S(1) l, of q] by simp
  next
    case (OpFinalize w oc)
    obtain e fs' where e: "finalize fs w oc = (e, fs')" by fastforce
    obtain e' p' f' where e': "ps_VerifyAndWrite (ps_of fs) w (Some (fs_file fs)) oc = (e', p', f')"
      by (metis surj_pair)
    show ?thesis
      using finalize_refines [OF assms(1) e e'] e e' OpFinalize finalize_no_panic [OF assms(1), of w oc]
        err_answer_returned [of e e' FsPanic GoPanic] by simp
  qed (use assms S(2) fs_readBlock_agrees [OF assms(1)] fs_bytesLeft_agrees [of fs] fs_complete_agrees [of fs] in
      \<open>simp_all add: fs_readBlock_no_panic fs_bytesLeft_no_panic fs_completedCount_agrees fs_bitfield_agrees
        answer_returned [where panic' = GoPanic]\<close>)
  then show "apsnd content_of (fs_exec op fs) = apfst as_error (ps_exec op (content_of fs))" "standard (snd (fs_exec op fs))"
    by auto
qed

interpretation content: refinement fs_exec ps_exec content_of standard wire_op panicked as_error
proof
  fix op out
  show "\<not> panicked (as_error out)" by (cases out) simp_all
  show "\<not> panicked out \<Longrightarrow> as_error out = out" by (cases out) (simp_all add: returned_same)
qed (auto intro: fs_exec_refines)

text \<open>C24. The two content stores are interchangeable up to the panics of \<^verbatim>\<open>PieceSet\<close>: with the default block length, and a
  worker that runs each job to its end, on every sequence of operations (requesting, storing, verifying and writing,
  serving, accounting, bitfield), under every outcome of the file operations, \<^verbatim>\<open>fileStorage\<close> gives a client the same
  answers as \<^verbatim>\<open>PieceSet\<close>, errors being compared by their presence and not by their kind, and leaves the same file and
  the same assembled data, up to the first operation on which \<^verbatim>\<open>PieceSet\<close> panics, where the program crashes; there
  \<^verbatim>\<open>fileStorage\<close> returns an error instead, and it never panics itself.  \<^verbatim>\<open>PieceSet\<close> panics exactly on a well-formed
  block of a complete piece and on the request for a piece out of range.\<close>

theorem fileStorage_refines_PieceSet:
  assumes "standard fs" and "list_all wire_op ops"
    and "run_until panicked ps_exec ops (ps_of fs, fs_file fs) = (outs, content)"
    and "run_ops fs_exec (take (length outs) ops) fs = (fouts, fs')"
  shows "(ps_of fs', fs_file fs') = content \<and>
    (if \<exists>out \<in> set outs. panicked out
     then \<exists>before out. outs = before @ [out] \<and> panicked out \<and> fouts = before @ [as_error out]
     else length outs = length ops \<and> fouts = outs) \<and>
    (\<forall>out \<in> set (fst (run_ops fs_exec ops fs)). \<not> panicked out) \<and>
    (\<forall>op. wire_op op \<longrightarrow> (panicked (fst (ps_exec op content)) \<longleftrightarrow> panics_at (fst content) op))"
proof -
  have r: "fouts = map as_error outs" "content_of fs' = content" "standard fs'"
    using content.run_refines [OF assms(1-3)] assms(4) by auto
  have id: "map as_error os = os" if "\<forall>out \<in> set os. \<not> panicked out" for os
    using that content.recover_same by (simp add: map_idI)
  have "if \<exists>out \<in> set outs. panicked out
     then \<exists>before out. outs = before @ [out] \<and> panicked out \<and> fouts = before @ [as_error out]
     else length outs = length ops \<and> fouts = outs"
    using run_until_crash [OF assms(3)] id r(1) by (auto split: if_splits)
  moreover have "\<forall>out \<in> set (fst (run_ops fs_exec ops fs)). \<not> panicked out"
    using content.never_crashes [OF assms(1,2)] by (cases "run_ops fs_exec ops fs") simp
  ultimately show ?thesis using r(2) panicked_ps_exec [OF wf_ps_of [OF r(3)]] by auto
qed

definition demo_fs :: fileStorage where
  "demo_fs = \<lparr>fs_file = [], fs_info = demo_info, blockLength = defaultBlockLength, fs_pieces = [newPiece, newPiece]\<rparr>"

lemma ps_of_demo_fs: "ps_of demo_fs = demo_ps"
  by (simp add: ps_of_def demo_fs_def demo_ps_def abs_piece_def newPiece_def)

lemma fs_file_demo: "fs_file demo_fs = []"
  by (simp add: demo_fs_def)

lemma standard_demo_fs: "standard demo_fs"
proof -
  have "wf_geometry (ps_of demo_fs)" using wf_demo_ps by (simp add: ps_of_demo_fs)
  moreover have "wf_piece bl n newPiece" for bl n by (simp add: wf_piece_def newPiece_def)
  ultimately have "wf_fs demo_fs"
    by (simp add: wf_fs_def fs_geometry_def demo_fs_def defaultBlockLength_def less_Suc_eq)
  then show ?thesis by (simp add: standard_def demo_fs_def newPiece_def)
qed

text \<open>Storing a block works in both; the request for a piece out of range crashes \<^verbatim>\<open>PieceSet\<close>, and \<^verbatim>\<open>fileStorage\<close> returns
  an error.\<close>

theorem fileStorage_refines_PieceSet_witness:
  "\<exists>content fs'. run_until panicked ps_exec [OpCompletedCount, OpNext 9 (\<lambda>_. False), OpLeft] (demo_ps, []) =
       ([ObsCompletedCount 0, ObsNext Panicked], content) \<and>
     run_ops fs_exec [OpCompletedCount, OpNext 9 (\<lambda>_. False)] demo_fs = ([ObsCompletedCount 0, ObsNext Failed], fs') \<and>
     (ps_of fs', fs_file fs') = content"
proof -
  let ?ops = "[OpCompletedCount, OpNext 9 (\<lambda>_. False), OpLeft]"
  let ?outs = "[ObsCompletedCount 0, ObsNext Panicked]"
  have n: "fst (ps_nextMissingBlock demo_ps 9 (\<lambda>_. False)) = Inl GoPanic"
    using ps_nextMissingBlock_panic [OF wf_ps_geometry [OF wf_demo_ps], of 9] by (simp add: demo_ps_def)
  obtain r p' where e: "ps_nextMissingBlock demo_ps 9 (\<lambda>_. False) = (r, p')" by fastforce
  have c: "ps_CompletedCount demo_ps = 0" by (simp add: ps_CompletedCount_def demo_ps_def newPieceState_def)
  have u: "run_until panicked ps_exec ?ops (ps_of demo_fs, fs_file demo_fs) = (?outs, (p', []))"
    using n e c by (simp add: ps_of_demo_fs fs_file_demo)
  obtain fouts fs' where f: "run_ops fs_exec (take (length ?outs) ?ops) demo_fs = (fouts, fs')" by fastforce
  have w: "list_all wire_op ?ops" by simp
  note T = fileStorage_refines_PieceSet [OF standard_demo_fs w u f]
  then have "fouts = [ObsCompletedCount 0, ObsNext Failed]" by (auto simp: append_eq_Cons_conv)
  then show ?thesis using T u f by (intro exI [of _ "(p', [])"] exI [of _ fs']) (simp add: ps_of_demo_fs fs_file_demo)
qed

end
