(* ===== verification/FileStorage_Async.thy ===== *)
theory FileStorage_Async
  imports FileStorage_Correct
begin

text \<open>
  \<^verbatim>\<open>fileStorage\<close> opened on an existing file, and run beside its worker: the owner of the store takes
  jobs and applies results, a worker verifies and writes, and any number of jobs and results may be
  in flight.
\<close>

subsection \<open>Opening an existing file\<close>

text \<open>Piece \<open>i\<close> lies in the file with the digest of the metainfo.\<close>

definition present :: "fileStorage \<Rightarrow> nat \<Rightarrow> bool" where
  "present fs i \<longleftrightarrow>
     length (piece_bytes (ps_of fs) (fs_file fs) i) = fs_plen fs i \<and>
     sha1_Sum (piece_bytes (ps_of fs) (fs_file fs) i) = PieceHashes (fs_info fs) ! i"

definition mark :: "fileStorage \<Rightarrow> nat \<Rightarrow> fileStorage" where
  "mark fs i = fs\<lparr>fs_pieces := (fs_pieces fs)[i := markExistingComplete (fs_pieces fs ! i)]\<rparr>"

lemma mark_set_piece:
  assumes "fs_geometry fs" and "i < length (fs_pieces fs)"
  shows "mark fs i = set_piece fs (of_nat i) (markExistingComplete (fs_pieces fs ! i))"
  using unat_of_nat_index [of "ps_of fs" i] assms by (simp add: mark_def set_piece_def)

lemma mark_simps [simp]:
  "fs_file (mark fs i) = fs_file fs" "fs_info (mark fs i) = fs_info fs" "blockLength (mark fs i) = blockLength fs"
  "length (fs_pieces (mark fs i)) = length (fs_pieces fs)" "fs_plen (mark fs i) j = fs_plen fs j"
  "fs_geometry (mark fs i) = fs_geometry fs" "present (mark fs i) j = present fs j"
  by (simp_all add: mark_def fs_geometry_def wf_geometry_def present_def piece_bytes_def plen_at_def)

lemma in_int64_le: "n \<le> nat L \<Longrightarrow> in_int64 L \<Longrightarrow> in_int64 (int n)"
  unfolding in_int64_def by linarith

lemma recheck_step:
  fixes fs :: fileStorage
  assumes "fs_geometry fs" and "i < length (fs_pieces fs)"
  defines "sz \<equiv> int (length (fs_file fs))"
  shows "(\<exists>er. recheck_loop (i # ixs) fs sz rd = (Some er, fs)) \<or>
      recheck_loop (i # ixs) fs sz rd = recheck_loop ixs fs sz rd \<or>
      present fs i \<and> recheck_loop (i # ixs) fs sz rd = recheck_loop ixs (mark fs i) sz rd"
    and "rd i = IoOk \<Longrightarrow> recheck_loop (i # ixs) fs sz rd = recheck_loop ixs (if present fs i then mark fs i else fs) sz rd"
proof -
  let ?n = "fs_plen fs i" and ?off = "i * nat (PieceLength (fs_info fs))"
  note geo = fs_geometry_ps [OF assms(1)]
  have u: "unat (of_nat i :: uint32) = i" using unat_of_nat_index [OF geo, of i] assms(2) by simp
  have n: "unat (of_nat ?n :: uint32) = ?n" using fs_plen_32 [OF assms(1)] by (simp add: unat_of_nat_small)
  have off: "fs_pieceOffset fs (of_nat i) = Inr (int ?off)" and len: "fs_pieceLength fs (of_nat i) = Inr (of_nat ?n)"
    using fs_pieceOffset_in [OF assms(1), of "of_nat i"] fs_pieceLength_in [OF assms(1), of "of_nat i"] assms(2)
    by (simp_all add: u)
  have h: "length (PieceHashes (fs_info fs)) = length (fs_pieces fs)" using geo by (simp add: wf_geometry_def)
  have "?off + ?n \<le> nat (Length (fs_info fs))"
    unfolding plen_at_def using plen_end [of "nat (PieceLength (fs_info fs))" i] geo assms(2)
    by (simp add: wf_geometry_def)
  then have "in_int64 (int (?off + ?n))"
    by (rule in_int64_le) (use geo in \<open>simp add: wf_geometry_def\<close>)
  then have e: "int64 (int ?off + int ?n) = int (?off + ?n)" by (metis int64_id of_nat_add)
  obtain data err where rd: "file_ReadAt (fs_file fs) (rd i) ?n ?off = (data, err)" by fastforce
  have loop: "recheck_loop (i # ixs) fs sz rd =
      (if length (fs_file fs) < ?off + ?n then recheck_loop ixs fs sz rd
       else if err \<noteq> None \<and> err \<noteq> Some ErrEOF then (Some (FsIo (the err)), fs)
       else if length data = ?n \<and> sha1_Sum data = PieceHashes (fs_info fs) ! i
       then recheck_loop ixs (mark fs i) sz rd else recheck_loop ixs fs sz rd)"
    unfolding recheck_loop.simps Let_def off len sum.case n e sz_def nat_int rd prod.case of_nat_less_iff
      VerifyPiece_def HashPiece_def mark_def [symmetric] using h assms(2) by (simp del: recheck_loop.simps)
  have present: "present fs i" if "err = None \<or> err = Some ErrEOF" "length data = ?n" "sha1_Sum data = PieceHashes (fs_info fs) ! i"
    using file_ReadAt_full [OF rd that(1,2)] that by (simp add: present_def piece_bytes_def)
  then show "(\<exists>er. recheck_loop (i # ixs) fs sz rd = (Some er, fs)) \<or>
      recheck_loop (i # ixs) fs sz rd = recheck_loop ixs fs sz rd \<or>
      present fs i \<and> recheck_loop (i # ixs) fs sz rd = recheck_loop ixs (mark fs i) sz rd"
    unfolding loop by auto
  assume ok: "rd i = IoOk"
  have d: "data = piece_bytes (ps_of fs) (fs_file fs) i" "err = None \<or> err = Some ErrEOF"
    using rd ok by (auto simp: file_ReadAt_def Let_def piece_bytes_def split: if_splits)
  have "0 < ?n" using fs_plen_pos [OF assms(1,2)] .
  then have "present fs i \<Longrightarrow> \<not> length (fs_file fs) < ?off + ?n"
    by (auto simp: present_def piece_bytes_def min_def split: if_splits)
  then show "recheck_loop (i # ixs) fs sz rd = recheck_loop ixs (if present fs i then mark fs i else fs) sz rd"
    unfolding loop using d by (auto simp: present_def)
qed

declare recheck_loop.simps(2) [simp del]

lemma recheck_loop_marks:
  assumes "fs_geometry fs" and "\<forall>i \<in> set ixs. i < length (fs_pieces fs)"
    and "recheck_loop ixs fs (int (length (fs_file fs))) rd = (None, fs')"
  shows "\<exists>js. set js \<subseteq> {i \<in> set ixs. present fs i} \<and> fs' = fold (\<lambda>i fs. mark fs i) js fs \<and>
    (rd = (\<lambda>_. IoOk) \<longrightarrow> set js = {i \<in> set ixs. present fs i})"
  using assms
proof (induction ixs arbitrary: fs)
  case Nil
  then show ?case by (auto intro: exI [of _ "[]"])
next
  case (Cons i ixs)
  have geo: "fs_geometry fs" and i: "i < length (fs_pieces fs)" using Cons.prems by auto
  note step = recheck_step [OF geo i, where ixs = ixs and rd = rd]
  let ?ok = "rd = (\<lambda>_. IoOk)"
  have "\<exists>fs1. (fs1 = fs \<and> (?ok \<longrightarrow> \<not> present fs i) \<or> fs1 = mark fs i \<and> present fs i) \<and>
      recheck_loop ixs fs1 (int (length (fs_file fs1))) rd = (None, fs')"
  proof (cases ?ok)
    case True
    then show ?thesis
      using step(2) Cons.prems(3) by (intro exI [of _ "if present fs i then mark fs i else fs"]) (simp split: if_splits)
  next
    case False
    then show ?thesis using step(1) Cons.prems(3) by auto
  qed
  then obtain fs1 where fs1: "fs1 = fs \<and> (?ok \<longrightarrow> \<not> present fs i) \<or> fs1 = mark fs i \<and> present fs i"
    and loop: "recheck_loop ixs fs1 (int (length (fs_file fs1))) rd = (None, fs')" by blast
  have g: "fs_geometry fs1" "\<forall>j \<in> set ixs. j < length (fs_pieces fs1)" and pr: "present fs1 = present fs"
    using fs1 geo Cons.prems(2) by (auto simp: fun_eq_iff)
  obtain js where js: "set js \<subseteq> {i \<in> set ixs. present fs i}" "fs' = fold (\<lambda>i fs. mark fs i) js fs1"
    "?ok \<longrightarrow> set js = {i \<in> set ixs. present fs i}"
    using Cons.IH [OF g loop] unfolding pr by blast
  show ?case
    using fs1
  proof
    assume "fs1 = fs \<and> (?ok \<longrightarrow> \<not> present fs i)"
    then show ?thesis using js by (intro exI [of _ js]) auto
  next
    assume "fs1 = mark fs i \<and> present fs i"
    then show ?thesis using js by (intro exI [of _ "i # js"]) auto
  qed
qed

lemma recheck_loop_total:
  assumes "fs_geometry fs" and "\<forall>i \<in> set ixs. i < length (fs_pieces fs)"
  shows "\<exists>fs'. recheck_loop ixs fs (int (length (fs_file fs))) (\<lambda>_. IoOk) = (None, fs')"
  using assms
proof (induction ixs arbitrary: fs)
  case (Cons i ixs)
  have i: "i < length (fs_pieces fs)" using Cons.prems by auto
  let ?fs = "if present fs i then mark fs i else fs"
  have "\<exists>fs'. recheck_loop ixs ?fs (int (length (fs_file ?fs))) (\<lambda>_. IoOk) = (None, fs')"
    using Cons by (intro Cons.IH) auto
  then show ?case using recheck_step(2) [OF Cons.prems(1) i, where ixs = ixs and rd = "\<lambda>_. IoOk"]
    by (simp split: if_splits)
qed simp

lemma fold_mark:
  "fs_file (fold (\<lambda>i fs. mark fs i) js fs) = fs_file fs"
  "fs_info (fold (\<lambda>i fs. mark fs i) js fs) = fs_info fs"
  "blockLength (fold (\<lambda>i fs. mark fs i) js fs) = blockLength fs"
  "length (fs_pieces (fold (\<lambda>i fs. mark fs i) js fs)) = length (fs_pieces fs)"
  by (induction js arbitrary: fs) auto

lemma mark_nth:
  "i < length (fs_pieces fs) \<Longrightarrow>
   fs_pieces (mark fs a) ! i = (if i = a then markExistingComplete (fs_pieces fs ! i) else fs_pieces fs ! i)"
  by (simp add: mark_def nth_list_update)

lemma fold_mark_nth:
  "i < length (fs_pieces fs) \<Longrightarrow> fs_pieces (fold (\<lambda>i fs. mark fs i) js fs) ! i =
     (if i \<in> set js then markExistingComplete (fs_pieces fs ! i) else fs_pieces fs ! i)"
  by (induction js arbitrary: fs) (auto simp: mark_nth markExistingComplete_def)

lemma newFileStorage_cases:
  assumes "newFileStorage (Some f) info bl (Inr sz) rd = Inr fs"
  shows "0 \<le> Length info" "0 < PieceLength info" "PieceLength info < 2 ^ 32" "bl \<noteq> 0"
    "int (length (PieceHashes info)) = expectedPieces (Length info) (PieceLength info)"
    "recheck \<lparr>fs_file = f, fs_info = info, blockLength = bl,
       fs_pieces = replicate (length (PieceHashes info)) newPiece\<rparr> sz rd = (None, fs)"
proof -
  have N: "0 \<le> Length info" "0 < PieceLength info" "PieceLength info < 2 ^ 32" "bl \<noteq> 0"
    "int (length (PieceHashes info)) = expectedPieces (Length info) (PieceLength info)"
    using assms by (auto simp: newFileStorage_def Let_def split: if_splits)
  then show "0 \<le> Length info" "0 < PieceLength info" "PieceLength info < 2 ^ 32" "bl \<noteq> 0"
    "int (length (PieceHashes info)) = expectedPieces (Length info) (PieceLength info)" by auto
  have "nat (expectedPieces (Length info) (PieceLength info)) = length (PieceHashes info)"
    using N(5) by simp
  then show "recheck \<lparr>fs_file = f, fs_info = info, blockLength = bl,
       fs_pieces = replicate (length (PieceHashes info)) newPiece\<rparr> sz rd = (None, fs)"
    using assms N by (auto simp: newFileStorage_def Let_def split: prod.splits option.splits)
qed

lemma fresh_geometry:
  assumes "0 \<le> Length info" "0 < PieceLength info" "PieceLength info < 2 ^ 32" "bl \<noteq> 0"
    "int (length (PieceHashes info)) = expectedPieces (Length info) (PieceLength info)"
    "in_int64 (Length info)" "length (PieceHashes info) < 2 ^ 32"
  shows "fs_geometry \<lparr>fs_file = f, fs_info = info, blockLength = bl,
       fs_pieces = replicate (length (PieceHashes info)) newPiece\<rparr>"
  using assms expectedPieces_pcount [of "Length info" "PieceLength info"]
  by (simp add: fs_geometry_def wf_geometry_def)

lemma wf_piece_fresh: "wf_piece bl n newPiece" "wf_piece bl n (markExistingComplete newPiece)"
  by (simp_all add: wf_piece_def newPiece_def markExistingComplete_def)

text \<open>Opening a store on an existing file: \<^verbatim>\<open>newFileStorage\<close> succeeds on valid content information
  when the file can be read, and then a piece is complete exactly when the file holds its bytes with
  the digest of the metainfo; whatever the outcome of the reads, a piece it marks complete is on disk,
  every other piece is missing, and the store is well formed.\<close>

theorem newFileStorage_exact:
  assumes "in_int64 (Length info)" and "length (PieceHashes info) < 2 ^ 32"
  shows "(\<forall>rd fs. newFileStorage (Some f) info bl (Inr (int (length f))) rd = Inr fs \<longrightarrow>
       wf_fs fs \<and> fs_file fs = f \<and> fs_info fs = info \<and> fs_count fs = length (PieceHashes info) \<and>
       (\<forall>i < fs_count fs. pc_state (fs_pieces fs ! i) = pieceMissing \<or>
          pc_complete (fs_pieces fs ! i) \<and> present fs i) \<and>
       (rd = (\<lambda>_. IoOk) \<longrightarrow> (\<forall>i < fs_count fs. pc_complete (fs_pieces fs ! i) \<longleftrightarrow> present fs i))) \<and>
    (valid_info info \<and> PieceLength info < 2 ^ 32 \<and> bl \<noteq> 0 \<longrightarrow>
       (\<exists>fs. newFileStorage (Some f) info bl (Inr (int (length f))) (\<lambda>_. IoOk) = Inr fs))"
proof (intro conjI allI impI)
  let ?fs0 = "\<lparr>fs_file = f, fs_info = info, blockLength = bl,
    fs_pieces = replicate (length (PieceHashes info)) newPiece\<rparr>"
  {
    fix rd fs
    assume new: "newFileStorage (Some f) info bl (Inr (int (length f))) rd = Inr fs"
    note N = newFileStorage_cases [OF new]
    note geo = fresh_geometry [OF N(1-5) assms, of f]
    obtain js where js: "set js \<subseteq> {i. i < length (PieceHashes info) \<and> present ?fs0 i}"
      "fs = fold (\<lambda>i fs. mark fs i) js ?fs0"
      "rd = (\<lambda>_. IoOk) \<longrightarrow> set js = {i. i < length (PieceHashes info) \<and> present ?fs0 i}"
      using recheck_loop_marks [OF geo, of "[0..<length (PieceHashes info)]" rd fs] N(6)
      by (auto simp: recheck_def)
    have nth: "fs_pieces fs ! i = (if i \<in> set js then markExistingComplete newPiece else newPiece)"
      if "i < length (PieceHashes info)" for i
      using fold_mark_nth [of i ?fs0 js] that js(2) by simp
    note fm = fold_mark [of js ?fs0, folded js(2), simplified]
    have pl: "fs_plen fs i = fs_plen ?fs0 i" "present fs i = present ?fs0 i" for i
      using fm by (simp_all add: plen_at_def present_def piece_bytes_def)
    show "fs_file fs = f" "fs_info fs = info" "fs_count fs = length (PieceHashes info)"
      using fm by (simp_all add: fs_count_def)
    have "fs_geometry fs" using geo fm by (simp add: fs_geometry_def wf_geometry_def)
    moreover have "wf_piece bl' n (fs_pieces fs ! i)" if "i < length (fs_pieces fs)" for bl' n i
      using nth [of i] that fm(4) wf_piece_fresh [of bl' n] by (cases "i \<in> set js") auto
    ultimately show "wf_fs fs" unfolding wf_fs_def by blast
    show "pc_state (fs_pieces fs ! i) = pieceMissing \<or> pc_complete (fs_pieces fs ! i) \<and> present fs i"
      if "i < fs_count fs" for i
      using that fm nth [of i] js(1) pl by (auto simp: fs_count_def newPiece_def markExistingComplete_def pc_complete_def)
    show "pc_complete (fs_pieces fs ! i) = present fs i" if "rd = (\<lambda>_. IoOk)" "i < fs_count fs" for i
      using that fm nth [of i] js(3) pl by (auto simp: fs_count_def newPiece_def markExistingComplete_def pc_complete_def)
  }
  assume v: "valid_info info \<and> PieceLength info < 2 ^ 32 \<and> bl \<noteq> 0"
  then have N: "0 \<le> Length info" "0 < PieceLength info" "PieceLength info < 2 ^ 32" "bl \<noteq> 0"
    "int (length (PieceHashes info)) = expectedPieces (Length info) (PieceLength info)"
    by (auto simp: valid_info_def)
  note geo = fresh_geometry [OF N assms, of f]
  obtain fs' where "recheck ?fs0 (int (length f)) (\<lambda>_. IoOk) = (None, fs')"
    using recheck_loop_total [OF geo, of "[0..<length (PieceHashes info)]"] by (auto simp: recheck_def)
  then show "\<exists>fs. newFileStorage (Some f) info bl (Inr (int (length f))) (\<lambda>_. IoOk) = Inr fs"
    using N by (simp add: newFileStorage_def Let_def flip: N(5))
qed

text \<open>A file that holds the first piece of the demo content and a wrong byte.\<close>

subsection \<open>The store beside its worker\<close>

record fsys =
  store :: fileStorage
  jobs :: "pieceFinalizeJob list"
  results :: "pieceFinalizeResult list"

definition in_flight :: "fsys \<Rightarrow> uint32 list" where
  "in_flight s = map job_pieceIndex (jobs s) @ map res_pieceIndex (results s)"

inductive fs_step :: "fsys \<Rightarrow> fsys \<Rightarrow> bool" where
  next_step: "fs_step s (s\<lparr>store := snd (fs_nextMissingBlock (store s) w isPending)\<rparr>)"
| accept_step: "length data < 2 ^ 32 \<Longrightarrow> fs_step s (s\<lparr>store := snd (fs_acceptBlock (store s) q data)\<rparr>)"
| take_step: "takeFinalizeJob (store s) w = (Inr job, fs) \<Longrightarrow>
    fs_step s (s\<lparr>store := fs, jobs := job # jobs s\<rparr>)"
| work_step: "jobs s = js @ job # js' \<Longrightarrow> verifyAndWritePiece (store s) job oc = (r, f) \<Longrightarrow>
    fs_step s (s\<lparr>store := store s\<lparr>fs_file := f\<rparr>, jobs := js @ js', results := r # results s\<rparr>)"
| apply_step: "results s = rs @ r # rs' \<Longrightarrow> applyFinalizeResult (store s) r = (ok, fs) \<Longrightarrow>
    fs_step s (s\<lparr>store := fs, results := rs @ rs'\<rparr>)"

inductive_cases fs_stepE: "fs_step s s'"

text \<open>Piece \<open>w\<close> is owned by a worker, in generation \<open>g\<close>.\<close>

definition owned :: "fileStorage \<Rightarrow> uint32 \<Rightarrow> uint64 \<Rightarrow> bool" where
  "owned fs w g \<longleftrightarrow> unat w < length (fs_pieces fs) \<and> pc_state (fs_pieces fs ! unat w) = pieceFinalizing \<and>
     generation (fs_pieces fs ! unat w) = g"

definition job_ok :: "fileStorage \<Rightarrow> pieceFinalizeJob \<Rightarrow> bool" where
  "job_ok fs job \<longleftrightarrow> owned fs (job_pieceIndex job) (job_generation job) \<and>
     length (job_buffer job) = fs_plen fs (unat (job_pieceIndex job))"

definition result_ok :: "fileStorage \<Rightarrow> pieceFinalizeResult \<Rightarrow> bool" where
  "result_ok fs r \<longleftrightarrow> owned fs (res_pieceIndex r) (res_generation r) \<and>
     (res_err r = None \<and> present fs (unat (res_pieceIndex r)) \<or>
      res_err r = Some FsHashMismatch \<or>
      (\<exists>io d. res_err r = Some (FsIo io) \<and> res_buffer r = Some d \<and>
         length d = fs_plen fs (unat (res_pieceIndex r))))"

definition fsys_ok :: "fsys \<Rightarrow> bool" where
  "fsys_ok s \<longleftrightarrow>
     wf_fs (store s) \<and> verified (ps_of (store s)) (fs_file (store s)) \<and> distinct (in_flight s) \<and>
     (\<forall>job \<in> set (jobs s). job_ok (store s) job) \<and> (\<forall>r \<in> set (results s). result_ok (store s) r) \<and>
     (\<forall>w. unat w < length (fs_pieces (store s)) \<longrightarrow> pc_state (fs_pieces (store s) ! unat w) = pieceFinalizing \<longrightarrow>
        w \<in> set (in_flight s))"

lemma verified_present:
  "verified (ps_of fs) (fs_file fs) \<longleftrightarrow> (\<forall>i < length (fs_pieces fs). pc_complete (fs_pieces fs ! i) \<longrightarrow> present fs i)"
  by (auto simp: verified_def present_def)

lemma present_set_piece [simp]: "present (set_piece fs w p) i = present fs i"
  by (simp add: present_def ps_of_set_piece)

lemma verified_set_piece:
  "verified (ps_of fs) (fs_file fs) \<Longrightarrow> (pc_complete p \<Longrightarrow> present fs (unat w)) \<Longrightarrow>
   verified (ps_of (set_piece fs w p)) (fs_file fs)"
  using verified_present [of "set_piece fs w p"] verified_present [of fs] by (auto simp: set_piece_nth)

lemma owned_set_piece:
  "unat w < length (fs_pieces fs) \<Longrightarrow> owned (set_piece fs w p) v g \<longleftrightarrow>
     (if v = w then pc_state p = pieceFinalizing \<and> generation p = g else owned fs v g)"
  by (auto simp: owned_def set_piece_nth word_unat_eq_iff)

text \<open>Changing a piece that no worker owns, and that is not complete, into another such piece.\<close>

lemma fsys_ok_set_piece:
  assumes "fsys_ok s" and "unat w < length (fs_pieces (store s))"
    and "wf_piece (fs_bsize (store s)) (fs_plen (store s) (unat w)) p"
    and "pc_state (fs_pieces (store s) ! unat w) \<notin> {pieceFinalizing, pieceComplete}"
    and "pc_state p \<notin> {pieceFinalizing, pieceComplete}"
  shows "fsys_ok (s\<lparr>store := set_piece (store s) w p\<rparr>)"
proof -
  let ?fs = "set_piece (store s) w p"
  have ow: "owned ?fs v g = owned (store s) v g" for v g
    using assms(2,4,5) by (auto simp: owned_set_piece) (auto simp: owned_def)
  have "job_ok ?fs = job_ok (store s)" by (simp add: job_ok_def ow fun_eq_iff)
  moreover have "result_ok ?fs = result_ok (store s)" by (simp add: result_ok_def ow fun_eq_iff)
  moreover have "verified (ps_of ?fs) (fs_file ?fs)"
    using assms(1,5) verified_set_piece [of "store s" p w] by (auto simp: fsys_ok_def pc_complete_def)
  moreover have "v \<in> set (in_flight s)"
    if "unat v < length (fs_pieces (store s))" "pc_state (fs_pieces ?fs ! unat v) = pieceFinalizing" for v
    using that assms(1,5) by (auto simp: fsys_ok_def set_piece_nth split: if_splits)
  moreover have "wf_fs ?fs" using assms(1,3) by (simp add: fsys_ok_def wf_fs_set_piece)
  ultimately show ?thesis
    using assms(1) by (simp add: fsys_ok_def in_flight_def)
qed

lemma fsys_ok_prep:
  assumes "fsys_ok s" and "unat w < length (fs_pieces (store s))"
  shows "fsys_ok (s\<lparr>store := set_piece (store s) w
    (prep (fs_bsize (store s)) (fs_plen (store s) (unat w)) (fs_pieces (store s) ! unat w))\<rparr>)"
proof (cases "pc_state (fs_pieces (store s) ! unat w) = pieceMissing")
  case True
  have wf: "wf_fs (store s)" using assms(1) by (simp add: fsys_ok_def)
  then have "0 < fs_bsize (store s)" using wf_fs_geometry [OF wf] by (simp add: fs_geometry_def unat_gt_0)
  then have "wf_piece (fs_bsize (store s)) (fs_plen (store s) (unat w))
      (prep (fs_bsize (store s)) (fs_plen (store s) (unat w)) (fs_pieces (store s) ! unat w))"
    using wf assms(2) by (intro wf_piece_prep wf_fs_piece fs_plen_pos) auto
  then show ?thesis using True assms by (intro fsys_ok_set_piece) (auto simp: prep_def)
qed (use assms in \<open>simp add: prep_def\<close>)

lemma fsys_ok_accept:
  assumes "fsys_ok s" and "length data < 2 ^ 32"
  shows "fsys_ok (s\<lparr>store := snd (fs_acceptBlock (store s) q data)\<rparr>)"
proof (cases "fs_good (store s) q data")
  case False
  then show ?thesis using fs_acceptBlock_bad [OF _ assms(2)] assms(1) by fastforce
next
  case True
  let ?fs = "store s" and ?i = "unat (PieceIndex q)"
  let ?p = "prep (fs_bsize (store s)) (fs_plen (store s) (unat (PieceIndex q))) (fs_pieces (store s) ! unat (PieceIndex q))"
  have wf: "wf_fs ?fs" and geo: "fs_geometry ?fs" using assms(1) by (auto simp: fsys_ok_def)
  note f = fs_good_facts [OF geo True]
  have bl: "0 < fs_bsize ?fs" using geo by (simp add: fs_geometry_def unat_gt_0)
  have wfp: "wf_piece (fs_bsize ?fs) (fs_plen ?fs ?i) ?p"
    using wf f(1) geo bl by (intro wf_piece_prep wf_fs_piece fs_plen_pos)
  have "fsys_ok (s\<lparr>store := set_piece ?fs (PieceIndex q) (fill (fs_bsize ?fs) ?p (fs_block_no ?fs q) data)\<rparr>)"
    if "pc_state ?p = pieceReceiving"
  proof (rule fsys_ok_set_piece [OF assms(1) f(1)])
    show "wf_piece (fs_bsize ?fs) (fs_plen ?fs ?i) (fill (fs_bsize ?fs) ?p (fs_block_no ?fs q) data)"
      using wf_piece_fill [OF wfp that f(2,3) bl] .
  qed (use that in \<open>auto simp: prep_def fill_def Let_def split: if_splits\<close>)
  then show ?thesis
    using fsys_ok_prep [OF assms(1) f(1)] assms(1)
    by (auto simp: fs_acceptBlock_good [OF wf True] Let_def)
qed

lemma fsys_ok_take:
  assumes "fsys_ok s" and "takeFinalizeJob (store s) w = (Inr job, fs)"
  shows "fsys_ok (s\<lparr>store := fs, jobs := job # jobs s\<rparr>)"
proof -
  let ?fs = "store s" and ?p = "fs_pieces (store s) ! unat w"
  have wf: "wf_fs ?fs" and geo: "fs_geometry ?fs" using assms(1) by (auto simp: fsys_ok_def)
  have w: "unat w < length (fs_pieces ?fs)"
    using assms(2) pieceAt_out [OF geo, of w] by (cases "unat w < length (fs_pieces ?fs)") (auto simp: takeFinalizeJob_def)
  then have st: "pc_state ?p = pieceAssembled" using takeFinalizeJob_in(2) [OF geo w] assms(2) by auto
  obtain d where d: "pc_buffer ?p = Some d" "length d = fs_plen ?fs (unat w)" "receivedBlocks ?p = []"
    using wf_fs_piece [OF wf w] st by (auto simp: wf_piece_def)
  let ?q = "?p\<lparr>pc_buffer := None, pc_state := pieceFinalizing\<rparr>"
  have e: "job = \<lparr>job_pieceIndex = w, job_generation = generation ?p, job_buffer = d\<rparr>" "fs = set_piece ?fs w ?q"
    using takeFinalizeJob_in(1) [OF geo w st d(1)] assms(2) by auto
  have fresh: "w \<notin> set (in_flight s)"
    using assms(1) st by (auto simp: fsys_ok_def in_flight_def job_ok_def result_ok_def owned_def)
  have other: "owned fs v g = owned ?fs v g" if "v \<in> set (in_flight s)" for v g
    using that fresh w by (auto simp: e owned_set_piece)
  have "\<forall>j \<in> set (jobs s). job_ok fs j" "\<forall>r \<in> set (results s). result_ok fs r"
    using assms(1) other by (auto simp: fsys_ok_def job_ok_def result_ok_def in_flight_def e(2))
  moreover have "job_ok fs job" using w d by (simp add: job_ok_def e owned_set_piece)
  moreover have "wf_fs fs" using wf d(3) by (simp add: e(2) wf_fs_set_piece wf_piece_def)
  moreover have "verified (ps_of fs) (fs_file fs)"
    using assms(1) verified_set_piece [of ?fs ?q w] by (auto simp: fsys_ok_def e(2) pc_complete_def)
  moreover have "v \<in> set (w # in_flight s)"
    if "unat v < length (fs_pieces ?fs)" "pc_state (fs_pieces fs ! unat v) = pieceFinalizing" for v
    using that assms(1) by (auto simp: fsys_ok_def e(2) set_piece_nth word_unat_eq_iff split: if_splits)
  ultimately show ?thesis
    using assms(1) fresh by (auto simp: fsys_ok_def in_flight_def e)
qed

text \<open>The worker writes no more than its own piece.\<close>

lemma verifyAndWritePiece_ok:
  assumes "fs_geometry fs" and "job_ok fs job" and "verifyAndWritePiece fs job oc = (r, f)"
  shows "result_ok (fs\<lparr>fs_file := f\<rparr>) r"
    and "res_pieceIndex r = job_pieceIndex job" and "res_generation r = job_generation job"
    and "f = fs_file fs \<or> (\<exists>k. f = file_put (fs_file fs) (fs_offset fs (job_pieceIndex job)) (take k (job_buffer job)))"
proof -
  let ?d = "job_buffer job" and ?w = "job_pieceIndex job"
  have w: "unat ?w < length (fs_pieces fs)" and ow: "owned fs ?w (job_generation job)"
    and l: "length ?d = fs_plen fs (unat ?w)"
    using assms(2) by (auto simp: job_ok_def owned_def)
  obtain n err k where wr: "file_WriteAt (fs_file fs) oc ?d (fs_offset fs ?w) =
      ((n, err), file_put (fs_file fs) (fs_offset fs ?w) (take k ?d))"
    and full: "err = None \<Longrightarrow> n = length ?d \<Longrightarrow> take k ?d = ?d"
    using file_WriteAt_cases by blast
  note V = verifyAndWritePiece_eq [OF assms(1) w l wr, unfolded assms(3)]
  show "res_pieceIndex r = ?w" "res_generation r = job_generation job"
    "f = fs_file fs \<or> (\<exists>k. f = file_put (fs_file fs) (fs_offset fs ?w) (take k ?d))"
    using V by (auto split: if_splits option.splits)
  have ow': "owned (fs\<lparr>fs_file := f\<rparr>) v g = owned fs v g" for v g by (simp add: owned_def)
  have "present (fs\<lparr>fs_file := file_put (fs_file fs) (fs_offset fs ?w) ?d\<rparr>) (unat ?w)"
    if "sha1_Sum ?d = PieceHashes (fs_info fs) ! unat ?w"
    using that l piece_bytes_own [of ?d "ps_of fs" "unat ?w" "fs_file fs"] by (simp add: present_def)
  then show "result_ok (fs\<lparr>fs_file := f\<rparr>) r"
    using V full ow l by (auto simp: result_ok_def ow' split: if_splits option.splits)
qed

lemma present_other:
  assumes "fs_geometry fs" and "i < length (fs_pieces fs)" and "i \<noteq> unat w"
    and "length data \<le> fs_plen fs (unat w)" and "present fs i"
  shows "present (fs\<lparr>fs_file := file_put (fs_file fs) (fs_offset fs w) data\<rparr>) i"
  using assms piece_bytes_other [of "ps_of fs" i "unat w" data "fs_file fs"] by (simp add: present_def)

lemma fsys_ok_work:
  assumes "fsys_ok s" and "jobs s = js @ job # js'" and "verifyAndWritePiece (store s) job oc = (r, f)"
  shows "fsys_ok (s\<lparr>store := store s\<lparr>fs_file := f\<rparr>, jobs := js @ js', results := r # results s\<rparr>)"
proof -
  let ?fs = "store s" and ?w = "job_pieceIndex job"
  have geo: "fs_geometry ?fs" and ok: "job_ok ?fs job" using assms(1,2) by (auto simp: fsys_ok_def)
  note W = verifyAndWritePiece_ok [OF geo ok assms(3)]
  have w: "unat ?w < length (fs_pieces ?fs)" "pc_state (fs_pieces ?fs ! unat ?w) = pieceFinalizing"
    using ok by (auto simp: job_ok_def owned_def)
  have keep: "present (?fs\<lparr>fs_file := f\<rparr>) i" if "present ?fs i" "i < length (fs_pieces ?fs)" "i \<noteq> unat ?w" for i
    using W(4) present_other [OF geo that(2,3) _ that(1)] that(1) ok by (auto simp: job_ok_def)
  have d: "distinct (in_flight s)" using assms(1) by (simp add: fsys_ok_def)
  have ow': "owned (?fs\<lparr>fs_file := f\<rparr>) v g = owned ?fs v g" for v g by (simp add: owned_def)
  have jk: "job_ok (?fs\<lparr>fs_file := f\<rparr>) j = job_ok ?fs j" for j by (simp add: job_ok_def ow')
  have "result_ok (?fs\<lparr>fs_file := f\<rparr>) r'" if "r' \<in> set (results s)" for r'
  proof -
    have "res_pieceIndex r' \<noteq> ?w" using d that by (auto simp: in_flight_def assms(2) image_iff)
    then have "unat (res_pieceIndex r') \<noteq> unat ?w" by (simp add: word_unat_eq_iff)
    then show ?thesis
      using assms(1) that keep [of "unat (res_pieceIndex r')"]
      by (auto simp: fsys_ok_def result_ok_def ow' owned_def)
  qed
  moreover have "verified (ps_of (?fs\<lparr>fs_file := f\<rparr>)) (fs_file (?fs\<lparr>fs_file := f\<rparr>))"
    unfolding verified_present
  proof (intro allI impI)
    fix i
    assume i: "i < length (fs_pieces (?fs\<lparr>fs_file := f\<rparr>))" "pc_complete (fs_pieces (?fs\<lparr>fs_file := f\<rparr>) ! i)"
    then have "i \<noteq> unat ?w" using w(2) by (auto simp: pc_complete_def)
    then show "present (?fs\<lparr>fs_file := f\<rparr>) i"
      using keep [of i] i assms(1) unfolding fsys_ok_def verified_present by simp
  qed
  ultimately show ?thesis
    using assms(1) W(1,2) d by (auto simp: fsys_ok_def in_flight_def assms(2) jk)
qed

lemma applyFinalizeResult_ok:
  assumes "fs_geometry fs" and "result_ok fs r"
  shows "applyFinalizeResult fs r = (True, set_piece fs (res_pieceIndex r)
     (let p = fs_pieces fs ! unat (res_pieceIndex r) in
      if res_err r = None then p\<lparr>pc_state := pieceComplete\<rparr>
      else if res_err r = Some FsHashMismatch then p\<lparr>pc_state := pieceMissing, pc_buffer := None, receivedBlocks := []\<rparr>
      else p\<lparr>pc_state := pieceAssembled, pc_buffer := res_buffer r\<rparr>))"
  using assms(2) by (intro applyFinalizeResult_fresh assms(1)) (auto simp: result_ok_def owned_def)

lemma fsys_ok_apply:
  assumes "fsys_ok s" and "results s = rs @ r # rs'" and "applyFinalizeResult (store s) r = (ok, fs)"
  shows "fsys_ok (s\<lparr>store := fs, results := rs @ rs'\<rparr>)"
proof -
  let ?fs = "store s" and ?w = "res_pieceIndex r"
  let ?p = "fs_pieces ?fs ! unat ?w"
  have wf: "wf_fs ?fs" and geo: "fs_geometry ?fs" and rok: "result_ok ?fs r"
    using assms(1,2) by (auto simp: fsys_ok_def)
  have w: "unat ?w < length (fs_pieces ?fs)" "pc_state ?p = pieceFinalizing"
    using rok by (auto simp: result_ok_def owned_def)
  define q where "q = (if res_err r = None then ?p\<lparr>pc_state := pieceComplete\<rparr>
    else if res_err r = Some FsHashMismatch then ?p\<lparr>pc_state := pieceMissing, pc_buffer := None, receivedBlocks := []\<rparr>
    else ?p\<lparr>pc_state := pieceAssembled, pc_buffer := res_buffer r\<rparr>)"
  have fs: "fs = set_piece ?fs ?w q"
    using applyFinalizeResult_ok [OF geo rok] assms(3) by (simp add: q_def Let_def)
  have "pc_buffer ?p = None \<and> receivedBlocks ?p = []"
    using wf_fs_piece [OF wf w(1)] w(2) by (simp add: wf_piece_def)
  then have wfq: "wf_piece (fs_bsize ?fs) (fs_plen ?fs (unat ?w)) q"
    using rok by (auto simp: q_def wf_piece_def result_ok_def)
  have nq: "pc_state q \<noteq> pieceFinalizing" by (simp add: q_def)
  have d: "distinct (in_flight s)" using assms(1) by (simp add: fsys_ok_def)
  have other: "owned fs v g = owned ?fs v g" if "v \<noteq> ?w" for v g
    using that w by (simp add: fs owned_set_piece)
  have j: "job_ok fs jb = job_ok ?fs jb" if "job_pieceIndex jb \<noteq> ?w" for jb
    by (simp add: job_ok_def fs other [OF that, unfolded fs])
  have k: "result_ok fs r' = result_ok ?fs r'" if "res_pieceIndex r' \<noteq> ?w" for r'
    by (simp add: result_ok_def fs other [OF that, unfolded fs])
  have "job_pieceIndex jb \<noteq> ?w" if "jb \<in> set (jobs s)" for jb
    using d that by (auto simp: in_flight_def assms(2) image_iff)
  then have "\<forall>jb \<in> set (jobs s). job_ok fs jb" using assms(1) j by (auto simp: fsys_ok_def)
  moreover have "res_pieceIndex r' \<noteq> ?w" if "r' \<in> set (rs @ rs')" for r'
    using d that by (auto simp: in_flight_def assms(2) image_iff)
  then have "\<forall>r' \<in> set (rs @ rs'). result_ok fs r'" using assms(1,2) k by (auto simp: fsys_ok_def)
  moreover have "verified (ps_of fs) (fs_file fs)"
    using assms(1) rok verified_set_piece [of ?fs q ?w]
    by (auto simp: fs fsys_ok_def q_def pc_complete_def result_ok_def split: if_splits)
  moreover have "wf_fs fs" using wf wfq by (simp add: fs wf_fs_set_piece)
  moreover have "v \<in> set (in_flight s) \<and> v \<noteq> ?w"
    if "unat v < length (fs_pieces ?fs)" "pc_state (fs_pieces fs ! unat v) = pieceFinalizing" for v
    using that assms(1) nq by (auto simp: fsys_ok_def fs set_piece_nth split: if_splits)
  ultimately show ?thesis
    using assms(1) d by (auto simp: fsys_ok_def in_flight_def assms(2) fs)
qed

lemma fsys_ok_step:
  assumes "fsys_ok s" and "fs_step s s'"
  shows "fsys_ok s'"
  using assms(2)
proof (cases rule: fs_step.cases)
  case (next_step w isPending)
  have "fs_geometry (store s)" using assms(1) by (simp add: fsys_ok_def)
  then show ?thesis
    using assms(1) fsys_ok_prep [OF assms(1), of w] next_step by (simp add: fs_nextMissingBlock_snd)
next
  case (accept_step data q)
  then show ?thesis using fsys_ok_accept [OF assms(1)] by simp
next
  case (take_step w job fs)
  then show ?thesis using fsys_ok_take [OF assms(1)] by simp
next
  case (work_step js job js' oc r f)
  then show ?thesis using fsys_ok_work [OF assms(1)] by simp
next
  case (apply_step rs r rs' ok fs)
  then show ?thesis using fsys_ok_apply [OF assms(1)] by simp
qed

interpretation worker: invariant_system fs_step fsys_ok
  by unfold_locales (rule fsys_ok_step)

text \<open>No step loses a complete piece.\<close>

definition done_set :: "fileStorage \<Rightarrow> nat set" where
  "done_set fs = {i. i < length (fs_pieces fs) \<and> pc_complete (fs_pieces fs ! i)}"

lemma done_set_set_piece:
  "unat w < length (fs_pieces fs) \<Longrightarrow> \<not> pc_complete (fs_pieces fs ! unat w) \<or> pc_complete p \<Longrightarrow>
   done_set fs \<subseteq> done_set (set_piece fs w p)"
  by (auto simp: done_set_def set_piece_nth)

lemma done_set_accept:
  assumes "wf_fs fs" and "length data < 2 ^ 32"
  shows "done_set fs \<subseteq> done_set (snd (fs_acceptBlock fs q data))"
proof (cases "fs_good fs q data")
  case False
  then show ?thesis using fs_acceptBlock_bad [OF _ assms(2)] by fastforce
next
  case True
  note f = fs_good_facts [OF wf_fs_geometry [OF assms(1)] True]
  show ?thesis
    using done_set_set_piece [OF f(1)]
    by (auto simp: fs_acceptBlock_good [OF assms(1) True] Let_def prep_def pc_complete_def split: if_splits)
qed

lemma done_set_step:
  assumes "fsys_ok s" and "fs_step s s'"
  shows "done_set (store s) \<subseteq> done_set (store s')"
  using assms(2)
proof (cases rule: fs_step.cases)
  case (next_step w isPending)
  have "fs_geometry (store s)" using assms(1) by (simp add: fsys_ok_def)
  then show ?thesis
    using next_step done_set_set_piece [of w "store s"]
    by (auto simp: fs_nextMissingBlock_snd prep_def pc_complete_def split: if_splits)
next
  case (accept_step data q)
  then show ?thesis using done_set_accept [of "store s" data q] assms(1) by (simp add: fsys_ok_def)
next
  case (take_step w job fs)
  have geo: "fs_geometry (store s)" using assms(1) by (simp add: fsys_ok_def)
  show ?thesis
    using take_step done_set_set_piece [of w "store s"]
    by (auto simp: takeFinalizeJob_def takeForFinalization_def pieceAt_Some [OF geo] pc_complete_def
        split: option.splits if_splits prod.splits sum.splits)
next
  case (work_step js job js' oc r f)
  then show ?thesis by (simp add: done_set_def)
next
  case (apply_step rs r rs' ok fs)
  have rok: "result_ok (store s) r" and geo: "fs_geometry (store s)"
    using assms(1) apply_step by (auto simp: fsys_ok_def)
  then show ?thesis
    using apply_step done_set_set_piece [of "res_pieceIndex r" "store s"] applyFinalizeResult_ok [OF geo rok]
    by (auto simp: result_ok_def owned_def pc_complete_def)
qed

lemma count_list_distinct: "distinct xs \<Longrightarrow> count_list xs x = (if x \<in> set xs then 1 else 0)"
  by (induction xs) auto

text \<open>C25. The store beside its worker.  From a well-formed store whose complete pieces are on disk and
  that no worker has touched, whatever the order in which blocks arrive, jobs are taken, verified and
  written (completely, partly or with an error) and results applied: a complete piece always lies in
  the file with its digest, no complete piece is lost, a result is never stale (\<^verbatim>\<open>applyFinalizeResult\<close>
  accepts each one), the worker meets only digest mismatches and file errors, and a piece being
  finalized has exactly one job or result in flight, so its bytes are never lost.\<close>

theorem worker_safe:
  assumes "wf_fs fs" and "verified (ps_of fs) (fs_file fs)"
    and "\<forall>p \<in> set (fs_pieces fs). pc_state p \<noteq> pieceFinalizing"
    and "reaches fs_step \<lparr>store = fs, jobs = [], results = []\<rparr> s"
  shows "verified (ps_of (store s)) (fs_file (store s)) \<and>
    done_set fs \<subseteq> done_set (store s) \<and>
    (\<forall>r \<in> set (results s). fst (applyFinalizeResult (store s) r)) \<and>
    (\<forall>job \<in> set (jobs s). \<forall>oc. case res_err (fst (verifyAndWritePiece (store s) job oc)) of
       None \<Rightarrow> True | Some er \<Rightarrow> er = FsHashMismatch \<or> (\<exists>io. er = FsIo io)) \<and>
    (\<forall>w. unat w < fs_count (store s) \<and> pc_state (fs_pieces (store s) ! unat w) = pieceFinalizing \<longrightarrow>
       count_list (in_flight s) w = 1)"
proof (intro conjI ballI allI impI)
  have init: "fsys_ok \<lparr>store = fs, jobs = [], results = []\<rparr>"
    using assms(1-3) by (auto simp: fsys_ok_def in_flight_def)
  have ok: "fsys_ok s" using worker.inv_reaches [OF assms(4) init] .
  then have geo: "fs_geometry (store s)" by (simp add: fsys_ok_def)
  show "verified (ps_of (store s)) (fs_file (store s))" using ok by (simp add: fsys_ok_def)
  show "done_set fs \<subseteq> done_set (store s)"
    using worker.mono_reaches [OF assms(4) init, of "\<lambda>s. done_set (store s)"] done_set_step by simp
  show "fst (applyFinalizeResult (store s) r)" if "r \<in> set (results s)" for r
    using that ok applyFinalizeResult_ok [OF geo, of r] by (simp add: fsys_ok_def)
  show "case res_err (fst (verifyAndWritePiece (store s) job oc)) of
      None \<Rightarrow> True | Some er \<Rightarrow> er = FsHashMismatch \<or> (\<exists>io. er = FsIo io)" if "job \<in> set (jobs s)" for job oc
  proof -
    obtain r f where v: "verifyAndWritePiece (store s) job oc = (r, f)" by fastforce
    have "job_ok (store s) job" using that ok by (simp add: fsys_ok_def)
    then show ?thesis using verifyAndWritePiece_ok(1) [OF geo _ v] v by (auto simp: result_ok_def)
  qed
  show "count_list (in_flight s) w = 1"
    if "unat w < fs_count (store s) \<and> pc_state (fs_pieces (store s) ! unat w) = pieceFinalizing" for w
    using that ok count_list_distinct [of "in_flight s" w] by (simp add: fsys_ok_def fs_count_def)
qed

lemma demo_accept:
  "PieceIndex demo_req = 0" "fs_block_no demo_fs demo_req = 0"
  "prep 16384 (fs_plen demo_fs 0) (fs_pieces demo_fs ! 0) =
     \<lparr>pc_state = pieceReceiving, generation = 1, pc_buffer = Some [0, 0], receivedBlocks = [False]\<rparr>"
  "fill 16384 \<lparr>pc_state = pieceReceiving, generation = 1, pc_buffer = Some [0, 0], receivedBlocks = [False]\<rparr> 0 [1, 2] =
     \<lparr>pc_state = pieceAssembled, generation = 1, pc_buffer = Some [1, 2], receivedBlocks = []\<rparr>"
proof -
  have "pcount 2 16384 = 1" by (simp add: pcount_def)
  moreover have "fs_pieces demo_fs ! 0 = newPiece" by (simp add: demo_fs_def)
  ultimately show "prep 16384 (fs_plen demo_fs 0) (fs_pieces demo_fs ! 0) =
     \<lparr>pc_state = pieceReceiving, generation = 1, pc_buffer = Some [0, 0], receivedBlocks = [False]\<rparr>"
    by (simp add: ps_of_demo_fs demo_plen prep_def newPiece_def numeral_2_eq_2)
qed (simp_all add: demo_req_def fs_block_no_def fill_def Let_def pc_allBlocksReceived_def overwrite_def)

text \<open>The first piece arrives, is taken and verified by the worker; its result is then accepted.\<close>

theorem worker_safe_witness:
  "\<exists>s. reaches fs_step \<lparr>store = demo_fs, jobs = [], results = []\<rparr> s \<and> results s \<noteq> [] \<and>
     (\<forall>r \<in> set (results s). fst (applyFinalizeResult (store s) r))"
proof -
  note S = standardD [OF standard_demo_fs]
  have v: "verified (ps_of demo_fs) (fs_file demo_fs)"
    unfolding verified_present by (simp add: demo_fs_def newPiece_def pc_complete_def less_Suc_eq)
  have nf: "\<forall>p \<in> set (fs_pieces demo_fs). pc_state p \<noteq> pieceFinalizing"
    by (simp add: demo_fs_def newPiece_def)
  define fs1 where "fs1 = snd (fs_acceptBlock demo_fs demo_req [1, 2])"
  have good: "fs_good demo_fs demo_req [1, 2]"
    using demo_good [of 1 2] by (simp add: fs_good_eq [OF S(4)] ps_of_demo_fs)
  have fs1: "fs1 = set_piece demo_fs 0
      \<lparr>pc_state = pieceAssembled, generation = 1, pc_buffer = Some [1, 2], receivedBlocks = []\<rparr>"
    unfolding fs1_def fs_acceptBlock_good [OF S(1) good] S(5) by (simp add: demo_accept Let_def)
  have two: "length (fs_pieces demo_fs) = 2" by (simp add: demo_fs_def)
  have st: "pc_state (fs_pieces fs1 ! unat 0) = pieceAssembled" and bf: "pc_buffer (fs_pieces fs1 ! unat 0) = Some [1, 2]"
    and geo: "fs_geometry fs1" and w: "unat (0 :: uint32) < length (fs_pieces fs1)"
    using S(2) two by (simp_all add: fs1 set_piece_nth)
  obtain job fs2 where t: "takeFinalizeJob fs1 0 = (Inr job, fs2)"
    using takeFinalizeJob_in(1) [OF geo w st bf] by blast
  obtain r f where k: "verifyAndWritePiece fs2 job IoOk = (r, f)" by fastforce
  let ?init = "\<lparr>store = demo_fs, jobs = [], results = []\<rparr>"
  let ?s = "\<lparr>store = fs2\<lparr>fs_file := f\<rparr>, jobs = [], results = [r]\<rparr>"
  have "fs_step ?init \<lparr>store = fs1, jobs = [], results = []\<rparr>"
    using accept_step [of "[1, 2]" ?init demo_req] by (simp add: fs1_def)
  moreover have "fs_step \<lparr>store = fs1, jobs = [], results = []\<rparr> \<lparr>store = fs2, jobs = [job], results = []\<rparr>"
    using take_step [of "\<lparr>store = fs1, jobs = [], results = []\<rparr>" 0 job fs2] t by simp
  moreover have "fs_step \<lparr>store = fs2, jobs = [job], results = []\<rparr> ?s"
    using work_step [of "\<lparr>store = fs2, jobs = [job], results = []\<rparr>" "[]" job "[]" IoOk r f] k by simp
  ultimately have "reaches fs_step ?init ?s" by (blast intro: reaches_refl reaches_step)
  then show ?thesis using worker_safe [OF S(1) v nf, of ?s] by (intro exI [of _ ?s]) simp
qed

end
