(* ===== verification/Url_Query.thy ===== *)
theory Url_Query
  imports Go_Std "HOL-Library.Multiset"
begin

text \<open>
  More of Go's standard library: hexadecimal digits (\<^verbatim>\<open>encoding/hex\<close>, \<^verbatim>\<open>fmt\<close>'s \<^verbatim>\<open>%x\<close>) and query strings
  (\<^verbatim>\<open>net/url\<close>).  \<^verbatim>\<open>url.Values\<close> is a Go map from a key to its list of values.
\<close>

subsection \<open>Hexadecimal digits\<close>

definition hex_upper :: "nat \<Rightarrow> byte" where
  "hex_upper n = (if n < 10 then 48 + of_nat n else 55 + of_nat n)"

definition hex_lower :: "nat \<Rightarrow> byte" where
  "hex_lower n = (if n < 10 then 48 + of_nat n else 87 + of_nat n)"

definition unhex :: "byte \<Rightarrow> nat option" where
  "unhex c =
     (if 48 \<le> c \<and> c \<le> 57 then Some (unat c - 48)
      else if 97 \<le> c \<and> c \<le> 102 then Some (unat c - 87)
      else if 65 \<le> c \<and> c \<le> 70 then Some (unat c - 55)
      else None)"

lemma less_16_cases:
  "n < 16 \<Longrightarrow> n \<in> {0, 1, 2, 3, 4, 5, 6, 7, 8, 9, 10, 11, 12, 13, 14, 15 :: nat}"
  unfolding insert_iff empty_iff by presburger

lemma unhex_hex_upper [simp]: "n < 16 \<Longrightarrow> unhex (hex_upper n) = Some n"
  by (drule less_16_cases, elim insertE emptyE) (simp_all add: hex_upper_def unhex_def)

lemma unhex_hex_lower [simp]: "n < 16 \<Longrightarrow> unhex (hex_lower n) = Some n"
  by (drule less_16_cases, elim insertE emptyE) (simp_all add: hex_lower_def unhex_def)

lemma hex_upper_no_separator: "n < 16 \<Longrightarrow> hex_upper n \<notin> {38, 59, 61}"
  by (drule less_16_cases, elim insertE emptyE) (simp_all add: hex_upper_def)

lemma byte_nibbles: "unat (b :: byte) div 16 < 16" "unat b mod 16 < 16" "of_nat (unat b div 16 * 16 + unat b mod 16) = b"
  using unat_byte_bound [of b] by (simp_all add: div_mult_mod_eq del: of_nat_add of_nat_mult)

text \<open>\<^verbatim>\<open>hex.DecodeString\<close> and \<^verbatim>\<open>fmt.Sprintf("%x")\<close> of a byte array.\<close>

fun hex_decode :: "gostring \<Rightarrow> byte list option" where
  "hex_decode [] = Some []"
| "hex_decode [_] = None"
| "hex_decode (a # b # r) =
     (case (unhex a, unhex b, hex_decode r) of
        (Some x, Some y, Some bs) \<Rightarrow> Some (of_nat (16 * x + y) # bs)
      | _ \<Rightarrow> None)"

definition hex_encode :: "byte list \<Rightarrow> gostring" where
  "hex_encode bs = concat (map (\<lambda>b. [hex_lower (unat b div 16), hex_lower (unat b mod 16)]) bs)"

lemma hex_decode_encode [simp]: "hex_decode (hex_encode bs) = Some bs"
proof (induction bs)
  case (Cons b bs)
  have "hex_decode (hex_encode (b # bs)) = Some (of_nat (16 * (unat b div 16) + unat b mod 16) # bs)"
    using Cons byte_nibbles [of b] by (simp add: hex_encode_def del: of_nat_add of_nat_mult)
  then show ?case using byte_nibbles(3) [of b] by (simp add: mult.commute)
qed (simp add: hex_encode_def)

lemma hex_encode_inj: "hex_encode a = hex_encode b \<longleftrightarrow> a = b"
  by (metis hex_decode_encode option.inject)

lemma length_hex_encode [simp]: "length (hex_encode bs) = 2 * length bs"
  by (induction bs) (simp_all add: hex_encode_def)

lemma hex_decode_length: "hex_decode s = Some bs \<Longrightarrow> length s = 2 * length bs"
  by (induction s arbitrary: bs rule: hex_decode.induct) (auto split: option.splits)

subsection \<open>Escaping\<close>

definition unreserved :: "byte \<Rightarrow> bool" where
  "unreserved c \<longleftrightarrow>
     97 \<le> c \<and> c \<le> 122 \<or> 65 \<le> c \<and> c \<le> 90 \<or> 48 \<le> c \<and> c \<le> 57 \<or> c = 45 \<or> c = 95 \<or> c = 46 \<or> c = 126"

definition escape_byte :: "byte \<Rightarrow> gostring" where
  "escape_byte c =
     (if unreserved c then [c]
      else if c = 32 then [43]
      else [37, hex_upper (unat c div 16), hex_upper (unat c mod 16)])"

definition QueryEscape :: "gostring \<Rightarrow> gostring" where
  "QueryEscape s = concat (map escape_byte s)"

fun QueryUnescape :: "gostring \<Rightarrow> gostring option" where
  "QueryUnescape [] = Some []"
| "QueryUnescape (c # r) =
     (if c = 37 then
        (case r of
           a # b # r' \<Rightarrow>
             (case (unhex a, unhex b) of
                (Some x, Some y) \<Rightarrow> map_option ((#) (of_nat (16 * x + y))) (QueryUnescape r')
              | _ \<Rightarrow> None)
         | _ \<Rightarrow> None)
      else if c = 43 then map_option ((#) 32) (QueryUnescape r)
      else map_option ((#) c) (QueryUnescape r))"

lemma QueryUnescape_byte: "QueryUnescape (escape_byte c @ r) = map_option ((#) c) (QueryUnescape r)"
proof -
  have "of_nat (16 * (unat c div 16) + unat c mod 16) = c"
    using byte_nibbles(3) [of c] by (simp add: mult.commute)
  moreover have "unreserved c \<Longrightarrow> c \<noteq> 37 \<and> c \<noteq> 43" by (auto simp: unreserved_def)
  ultimately show ?thesis
    using byte_nibbles(1,2) [of c] by (simp add: escape_byte_def del: of_nat_add of_nat_mult)
qed

lemma QueryUnescape_QueryEscape [simp]: "QueryUnescape (QueryEscape s) = Some s"
  by (induction s) (simp_all add: QueryEscape_def QueryUnescape_byte)

text \<open>An escaped string has none of the separators \<open>&\<close>, \<open>;\<close> and \<open>=\<close>.\<close>

lemma QueryEscape_no_separator:
  assumes "d \<in> {38, 59, 61}"
  shows "d \<notin> set (QueryEscape s)"
proof -
  have "\<not> unreserved 38" "\<not> unreserved 59" "\<not> unreserved 61" by (simp_all add: unreserved_def)
  moreover have "hex_upper (unat c div 16) \<noteq> d" "hex_upper (unat c mod 16) \<noteq> d" for c :: byte
    using assms hex_upper_no_separator byte_nibbles [of c] by metis+
  ultimately have "d \<notin> set (escape_byte c)" for c
    using assms by (auto simp: escape_byte_def)
  then show ?thesis by (auto simp: QueryEscape_def)
qed

subsection \<open>Query values\<close>

type_synonym Values = "(gostring \<times> gostring list) list"

definition v_Get :: "Values \<Rightarrow> gostring \<Rightarrow> gostring" where
  "v_Get v key = (case m_get v key of Some (x # _) \<Rightarrow> x | _ \<Rightarrow> [])"

definition v_Has :: "Values \<Rightarrow> gostring \<Rightarrow> bool" where
  "v_Has v key \<longleftrightarrow> m_get v key \<noteq> None"

definition v_Set :: "Values \<Rightarrow> gostring \<Rightarrow> gostring \<Rightarrow> Values" where
  "v_Set v key x = m_put key [x] v"

definition v_Del :: "Values \<Rightarrow> gostring \<Rightarrow> Values" where
  "v_Del v key = m_del key v"

fun join :: "byte \<Rightarrow> gostring list \<Rightarrow> gostring" where
  "join d [] = []"
| "join d [s] = s"
| "join d (s # t # ss) = s @ d # join d (t # ss)"

definition v_pairs :: "Values \<Rightarrow> (gostring \<times> gostring) list" where
  "v_pairs v = concat (map (\<lambda>k. map (Pair k) (the (m_get v k))) (sort (keys v)))"

definition v_Encode :: "Values \<Rightarrow> gostring" where
  "v_Encode v = join 38 (map (\<lambda>(k, x). QueryEscape k @ 61 # QueryEscape x) (v_pairs v))"

text \<open>\<^verbatim>\<open>strings.Cut\<close>, and the pieces between separators.\<close>

definition str_Cut :: "byte \<Rightarrow> gostring \<Rightarrow> gostring \<times> gostring" where
  "str_Cut d s = (takeWhile (\<lambda>b. b \<noteq> d) s, drop (Suc (length (takeWhile (\<lambda>b. b \<noteq> d) s))) s)"

function split_on :: "byte \<Rightarrow> gostring \<Rightarrow> gostring list" where
  "split_on d s = (if s = [] then [] else fst (str_Cut d s) # split_on d (snd (str_Cut d s)))"
  by pat_completeness auto
termination
  by (relation "measure (\<lambda>(d, s). length s)") (auto simp: str_Cut_def)

declare split_on.simps [simp del]

definition maxQueryParams :: nat where
  "maxQueryParams = 10000"

definition add_value :: "gostring \<Rightarrow> gostring \<Rightarrow> Values \<Rightarrow> Values" where
  "add_value k x m = m_put k ((case m_get m k of None \<Rightarrow> [] | Some xs \<Rightarrow> xs) @ [x]) m"

definition query_pair :: "gostring \<Rightarrow> (gostring \<times> gostring) option" where
  "query_pair part =
     (if part = [] \<or> 59 \<in> set part then None
      else case str_Cut 61 part of (k, x) \<Rightarrow>
        (case (QueryUnescape k, QueryUnescape x) of
           (Some k', Some x') \<Rightarrow> Some (k', x')
         | _ \<Rightarrow> None))"

text \<open>\<^verbatim>\<open>URL.Query\<close>: parses the raw query and drops malformed parts; a query with more than 10000
  parts has no values.\<close>

definition url_Query :: "gostring \<Rightarrow> Values" where
  "url_Query raw =
     (if length (filter (\<lambda>b. b = 38) raw) + 1 > maxQueryParams then []
      else fold (\<lambda>(k, x). add_value k x) (List.map_filter query_pair (split_on 38 raw)) [])"

subsection \<open>Parsing what was encoded\<close>

lemma takeWhile_no_delim: "d \<notin> set s \<Longrightarrow> takeWhile (\<lambda>b. b \<noteq> d) s = s"
  by (induction s) auto

lemma str_Cut_append [simp]: "d \<notin> set s \<Longrightarrow> str_Cut d (s @ d # t) = (s, t)"
proof -
  assume "d \<notin> set s"
  then have "takeWhile (\<lambda>b. b \<noteq> d) (s @ d # t) = s" by (intro takeWhile_append_delim) (auto simp: list_all_iff)
  then show ?thesis by (simp add: str_Cut_def)
qed

lemma str_Cut_all: "d \<notin> set s \<Longrightarrow> str_Cut d s = (s, [])"
  by (simp add: str_Cut_def takeWhile_no_delim)

lemma split_on_join:
  "\<forall>s \<in> set ss. d \<notin> set s \<and> s \<noteq> [] \<Longrightarrow> split_on d (join d ss) = ss"
proof (induction d ss rule: join.induct)
  case (1 d)
  then show ?case by (simp add: split_on.simps)
next
  case (2 d s)
  then show ?case by (simp add: split_on.simps [of d s] split_on.simps [of d "[]"] str_Cut_all)
next
  case (3 d s t ss)
  then show ?case by (simp add: split_on.simps [of d "s @ d # join d (t # ss)"])
qed

lemma count_join:
  "\<forall>s \<in> set ss. d \<notin> set s \<Longrightarrow> length (filter (\<lambda>b. b = d) (join d ss)) = length ss - 1"
proof (induction d ss rule: join.induct)
  case (3 d s t ss)
  then show ?case by (auto simp: filter_empty_conv)
qed (auto simp: filter_empty_conv)

lemma query_pair_escaped: "query_pair (QueryEscape k @ 61 # QueryEscape x) = Some (k, x)"
  using QueryEscape_no_separator [of 59 k] QueryEscape_no_separator [of 59 x] QueryEscape_no_separator [of 61 k]
  by (simp add: query_pair_def)

lemma url_Query_Encode:
  assumes "length (v_pairs v) \<le> maxQueryParams"
  shows "url_Query (v_Encode v) = fold (\<lambda>(k, x). add_value k x) (v_pairs v) []"
proof -
  let ?e = "\<lambda>(k, x). QueryEscape k @ 61 # QueryEscape x"
  have no: "\<forall>s \<in> set (map ?e (v_pairs v)). 38 \<notin> set s \<and> s \<noteq> []"
    using QueryEscape_no_separator [of 38] by auto
  have "List.map_filter query_pair (map ?e ps) = ps" for ps
    by (induction ps) (auto simp: List.map_filter_simps query_pair_escaped split: prod.splits)
  moreover have "length (filter (\<lambda>b. b = 38) (v_Encode v)) + 1 \<le> maxQueryParams"
    using assms no count_join [of "map ?e (v_pairs v)" 38] by (simp add: v_Encode_def maxQueryParams_def)
  moreover have "split_on 38 (v_Encode v) = map ?e (v_pairs v)"
    unfolding v_Encode_def using no by (rule split_on_join)
  ultimately show ?thesis by (simp add: url_Query_def)
qed

lemma m_get_fold_add:
  "m_get (fold (\<lambda>(k, x). add_value k x) ps m) key =
     (let xs = map snd (filter (\<lambda>p. fst p = key) ps) in
      case m_get m key of
        None \<Rightarrow> (if xs = [] then None else Some xs)
      | Some ys \<Rightarrow> Some (ys @ xs))"
proof (induction ps arbitrary: m)
  case Nil
  then show ?case by (simp split: option.split)
next
  case (Cons p ps)
  obtain k x where p: "p = (k, x)" by (cases p)
  show ?case
    unfolding p fold_Cons comp_def prod.case Cons.IH
    by (auto simp: add_value_def Let_def split: option.splits)
qed

lemma filter_v_pairs:
  assumes "distinct (keys v)"
  shows "map snd (filter (\<lambda>p. fst p = key) (v_pairs v)) = (case m_get v key of None \<Rightarrow> [] | Some xs \<Rightarrow> xs)"
proof -
  have f: "filter (\<lambda>p. fst p = key) (map (Pair k) xs) = (if k = key then map (Pair k) xs else [])" for k and xs :: "gostring list"
    by (induction xs) auto
  have "map snd (filter (\<lambda>p. fst p = key) (concat (map (\<lambda>k. map (Pair k) (the (m_get v k))) ks))) =
      (if key \<in> set ks then the (m_get v key) else [])" if "distinct ks" for ks
    using that by (induction ks) (auto simp: f comp_def)
  from this [of "sort (keys v)"] show ?thesis
    using assms by (auto simp: v_pairs_def map_of_eq_None_iff split: option.splits) (metis fst_conv image_eqI map_of_SomeD)
qed

text \<open>The values of a query survive encoding and parsing.\<close>

lemma m_get_url_Query_Encode:
  assumes "length (v_pairs v) \<le> maxQueryParams" and "distinct (keys v)"
  shows "m_get (url_Query (v_Encode v)) key =
    (case m_get v key of None \<Rightarrow> None | Some xs \<Rightarrow> if xs = [] then None else Some xs)"
  unfolding url_Query_Encode [OF assms(1)] m_get_fold_add filter_v_pairs [OF assms(2)]
  by (simp add: Let_def split: option.split)

lemma v_Get_Encode:
  assumes "length (v_pairs v) \<le> maxQueryParams" and "distinct (keys v)"
  shows "v_Get (url_Query (v_Encode v)) key = v_Get v key"
  using m_get_url_Query_Encode [OF assms, of key] by (auto simp: v_Get_def split: option.splits list.splits)

lemma distinct_url_Query: "distinct (keys (url_Query raw))"
proof -
  have "distinct (keys (fold (\<lambda>(k, x). add_value k x) ps m))" if "distinct (keys m)" for ps and m :: Values
    using that by (induction ps arbitrary: m) (auto simp: add_value_def)
  then show ?thesis by (simp add: url_Query_def)
qed

lemma length_v_pairs:
  assumes "distinct (keys v)"
  shows "length (v_pairs v) = (\<Sum>(k, xs) \<leftarrow> v. length xs)"
proof -
  have "length (v_pairs v) = sum_list (map (\<lambda>k. length (the (m_get v k))) (sort (keys v)))"
    by (simp add: v_pairs_def length_concat comp_def)
  also have "\<dots> = sum_list (map (\<lambda>k. length (the (m_get v k))) (keys v))"
    by (simp only: sum_mset_sum_list [symmetric] mset_map mset_sort)
  also have "\<dots> = (\<Sum>(k, xs) \<leftarrow> v. length xs)"
    using assms by (auto simp: comp_def intro!: arg_cong [where f = sum_list])
  finally show ?thesis .
qed

lemma sum_values_update: "(\<Sum>(k, xs) \<leftarrow> AList.update key [x] v. length xs) \<le> Suc (\<Sum>(k, xs) \<leftarrow> v. length xs)"
  by (induction v) auto

lemma sum_values_delete: "(\<Sum>(k, xs) \<leftarrow> AList.delete key v. length xs) \<le> (\<Sum>(k, xs) \<leftarrow> v. length xs)"
  by (induction v) auto

end
