(* ===== verification/Go_Command.thy ===== *)
theory Go_Command
  imports Url_Query
begin

text \<open>
  What the commands use of the standard library beyond the codecs: \<^verbatim>\<open>strings.TrimSpace\<close>, \<^verbatim>\<open>filepath.Ext\<close>, the
  \<^verbatim>\<open>flag\<close> package and \<^verbatim>\<open>io.ReadFull\<close> with the bytes of a short read.
\<close>

subsection \<open>Strings and paths\<close>

text \<open>The code points of \<^verbatim>\<open>unicode.IsSpace\<close> in UTF-8.\<close>

definition spaces :: "gostring list" where
  "spaces = [[9], [10], [11], [12], [13], [32], [194, 133], [194, 160], [225, 154, 128],
     [226, 128, 128], [226, 128, 129], [226, 128, 130], [226, 128, 131], [226, 128, 132], [226, 128, 133],
     [226, 128, 134], [226, 128, 135], [226, 128, 136], [226, 128, 137], [226, 128, 138], [226, 128, 168],
     [226, 128, 169], [226, 128, 175], [226, 129, 159], [227, 128, 128]]"

function trim_left :: "gostring list \<Rightarrow> gostring \<Rightarrow> gostring" where
  "trim_left ps s =
     (case find (\<lambda>p. p \<noteq> [] \<and> take (length p) s = p) ps of
        None \<Rightarrow> s
      | Some p \<Rightarrow> trim_left ps (drop (length p) s))"
  by pat_completeness auto
termination
proof (relation "measure (\<lambda>(ps, s). length s)")
  fix ps s p
  assume "find (\<lambda>p. p \<noteq> [] \<and> take (length p) s = p) ps = Some p"
  then have "p \<noteq> []" "s \<noteq> []" by (auto simp: find_Some_iff)
  then show "((ps, drop (length p) s), (ps, s)) \<in> measure (\<lambda>(ps, s). length s)" by simp
qed simp

declare trim_left.simps [simp del]

definition TrimSpace :: "gostring \<Rightarrow> gostring" where
  "TrimSpace s = rev (trim_left (map rev spaces) (rev (trim_left spaces s)))"

text \<open>\<^verbatim>\<open>strings.Split\<close> at a one-byte separator: one part more than there are separators.\<close>

function strings_Split :: "byte \<Rightarrow> gostring \<Rightarrow> gostring list" where
  "strings_Split d s =
     (if d \<in> set s then fst (str_Cut d s) # strings_Split d (snd (str_Cut d s)) else [s])"
  by pat_completeness auto
termination
  by (relation "measure (\<lambda>(d, s). length s)") (auto simp: str_Cut_def dest: length_pos_if_in_set)

declare strings_Split.simps [simp del]

text \<open>\<^verbatim>\<open>filepath.Ext\<close>: from the last dot of the last path element.\<close>

definition filepath_Ext :: "gostring \<Rightarrow> gostring" where
  "filepath_Ext path =
     (let element = rev (takeWhile (\<lambda>b. b \<noteq> 47) (rev path)) in
      if 46 \<in> set element then 46 # rev (takeWhile (\<lambda>b. b \<noteq> 46) (rev element)) else [])"

subsection \<open>Flags\<close>

datatype flag_error = BadFlagSyntax gostring | ErrHelp | FlagNotDefined gostring | FlagNeedsArgument gostring
  | InvalidFlagValue gostring gostring

text \<open>How \<^verbatim>\<open>FlagSet.parseOne\<close> reads an argument: it ends the flags, or names one, with a value after the equals sign or
  not.\<close>

datatype flag_arg = NotAFlag | EndOfFlags | BadFlag | NamedFlag gostring "gostring option"

definition flag_arg :: "gostring \<Rightarrow> flag_arg" where
  "flag_arg arg =
     (if length arg < 2 \<or> hd arg \<noteq> 45 then NotAFlag
      else if arg = [45, 45] then EndOfFlags
      else let name = (if arg ! 1 = 45 then drop 2 arg else drop 1 arg) in
      if name = [] \<or> hd name = 45 \<or> hd name = 61 then BadFlag
      else NamedFlag (fst (str_Cut 61 name)) (if 61 \<in> set name then Some (snd (str_Cut 61 name)) else None))"

text \<open>\<^verbatim>\<open>FlagSet.Parse\<close> for flags that take a value: \<open>formal\<close> gives the setter of a defined flag, which may refuse a
  value; the result is the new state and the positional arguments.\<close>

function flag_Parse ::
    "(gostring \<Rightarrow> (gostring \<Rightarrow> 's \<Rightarrow> 's option) option) \<Rightarrow> gostring list \<Rightarrow> 's \<Rightarrow> flag_error + 's \<times> gostring list" where
  "flag_Parse formal [] s = Inr (s, [])"
| "flag_Parse formal (arg # args) s =
     (case flag_arg arg of
        NotAFlag \<Rightarrow> Inr (s, arg # args)
      | EndOfFlags \<Rightarrow> Inr (s, args)
      | BadFlag \<Rightarrow> Inl (BadFlagSyntax arg)
      | NamedFlag key given \<Rightarrow>
     (case formal key of
        None \<Rightarrow> Inl (if key = bytes_of ''help'' \<or> key = bytes_of ''h'' then ErrHelp else FlagNotDefined key)
      | Some setter \<Rightarrow>
     (case given of
        Some value \<Rightarrow>
          (case setter value s of
             None \<Rightarrow> Inl (InvalidFlagValue key value)
           | Some s' \<Rightarrow> flag_Parse formal args s')
      | None \<Rightarrow>
     (case args of
        [] \<Rightarrow> Inl (FlagNeedsArgument key)
      | value # rest \<Rightarrow>
          (case setter value s of
             None \<Rightarrow> Inl (InvalidFlagValue key value)
           | Some s' \<Rightarrow> flag_Parse formal rest s')))))"
  by pat_completeness auto
termination
  by (relation "measure (\<lambda>(formal, args, s). length args)") auto

declare flag_Parse.simps [simp del]

text \<open>What every setter keeps, parsing keeps.\<close>

lemma flag_Parse_inv:
  assumes kept: "\<And>key setter value s s'. formal key = Some setter \<Longrightarrow> setter value s = Some s' \<Longrightarrow> P s \<Longrightarrow> P s'"
    and "flag_Parse formal args s = Inr (s', rest)" and "P s"
  shows "P s'"
  using assms(2,3)
proof (induction args arbitrary: s rule: length_induct)
  case (1 args)
  show ?case
  proof (cases args)
    case Nil
    then show ?thesis using 1(2,3) by (simp add: flag_Parse.simps)
  next
    case (Cons arg args')
    note step = 1(2) [unfolded Cons flag_Parse.simps(2)]
    show ?thesis
    proof (cases "flag_arg arg")
      case (NamedFlag key given)
      then obtain setter where f: "formal key = Some setter"
        using step by (auto split: option.splits)
      obtain val s1 args1 where v: "setter val s = Some s1" "flag_Parse formal args1 s1 = Inr (s', rest)"
        "length args1 < length args"
        using step Cons NamedFlag f by (cases given; cases args') (auto split: option.splits)
      then show ?thesis using 1(1) kept [OF f v(1) 1(3)] by blast
    qed (use step 1(3) in auto)
  qed
qed

text \<open>What is left of the arguments is an end of them.\<close>

lemma flag_Parse_rest:
  assumes "flag_Parse formal args s = Inr (s', rest)"
  shows "\<exists>parsed. args = parsed @ rest"
  using assms
proof (induction args arbitrary: s rule: length_induct)
  case (1 args)
  show ?case
  proof (cases args)
    case Nil
    then show ?thesis using 1(2) by (simp add: flag_Parse.simps)
  next
    case (Cons arg args')
    note step = 1(2) [unfolded Cons flag_Parse.simps(2)]
    show ?thesis
    proof (cases "flag_arg arg")
      case (NamedFlag key given)
      then obtain setter where f: "formal key = Some setter"
        using step by (auto split: option.splits)
      obtain s1 args1 where v: "flag_Parse formal args1 s1 = Inr (s', rest)" "\<exists>pre. args = pre @ args1" "length args1 < length args"
        using step Cons NamedFlag f by (cases given; cases args') (auto split: option.splits)
      then show ?thesis using 1(1) by fastforce
    qed (use step Cons in auto)
  qed
qed

subsection \<open>Reading\<close>

text \<open>\<^verbatim>\<open>io.ReadFull\<close> into a buffer of \<open>n\<close> bytes: the bytes read, the error and the rest of the stream.\<close>

definition io_ReadFull :: "io_error \<Rightarrow> nat \<Rightarrow> byte list \<Rightarrow> byte list \<times> io_error option \<times> byte list" where
  "io_ReadFull e n s =
     (take n s,
      if n \<le> length s then None else if s = [] then Some e
      else Some (if e = ErrEOF then ErrUnexpectedEOF else e),
      drop n s)"

end
