(* ===== verification/Tracker_Model.thy ===== *)
theory Tracker_Model
  imports Url_Query Bencode_Spec "HOL-Library.Signed_Division"
begin

text \<open>
  The tracker, \<^verbatim>\<open>src/tracker\<close>: the announce request and response on the wire (\<^verbatim>\<open>announce.go\<close>), the
  server with its swarms (\<^verbatim>\<open>server.go\<close>) and the client call (\<^verbatim>\<open>client.go\<close>).

  \<^verbatim>\<open>time.Duration\<close> and \<^verbatim>\<open>time.Time\<close> are nanoseconds.  What the code uses of \<^verbatim>\<open>net/url.Parse\<close>, of the text
  forms of \<^verbatim>\<open>netip\<close> addresses, of error messages and of \<^verbatim>\<open>http.DefaultClient\<close> are parameters (the record
  \<open>netlib\<close> and the arguments \<open>url_Parse\<close> and \<open>http_Do\<close>); the theorems hold for every choice of them,
  or name what they need.
\<close>

subsection \<open>Types\<close>

abbreviation second :: int where
  "second \<equiv> 1000000000"

definition StartedEvent :: gostring where "StartedEvent = bytes_of ''started''"
definition CompletedEvent :: gostring where "CompletedEvent = bytes_of ''completed''"
definition StoppedEvent :: gostring where "StoppedEvent = bytes_of ''stopped''"

record AnnounceRequest =
  ar_InfoHash :: gostring
  ar_PeerID :: gostring
  ar_Port :: uint16
  ar_Uploaded :: uint64
  ar_Downloaded :: uint64
  ar_Left :: uint64
  ar_Compact :: bool
  ar_Event :: gostring

text \<open>\<^verbatim>\<open>netip.Addr\<close>: the zero address, an IPv4 address, or an IPv6 address with its zone.\<close>

datatype Addr = AddrZero | IPv4 byte byte byte byte | IPv6 "byte list" gostring

fun Is4 :: "Addr \<Rightarrow> bool" where
  "Is4 (IPv4 a b c d) \<longleftrightarrow> True"
| "Is4 _ \<longleftrightarrow> False"

text \<open>\<^verbatim>\<open>Unmap\<close>: an IPv4-mapped IPv6 address becomes the IPv4 address.\<close>

fun Unmap :: "Addr \<Rightarrow> Addr" where
  "Unmap (IPv6 bs zone) =
     (if length bs = 16 \<and> take 12 bs = replicate 10 0 @ [255, 255]
      then IPv4 (bs ! 12) (bs ! 13) (bs ! 14) (bs ! 15) else IPv6 bs zone)"
| "Unmap a = a"

record TPeer =
  tp_PeerID :: gostring
  tp_IP :: Addr
  tp_Port :: uint16

record AnnounceResponse =
  Interval :: int
  Peers :: "TPeer list"

record netlib =
  ParseAddr :: "gostring \<Rightarrow> Addr option"
  AddrString :: "Addr \<Rightarrow> gostring"
  ParseAddrPort :: "gostring \<Rightarrow> (Addr \<times> uint16) option"
  AddrPortString :: "Addr \<times> uint16 \<Rightarrow> gostring"
  ErrorText :: "bencode_error \<Rightarrow> gostring"

datatype tracker_error =
    UrlInvalid
  | ErrInvalidAnnounceRequest
  | ResponseNotDict
  | TrackerFailure gostring
  | IntervalMissing
  | IntervalInvalid int
  | PeersMissing
  | CompactPeersLength nat
  | CompactPortZero
  | PeersWrongType
  | ErrInvalidBencodingFormat
  | IntervalNotWhole int
  | IntervalNotPositive
  | TTLTooShort
  | HttpFailed
  | HttpStatus nat
  | ReadResponse io_error
  | ResponseTooBig
  | DecodeResponse bencode_error

subsection \<open>Requests: \<^verbatim>\<open>announce.go\<close>\<close>

record URL =
  url_rest :: gostring  \<comment> \<open>scheme, host, path and fragment\<close>
  RawQuery :: gostring

definition announce_params :: "Values \<Rightarrow> AnnounceRequest \<Rightarrow> Values" where
  "announce_params params request =
     (let p1 = v_Set params (bytes_of ''info_hash'') (ar_InfoHash request);
          p2 = v_Set p1 (bytes_of ''peer_id'') (ar_PeerID request);
          p3 = v_Set p2 (bytes_of ''port'') (nat_decimal (unat (ar_Port request)));
          p4 = v_Set p3 (bytes_of ''uploaded'') (nat_decimal (unat (ar_Uploaded request)));
          p5 = v_Set p4 (bytes_of ''downloaded'') (nat_decimal (unat (ar_Downloaded request)));
          p6 = v_Set p5 (bytes_of ''left'') (nat_decimal (unat (ar_Left request)));
          p7 = (if ar_Compact request then v_Set p6 (bytes_of ''compact'') (bytes_of ''1'')
                else v_Set p6 (bytes_of ''compact'') (bytes_of ''0''))
      in if ar_Event request \<noteq> [] then v_Set p7 (bytes_of ''event'') (ar_Event request)
         else v_Del p7 (bytes_of ''event''))"

definition buildAnnounceUrl ::
    "(gostring \<Rightarrow> URL option) \<Rightarrow> gostring \<Rightarrow> AnnounceRequest \<Rightarrow> tracker_error + URL" where
  "buildAnnounceUrl url_Parse announceURL request =
     (case url_Parse announceURL of
        None \<Rightarrow> Inl UrlInvalid
      | Some baseURL \<Rightarrow>
          Inr (baseURL\<lparr>RawQuery := v_Encode (announce_params (url_Query (RawQuery baseURL)) request)\<rparr>))"

definition parseUint64Query :: "Values \<Rightarrow> gostring \<Rightarrow> tracker_error + uint64" where
  "parseUint64Query query key =
     (if \<not> v_Has query key then Inl ErrInvalidAnnounceRequest
      else case ParseUint (v_Get query key) of
        Inl _ \<Rightarrow> Inl ErrInvalidAnnounceRequest
      | Inr value \<Rightarrow> Inr (of_nat value))"

definition parseUint16Query :: "Values \<Rightarrow> gostring \<Rightarrow> tracker_error + uint16" where
  "parseUint16Query query key = bind_r (parseUint64Query query key) (\<lambda>value. Inr (ucast value))"

definition parseStringQuery :: "Values \<Rightarrow> gostring \<Rightarrow> tracker_error + gostring" where
  "parseStringQuery query key =
     (let value = v_Get query key in if value = [] then Inl ErrInvalidAnnounceRequest else Inr value)"

definition parseAnnounceRequest :: "gostring \<Rightarrow> tracker_error + AnnounceRequest" where
  "parseAnnounceRequest rawQuery =
     (let query = url_Query rawQuery in
      bind_r (parseStringQuery query (bytes_of ''info_hash'')) (\<lambda>infoHash.
      if length infoHash \<noteq> 20 then Inl ErrInvalidAnnounceRequest else
      bind_r (parseStringQuery query (bytes_of ''peer_id'')) (\<lambda>peerID.
      if length peerID \<noteq> 20 then Inl ErrInvalidAnnounceRequest else
      bind_r (parseUint16Query query (bytes_of ''port'')) (\<lambda>port.
      if port = 0 then Inl ErrInvalidAnnounceRequest else
      bind_r (parseUint64Query query (bytes_of ''uploaded'')) (\<lambda>uploaded.
      bind_r (parseUint64Query query (bytes_of ''downloaded'')) (\<lambda>downloaded.
      bind_r (parseUint64Query query (bytes_of ''left'')) (\<lambda>left.
      let compact = (v_Get query (bytes_of ''compact'') = bytes_of ''1'');
          event = v_Get query (bytes_of ''event'') in
      if event \<noteq> [] \<and> event \<noteq> StartedEvent \<and> event \<noteq> CompletedEvent \<and> event \<noteq> StoppedEvent
      then Inl ErrInvalidAnnounceRequest
      else Inr \<lparr>ar_InfoHash = infoHash, ar_PeerID = peerID, ar_Port = port, ar_Uploaded = uploaded,
                ar_Downloaded = downloaded, ar_Left = left, ar_Compact = compact, ar_Event = event\<rparr>)))))))"

subsection \<open>Responses: \<^verbatim>\<open>announce.go\<close>\<close>

definition parsePeer :: "netlib \<Rightarrow> Bencoding \<Rightarrow> tracker_error + TPeer" where
  "parsePeer net value =
     (case b_Dict value of
        None \<Rightarrow> Inl ErrInvalidBencodingFormat
      | Some dict \<Rightarrow>
     case dict_String dict (bytes_of ''peer id'') of
        None \<Rightarrow> Inl ErrInvalidBencodingFormat
      | Some peerID \<Rightarrow>
     if length peerID \<noteq> 20 then Inl ErrInvalidBencodingFormat
     else case dict_String dict (bytes_of ''ip'') of
        None \<Rightarrow> Inl ErrInvalidBencodingFormat
      | Some ipValue \<Rightarrow>
     case ParseAddr net ipValue of
        None \<Rightarrow> Inl ErrInvalidBencodingFormat
      | Some ip \<Rightarrow>
     case dict_Int dict (bytes_of ''port'') of
        None \<Rightarrow> Inl ErrInvalidBencodingFormat
      | Some port \<Rightarrow>
     if port \<le> 0 \<or> port > 65535 then Inl ErrInvalidBencodingFormat
     else Inr \<lparr>tp_PeerID = peerID, tp_IP = ip, tp_Port = of_int port\<rparr>)"

fun parsePeers :: "netlib \<Rightarrow> Bencoding list \<Rightarrow> tracker_error + TPeer list" where
  "parsePeers net [] = Inr []"
| "parsePeers net (value # values) =
     bind_r (parsePeer net value) (\<lambda>peer. bind_r (parsePeers net values) (\<lambda>peers. Inr (peer # peers)))"

text \<open>The loop over a compact peer string, six bytes at a time; its length has been checked.\<close>

fun compactPeers :: "byte list \<Rightarrow> tracker_error + TPeer list" where
  "compactPeers (a # b # c # d # e # f # rest) =
     (let port = Uint16 [e, f] in
      if port = 0 then Inl CompactPortZero
      else bind_r (compactPeers rest) (\<lambda>peers.
        Inr (\<lparr>tp_PeerID = replicate 20 0, tp_IP = IPv4 a b c d, tp_Port = port\<rparr> # peers)))"
| "compactPeers _ = Inr []"

definition decodeAnnounceResponse :: "netlib \<Rightarrow> Bencoding \<Rightarrow> tracker_error + AnnounceResponse" where
  "decodeAnnounceResponse net value =
     (case b_Dict value of
        None \<Rightarrow> Inl ResponseNotDict
      | Some body \<Rightarrow>
     case dict_String body (bytes_of ''failure reason'') of
        Some reason \<Rightarrow> Inl (TrackerFailure reason)
      | None \<Rightarrow>
     case dict_Int body (bytes_of ''interval'') of
        None \<Rightarrow> Inl IntervalMissing
      | Some interval \<Rightarrow>
     if interval < 0 \<or> interval > (2 ^ 63 - 1) div second then Inl (IntervalInvalid interval)
     else case m_get body (bytes_of ''peers'') of
        None \<Rightarrow> Inl PeersMissing
      | Some peersValue \<Rightarrow>
     bind_r
       (case b_List peersValue of
          Some list \<Rightarrow> parsePeers net list
        | None \<Rightarrow>
       case b_String peersValue of
          Some compact \<Rightarrow>
            if length compact mod 6 \<noteq> 0 then Inl (CompactPeersLength (length compact))
            else compactPeers compact
        | None \<Rightarrow> Inl PeersWrongType)
       (\<lambda>peers. Inr \<lparr>Interval = int64 (interval * second), Peers = peers\<rparr>))"

fun compact_entry :: "TPeer \<Rightarrow> byte list" where
  "compact_entry peer =
     (case tp_IP peer of IPv4 a b c d \<Rightarrow> [a, b, c, d] @ PutUint16 (tp_Port peer) | _ \<Rightarrow> [])"

definition peer_dict :: "netlib \<Rightarrow> TPeer \<Rightarrow> Bencoding" where
  "peer_dict net peer = BDict
     [(bytes_of ''peer id'', BString (tp_PeerID peer)),
      (bytes_of ''ip'', BString (AddrString net (tp_IP peer))),
      (bytes_of ''port'', BInteger (int (unat (tp_Port peer))))]"

definition encodeAnnounceResponse :: "netlib \<Rightarrow> AnnounceResponse \<Rightarrow> bool \<Rightarrow> tracker_error + Bencoding" where
  "encodeAnnounceResponse net response compact =
     (if Interval response < 0 \<or> Interval response mod second \<noteq> 0
      then Inl (IntervalNotWhole (Interval response))
      else let interval = BInteger (Interval response div second) in
        Inr (BDict
          [(bytes_of ''interval'', interval),
           (bytes_of ''peers'',
            if compact then BString (concat (map compact_entry (Peers response)))
            else BList (map (peer_dict net) (Peers response)))]))"

subsection \<open>The server: \<^verbatim>\<open>server.go\<close>\<close>

definition maxPeersPerAnnounce :: nat where
  "maxPeersPerAnnounce = 50"

record trackedPeer =
  Address :: "Addr \<times> uint16"
  LastSeen :: int
  tk_Left :: uint64

type_synonym swarm = "(gostring \<times> trackedPeer) list"

text \<open>A missing \<open>allowedInfoHashes\<close> is the nil map: every torrent is allowed.\<close>

record Server =
  sv_interval :: int
  peerTTL :: int
  swarms :: "(gostring \<times> swarm) list"
  allowedInfoHashes :: "gostring list option"

record Config =
  AnnounceInterval :: int
  PeerTTL :: int
  AllowedInfoHashes :: "gostring list option"

definition Config_Validate :: "Config \<Rightarrow> tracker_error option" where
  "Config_Validate c =
     (if AnnounceInterval c \<le> 0 then Some IntervalNotPositive
      else if AnnounceInterval c mod second \<noteq> 0 then Some (IntervalNotWhole (AnnounceInterval c))
      else if PeerTTL c \<noteq> 0 \<and> PeerTTL c < AnnounceInterval c then Some TTLTooShort
      else None)"

definition NewServer :: "Config \<Rightarrow> tracker_error + Server" where
  "NewServer config =
     (case Config_Validate config of
        Some er \<Rightarrow> Inl er
      | None \<Rightarrow>
          Inr \<lparr>sv_interval = AnnounceInterval config,
               peerTTL = (if PeerTTL config = 0 then int64 (3 * AnnounceInterval config) else PeerTTL config),
               swarms = [],
               allowedInfoHashes = map_option remdups (AllowedInfoHashes config)\<rparr>)"

definition sv_allows :: "Server \<Rightarrow> gostring \<Rightarrow> bool" where
  "sv_allows s infoHash =
     (case allowedInfoHashes s of None \<Rightarrow> True | Some allowed \<Rightarrow> infoHash \<in> set allowed)"

text \<open>\<^verbatim>\<open>now.Sub\<close> saturates at the bounds of a duration.\<close>

definition time_Sub :: "int \<Rightarrow> int \<Rightarrow> int" where
  "time_Sub now t = max (- (2 ^ 63)) (min (2 ^ 63 - 1) (now - t))"

text \<open>\<^verbatim>\<open>s.swarms[infoHash]\<close>, nil when absent; and its update, which drops an empty swarm.\<close>

definition swarm_of :: "Server \<Rightarrow> gostring \<Rightarrow> swarm" where
  "swarm_of s infoHash = (case m_get (swarms s) infoHash of None \<Rightarrow> [] | Some swarm \<Rightarrow> swarm)"

definition store_swarm :: "Server \<Rightarrow> gostring \<Rightarrow> swarm \<Rightarrow> Server" where
  "store_swarm s infoHash swarm =
     s\<lparr>swarms := (if swarm = [] then m_del infoHash (swarms s) else m_put infoHash swarm (swarms s))\<rparr>"

definition pruneSwarmLocked :: "Server \<Rightarrow> gostring \<Rightarrow> int \<Rightarrow> Server" where
  "pruneSwarmLocked s infoHash now =
     store_swarm s infoHash
       (filter (\<lambda>(peerID, peer). \<not> time_Sub now (LastSeen peer) > peerTTL s) (swarm_of s infoHash))"

text \<open>The loop that collects at most fifty peers other than the announcing one.\<close>

fun collectPeers :: "gostring \<Rightarrow> swarm \<Rightarrow> TPeer list \<Rightarrow> TPeer list" where
  "collectPeers self [] peers = peers"
| "collectPeers self ((peerID, peer) # rest) peers =
     (if peerID = self then collectPeers self rest peers
      else let peers' = peers @ [\<lparr>tp_PeerID = peerID, tp_IP = fst (Address peer), tp_Port = snd (Address peer)\<rparr>] in
        if length peers' = maxPeersPerAnnounce then peers' else collectPeers self rest peers')"

definition sv_announce :: "Server \<Rightarrow> AnnounceRequest \<Rightarrow> Addr \<Rightarrow> int \<Rightarrow> AnnounceResponse \<times> Server" where
  "sv_announce s request address now =
     (let s1 = pruneSwarmLocked s (ar_InfoHash request) now;
          swarm = swarm_of s1 (ar_InfoHash request);
          swarm' = (if ar_Event request = StoppedEvent then m_del (ar_PeerID request) swarm
                    else m_put (ar_PeerID request)
                           \<lparr>Address = (address, ar_Port request), LastSeen = now, tk_Left = ar_Left request\<rparr> swarm);
          s2 = store_swarm s1 (ar_InfoHash request) swarm'
      in (\<lparr>Interval = sv_interval s, Peers = collectPeers (ar_PeerID request) swarm' []\<rparr>, s2))"

record PeerSnapshot =
  sn_PeerID :: gostring
  sn_Address :: gostring
  sn_LastSeen :: int
  BytesLeft :: uint64

record SwarmSnapshot =
  sn_InfoHash :: gostring
  sn_Peers :: "PeerSnapshot list"

record Snapshot =
  IntervalSeconds :: int
  PeerTTLSeconds :: int
  Swarms :: "SwarmSnapshot list"

definition prune_all :: "Server \<Rightarrow> int \<Rightarrow> Server" where
  "prune_all s now = fold (\<lambda>infoHash s. pruneSwarmLocked s infoHash now) (keys (swarms s)) s"

definition peer_snapshot :: "netlib \<Rightarrow> gostring \<Rightarrow> trackedPeer \<Rightarrow> PeerSnapshot" where
  "peer_snapshot net peerID peer =
     \<lparr>sn_PeerID = hex_encode peerID, sn_Address = AddrPortString net (Address peer),
      sn_LastSeen = LastSeen peer, BytesLeft = tk_Left peer\<rparr>"

definition peer_snapshots :: "netlib \<Rightarrow> swarm \<Rightarrow> PeerSnapshot list" where
  "peer_snapshots net swarm = sort_key sn_PeerID (map (\<lambda>(peerID, peer). peer_snapshot net peerID peer) swarm)"

definition sv_snapshot :: "netlib \<Rightarrow> Server \<Rightarrow> int \<Rightarrow> Snapshot \<times> Server" where
  "sv_snapshot net s now =
     (let s1 = prune_all s now;
          infoHashes = remdups (keys (swarms s1) @ (case allowedInfoHashes s1 of None \<Rightarrow> [] | Some hs \<Rightarrow> hs))
      in (\<lparr>IntervalSeconds = sv_interval s1 sdiv second,
           PeerTTLSeconds = peerTTL s1 sdiv second,
           Swarms = sort_key sn_InfoHash
             (map (\<lambda>infoHash. \<lparr>sn_InfoHash = hex_encode infoHash,
                                sn_Peers = peer_snapshots net (swarm_of s1 infoHash)\<rparr>) infoHashes)\<rparr>, s1))"

subsection \<open>HTTP\<close>

record http_Request =
  hr_Method :: gostring
  hr_RawQuery :: gostring
  RemoteAddr :: gostring

record http_Response =
  StatusCode :: nat
  ContentType :: gostring
  hs_Body :: "byte list"

definition tracker_writeBencoding :: "netlib \<Rightarrow> Bencoding \<Rightarrow> http_Response" where
  "tracker_writeBencoding net value =
     (case Encode value of
        Inl er \<Rightarrow> \<lparr>StatusCode = 500, ContentType = bytes_of ''text/plain; charset=utf-8'',
                  hs_Body = bytes_of ''encode tracker response: '' @ ErrorText net er @ [10]\<rparr>
      | Inr body \<Rightarrow> \<lparr>StatusCode = 200, ContentType = bytes_of ''text/plain'', hs_Body = body\<rparr>)"

definition writeFailure :: "netlib \<Rightarrow> string \<Rightarrow> http_Response" where
  "writeFailure net reason =
     tracker_writeBencoding net (BDict [(bytes_of ''failure reason'', BString (bytes_of reason))])"

definition ServeHTTP :: "netlib \<Rightarrow> Server \<Rightarrow> http_Request \<Rightarrow> int \<Rightarrow> http_Response \<times> Server" where
  "ServeHTTP net s request now =
     (if hr_Method request \<noteq> bytes_of ''GET'' then (writeFailure net ''announce requests must use GET'', s)
      else case parseAnnounceRequest (hr_RawQuery request) of
        Inl _ \<Rightarrow> (writeFailure net ''invalid announce request'', s)
      | Inr announce \<Rightarrow>
      if \<not> sv_allows s (ar_InfoHash announce) then (writeFailure net ''torrent is not allowed'', s)
      else case ParseAddrPort net (RemoteAddr request) of
        None \<Rightarrow> (writeFailure net ''invalid peer address'', s)
      | Some address \<Rightarrow>
      case sv_announce s announce (Unmap (fst address)) now of
        (response, s') \<Rightarrow>
      (case encodeAnnounceResponse net response (ar_Compact announce) of
         Inl _ \<Rightarrow> (writeFailure net ''unable to encode tracker response'', s')
       | Inr encoded \<Rightarrow> (tracker_writeBencoding net encoded, s')))"

subsection \<open>The client: \<^verbatim>\<open>client.go\<close>\<close>

definition maxResponseSize :: nat where
  "maxResponseSize = 4 * 2 ^ 20"

text \<open>\<open>http_Do\<close> sends the request and yields the status and the body, a stream with the error that
  ends it; \<^verbatim>\<open>None\<close> when the request cannot be built or sent.\<close>

definition tracker_Announce ::
    "netlib \<Rightarrow> (gostring \<Rightarrow> URL option) \<Rightarrow> (URL \<Rightarrow> (nat \<times> byte list \<times> io_error) option) \<Rightarrow>
     gostring \<Rightarrow> AnnounceRequest \<Rightarrow> tracker_error + AnnounceResponse" where
  "tracker_Announce net url_Parse http_Do announceURL request =
     bind_r (buildAnnounceUrl url_Parse announceURL request) (\<lambda>formattedURL.
     case http_Do formattedURL of
       None \<Rightarrow> Inl HttpFailed
     | Some (status, body, er) \<Rightarrow>
     if status < 200 \<or> status \<ge> 300 then Inl (HttpStatus status)
     else if length body > maxResponseSize then Inl ResponseTooBig
     else if er \<noteq> ErrEOF then Inl (ReadResponse er)
     else bind_r (map_sum DecodeResponse id (Decode ErrEOF body)) (decodeAnnounceResponse net))"

end
