(* ===== verification/Tracker_Wire.thy ===== *)
theory Tracker_Wire
  imports Tracker_Model
begin

text \<open>
  The wire format of announces: requests survive the query string and responses the bencoded body.
\<close>

subsection \<open>Announce requests\<close>

lemma unat_of_char: "unat (of_char c :: byte) = of_char c"
proof -
  have "(of_char c :: byte) = of_nat (of_char c)" by (rule of_nat_of_char [symmetric])
  moreover have "unat (of_nat (of_char c) :: byte) = of_char c"
    by (rule unat_of_nat_small) (simp add: nat_of_char_less_256)
  ultimately show ?thesis by (simp only:)
qed

lemma bytes_of_eq [simp]: "bytes_of s = bytes_of t \<longleftrightarrow> s = t"
proof -
  have "inj (of_char :: char \<Rightarrow> byte)" by (rule injI) (metis of_char_eq_iff unat_of_char)
  then show ?thesis by (simp add: bytes_of_def inj_map_eq_map)
qed

lemma bytes_of_Nil [simp]: "bytes_of s = [] \<longleftrightarrow> s = []" "[] = bytes_of s \<longleftrightarrow> s = []"
  by (auto simp: bytes_of_def)

definition valid_request :: "AnnounceRequest \<Rightarrow> bool" where
  "valid_request r \<longleftrightarrow>
     length (ar_InfoHash r) = 20 \<and> length (ar_PeerID r) = 20 \<and> ar_Port r \<noteq> 0 \<and>
     ar_Event r \<in> {[], StartedEvent, CompletedEvent, StoppedEvent}"

abbreviation announce_keys :: "string set" where
  "announce_keys \<equiv> {''info_hash'', ''peer_id'', ''port'', ''uploaded'', ''downloaded'', ''left'', ''compact'', ''event''}"

lemma announce_params_get:
  "m_get (announce_params q r) (bytes_of ''info_hash'') = Some [ar_InfoHash r]"
  "m_get (announce_params q r) (bytes_of ''peer_id'') = Some [ar_PeerID r]"
  "m_get (announce_params q r) (bytes_of ''port'') = Some [nat_decimal (unat (ar_Port r))]"
  "m_get (announce_params q r) (bytes_of ''uploaded'') = Some [nat_decimal (unat (ar_Uploaded r))]"
  "m_get (announce_params q r) (bytes_of ''downloaded'') = Some [nat_decimal (unat (ar_Downloaded r))]"
  "m_get (announce_params q r) (bytes_of ''left'') = Some [nat_decimal (unat (ar_Left r))]"
  "m_get (announce_params q r) (bytes_of ''compact'') = Some [bytes_of (if ar_Compact r then ''1'' else ''0'')]"
  "m_get (announce_params q r) (bytes_of ''event'') = (if ar_Event r = [] then None else Some [ar_Event r])"
  "key \<notin> bytes_of ` announce_keys \<Longrightarrow> m_get (announce_params q r) key = m_get q key"
  by (simp_all add: announce_params_def Let_def v_Set_def v_Del_def)

lemma announce_params_distinct: "distinct (keys q) \<Longrightarrow> distinct (keys (announce_params q r))"
  by (simp add: announce_params_def Let_def v_Set_def v_Del_def)

lemma announce_params_pairs:
  assumes "distinct (keys q)"
  shows "length (v_pairs (announce_params q r)) \<le> length (v_pairs q) + 8"
proof -
  let ?n = "\<lambda>v :: Values. \<Sum>(k, xs) \<leftarrow> v. length xs"
  have set: "?n v \<le> m \<Longrightarrow> ?n (v_Set v k x) \<le> Suc m" for v k x m
    using sum_values_update [of k x v] by (simp add: v_Set_def)
  have del: "?n v \<le> m \<Longrightarrow> ?n (v_Del v k) \<le> Suc m" for v k m
    using sum_values_delete [of k v] by (simp add: v_Del_def)
  have "?n (announce_params q r) \<le> Suc (Suc (Suc (Suc (Suc (Suc (Suc (Suc (?n q))))))))"
    unfolding announce_params_def Let_def
    by (cases "ar_Compact r"; cases "ar_Event r = []"; simp only: if_True if_False simp_thms)
      (intro set del order_refl)+
  then show ?thesis
    using length_v_pairs [OF assms] length_v_pairs [OF announce_params_distinct [OF assms]] by simp
qed

text \<open>What the server makes of such parameters, the port written as any 64-bit number.\<close>

lemma parseAnnounceRequest_params:
  assumes "length (ar_InfoHash r) = 20" "length (ar_PeerID r) = 20"
    "ar_Event r \<in> {[], StartedEvent, CompletedEvent, StoppedEvent}"
    and p: "distinct (keys p)" "length (v_pairs p) \<le> maxQueryParams"
    and get: "\<And>k. k \<in> announce_keys - {''port''} \<Longrightarrow> m_get p (bytes_of k) = m_get (announce_params q r) (bytes_of k)"
    and port: "m_get p (bytes_of ''port'') = Some [nat_decimal n]" "n < 2 ^ 64"
  shows "parseAnnounceRequest (v_Encode p) =
    (if of_nat n = (0 :: uint16) then Inl ErrInvalidAnnounceRequest else Inr (r\<lparr>ar_Port := of_nat n\<rparr>))"
proof -
  let ?e = "url_Query (v_Encode p)"
  note G = m_get_url_Query_Encode [OF p(2,1)]
  have g: "m_get ?e (bytes_of k) = m_get (announce_params q r) (bytes_of k)" if "k \<in> announce_keys - {''port''}" for k
  proof -
    have "m_get (announce_params q r) (bytes_of k) \<noteq> Some []"
      using that by (auto simp: announce_params_get split: if_splits)
    then show ?thesis by (simp add: G get [OF that] split: option.split)
  qed
  have v: "v_Get ?e k = (case m_get ?e k of Some (x # _) \<Rightarrow> x | _ \<Rightarrow> [])" for k by (simp add: v_Get_def)
  have u64: "ParseUint (nat_decimal (unat w)) = Inr (unat w)" for w :: uint64
    using unat_uint64_bound [of w] by simp
  have c16: "(ucast (of_nat n :: uint64) :: uint16) = of_nat n"
    by (rule bit_word_eqI) (auto simp: bit_simps)
  have "ar_InfoHash r \<noteq> []" "ar_PeerID r \<noteq> []" using assms(1,2) by auto
  then have "parseStringQuery ?e (bytes_of ''info_hash'') = Inr (ar_InfoHash r)"
    "parseStringQuery ?e (bytes_of ''peer_id'') = Inr (ar_PeerID r)"
    by (simp_all add: parseStringQuery_def v g announce_params_get)
  moreover have "parseUint64Query ?e (bytes_of ''uploaded'') = Inr (ar_Uploaded r)"
    "parseUint64Query ?e (bytes_of ''downloaded'') = Inr (ar_Downloaded r)"
    "parseUint64Query ?e (bytes_of ''left'') = Inr (ar_Left r)"
    by (simp_all add: parseUint64Query_def v_Has_def v g announce_params_get u64)
  moreover have "parseUint16Query ?e (bytes_of ''port'') = Inr (of_nat n)"
    using port by (simp add: parseUint16Query_def parseUint64Query_def v_Has_def v G c16)
  moreover have "v_Get ?e (bytes_of ''compact'') = bytes_of ''1'' \<longleftrightarrow> ar_Compact r"
    "v_Get ?e (bytes_of ''event'') = ar_Event r"
    by (simp_all add: v g announce_params_get)
  moreover have "\<not> (ar_Event r \<noteq> [] \<and> ar_Event r \<noteq> StartedEvent \<and> ar_Event r \<noteq> CompletedEvent \<and> ar_Event r \<noteq> StoppedEvent)"
    using assms(3) by auto
  ultimately show ?thesis
    using assms(1,2) unfolding parseAnnounceRequest_def Let_def by (cases r) (simp; blast)
qed

lemma announce_params_url:
  assumes "length (v_pairs (url_Query raw)) + 8 \<le> maxQueryParams"
  shows "distinct (keys (announce_params (url_Query raw) r))"
    and "length (v_pairs (announce_params (url_Query raw) r)) \<le> maxQueryParams"
  using announce_params_pairs [OF distinct_url_Query, of raw r] assms
  by (simp_all add: announce_params_distinct distinct_url_Query)

text \<open>C28. Announce requests survive the wire: whatever \<^verbatim>\<open>url.Parse\<close> makes of the tracker's address, the
  query that \<^verbatim>\<open>buildAnnounceUrl\<close> writes for a valid request (arbitrary bytes in the info hash and peer
  id included) is parsed by the server to the same request; the rest of the address and the other
  query parameters of the tracker stay as they were.  The query may have at most 10000 parameters, the
  limit of \<^verbatim>\<open>net/url\<close>.\<close>

theorem parseAnnounceRequest_buildAnnounceUrl:
  assumes "valid_request r" and "url_Parse u = Some base"
    and "length (v_pairs (url_Query (RawQuery base))) + 8 \<le> maxQueryParams"
  shows "\<exists>url. buildAnnounceUrl url_Parse u r = Inr url \<and> parseAnnounceRequest (RawQuery url) = Inr r \<and>
    url_rest url = url_rest base \<and>
    (\<forall>key. key \<notin> bytes_of ` announce_keys \<longrightarrow>
       v_Get (url_Query (RawQuery url)) key = v_Get (url_Query (RawQuery base)) key)"
proof -
  let ?q = "url_Query (RawQuery base)"
  let ?p = "announce_params ?q r"
  note P = announce_params_url [OF assms(3), of r]
  have "unat (ar_Port r) < 2 ^ 64" using unat_uint16_bound [of "ar_Port r"] by simp
  then have "parseAnnounceRequest (v_Encode ?p) = Inr r"
    using parseAnnounceRequest_params [OF _ _ _ P, of r ?q "unat (ar_Port r)"] assms(1) announce_params_get(3) [of ?q r]
    by (simp add: valid_request_def)
  moreover have "v_Get ?p key = v_Get ?q key" if "key \<notin> bytes_of ` announce_keys" for key
    unfolding v_Get_def announce_params_get(9) [OF that] ..
  ultimately show ?thesis
    using assms(2) by (auto simp: buildAnnounceUrl_def v_Get_Encode [OF P(2,1)]
        intro!: exI [of _ "base\<lparr>RawQuery := v_Encode ?p\<rparr>"])
qed

definition demo_request :: AnnounceRequest where
  "demo_request = \<lparr>ar_InfoHash = replicate 20 38, ar_PeerID = replicate 20 0, ar_Port = 6881, ar_Uploaded = 0,
     ar_Downloaded = 5, ar_Left = 7, ar_Compact = True, ar_Event = StartedEvent\<rparr>"

lemma valid_demo_request: "valid_request demo_request"
  by (simp add: valid_request_def demo_request_def)

theorem parseAnnounceRequest_buildAnnounceUrl_witness:
  "\<exists>url. buildAnnounceUrl (\<lambda>u. Some \<lparr>url_rest = u, RawQuery = []\<rparr>) [104] demo_request = Inr url \<and>
     parseAnnounceRequest (RawQuery url) = Inr demo_request"
proof -
  have "length (v_pairs (url_Query [])) + 8 \<le> maxQueryParams"
    by (simp add: url_Query_def split_on.simps List.map_filter_simps v_pairs_def maxQueryParams_def)
  then show ?thesis
    using parseAnnounceRequest_buildAnnounceUrl [OF valid_demo_request,
        of "\<lambda>u. Some \<lparr>url_rest = u, RawQuery = []\<rparr>" "[104]" "\<lparr>url_rest = [104], RawQuery = []\<rparr>"]
    by auto
qed

text \<open>Ports are truncated: \<^verbatim>\<open>parseUint16Query\<close> reads the port as a 64-bit number and keeps its low 16
  bits.  A request whose port does not fit is not refused but accepted under another port (65537 as
  port 1), and only ports divisible by 65536 are rejected.\<close>

theorem parseAnnounceRequest_truncates_port:
  assumes "valid_request r" and "n < 2 ^ 64"
  shows "parseAnnounceRequest (v_Encode (v_Set (announce_params [] r) (bytes_of ''port'') (nat_decimal n))) =
    (if n mod 2 ^ 16 = 0 then Inl ErrInvalidAnnounceRequest else Inr (r\<lparr>ar_Port := of_nat (n mod 2 ^ 16)\<rparr>))"
proof -
  let ?p = "announce_params [] r"
  let ?q = "v_Set ?p (bytes_of ''port'') (nat_decimal n)"
  have d: "distinct (keys ?p)" by (rule announce_params_distinct) simp
  then have d': "distinct (keys ?q)" by (simp add: v_Set_def)
  have "length (v_pairs ?q) \<le> Suc (length (v_pairs ?p))"
    using sum_values_update [of "bytes_of ''port''" "nat_decimal n" ?p] length_v_pairs [OF d'] length_v_pairs [OF d]
    by (simp add: v_Set_def)
  then have n: "length (v_pairs ?q) \<le> maxQueryParams"
    using announce_params_pairs [of "[]" r] by (simp add: v_pairs_def maxQueryParams_def)
  have "(of_nat n :: uint16) = of_nat (n mod 2 ^ 16)"
    by (simp add: word_unat_eq_iff unat_of_nat take_bit_eq_mod)
  moreover have "of_nat n = (0 :: uint16) \<longleftrightarrow> n mod 2 ^ 16 = 0"
    by (simp add: word_unat_eq_iff unat_of_nat take_bit_eq_mod)
  moreover have "m_get ?q (bytes_of k) = m_get ?p (bytes_of k)" if "k \<noteq> ''port''" for k
    using that by (simp add: v_Set_def)
  moreover have "m_get ?q (bytes_of ''port'') = Some [nat_decimal n]" by (simp add: v_Set_def)
  ultimately show ?thesis
    using parseAnnounceRequest_params [OF _ _ _ d' n, of r "[]" n] assms by (simp add: valid_request_def)
qed

subsection \<open>Announce responses\<close>

lemma parsePeer_peer_dict:
  assumes "length (tp_PeerID p) = 20" and "tp_Port p \<noteq> 0" and "ParseAddr net (AddrString net (tp_IP p)) = Some (tp_IP p)"
  shows "parsePeer net (peer_dict net p) = Inr p"
proof -
  have "uint (tp_Port p) \<noteq> 0" using assms(2) by (simp add: uint_0_iff)
  moreover have "\<not> 65535 < uint (tp_Port p)" using unsigned_less [of "tp_Port p", where 'a = int] by simp
  ultimately show ?thesis
    using assms(1,3) by (simp add: parsePeer_def peer_dict_def dict_String_def dict_Int_def)
qed

lemma parsePeers_peer_dicts:
  "\<forall>p \<in> set ps. length (tp_PeerID p) = 20 \<and> tp_Port p \<noteq> 0 \<and> ParseAddr net (AddrString net (tp_IP p)) = Some (tp_IP p) \<Longrightarrow>
   parsePeers net (map (peer_dict net) ps) = Inr ps"
  by (induction ps) (simp_all add: parsePeer_peer_dict)

text \<open>What a compact response keeps of a peer: its IPv4 address and port.\<close>

definition compact_view :: "TPeer \<Rightarrow> TPeer" where
  "compact_view p = p\<lparr>tp_PeerID := replicate 20 0\<rparr>"

lemma compactPeers_entry:
  assumes "Is4 (tp_IP p)" and "tp_Port p \<noteq> 0"
  shows "compactPeers (compact_entry p @ rest) = bind_r (compactPeers rest) (\<lambda>ps. Inr (compact_view p # ps))"
proof -
  obtain a b c d where ip: "tp_IP p = IPv4 a b c d" using assms(1) by (cases "tp_IP p") auto
  obtain e f where port: "PutUint16 (tp_Port p) = [e, f]" by (simp add: PutUint16_def)
  then have "Uint16 [e, f] = tp_Port p" using Uint16_PutUint16 [of "tp_Port p" "[]"] by simp
  moreover have "\<lparr>tp_PeerID = replicate 20 0, tp_IP = IPv4 a b c d, tp_Port = tp_Port p\<rparr> = compact_view p"
    using ip by (cases p) (simp add: compact_view_def)
  ultimately show ?thesis using ip port assms(2) by simp
qed

lemma compactPeers_entries:
  "\<forall>p \<in> set ps. tp_Port p \<noteq> 0 \<Longrightarrow>
   compactPeers (concat (map compact_entry ps)) = Inr (map compact_view (filter (\<lambda>p. Is4 (tp_IP p)) ps))"
proof (induction ps)
  case (Cons p ps)
  show ?case
  proof (cases "Is4 (tp_IP p)")
    case True
    then show ?thesis using Cons compactPeers_entry [OF True] by simp
  next
    case False
    then have "compact_entry p = []" by (cases "tp_IP p") auto
    then show ?thesis using Cons False by simp
  qed
qed simp

lemma length_compact_entries: "length (concat (map compact_entry ps)) = 6 * length (filter (\<lambda>p. Is4 (tp_IP p)) ps)"
proof (induction ps)
  case (Cons p ps)
  have "length (compact_entry p) = (if Is4 (tp_IP p) then 6 else 0)" by (cases "tp_IP p") simp_all
  then show ?case using Cons by simp
qed simp

lemma encodeAnnounceResponse_eq:
  assumes "Interval resp = s * second" and "0 \<le> s"
  shows "encodeAnnounceResponse net resp c = Inr (BDict
    [(bytes_of ''interval'', BInteger s),
     (bytes_of ''peers'', if c then BString (concat (map compact_entry (Peers resp)))
       else BList (map (peer_dict net) (Peers resp)))])"
  using assms by (simp add: encodeAnnounceResponse_def Let_def)

lemma decode_response_dict:
  assumes "0 \<le> s" and "s * second < 2 ^ 63"
    and "(case b_List pv of Some l \<Rightarrow> parsePeers net l | None \<Rightarrow>
           case b_String pv of Some c \<Rightarrow> if length c mod 6 \<noteq> 0 then Inl (CompactPeersLength (length c)) else compactPeers c
           | None \<Rightarrow> Inl PeersWrongType) = Inr ps"
  shows "decodeAnnounceResponse net (BDict [(bytes_of ''interval'', BInteger s), (bytes_of ''peers'', pv)]) =
    Inr \<lparr>Interval = s * second, Peers = ps\<rparr>"
proof -
  have "s \<le> (2 ^ 63 - 1) div second" using assms(2) by linarith
  moreover have "int64 (s * second) = s * second"
    using assms(1,2) by (intro int64_id) (simp add: in_int64_def)
  ultimately show ?thesis
    using assms(1,3) by (simp add: decodeAnnounceResponse_def dict_String_def dict_Int_def)
qed

text \<open>C29. Announce responses survive the wire: a response whose interval is a whole number of seconds and
  whose peers have nonzero ports decodes from its full form to itself, and from its compact form to
  the addresses and ports of its IPv4 peers, in order.  The full form relies on \<^verbatim>\<open>netip.ParseAddr\<close>
  reading back what \<^verbatim>\<open>Addr.String\<close> printed for the peers' addresses.\<close>

theorem decodeAnnounceResponse_encode:
  assumes "Interval resp = s * second" and "0 \<le> s" and "Interval resp < 2 ^ 63"
    and "\<forall>p \<in> set (Peers resp). tp_Port p \<noteq> 0"
  shows "(\<exists>v. encodeAnnounceResponse net resp True = Inr v \<and> decodeAnnounceResponse net v =
      Inr \<lparr>Interval = Interval resp, Peers = map compact_view (filter (\<lambda>p. Is4 (tp_IP p)) (Peers resp))\<rparr>) \<and>
    ((\<forall>p \<in> set (Peers resp). length (tp_PeerID p) = 20 \<and>
        ParseAddr net (AddrString net (tp_IP p)) = Some (tp_IP p)) \<longrightarrow>
     (\<exists>v. encodeAnnounceResponse net resp False = Inr v \<and> decodeAnnounceResponse net v = Inr resp))"
proof (intro conjI impI)
  have s: "s * second < 2 ^ 63" using assms(1,3) by simp
  show "\<exists>v. encodeAnnounceResponse net resp True = Inr v \<and> decodeAnnounceResponse net v =
      Inr \<lparr>Interval = Interval resp, Peers = map compact_view (filter (\<lambda>p. Is4 (tp_IP p)) (Peers resp))\<rparr>"
    using decode_response_dict [OF assms(2) s, of "BString (concat (map compact_entry (Peers resp)))"]
      compactPeers_entries [OF assms(4)] length_compact_entries [of "Peers resp"]
    by (simp add: encodeAnnounceResponse_eq [OF assms(1,2)] assms(1))
  assume "\<forall>p \<in> set (Peers resp). length (tp_PeerID p) = 20 \<and> ParseAddr net (AddrString net (tp_IP p)) = Some (tp_IP p)"
  then have "parsePeers net (map (peer_dict net) (Peers resp)) = Inr (Peers resp)"
    using assms(4) by (intro parsePeers_peer_dicts) auto
  moreover have "\<lparr>Interval = s * second, Peers = Peers resp\<rparr> = resp" using assms(1) by (cases resp) simp
  ultimately show "\<exists>v. encodeAnnounceResponse net resp False = Inr v \<and> decodeAnnounceResponse net v = Inr resp"
    using decode_response_dict [OF assms(2) s, of "BList (map (peer_dict net) (Peers resp))" net "Peers resp"]
    by (simp add: encodeAnnounceResponse_eq [OF assms(1,2)])
qed

text \<open>The text forms of IPv4 addresses, which discharge what the theorem relies on.\<close>

definition octet :: "gostring \<Rightarrow> byte option" where
  "octet s =
     (if no_leading_zero s \<and> list_all is_digit s \<and> digits_val s < 256 then Some (of_nat (digits_val s)) else None)"

definition ParseIPv4 :: "gostring \<Rightarrow> Addr option" where
  "ParseIPv4 s =
     (case map octet (split_on 46 s) of
        [Some a, Some b, Some c, Some d] \<Rightarrow> if last s = 46 then None else Some (IPv4 a b c d)
      | _ \<Rightarrow> None)"

fun IPv4_String :: "Addr \<Rightarrow> gostring" where
  "IPv4_String (IPv4 a b c d) = join 46 (map (\<lambda>x. nat_decimal (unat x)) [a, b, c, d])"
| "IPv4_String _ = bytes_of ''invalid IP''"

definition ipv4_net :: netlib where
  "ipv4_net = \<lparr>ParseAddr = ParseIPv4, AddrString = IPv4_String,
     ParseAddrPort = (\<lambda>s. case str_Cut 58 s of (ip, port) \<Rightarrow>
       (case (ParseIPv4 ip, ParseUint port) of
          (Some a, Inr n) \<Rightarrow> if n < 65536 then Some (a, of_nat n) else None
        | _ \<Rightarrow> None)),
     AddrPortString = (\<lambda>(a, p). IPv4_String a @ 58 # nat_decimal (unat p)),
     ErrorText = (\<lambda>_. bytes_of ''error'')\<rparr>"

lemma nat_decimal_no: "\<not> is_digit d \<Longrightarrow> d \<notin> set (nat_decimal n)"
  using list_all_is_digit_nat_decimal [of n] by (auto simp: list_all_iff)

lemma ParseIPv4_String: "Is4 a \<Longrightarrow> ParseIPv4 (IPv4_String a) = Some a"
proof -
  assume "Is4 a"
  then obtain w x y z where a: "a = IPv4 w x y z" by (cases a) auto
  let ?ss = "map (\<lambda>x. nat_decimal (unat x)) [w, x, y, z]"
  have no: "46 \<notin> set (nat_decimal n)" for n by (rule nat_decimal_no) (simp add: is_digit_def)
  then have sp: "split_on 46 (join 46 ?ss) = ?ss" by (intro split_on_join) auto
  have o: "octet (nat_decimal (unat b)) = Some b" for b :: byte
    using unat_byte_bound [of b] by (simp add: octet_def)
  have "last (join 46 ?ss) = last (nat_decimal (unat z))" by simp
  then have "last (join 46 ?ss) \<noteq> 46" using no [of "unat z"] last_in_set [OF nat_decimal_nonempty] by metis
  then show ?thesis using sp by (simp add: a ParseIPv4_def o)
qed

theorem decodeAnnounceResponse_encode_witness:
  "\<exists>v. encodeAnnounceResponse ipv4_net
       \<lparr>Interval = 30 * second, Peers = [\<lparr>tp_PeerID = replicate 20 7, tp_IP = IPv4 127 0 0 1, tp_Port = 6881\<rparr>]\<rparr> False = Inr v \<and>
     decodeAnnounceResponse ipv4_net v = Inr
       \<lparr>Interval = 30 * second, Peers = [\<lparr>tp_PeerID = replicate 20 7, tp_IP = IPv4 127 0 0 1, tp_Port = 6881\<rparr>]\<rparr>"
  using decodeAnnounceResponse_encode [of "\<lparr>Interval = 30 * second,
      Peers = [\<lparr>tp_PeerID = replicate 20 7, tp_IP = IPv4 127 0 0 1, tp_Port = 6881\<rparr>]\<rparr>" 30 ipv4_net]
    ParseIPv4_String [of "IPv4 127 0 0 1"]
  by (simp add: ipv4_net_def)

end
