(* ===== verification/Tracker_Correct.thy ===== *)
theory Tracker_Correct
  imports Tracker_Wire Systems
begin

text \<open>
  The tracker as a service: the server implements a registry of live peers, a snapshot shows exactly
  what the registry holds, and an announce of the client returns what the server answered.
\<close>

subsection \<open>Swarms\<close>

definition wf_server :: "Server \<Rightarrow> bool" where
  "wf_server s \<longleftrightarrow>
     distinct (keys (swarms s)) \<and> (\<forall>(infoHash, swarm) \<in> set (swarms s). swarm \<noteq> [] \<and> distinct (keys swarm))"

lemma swarm_of_store:
  "swarm_of (store_swarm s h sw) h' = (if h' = h then sw else swarm_of s h')"
  by (simp add: swarm_of_def store_swarm_def)

lemma store_swarm_simps [simp]:
  "sv_interval (store_swarm s h sw) = sv_interval s" "peerTTL (store_swarm s h sw) = peerTTL s"
  "allowedInfoHashes (store_swarm s h sw) = allowedInfoHashes s"
  by (simp_all add: store_swarm_def)

lemma wf_server_store:
  assumes "wf_server s" and "distinct (keys sw)"
  shows "wf_server (store_swarm s h sw)"
proof (cases "sw = []")
  case True
  have "set (m_del h (swarms s)) \<subseteq> set (swarms s)" by (induction "swarms s") (auto simp: AList.delete_eq)
  then show ?thesis using assms True by (auto simp: wf_server_def store_swarm_def)
next
  case False
  have "set (m_put h sw xs) \<subseteq> insert (h, sw) (set xs)" for xs by (induction xs) auto
  then show ?thesis using assms False by (fastforce simp: wf_server_def store_swarm_def)
qed

lemma distinct_swarm_of: "wf_server s \<Longrightarrow> distinct (keys (swarm_of s h))"
  by (auto simp: wf_server_def swarm_of_def split: option.splits dest!: map_of_SomeD)

lemma m_get_filter:
  "distinct (keys xs) \<Longrightarrow> m_get (filter (\<lambda>(k, v). P v) xs) k = (case m_get xs k of Some v \<Rightarrow> if P v then Some v else None | None \<Rightarrow> None)"
proof (induction xs)
  case (Cons x xs)
  obtain j v where x: "x = (j, v)" by (cases x)
  have "j \<notin> set (keys (filter (\<lambda>(k, v). P v) xs))" using Cons.prems x by auto
  then have "m_get (filter (\<lambda>(k, v). P v) xs) j = None" by (simp only: map_of_eq_None_iff set_map image_iff) auto
  then show ?case using Cons x by (auto split: option.splits)
qed simp

lemma distinct_keys_filter: "distinct (keys xs) \<Longrightarrow> distinct (keys (filter P xs))"
  by (rule distinct_map_filter)

subsection \<open>The registry of live peers\<close>

text \<open>What a server promises about peer \<open>pid\<close> of torrent \<open>h\<close> at time \<open>t\<close>: its last announce, unless
  it stopped or its time to live has run out.\<close>

type_synonym registry = "gostring \<Rightarrow> gostring \<Rightarrow> trackedPeer option"

definition expired :: "Server \<Rightarrow> int \<Rightarrow> trackedPeer \<Rightarrow> bool" where
  "expired s t p \<longleftrightarrow> time_Sub t (LastSeen p) > peerTTL s"

definition view :: "Server \<Rightarrow> int \<Rightarrow> registry" where
  "view s t h pid = (case m_get (swarm_of s h) pid of Some p \<Rightarrow> if expired s t p then None else Some p | None \<Rightarrow> None)"

text \<open>The abstract announce: the peer's entry is set, or removed when it stops; nothing else changes.\<close>

definition registry_announce :: "AnnounceRequest \<Rightarrow> trackedPeer option \<Rightarrow> registry \<Rightarrow> registry" where
  "registry_announce r entry reg = reg(ar_InfoHash r := (reg (ar_InfoHash r))(ar_PeerID r := entry))"

definition entry_of :: "AnnounceRequest \<Rightarrow> Addr \<Rightarrow> int \<Rightarrow> trackedPeer" where
  "entry_of r address now = \<lparr>Address = (address, ar_Port r), LastSeen = now, tk_Left = ar_Left r\<rparr>"

lemma time_Sub_mono: "now \<le> t \<Longrightarrow> time_Sub now x \<le> time_Sub t x"
  by (simp add: time_Sub_def)

lemma expired_mono: "now \<le> t \<Longrightarrow> expired s now p \<Longrightarrow> expired s t p"
  using time_Sub_mono [of now t "LastSeen p"] by (simp add: expired_def)

lemma expired_store [simp]: "expired (store_swarm s h sw) = expired s"
  by (simp add: expired_def fun_eq_iff)

lemma prune_simps [simp]:
  "sv_interval (pruneSwarmLocked s h now) = sv_interval s" "peerTTL (pruneSwarmLocked s h now) = peerTTL s"
  "allowedInfoHashes (pruneSwarmLocked s h now) = allowedInfoHashes s" "expired (pruneSwarmLocked s h now) = expired s"
  by (simp_all add: pruneSwarmLocked_def expired_def fun_eq_iff)

lemma swarm_of_prune:
  "swarm_of (pruneSwarmLocked s h now) h' =
     (if h' = h then filter (\<lambda>(pid, p). \<not> expired s now p) (swarm_of s h) else swarm_of s h')"
  by (simp add: pruneSwarmLocked_def swarm_of_store expired_def)

lemma wf_server_prune: "wf_server s \<Longrightarrow> wf_server (pruneSwarmLocked s h now)"
  unfolding pruneSwarmLocked_def by (intro wf_server_store distinct_keys_filter distinct_swarm_of)

text \<open>Pruning is invisible.\<close>

lemma view_prune:
  assumes "wf_server s" and "now \<le> t"
  shows "view (pruneSwarmLocked s h now) t = view s t"
  using m_get_filter [OF distinct_swarm_of [OF assms(1), of h], of "\<lambda>p. \<not> expired s now p"]
    expired_mono [OF assms(2), of s]
  by (auto simp: view_def fun_eq_iff swarm_of_prune split: option.splits)

lemma view_store:
  "view (store_swarm s h sw) t h' pid =
     (if h' = h then (case m_get sw pid of Some p \<Rightarrow> if expired s t p then None else Some p | None \<Rightarrow> None)
      else view s t h' pid)"
  by (simp add: view_def swarm_of_store split: option.split)

lemma collectPeers_eq:
  "length acc < maxPeersPerAnnounce \<Longrightarrow>
   collectPeers self sw acc = acc @ take (maxPeersPerAnnounce - length acc)
     (map (\<lambda>(pid, p). \<lparr>tp_PeerID = pid, tp_IP = fst (Address p), tp_Port = snd (Address p)\<rparr>)
       (filter (\<lambda>(pid, p). pid \<noteq> self) sw))"
proof (induction self sw acc rule: collectPeers.induct)
  case (2 self pid p rest acc)
  show ?case
  proof (cases "pid = self")
    case True
    then show ?thesis using 2 by simp
  next
    case False
    let ?e = "\<lparr>tp_PeerID = pid, tp_IP = fst (Address p), tp_Port = snd (Address p)\<rparr>"
    obtain m where m: "maxPeersPerAnnounce - length acc = Suc m"
      using 2(3) by (metis Suc_diff_Suc)
    show ?thesis
    proof (cases "length (acc @ [?e]) = maxPeersPerAnnounce")
      case True
      then have "m = 0" using m by simp
      then show ?thesis using False True m by simp
    next
      case F: False
      then have "length (acc @ [?e]) < maxPeersPerAnnounce" using 2(3) by simp
      moreover have "maxPeersPerAnnounce - length (acc @ [?e]) = m" using m by simp
      ultimately show ?thesis using 2(2) [OF False refl F] False F m by simp
    qed
  qed
qed simp

definition live_others :: "Server \<Rightarrow> int \<Rightarrow> AnnounceRequest \<Rightarrow> gostring set" where
  "live_others s now r = {pid. pid \<noteq> ar_PeerID r \<and> view s now (ar_InfoHash r) pid \<noteq> None}"

definition others :: "Server \<Rightarrow> int \<Rightarrow> AnnounceRequest \<Rightarrow> swarm" where
  "others s now r =
     filter (\<lambda>(pid, p). pid \<noteq> ar_PeerID r) (filter (\<lambda>(pid, p). \<not> expired s now p) (swarm_of s (ar_InfoHash r)))"

lemma filter_put: "filter (\<lambda>(k, v). k \<noteq> a) (m_put a x m) = filter (\<lambda>(k, v). k \<noteq> a) m"
  by (induction m) auto

lemma filter_del: "filter (\<lambda>(k, v). k \<noteq> a) (m_del a m) = filter (\<lambda>(k, v). k \<noteq> a) m"
  by (induction m) auto

lemma m_get_others:
  assumes "wf_server s"
  shows "m_get (others s now r) pid = (if pid = ar_PeerID r then None else view s now (ar_InfoHash r) pid)"
proof -
  have "map_of (filter (\<lambda>(k, v). k \<noteq> a) m) = (map_of m)(a := None)" for a :: gostring and m :: swarm
    by (induction m) (auto simp: fun_eq_iff)
  then show ?thesis
    unfolding others_def view_def
    using m_get_filter [OF distinct_swarm_of [OF assms, of "ar_InfoHash r"], of "\<lambda>p. \<not> expired s now p" pid]
    by (simp del: filter_filter split: option.splits)
qed

lemma others_facts:
  assumes "wf_server s"
  shows "distinct (keys (others s now r))" and "set (keys (others s now r)) = live_others s now r"
    and "(pid, p) \<in> set (others s now r) \<longleftrightarrow> pid \<noteq> ar_PeerID r \<and> view s now (ar_InfoHash r) pid = Some p"
proof -
  show d: "distinct (keys (others s now r))"
    unfolding others_def by (intro distinct_keys_filter distinct_swarm_of assms)
  show "(pid, p) \<in> set (others s now r) \<longleftrightarrow> pid \<noteq> ar_PeerID r \<and> view s now (ar_InfoHash r) pid = Some p" for pid p
    using map_of_eq_Some_iff [OF d, of pid p] m_get_others [OF assms, of now r pid] by (auto split: if_splits)
  have "pid \<in> set (keys (others s now r)) \<longleftrightarrow> pid \<in> live_others s now r" for pid
    using map_of_eq_None_iff [of "others s now r" pid] m_get_others [OF assms, of now r pid]
    by (simp add: live_others_def del: not_None_eq split: if_splits) blast?
  then show "set (keys (others s now r)) = live_others s now r" by blast
qed

lemma sv_announce_eq:
  assumes "sv_announce s r address now = (resp, s')"
  shows "s' = store_swarm (pruneSwarmLocked s (ar_InfoHash r) now) (ar_InfoHash r)
      (let sw = swarm_of (pruneSwarmLocked s (ar_InfoHash r) now) (ar_InfoHash r) in
       if ar_Event r = StoppedEvent then m_del (ar_PeerID r) sw
       else m_put (ar_PeerID r) (entry_of r address now) sw)"
    and "resp = \<lparr>Interval = sv_interval s, Peers = take maxPeersPerAnnounce
      (map (\<lambda>(pid, p). \<lparr>tp_PeerID = pid, tp_IP = fst (Address p), tp_Port = snd (Address p)\<rparr>) (others s now r))\<rparr>"
proof -
  show "s' = store_swarm (pruneSwarmLocked s (ar_InfoHash r) now) (ar_InfoHash r)
      (let sw = swarm_of (pruneSwarmLocked s (ar_InfoHash r) now) (ar_InfoHash r) in
       if ar_Event r = StoppedEvent then m_del (ar_PeerID r) sw
       else m_put (ar_PeerID r) (entry_of r address now) sw)"
    using assms by (auto simp: sv_announce_def Let_def entry_of_def)
  have "0 < maxPeersPerAnnounce" by (simp add: maxPeersPerAnnounce_def)
  then show "resp = \<lparr>Interval = sv_interval s, Peers = take maxPeersPerAnnounce
      (map (\<lambda>(pid, p). \<lparr>tp_PeerID = pid, tp_IP = fst (Address p), tp_Port = snd (Address p)\<rparr>) (others s now r))\<rparr>"
    using assms collectPeers_eq [of "[]" "ar_PeerID r"]
    by (auto simp: sv_announce_def Let_def others_def swarm_of_prune filter_put filter_del)
qed

lemma wf_server_announce:
  assumes "wf_server s"
  shows "wf_server (snd (sv_announce s r address now))"
proof -
  obtain resp s' where a: "sv_announce s r address now = (resp, s')" by fastforce
  have "distinct (keys (swarm_of (pruneSwarmLocked s (ar_InfoHash r) now) (ar_InfoHash r)))"
    by (intro distinct_swarm_of wf_server_prune assms)
  then show ?thesis
    using sv_announce_eq(1) [OF a] a by (auto simp: Let_def intro!: wf_server_store wf_server_prune assms)
qed

text \<open>C26. The server implements the registry: an announce sets the announcing peer's entry (or removes it
  when the peer stops) and changes no other live peer of any torrent, as seen at any later time; an
  entry lives for the time to live after its last announce.  The answer holds the server's interval
  and live peers of that torrent only, each once, never the announcing peer, fifty of them or all
  there are.\<close>

theorem sv_announce_refines_registry:
  assumes "wf_server s" and "sv_announce s r address now = (resp, s')" and "now \<le> t"
  shows "wf_server s' \<and>
    view s' t = registry_announce r
      (if ar_Event r = StoppedEvent \<or> time_Sub t now > peerTTL s then None else Some (entry_of r address now))
      (view s t) \<and>
    Interval resp = sv_interval s \<and> distinct (map tp_PeerID (Peers resp)) \<and>
    length (Peers resp) = min 50 (card (live_others s now r)) \<and>
    (\<forall>p \<in> set (Peers resp). tp_PeerID p \<noteq> ar_PeerID r \<and>
       (\<exists>e. view s now (ar_InfoHash r) (tp_PeerID p) = Some e \<and> Address e = (tp_IP p, tp_Port p)))"
proof (intro conjI)
  let ?h = "ar_InfoHash r" and ?s1 = "pruneSwarmLocked s (ar_InfoHash r) now"
  show "wf_server s'" using wf_server_announce [OF assms(1)] assms(2) by (metis snd_conv)
  note eq = sv_announce_eq [OF assms(2)] and O = others_facts [OF assms(1), where now = now and r = r]
  show "Interval resp = sv_interval s" by (simp add: eq(2))
  have ids: "map tp_PeerID (Peers resp) = take maxPeersPerAnnounce (keys (others s now r))"
    by (simp add: eq(2) take_map comp_def case_prod_unfold)
  show "distinct (map tp_PeerID (Peers resp))" unfolding ids using O(1) by (rule distinct_take)
  have "card (live_others s now r) = length (others s now r)"
    using distinct_card [OF O(1)] O(2) by simp
  then show "length (Peers resp) = min 50 (card (live_others s now r))"
    by (simp add: eq(2) maxPeersPerAnnounce_def min.commute)
  show "\<forall>p \<in> set (Peers resp). tp_PeerID p \<noteq> ar_PeerID r \<and>
      (\<exists>e. view s now ?h (tp_PeerID p) = Some e \<and> Address e = (tp_IP p, tp_Port p))"
    using O(3) by (auto simp: eq(2) dest!: in_set_takeD)
  have live: "expired s t (entry_of r address now) \<longleftrightarrow> time_Sub t now > peerTTL s"
    by (simp add: expired_def entry_of_def)
  have "view s' t h pid = (if h = ?h \<and> pid = ar_PeerID r
      then (if ar_Event r = StoppedEvent \<or> time_Sub t now > peerTTL s then None else Some (entry_of r address now))
      else view ?s1 t h pid)" for h pid
    using live by (auto simp: eq(1) Let_def view_store) (auto simp: view_def)
  then show "view s' t = registry_announce r
      (if ar_Event r = StoppedEvent \<or> time_Sub t now > peerTTL s then None else Some (entry_of r address now)) (view s t)"
    unfolding view_prune [OF assms(1,3)] by (auto simp: registry_announce_def fun_eq_iff)
qed

definition demo_server :: Server where
  "demo_server = \<lparr>sv_interval = 30 * second, peerTTL = 90 * second,
     swarms = [(replicate 20 38, [(replicate 20 7, \<lparr>Address = (IPv4 127 0 0 1, 6882), LastSeen = 0, tk_Left = 3\<rparr>)])],
     allowedInfoHashes = None\<rparr>"

lemma wf_demo_server: "wf_server demo_server"
  by (simp add: wf_server_def demo_server_def)

lemma demo_server_view:
  "view demo_server second (replicate 20 38) (replicate 20 7) =
     Some \<lparr>Address = (IPv4 127 0 0 1, 6882), LastSeen = 0, tk_Left = 3\<rparr>"
  "view demo_server second h pid \<noteq> None \<Longrightarrow> h = replicate 20 38 \<and> pid = replicate 20 7"
  by (auto simp: view_def swarm_of_def demo_server_def expired_def time_Sub_def split: if_splits)

theorem sv_announce_refines_registry_witness:
  "\<exists>resp s'. sv_announce demo_server demo_request (IPv4 10 0 0 1) second = (resp, s') \<and>
     length (Peers resp) = 1 \<and> view s' second (replicate 20 38) (replicate 20 0) = Some (entry_of demo_request (IPv4 10 0 0 1) second)"
proof -
  obtain resp s' where a: "sv_announce demo_server demo_request (IPv4 10 0 0 1) second = (resp, s')" by fastforce
  have "live_others demo_server second demo_request = {replicate 20 7}"
    using demo_server_view by (auto simp: live_others_def demo_request_def)
  moreover have "StartedEvent \<noteq> StoppedEvent" by (simp add: StartedEvent_def StoppedEvent_def)
  ultimately show ?thesis
    using sv_announce_refines_registry [OF wf_demo_server a, of second] a
    by (simp add: registry_announce_def demo_request_def time_Sub_def demo_server_def)
qed

subsection \<open>Snapshots\<close>

lemma prune_fold:
  "wf_server s \<Longrightarrow>
   wf_server (fold (\<lambda>h s. pruneSwarmLocked s h now) hs s) \<and>
   allowedInfoHashes (fold (\<lambda>h s. pruneSwarmLocked s h now) hs s) = allowedInfoHashes s \<and>
   (\<forall>h. swarm_of (fold (\<lambda>h s. pruneSwarmLocked s h now) hs s) h =
      (if h \<in> set hs then filter (\<lambda>(pid, p). \<not> expired s now p) (swarm_of s h) else swarm_of s h)) \<and>
   (\<forall>t \<ge> now. view (fold (\<lambda>h s. pruneSwarmLocked s h now) hs s) t = view s t)"
proof (induction hs arbitrary: s)
  case (Cons k hs)
  show ?case
    using Cons.IH [OF wf_server_prune [OF Cons.prems, of k now]] view_prune [OF Cons.prems, of now]
    by (auto simp: swarm_of_prune)
qed simp

lemma swarm_of_empty: "h \<notin> set (keys (swarms s)) \<Longrightarrow> swarm_of s h = []"
  using map_of_eq_None_iff [of "swarms s" h] by (simp add: swarm_of_def)

lemma keys_swarms: "wf_server s \<Longrightarrow> h \<in> set (keys (swarms s)) \<longleftrightarrow> swarm_of s h \<noteq> []"
  using map_of_eq_None_iff [of "swarms s" h]
  by (cases "m_get (swarms s) h") (auto simp: swarm_of_def wf_server_def dest: map_of_SomeD)

lemma prune_all_facts:
  assumes "wf_server s"
  shows "wf_server (prune_all s now)"
    and "swarm_of (prune_all s now) h = filter (\<lambda>(pid, p). \<not> expired s now p) (swarm_of s h)"
    and "allowedInfoHashes (prune_all s now) = allowedInfoHashes s"
    and "now \<le> t \<Longrightarrow> view (prune_all s now) t = view s t"
  using prune_fold [OF assms, of now "keys (swarms s)"] swarm_of_empty [of h s] by (auto simp: prune_all_def)

lemma view_iff_live:
  "wf_server s \<Longrightarrow> view s now h pid = Some p \<longleftrightarrow> (pid, p) \<in> set (filter (\<lambda>(pid, p). \<not> expired s now p) (swarm_of s h))"
  using map_of_eq_Some_iff [OF distinct_swarm_of [of s h], of pid p]
  by (auto simp: view_def split: option.splits if_splits)

lemma sorted_hex:
  assumes "distinct xs" and "\<And>x. f (g x) = hex_encode (e x)" and "inj_on e (set xs)"
  shows "sorted_wrt (<) (map f (sort_key f (map g xs)))"
proof -
  have "distinct (map f (map g xs))"
    using assms by (auto simp: distinct_map comp_def inj_on_def hex_encode_inj)
  moreover have "mset (map f (sort_key f (map g xs))) = mset (map f (map g xs))" by (simp only: mset_map mset_sort)
  ultimately have "distinct (map f (sort_key f (map g xs)))" using mset_eq_imp_distinct_iff by blast
  then show ?thesis by (simp add: strict_sorted_iff)
qed

text \<open>C27. A snapshot shows exactly the live peers: its swarms are the torrents with a live peer and the
  allowed ones, in order of their hexadecimal hash, each with the live peers of that torrent in order
  of their id; taking it changes nothing that can be seen of the registry.\<close>

theorem sv_snapshot_exact:
  assumes "wf_server s" and "sv_snapshot net s now = (snap, s')"
  shows "wf_server s' \<and> (\<forall>t. now \<le> t \<longrightarrow> view s' t = view s t) \<and>
    sorted_wrt (<) (map sn_InfoHash (Swarms snap)) \<and>
    (\<forall>h. (\<exists>sw \<in> set (Swarms snap). sn_InfoHash sw = hex_encode h) \<longleftrightarrow>
       (\<exists>pid. view s now h pid \<noteq> None) \<or> (\<exists>hs. allowedInfoHashes s = Some hs \<and> h \<in> set hs)) \<and>
    (\<forall>sw \<in> set (Swarms snap). \<forall>h. sn_InfoHash sw = hex_encode h \<longrightarrow>
       sorted_wrt (<) (map sn_PeerID (sn_Peers sw)) \<and>
       set (sn_Peers sw) = {peer_snapshot net pid p | pid p. view s now h pid = Some p})"
proof (intro conjI allI ballI impI)
  let ?live = "\<lambda>h. filter (\<lambda>(pid, p). \<not> expired s now p) (swarm_of s h)"
  note P = prune_all_facts [OF assms(1), of now]
  have s': "s' = prune_all s now" using assms(2) by (auto simp: sv_snapshot_def Let_def)
  show "wf_server s'" "\<And>t. now \<le> t \<Longrightarrow> view s' t = view s t" using P by (auto simp: s')
  define hs where "hs = remdups (keys (swarms s') @ (case allowedInfoHashes s of None \<Rightarrow> [] | Some hs \<Rightarrow> hs))"
  have sw: "Swarms snap = sort_key sn_InfoHash
      (map (\<lambda>h. \<lparr>sn_InfoHash = hex_encode h, sn_Peers = peer_snapshots net (?live h)\<rparr>) hs)"
    using assms(2) P(2,3) by (auto simp: sv_snapshot_def Let_def hs_def s')
  show "sorted_wrt (<) (map sn_InfoHash (Swarms snap))"
    unfolding sw by (rule sorted_hex [where e = id]) (auto simp: hs_def)
  have ne: "?live h \<noteq> [] \<longleftrightarrow> (\<exists>pid. view s now h pid \<noteq> None)" for h
    using view_iff_live [OF assms(1), of now h] by (metis (no_types, lifting) list.set_intros(1) list.set(1)
        empty_iff neq_Nil_conv not_None_eq surj_pair)
  have hs: "h \<in> set hs \<longleftrightarrow> (\<exists>pid. view s now h pid \<noteq> None) \<or> (\<exists>hs. allowedInfoHashes s = Some hs \<and> h \<in> set hs)" for h
    using keys_swarms [OF P(1), of h] ne [of h] by (auto simp: hs_def s' P(2) split: option.splits)
  show "(\<exists>sw \<in> set (Swarms snap). sn_InfoHash sw = hex_encode h) \<longleftrightarrow>
      (\<exists>pid. view s now h pid \<noteq> None) \<or> (\<exists>hs. allowedInfoHashes s = Some hs \<and> h \<in> set hs)" for h
    unfolding hs [symmetric] sw by (auto simp: hex_encode_inj)
  fix w h
  assume "w \<in> set (Swarms snap)" and "sn_InfoHash w = hex_encode h"
  then have w: "sn_Peers w = peer_snapshots net (?live h)" by (auto simp: sw hex_encode_inj)
  have "distinct (keys (?live h))" by (intro distinct_keys_filter distinct_swarm_of assms(1))
  then show "sorted_wrt (<) (map sn_PeerID (sn_Peers w))"
    unfolding w peer_snapshots_def by (intro sorted_hex [where e = fst]) (auto simp: distinct_map peer_snapshot_def)
  show "set (sn_Peers w) = {peer_snapshot net pid p | pid p. view s now h pid = Some p}"
    unfolding w peer_snapshots_def view_iff_live [OF assms(1)] by auto
qed

theorem sv_snapshot_exact_witness:
  "\<exists>sw \<in> set (Swarms (fst (sv_snapshot ipv4_net demo_server second))). sn_InfoHash sw = hex_encode (replicate 20 38)"
proof -
  obtain snap s' where "sv_snapshot ipv4_net demo_server second = (snap, s')" by fastforce
  then show ?thesis
    using sv_snapshot_exact [OF wf_demo_server, of ipv4_net second snap s'] demo_server_view(1) by fastforce
qed

subsection \<open>Client and server together\<close>

text \<open>The transport: the query of the URL reaches the server, and the client reads the whole answer.\<close>

definition served :: "netlib \<Rightarrow> Server \<Rightarrow> gostring \<Rightarrow> int \<Rightarrow> URL \<Rightarrow> (nat \<times> byte list \<times> io_error) option" where
  "served net s remote now url =
     (case ServeHTTP net s \<lparr>hr_Method = bytes_of ''GET'', hr_RawQuery = RawQuery url, RemoteAddr = remote\<rparr> now of
        (resp, _) \<Rightarrow> Some (StatusCode resp, hs_Body resp, ErrEOF))"

abbreviation compact_body :: "int \<Rightarrow> TPeer list \<Rightarrow> Bencoding" where
  "compact_body n ps \<equiv> BDict [(bytes_of ''interval'', BInteger n), (bytes_of ''peers'', BString (concat (map compact_entry ps)))]"

lemma compact_body_sorted: "sorted_wrt (<) [bytes_of ''interval'', bytes_of ''peers'']"
  by (simp add: bytes_of_def)

lemma compact_body_size:
  assumes "0 \<le> n" "n < 2 ^ 63" and "length ps \<le> 50"
  shows "length (bencode (compact_body n ps)) \<le> maxResponseSize" and "decodable 0 (compact_body n ps)"
proof -
  let ?c = "concat (map compact_entry ps)"
  have c: "length ?c \<le> 300"
    using length_compact_entries [of ps] length_filter_le [of "\<lambda>p. Is4 (tp_IP p)" ps] assms(3) by linarith
  have "nat n < 10 ^ 19" using assms by (simp add: nat_less_iff)
  then have "length (FormatInt n) \<le> 19"
    using assms(1) length_nat_decimal [of 19 "nat n"] by (simp add: FormatInt_def)
  moreover have "length (nat_decimal (length ?c)) \<le> 3" using c by (intro length_nat_decimal) simp_all
  moreover have "m < 10 \<Longrightarrow> length (nat_decimal m) = 1" for m by (simp add: nat_decimal_small)
  ultimately show "length (bencode (compact_body n ps)) \<le> maxResponseSize"
    using c compact_body_sorted
    by (simp add: bencode_dict_ordered benc_entries_def bstr_def maxResponseSize_def del: bencode.simps(5))
  show "decodable 0 (compact_body n ps)"
    using assms c by (simp add: maxBencodingDepth_def maxBencodedStringLength_def in_int64_def)
qed

text \<open>End to end: a client that announces a valid compact request to a tracker that allows the torrent
  gets back exactly what the server computed for it, reduced to the addresses and ports of its IPv4
  peers, and the server has registered the client under the address the request came from.  The
  server's interval is a whole number of seconds (as \<^verbatim>\<open>NewServer\<close> requires) and the registered ports are
  not zero (as \<^verbatim>\<open>parseAnnounceRequest\<close> requires).\<close>

theorem announce_end_to_end:
  assumes "wf_server s" and "valid_request r" and "ar_Compact r" and "sv_allows s (ar_InfoHash r)"
    and "url_Parse u = Some base" and "length (v_pairs (url_Query (RawQuery base))) + 8 \<le> maxQueryParams"
    and "ParseAddrPort net remote = Some (a, port)"
    and "sv_interval s = n * second" "0 \<le> n" "sv_interval s < 2 ^ 63"
    and "\<forall>pid e. view s now (ar_InfoHash r) pid = Some e \<longrightarrow> snd (Address e) \<noteq> 0"
    and "sv_announce s r (Unmap a) now = (resp, s')"
  shows "tracker_Announce net url_Parse (served net s remote now) u r =
      Inr \<lparr>Interval = sv_interval s, Peers = map compact_view (filter (\<lambda>p. Is4 (tp_IP p)) (Peers resp))\<rparr> \<and>
    (\<exists>url. buildAnnounceUrl url_Parse u r = Inr url \<and>
       snd (ServeHTTP net s \<lparr>hr_Method = bytes_of ''GET'', hr_RawQuery = RawQuery url, RemoteAddr = remote\<rparr> now) = s')"
proof -
  let ?p = "announce_params (url_Query (RawQuery base)) r"
  let ?url = "base\<lparr>RawQuery := v_Encode ?p\<rparr>"
  let ?b = "compact_body n (Peers resp)"
  have url: "buildAnnounceUrl url_Parse u r = Inr ?url" using assms(5) by (simp add: buildAnnounceUrl_def)
  have "unat (ar_Port r) < 2 ^ 64" using unat_uint16_bound [of "ar_Port r"] by simp
  then have parse: "parseAnnounceRequest (v_Encode ?p) = Inr r"
    using parseAnnounceRequest_params [OF _ _ _ announce_params_url [OF assms(6), of r], of r "url_Query (RawQuery base)" "unat (ar_Port r)"]
      assms(2) announce_params_get(3) [of "url_Query (RawQuery base)" r]
    by (simp add: valid_request_def)
  note eq = sv_announce_eq(2) [OF assms(12)]
  have I: "Interval resp = n * second" and len: "length (Peers resp) \<le> 50"
    using assms(8) by (simp_all add: eq maxPeersPerAnnounce_def)
  have ports: "\<forall>p \<in> set (Peers resp). tp_Port p \<noteq> 0"
    using assms(11) others_facts(3) [OF assms(1)] by (fastforce simp: eq dest!: in_set_takeD)
  have n: "n * second < 2 ^ 63" "n < 2 ^ 63" using assms(8-10) by simp_all
  note B = compact_body_size [OF assms(9) n(2) len]
  have enc: "Encode ?b = Inr (bencode ?b)" by (intro Encode_encodable decodable_encodable [OF B(2)])
  have "ordered ?b" using compact_body_sorted by simp
  then have dec: "Decode ErrEOF (bencode ?b) = Inr ?b"
    using Decode_bencode [OF B(2)] canon_ordered by metis
  have serve: "ServeHTTP net s \<lparr>hr_Method = bytes_of ''GET'', hr_RawQuery = v_Encode ?p, RemoteAddr = remote\<rparr> now =
      (\<lparr>StatusCode = 200, ContentType = bytes_of ''text/plain'', hs_Body = bencode ?b\<rparr>, s')"
    using assms(3,4,7,9,12) parse enc encodeAnnounceResponse_eq [OF I assms(9), of net True]
    by (simp add: ServeHTTP_def tracker_writeBencoding_def)
  have "decodeAnnounceResponse net ?b =
      Inr \<lparr>Interval = n * second, Peers = map compact_view (filter (\<lambda>p. Is4 (tp_IP p)) (Peers resp))\<rparr>"
    using compactPeers_entries [OF ports] length_compact_entries [of "Peers resp"]
    by (intro decode_response_dict [OF assms(9) n(1)]) simp
  then show ?thesis
    using url serve dec B(1) assms(8) by (simp add: tracker_Announce_def served_def)
qed

end
