(* ===== verification/Tracker_Command.thy ===== *)
theory Tracker_Command
  imports Go_Command Tracker_Correct Metainfo
begin

text \<open>
  The command \<^verbatim>\<open>tracker serve\<close>, \<^verbatim>\<open>src/cmd/tracker/main.go\<close>: its configuration from the environment and the
  flags, the list of allowed torrents and the start of the server.  Directories, files, the joining of
  paths and \<^verbatim>\<open>time.ParseDuration\<close> are the record \<open>oslib\<close>; an opened file is its content, the error that ends it
  and the result of closing it.
\<close>

record oslib =
  os_Open :: "gostring \<Rightarrow> io_error + byte list \<times> io_error \<times> io_error option"
  os_ReadDir :: "gostring \<Rightarrow> io_error + (gostring \<times> bool) list"
  filepath_Join :: "gostring \<Rightarrow> gostring \<Rightarrow> gostring"
  ParseDuration :: "gostring \<Rightarrow> int option"

record commandConfig =
  ListenAddress :: gostring
  StatusAddress :: gostring
  cc_Tracker :: Config

datatype command_error =
    EnvEmpty string
  | EnvBadDuration string
  | EnvEmptyValue string
  | FlagFailed flag_error
  | UnexpectedArguments "gostring list"
  | OpenAllowed gostring io_error
  | ReadAllowed gostring metainfo_error
  | CloseAllowed gostring io_error
  | BadHexInfoHash gostring
  | InfoHashLength gostring nat
  | ReadDirFailed gostring io_error
  | NoTorrentFiles gostring
  | TrackerConfigInvalid tracker_error
  | UsageServe
  | ListenTracker io_error
  | CreateServer tracker_error
  | ListenStatus io_error

subsection \<open>Allowed torrents\<close>

fun loadAllowed_loop :: "oslib \<Rightarrow> gostring list \<Rightarrow> gostring list \<Rightarrow> command_error + gostring list" where
  "loadAllowed_loop os [] infoHashes = Inr infoHashes"
| "loadAllowed_loop os (path # paths) infoHashes =
     (case os_Open os path of
        Inl er \<Rightarrow> Inl (OpenAllowed path er)
      | Inr (content, er, closeErr) \<Rightarrow>
     (case ReadMetaInfo er content of
        Inl readErr \<Rightarrow> Inl (ReadAllowed path readErr)
      | Inr meta \<Rightarrow>
     (case closeErr of
        Some ce \<Rightarrow> Inl (CloseAllowed path ce)
      | None \<Rightarrow>
          loadAllowed_loop os paths
            (if MInfoHash meta \<in> set infoHashes then infoHashes else infoHashes @ [MInfoHash meta]))))"

definition loadAllowedInfoHashes :: "oslib \<Rightarrow> gostring list \<Rightarrow> command_error + gostring list" where
  "loadAllowedInfoHashes os paths = loadAllowed_loop os paths []"

definition parseInfoHash :: "gostring \<Rightarrow> command_error + gostring" where
  "parseInfoHash v =
     (case hex_decode v of
        None \<Rightarrow> Inl (BadHexInfoHash v)
      | Some decoded \<Rightarrow>
          if length decoded \<noteq> 20 then Inl (InfoHashLength v (length decoded)) else Inr decoded)"

fun parseInfoHashes :: "gostring list \<Rightarrow> gostring list \<Rightarrow> command_error + gostring list" where
  "parseInfoHashes [] seen = Inr seen"
| "parseInfoHashes (v # vs) seen =
     bind_r (parseInfoHash v) (\<lambda>infoHash. parseInfoHashes vs (List.insert infoHash seen))"

definition resolveAllowedInfoHashes :: "oslib \<Rightarrow> gostring list \<Rightarrow> gostring list \<Rightarrow> command_error + gostring list" where
  "resolveAllowedInfoHashes os paths hashValues =
     bind_r (loadAllowedInfoHashes os paths) (\<lambda>fromFiles.
     bind_r (parseInfoHashes hashValues (remdups fromFiles)) (\<lambda>seen. Inr (sort seen)))"

definition torrentFiles :: "oslib \<Rightarrow> gostring \<Rightarrow> command_error + gostring list" where
  "torrentFiles os directory =
     (case os_ReadDir os directory of
        Inl er \<Rightarrow> Inl (ReadDirFailed directory er)
      | Inr entries \<Rightarrow>
          let paths = map (\<lambda>(name, _). filepath_Join os directory name)
                (filter (\<lambda>(name, isDir). \<not> (isDir \<or> filepath_Ext name \<noteq> bytes_of ''.torrent'')) entries) in
          if paths = [] then Inl (NoTorrentFiles directory) else Inr paths)"

subsection \<open>The configuration\<close>

text \<open>The variables the flags are bound to.\<close>

record serve_vars =
  sv_config :: commandConfig
  torrentDirectory :: gostring
  allowedTorrentPaths :: "gostring list"
  allowedHashValues :: "gostring list"
  allowlistConfigured :: bool

definition set_tracker :: "(Config \<Rightarrow> Config) \<Rightarrow> serve_vars \<Rightarrow> serve_vars" where
  "set_tracker f s = s\<lparr>sv_config := (sv_config s)\<lparr>cc_Tracker := f (cc_Tracker (sv_config s))\<rparr>\<rparr>"

definition serve_flags :: "oslib \<Rightarrow> gostring \<Rightarrow> (gostring \<Rightarrow> serve_vars \<Rightarrow> serve_vars option) option" where
  "serve_flags os name =
     (if name = bytes_of ''listen''
      then Some (\<lambda>v s. Some (s\<lparr>sv_config := (sv_config s)\<lparr>ListenAddress := v\<rparr>\<rparr>))
      else if name = bytes_of ''status-listen''
      then Some (\<lambda>v s. Some (s\<lparr>sv_config := (sv_config s)\<lparr>StatusAddress := v\<rparr>\<rparr>))
      else if name = bytes_of ''interval''
      then Some (\<lambda>v s. map_option (\<lambda>d. set_tracker (AnnounceInterval_update (\<lambda>_. d)) s) (ParseDuration os v))
      else if name = bytes_of ''peer-ttl''
      then Some (\<lambda>v s. map_option (\<lambda>d. set_tracker (PeerTTL_update (\<lambda>_. d)) s) (ParseDuration os v))
      else if name = bytes_of ''torrent-dir'' then Some (\<lambda>v s. Some (s\<lparr>torrentDirectory := v\<rparr>))
      else if name = bytes_of ''allow-torrent''
      then Some (\<lambda>v s. let path = TrimSpace v in
             if path = [] then None
             else Some (s\<lparr>allowedTorrentPaths := allowedTorrentPaths s @ [path], allowlistConfigured := True\<rparr>))
      else if name = bytes_of ''allow-info-hash''
      then Some (\<lambda>v s. let x = TrimSpace v in
             if x = [] then None
             else Some (s\<lparr>allowedHashValues := allowedHashValues s @ [x], allowlistConfigured := True\<rparr>))
      else None)"

definition env_duration :: "oslib \<Rightarrow> (string \<Rightarrow> gostring option) \<Rightarrow> string \<Rightarrow> int \<Rightarrow> command_error + int" where
  "env_duration os lookupEnv key dflt =
     (case lookupEnv key of
        None \<Rightarrow> Inr dflt
      | Some v \<Rightarrow> (case ParseDuration os v of None \<Rightarrow> Inl (EnvBadDuration key) | Some d \<Rightarrow> Inr d))"

definition env_hashes :: "(string \<Rightarrow> gostring option) \<Rightarrow> command_error + gostring list option" where
  "env_hashes lookupEnv =
     (case lookupEnv ''TRACKER_ALLOWED_INFO_HASHES'' of
        None \<Rightarrow> Inr None
      | Some v \<Rightarrow>
          if TrimSpace v = [] then Inl (EnvEmpty ''TRACKER_ALLOWED_INFO_HASHES'')
          else let hashes = map TrimSpace (strings_Split 44 v) in
            if [] \<in> set hashes then Inl (EnvEmptyValue ''TRACKER_ALLOWED_INFO_HASHES'') else Inr (Some hashes))"

definition env_listen :: "(string \<Rightarrow> gostring option) \<Rightarrow> command_error + gostring" where
  "env_listen lookupEnv =
     (case lookupEnv ''TRACKER_LISTEN'' of
        Some v \<Rightarrow> if v = [] then Inl (EnvEmpty ''TRACKER_LISTEN'') else Inr v
      | None \<Rightarrow>
     (case lookupEnv ''PORT'' of
        Some port \<Rightarrow> if port = [] then Inl (EnvEmpty ''PORT'') else Inr (58 # port)
      | None \<Rightarrow> Inr (bytes_of '':6969'')))"

definition env_directory :: "(string \<Rightarrow> gostring option) \<Rightarrow> serve_vars \<Rightarrow> command_error + serve_vars" where
  "env_directory lookupEnv s =
     (case lookupEnv ''TRACKER_TORRENT_DIR'' of
        None \<Rightarrow> Inr s
      | Some v \<Rightarrow>
          if v = [] then Inl (EnvEmpty ''TRACKER_TORRENT_DIR'')
          else Inr (s\<lparr>torrentDirectory := v, allowlistConfigured := True\<rparr>))"

definition env_vars :: "gostring \<Rightarrow> gostring option \<Rightarrow> int \<Rightarrow> int \<Rightarrow> gostring list option \<Rightarrow> serve_vars" where
  "env_vars listen status interval ttl hashes =
     \<lparr>sv_config = \<lparr>ListenAddress = listen, StatusAddress = (case status of Some v \<Rightarrow> v | None \<Rightarrow> []),
        cc_Tracker = \<lparr>AnnounceInterval = interval, PeerTTL = ttl, AllowedInfoHashes = None\<rparr>\<rparr>,
      torrentDirectory = [], allowedTorrentPaths = [],
      allowedHashValues = (case hashes of None \<Rightarrow> [] | Some hs \<Rightarrow> hs), allowlistConfigured = (hashes \<noteq> None)\<rparr>"

text \<open>The variables after the environment has been read.\<close>

definition load_env :: "oslib \<Rightarrow> (string \<Rightarrow> gostring option) \<Rightarrow> command_error + serve_vars" where
  "load_env os lookupEnv =
     bind_r (env_listen lookupEnv) (\<lambda>listen.
     bind_r (env_duration os lookupEnv ''TRACKER_INTERVAL'' (30 * second)) (\<lambda>interval.
     bind_r (env_duration os lookupEnv ''TRACKER_PEER_TTL'' 0) (\<lambda>ttl.
     bind_r (env_hashes lookupEnv) (\<lambda>hashes.
       env_directory lookupEnv (env_vars listen (lookupEnv ''TRACKER_STATUS_LISTEN'') interval ttl hashes)))))"

text \<open>\<^verbatim>\<open>loadConfig\<close> after the flags: the directory, the allowed hashes and the validation.\<close>

definition add_directory :: "oslib \<Rightarrow> serve_vars \<Rightarrow> command_error + serve_vars" where
  "add_directory os s =
     (if torrentDirectory s \<noteq> []
      then bind_r (torrentFiles os (torrentDirectory s)) (\<lambda>paths.
             Inr (s\<lparr>allowedTorrentPaths := allowedTorrentPaths s @ paths, allowlistConfigured := True\<rparr>))
      else Inr s)"

definition allowed_config :: "serve_vars \<Rightarrow> gostring list \<Rightarrow> commandConfig" where
  "allowed_config s allowed =
     sv_config (if allowlistConfigured s
                then set_tracker (AllowedInfoHashes_update (\<lambda>_. Some allowed)) s else s)"

definition checked_config :: "commandConfig \<Rightarrow> command_error + commandConfig" where
  "checked_config config =
     (case Config_Validate (cc_Tracker config) of
        Some er \<Rightarrow> Inl (TrackerConfigInvalid er)
      | None \<Rightarrow> Inr config)"

definition loadConfig :: "oslib \<Rightarrow> gostring list \<Rightarrow> (string \<Rightarrow> gostring option) \<Rightarrow> command_error + commandConfig" where
  "loadConfig os args lookupEnv =
     bind_r (load_env os lookupEnv) (\<lambda>s0.
     bind_r (map_sum FlagFailed id (flag_Parse (serve_flags os) args s0)) (\<lambda>(s1, rest).
     if rest \<noteq> [] then Inl (UnexpectedArguments rest)
     else bind_r (add_directory os s1) (\<lambda>s.
     bind_r (resolveAllowedInfoHashes os (allowedTorrentPaths s) (allowedHashValues s)) (\<lambda>allowed.
       checked_config (allowed_config s allowed)))))"

subsection \<open>Starting the server\<close>

text \<open>\<^verbatim>\<open>serve\<close> up to the point where its goroutines start: the server, and whether the status listener runs.\<close>

definition tracker_serve :: "commandConfig \<Rightarrow> io_error option \<Rightarrow> io_error option \<Rightarrow> command_error + Server \<times> bool" where
  "tracker_serve config listen statusListen =
     (case listen of
        Some er \<Rightarrow> Inl (ListenTracker er)
      | None \<Rightarrow>
     (case NewServer (cc_Tracker config) of
        Inl er \<Rightarrow> Inl (CreateServer er)
      | Inr server \<Rightarrow>
          if StatusAddress config \<noteq> []
          then (case statusListen of Some er \<Rightarrow> Inl (ListenStatus er) | None \<Rightarrow> Inr (server, True))
          else Inr (server, False)))"

definition tracker_run ::
    "oslib \<Rightarrow> gostring list \<Rightarrow> (string \<Rightarrow> gostring option) \<Rightarrow> io_error option \<Rightarrow> io_error option \<Rightarrow>
     command_error + Server \<times> bool" where
  "tracker_run os args lookupEnv listen statusListen =
     (case args of
        [] \<Rightarrow> Inl UsageServe
      | command # rest \<Rightarrow>
          if command \<noteq> bytes_of ''serve'' then Inl UsageServe
          else bind_r (loadConfig os rest lookupEnv) (\<lambda>config. tracker_serve config listen statusListen))"

subsection \<open>What is allowed\<close>

lemma parseInfoHash_iff: "parseInfoHash v = Inr h \<longleftrightarrow> hex_decode v = Some h \<and> length h = 20"
  by (auto simp: parseInfoHash_def split: option.splits)

lemma loadAllowed_loop_set:
  assumes "loadAllowed_loop os paths acc = Inr hs"
  shows "set hs = set acc \<union> {h. \<exists>path \<in> set paths. \<exists>content er ce m. os_Open os path = Inr (content, er, ce) \<and>
    ReadMetaInfo er content = Inr m \<and> h = MInfoHash m}"
  using assms
proof (induction os paths acc rule: loadAllowed_loop.induct)
  case (2 os path paths acc)
  obtain content er m where o: "os_Open os path = Inr (content, er, None)" "ReadMetaInfo er content = Inr m"
    "loadAllowed_loop os paths (if MInfoHash m \<in> set acc then acc else acc @ [MInfoHash m]) = Inr hs"
    using 2(2) by (auto split: sum.splits option.splits)
  then have "set hs = set (if MInfoHash m \<in> set acc then acc else acc @ [MInfoHash m]) \<union>
      {h. \<exists>path \<in> set paths. \<exists>content er ce m. os_Open os path = Inr (content, er, ce) \<and>
        ReadMetaInfo er content = Inr m \<and> h = MInfoHash m}"
    using 2(1) by simp
  then show ?case using o(1,2) by auto
qed simp

lemma parseInfoHashes_set:
  assumes "parseInfoHashes vs seen = Inr hs" and "distinct seen"
  shows "distinct hs \<and> set hs = set seen \<union> {h. \<exists>v \<in> set vs. hex_decode v = Some h} \<and>
    (\<forall>v \<in> set vs. \<exists>h. hex_decode v = Some h \<and> length h = 20)"
  using assms
proof (induction vs seen rule: parseInfoHashes.induct)
  case (2 v vs seen)
  then obtain h where h: "hex_decode v = Some h" "length h = 20" "parseInfoHashes vs (List.insert h seen) = Inr hs"
    by (auto simp: bind_r_iffs parseInfoHash_iff)
  then show ?case using 2 by (auto simp: bind_r_iffs parseInfoHash_iff)
qed simp

lemma resolveAllowedInfoHashes_set:
  assumes "resolveAllowedInfoHashes os paths vs = Inr hs"
  shows "sorted hs \<and> distinct hs \<and>
    set hs = {h. \<exists>v \<in> set vs. hex_decode v = Some h} \<union>
      {h. \<exists>path \<in> set paths. \<exists>content er ce m. os_Open os path = Inr (content, er, ce) \<and>
        ReadMetaInfo er content = Inr m \<and> h = MInfoHash m} \<and>
    (\<forall>v \<in> set vs. \<exists>h. hex_decode v = Some h \<and> length h = 20)"
proof -
  obtain files seen where "loadAllowed_loop os paths [] = Inr files" "parseInfoHashes vs (remdups files) = Inr seen"
    "hs = sort seen"
    using assms by (auto simp: resolveAllowedInfoHashes_def loadAllowedInfoHashes_def bind_r_iffs)
  then show ?thesis
    using loadAllowed_loop_set [of os paths "[]" files] parseInfoHashes_set [of vs "remdups files" seen] by auto
qed

text \<open>Nothing is put on the allow-list without the list being in force, and what the environment put there
  stays.\<close>

definition closed_list :: "gostring list \<Rightarrow> bool \<Rightarrow> serve_vars \<Rightarrow> bool" where
  "closed_list given configured s \<longleftrightarrow>
     set given \<subseteq> set (allowedHashValues s) \<and> (configured \<longrightarrow> allowlistConfigured s) \<and>
     (allowedTorrentPaths s \<noteq> [] \<or> allowedHashValues s \<noteq> [] \<longrightarrow> allowlistConfigured s)"

lemma closed_list_flags:
  assumes "serve_flags os key = Some setter" and "setter v s = Some s'" and "closed_list given configured s"
  shows "closed_list given configured s'"
  using assms
  by (auto simp: serve_flags_def closed_list_def set_tracker_def Let_def subset_iff split: if_splits option.splits)

lemma serve_flags_open:
  assumes "serve_flags os key = Some setter" and "setter v s = Some s'" and "AllowedInfoHashes (cc_Tracker (sv_config s)) = None"
  shows "AllowedInfoHashes (cc_Tracker (sv_config s')) = None"
  using assms
  by (auto simp: serve_flags_def set_tracker_def Let_def split: if_splits)

lemma closed_list_directory: "add_directory os s = Inr s' \<Longrightarrow> closed_list given configured s \<Longrightarrow> closed_list given configured s'"
  by (auto simp: add_directory_def closed_list_def bind_r_iffs split: if_splits)

lemma load_env_Inr:
  assumes "load_env os lookupEnv = Inr s"
  shows "\<exists>hashes. env_hashes lookupEnv = Inr hashes \<and>
    allowedHashValues s = (case hashes of None \<Rightarrow> [] | Some hs \<Rightarrow> hs) \<and> allowedTorrentPaths s = [] \<and>
    (allowlistConfigured s \<longleftrightarrow> hashes \<noteq> None \<or> lookupEnv ''TRACKER_TORRENT_DIR'' \<noteq> None) \<and>
    AllowedInfoHashes (cc_Tracker (sv_config s)) = None"
proof -
  obtain listen status interval ttl hashes where h: "env_hashes lookupEnv = Inr hashes"
    and s: "env_directory lookupEnv (env_vars listen status interval ttl hashes) = Inr s"
    using assms by (auto simp: load_env_def bind_r_Inr_iff)
  then show ?thesis
    by (cases "lookupEnv ''TRACKER_TORRENT_DIR''") (auto simp: env_directory_def env_vars_def split: if_splits)
qed

lemma env_hashes_Inr:
  assumes "env_hashes lookupEnv = Inr hashes"
  shows "hashes = map_option (\<lambda>v. map TrimSpace (strings_Split 44 v)) (lookupEnv ''TRACKER_ALLOWED_INFO_HASHES'')"
  using assms
  by (cases "lookupEnv ''TRACKER_ALLOWED_INFO_HASHES''") (auto simp: env_hashes_def Let_def split: if_splits)

lemma closed_list_env:
  assumes "load_env os lookupEnv = Inr s"
  shows "closed_list (case lookupEnv ''TRACKER_ALLOWED_INFO_HASHES'' of None \<Rightarrow> [] | Some v \<Rightarrow> map TrimSpace (strings_Split 44 v))
    (lookupEnv ''TRACKER_ALLOWED_INFO_HASHES'' \<noteq> None \<or> lookupEnv ''TRACKER_TORRENT_DIR'' \<noteq> None) s"
proof -
  obtain hashes where h: "env_hashes lookupEnv = Inr hashes"
    "allowedHashValues s = (case hashes of None \<Rightarrow> [] | Some hs \<Rightarrow> hs)" "allowedTorrentPaths s = []"
    "allowlistConfigured s \<longleftrightarrow> hashes \<noteq> None \<or> lookupEnv ''TRACKER_TORRENT_DIR'' \<noteq> None"
    using load_env_Inr [OF assms] by blast
  show ?thesis
    using h(2-4) env_hashes_Inr [OF h(1)]
    by (cases "lookupEnv ''TRACKER_ALLOWED_INFO_HASHES''") (simp_all add: closed_list_def)
qed

text \<open>What the environment, the flags and the directory leave of the configuration.\<close>

lemma loadConfig_lists:
  assumes "load_env os lookupEnv = Inr s0" and "flag_Parse (serve_flags os) args s0 = Inr (s1, [])" and "add_directory os s1 = Inr s"
  shows "AllowedInfoHashes (cc_Tracker (sv_config s)) = None"
    and "closed_list (case lookupEnv ''TRACKER_ALLOWED_INFO_HASHES'' of None \<Rightarrow> [] | Some v \<Rightarrow> map TrimSpace (strings_Split 44 v))
      (lookupEnv ''TRACKER_ALLOWED_INFO_HASHES'' \<noteq> None \<or> lookupEnv ''TRACKER_TORRENT_DIR'' \<noteq> None) s"
proof -
  have none: "AllowedInfoHashes (cc_Tracker (sv_config s0)) = None"
    using load_env_Inr [OF assms(1)] by blast
  have "AllowedInfoHashes (cc_Tracker (sv_config s1)) = None"
    using flag_Parse_inv [of "serve_flags os" "\<lambda>s. AllowedInfoHashes (cc_Tracker (sv_config s)) = None", OF _ assms(2) none]
      serve_flags_open by blast
  then show "AllowedInfoHashes (cc_Tracker (sv_config s)) = None"
    using assms(3) by (auto simp: add_directory_def bind_r_iffs split: if_splits)
  let ?given = "case lookupEnv ''TRACKER_ALLOWED_INFO_HASHES'' of None \<Rightarrow> [] | Some v \<Rightarrow> map TrimSpace (strings_Split 44 v)"
  let ?conf = "lookupEnv ''TRACKER_ALLOWED_INFO_HASHES'' \<noteq> None \<or> lookupEnv ''TRACKER_TORRENT_DIR'' \<noteq> None"
  have "closed_list ?given ?conf s1"
    using flag_Parse_inv [of "serve_flags os" "closed_list ?given ?conf", OF _ assms(2) closed_list_env [OF assms(1)]]
      closed_list_flags by blast
  then show "closed_list ?given ?conf s" using closed_list_directory [OF assms(3)] by blast
qed

text \<open>C36. The allow-list of the tracker: a configuration that \<^verbatim>\<open>loadConfig\<close> accepts always makes a server, and that
  server admits exactly the info hashes listed (by the environment or by flags, in hexadecimal) and those of the metainfo
  files listed (by flags, or in the torrent directory), or every torrent when there is no allow-list.  The list fails closed:
  it is in force whenever the environment sets it or the torrent directory and whenever anything was put on it,
  and every hash of the environment is on it.\<close>

theorem loadConfig_allowlist:
  assumes "loadConfig os args lookupEnv = Inr config"
  shows "\<exists>s0 s1 s server. load_env os lookupEnv = Inr s0 \<and> flag_Parse (serve_flags os) args s0 = Inr (s1, []) \<and>
    add_directory os s1 = Inr s \<and> NewServer (cc_Tracker config) = Inr server \<and>
    (\<forall>h. sv_allows server h \<longleftrightarrow> \<not> allowlistConfigured s \<or>
       (\<exists>v \<in> set (allowedHashValues s). hex_decode v = Some h) \<or>
       (\<exists>path \<in> set (allowedTorrentPaths s). \<exists>content er ce m. os_Open os path = Inr (content, er, ce) \<and>
          ReadMetaInfo er content = Inr m \<and> h = MInfoHash m)) \<and>
    (\<forall>v \<in> set (allowedHashValues s). \<exists>h. hex_decode v = Some h \<and> length h = 20) \<and>
    (lookupEnv ''TRACKER_ALLOWED_INFO_HASHES'' \<noteq> None \<or> lookupEnv ''TRACKER_TORRENT_DIR'' \<noteq> None \<or>
       allowedHashValues s \<noteq> [] \<or> allowedTorrentPaths s \<noteq> [] \<longrightarrow> allowlistConfigured s) \<and>
    (\<forall>v. lookupEnv ''TRACKER_ALLOWED_INFO_HASHES'' = Some v \<longrightarrow>
       set (map TrimSpace (strings_Split 44 v)) \<subseteq> set (allowedHashValues s))"
proof -
  obtain s0 s1 s allowed where l: "load_env os lookupEnv = Inr s0" "flag_Parse (serve_flags os) args s0 = Inr (s1, [])"
    "add_directory os s1 = Inr s" "resolveAllowedInfoHashes os (allowedTorrentPaths s) (allowedHashValues s) = Inr allowed"
    and cc: "checked_config (allowed_config s allowed) = Inr config"
    using assms by (auto simp: loadConfig_def bind_r_Inr_iff split: if_splits)
  have c: "config = allowed_config s allowed" and v: "Config_Validate (cc_Tracker config) = None"
    using cc by (auto simp: checked_config_def split: option.splits)
  have a: "AllowedInfoHashes (cc_Tracker config) = (if allowlistConfigured s then Some allowed else None)"
    using loadConfig_lists(1) [OF l(1-3)] by (simp add: c allowed_config_def set_tracker_def)
  obtain server where sv: "NewServer (cc_Tracker config) = Inr server"
    "allowedInfoHashes server = map_option remdups (AllowedInfoHashes (cc_Tracker config))"
    using v by (simp add: NewServer_def)
  let ?given = "case lookupEnv ''TRACKER_ALLOWED_INFO_HASHES'' of None \<Rightarrow> [] | Some v \<Rightarrow> map TrimSpace (strings_Split 44 v)"
  let ?conf = "lookupEnv ''TRACKER_ALLOWED_INFO_HASHES'' \<noteq> None \<or> lookupEnv ''TRACKER_TORRENT_DIR'' \<noteq> None"
  note cl = loadConfig_lists(2) [OF l(1-3)]
  note R = resolveAllowedInfoHashes_set [OF l(4)]
  have "sv_allows server h \<longleftrightarrow> \<not> allowlistConfigured s \<or> h \<in> set allowed" for h
    by (simp add: sv_allows_def sv(2) a)
  then have allow: "sv_allows server h \<longleftrightarrow> \<not> allowlistConfigured s \<or>
       (\<exists>v \<in> set (allowedHashValues s). hex_decode v = Some h) \<or>
       (\<exists>path \<in> set (allowedTorrentPaths s). \<exists>content er ce m. os_Open os path = Inr (content, er, ce) \<and>
          ReadMetaInfo er content = Inr m \<and> h = MInfoHash m)" for h
    using R by simp
  have conf: "?conf \<or> allowedHashValues s \<noteq> [] \<or> allowedTorrentPaths s \<noteq> [] \<longrightarrow> allowlistConfigured s"
    using cl unfolding closed_list_def by blast
  have env: "set (map TrimSpace (strings_Split 44 v)) \<subseteq> set (allowedHashValues s)"
    if "lookupEnv ''TRACKER_ALLOWED_INFO_HASHES'' = Some v" for v
    using cl that by (simp add: closed_list_def)
  show ?thesis
    by (rule exI [of _ s0], rule exI [of _ s1], rule exI [of _ s], rule exI [of _ server])
      (intro conjI allI l sv(1) allow impI env; use R conf in blast)
qed

text \<open>A tracker restricted to one torrent by its environment.\<close>

definition demo_os :: oslib where
  "demo_os = \<lparr>os_Open = (\<lambda>_. Inl ErrIO), os_ReadDir = (\<lambda>_. Inl ErrIO), filepath_Join = (\<lambda>d n. d @ 47 # n),
     ParseDuration = (\<lambda>_. None)\<rparr>"

definition demo_env :: "string \<Rightarrow> gostring option" where
  "demo_env key = (if key = ''TRACKER_ALLOWED_INFO_HASHES'' then Some (replicate 40 97) else None)"

lemma trim_left_stuck:
  assumes "\<forall>p \<in> set ps. p = [] \<or> hd p \<noteq> hd s"
  shows "trim_left ps s = s"
proof -
  have "find (\<lambda>p. p \<noteq> [] \<and> take (length p) s = p) ps = None"
    using assms by (cases s) (auto simp: find_None_iff neq_Nil_conv)
  then show ?thesis by (simp add: trim_left.simps)
qed

lemma demo_hashes: "env_hashes demo_env = Inr (Some [replicate 40 97])"
proof -
  have "TrimSpace (replicate 40 97) = replicate 40 97"
    unfolding TrimSpace_def by (subst (1 2) trim_left_stuck) (simp_all add: spaces_def)
  moreover have "strings_Split 44 (replicate 40 97) = [replicate 40 97]"
    by (simp add: strings_Split.simps)
  ultimately show ?thesis by (simp add: env_hashes_def demo_env_def)
qed

lemma hex_decode_aa: "hex_decode (replicate (2 * n) 97) = Some (replicate n 170)"
  by (induction n) (simp_all add: unhex_def)

theorem loadConfig_allowlist_witness:
  "\<exists>config server. loadConfig demo_os [] demo_env = Inr config \<and> NewServer (cc_Tracker config) = Inr server \<and>
     sv_allows server (replicate 20 170) \<and> \<not> sv_allows server (replicate 20 0)"
proof -
  have hex: "hex_decode (replicate 40 97) = Some (replicate 20 170)"
    using hex_decode_aa [of 20] by simp
  define s where "s = env_vars (bytes_of '':6969'') None (30 * second) 0 (Some [replicate 40 97])"
  have env: "load_env demo_os demo_env = Inr s"
    using demo_hashes by (simp add: s_def load_env_def env_listen_def env_duration_def env_directory_def demo_env_def)
  have v: "allowedHashValues s = [replicate 40 97]" "allowedTorrentPaths s = []" "allowlistConfigured s"
    "torrentDirectory s = []" by (simp_all add: s_def env_vars_def)
  have p: "flag_Parse (serve_flags demo_os) [] s = Inr (s, [])" by (simp add: flag_Parse.simps)
  have d: "add_directory demo_os s = Inr s" by (simp add: add_directory_def v)
  have "parseInfoHash (replicate 40 97) = Inr (replicate 20 170)" using hex by (simp only: parseInfoHash_iff length_replicate)
  then have r: "resolveAllowedInfoHashes demo_os [] [replicate 40 97] = Inr [replicate 20 170]"
    by (simp add: resolveAllowedInfoHashes_def loadAllowedInfoHashes_def List.insert_def del: replicate.simps)
  have "checked_config (allowed_config s [replicate 20 170]) = Inr (allowed_config s [replicate 20 170])"
    by (simp add: checked_config_def allowed_config_def set_tracker_def s_def env_vars_def Config_Validate_def)
  then have l: "loadConfig demo_os [] demo_env = Inr (allowed_config s [replicate 20 170])"
    using env p d r v by (simp add: loadConfig_def)
  have "replicate 20 (170 :: byte) \<noteq> replicate 20 0" by (simp add: replicate_eq_replicate)
  then show ?thesis
    using loadConfig_allowlist [OF l] l env p d v hex by fastforce
qed

end
