(* ===== verification/Gather.thy ===== *)
theory Gather
  imports Systems
begin

text \<open>
  How the commands run their servers: each component runs in a goroutine that sends its result to a buffered channel;
  the command takes the first result or hears the interrupt, cancels the context of the others, collects all their
  results and returns.  The steps come in two kinds.  What the program does of its own accord, once it is scheduled, is a
  driven step: it needs nobody outside.  What the outside does (a request, a connection, a failure, the interrupt) may
  happen or not.  The steps of one component, and how much of it is left, are parameters; the laws they obey make the
  whole an invariant system whose driven steps lead to its end.
\<close>

lemma reaches_mono: "reaches R s s' \<Longrightarrow> (\<And>a b. R a b \<Longrightarrow> S a b) \<Longrightarrow> reaches S s s'"
  by (induction rule: reaches.induct) (auto intro: reaches.intros)

lemma reaches_trans: "reaches R s' s'' \<Longrightarrow> reaches R s s' \<Longrightarrow> reaches R s s''"
  by (induction rule: reaches.induct) (auto intro: reaches.intros)

subsection \<open>The command and its components\<close>

text \<open>The command selects, collects the results of the other components, and returns.\<close>

datatype 'r main_stage = Selecting | Collecting "'r option" nat | ServeReturned "'r option"

text \<open>\<open>sr_world\<close> is what the components share.\<close>

record ('w, 'p, 'r) gather =
  sr_ctx :: bool
  sr_cancel :: bool
  sr_results :: "'r list"
  sr_parts :: "'p list"
  sr_main :: "'r main_stage"
  sr_world :: 'w

text \<open>\<^verbatim>\<open>runCtx\<close> is done when its parent is, or when it was cancelled.\<close>

abbreviation run_done :: "('w, 'p, 'r) gather \<Rightarrow> bool" where
  "run_done s \<equiv> sr_ctx s \<or> sr_cancel s"

definition set_part :: "('w, 'p, 'r) gather \<Rightarrow> nat \<Rightarrow> 'w \<times> 'p \<Rightarrow> ('w, 'p, 'r) gather" where
  "set_part s i x = s\<lparr>sr_parts := (sr_parts s)[i := snd x], sr_world := fst x\<rparr>"

text \<open>A component sends its result; \<open>mark\<close> is its state after that.\<close>

definition send_result :: "('p \<Rightarrow> 'p) \<Rightarrow> ('w, 'p, 'r) gather \<Rightarrow> nat \<Rightarrow> 'r \<Rightarrow> ('w, 'p, 'r) gather" where
  "send_result mark s i r =
     s\<lparr>sr_results := sr_results s @ [r], sr_parts := (sr_parts s)[i := mark (sr_parts s ! i)]\<rparr>"

text \<open>The branches of the command's \<^verbatim>\<open>select\<close>.  \<open>stops\<close> says whether it cancels when it hears the interrupt.\<close>

definition take_first :: "('w, 'p, 'r) gather \<Rightarrow> 'r \<Rightarrow> 'r list \<Rightarrow> ('w, 'p, 'r) gather" where
  "take_first s r rs =
     s\<lparr>sr_cancel := True, sr_results := rs, sr_main := Collecting (Some r) (length (sr_parts s) - 1)\<rparr>"

definition hear_interrupt :: "bool \<Rightarrow> ('w, 'p, 'r) gather \<Rightarrow> ('w, 'p, 'r) gather" where
  "hear_interrupt stops s =
     s\<lparr>sr_cancel := (sr_cancel s \<or> stops), sr_main := Collecting None (length (sr_parts s))\<rparr>"

definition collect_next :: "('w, 'p, 'r) gather \<Rightarrow> 'r option \<Rightarrow> nat \<Rightarrow> 'r list \<Rightarrow> ('w, 'p, 'r) gather" where
  "collect_next s first n rs = s\<lparr>sr_results := rs, sr_main := Collecting first n\<rparr>"

text \<open>The command returns nil when the result it took first is the cancellation of its own context, and its deferred
  \<^verbatim>\<open>cancel\<close> runs in any case.\<close>

definition first_result :: "('r \<Rightarrow> bool) \<Rightarrow> ('w, 'p, 'r) gather \<Rightarrow> 'r option \<Rightarrow> 'r option" where
  "first_result canceled s r =
     (case r of None \<Rightarrow> None | Some er \<Rightarrow> if sr_ctx s \<and> canceled er then None else Some er)"

definition return_result :: "('r \<Rightarrow> bool) \<Rightarrow> ('w, 'p, 'r) gather \<Rightarrow> 'r option \<Rightarrow> ('w, 'p, 'r) gather" where
  "return_result canceled s first = s\<lparr>sr_cancel := True, sr_main := ServeReturned (first_result canceled s first)\<rparr>"

text \<open>The channel holds \<open>cap\<close> results and a component sends once; \<open>ended\<close> is the result a component is about to send.\<close>

inductive gather_drive ::
    "(bool \<Rightarrow> 'w \<times> 'p \<Rightarrow> 'w \<times> 'p \<Rightarrow> bool) \<Rightarrow> ('p \<Rightarrow> 'r option) \<Rightarrow> ('p \<Rightarrow> 'p) \<Rightarrow> ('r \<Rightarrow> bool) \<Rightarrow> nat \<Rightarrow> bool \<Rightarrow>
     ('w, 'p, 'r) gather \<Rightarrow> ('w, 'p, 'r) gather \<Rightarrow> bool"
    for drive ended mark canceled cap stops where
  drive_part: "i < length (sr_parts s) \<Longrightarrow> drive (run_done s) (sr_world s, sr_parts s ! i) x \<Longrightarrow>
     gather_drive drive ended mark canceled cap stops s (set_part s i x)"
| drive_send: "i < length (sr_parts s) \<Longrightarrow> ended (sr_parts s ! i) = Some r \<Longrightarrow> length (sr_results s) < cap \<Longrightarrow>
     gather_drive drive ended mark canceled cap stops s (send_result mark s i r)"
| drive_first: "sr_main s = Selecting \<Longrightarrow> sr_results s = r # rs \<Longrightarrow>
     gather_drive drive ended mark canceled cap stops s (take_first s r rs)"
| drive_ctx: "sr_main s = Selecting \<Longrightarrow> sr_ctx s \<Longrightarrow>
     gather_drive drive ended mark canceled cap stops s (hear_interrupt stops s)"
| drive_collect: "sr_main s = Collecting first (Suc n) \<Longrightarrow> sr_results s = r # rs \<Longrightarrow>
     gather_drive drive ended mark canceled cap stops s (collect_next s first n rs)"
| drive_return: "sr_main s = Collecting first 0 \<Longrightarrow>
     gather_drive drive ended mark canceled cap stops s (return_result canceled s first)"

inductive gather_outside ::
    "(bool \<Rightarrow> 'w \<times> 'p \<Rightarrow> 'w \<times> 'p \<Rightarrow> bool) \<Rightarrow> ('w, 'p, 'r) gather \<Rightarrow> ('w, 'p, 'r) gather \<Rightarrow> bool" for outside where
  outside_interrupt: "gather_outside outside s (s\<lparr>sr_ctx := True\<rparr>)"
| outside_part: "i < length (sr_parts s) \<Longrightarrow> outside (run_done s) (sr_world s, sr_parts s ! i) x \<Longrightarrow>
     gather_outside outside s (set_part s i x)"

subsection \<open>Invariant and measure\<close>

text \<open>How many results the command has taken from the channel.\<close>

fun taken_results :: "nat \<Rightarrow> 'r main_stage \<Rightarrow> nat" where
  "taken_results k Selecting = 0"
| "taken_results k (Collecting first n) = k - n"
| "taken_results k (ServeReturned first) = k"

definition sent_count :: "('p \<Rightarrow> bool) \<Rightarrow> 'p list \<Rightarrow> nat" where
  "sent_count sent ps = length (filter sent ps)"

fun main_ok :: "('r \<Rightarrow> bool) \<Rightarrow> bool \<Rightarrow> bool \<Rightarrow> nat \<Rightarrow> 'r main_stage \<Rightarrow> bool" where
  "main_ok canceled ctx cancel k Selecting \<longleftrightarrow> \<not> cancel"
| "main_ok canceled ctx cancel k (Collecting first n) \<longleftrightarrow>
     n \<le> k \<and> (ctx \<or> cancel) \<and> (\<forall>er. first = None \<or> first = Some er \<and> canceled er \<longrightarrow> ctx)"
| "main_ok canceled ctx cancel k (ServeReturned first) \<longleftrightarrow>
     (first = None \<longrightarrow> ctx) \<and> (\<forall>er. first = Some er \<longrightarrow> \<not> canceled er)"

definition wf_gather ::
    "(bool \<Rightarrow> 'w \<Rightarrow> 'p list \<Rightarrow> bool) \<Rightarrow> ('p \<Rightarrow> bool) \<Rightarrow> ('r \<Rightarrow> bool) \<Rightarrow> nat \<Rightarrow> ('w, 'p, 'r) gather \<Rightarrow> bool" where
  "wf_gather ok sent canceled cap s \<longleftrightarrow>
     sr_parts s \<noteq> [] \<and> length (sr_parts s) \<le> cap \<and> ok (run_done s) (sr_world s) (sr_parts s) \<and>
     (\<forall>r \<in> set (sr_results s). canceled r \<longrightarrow> run_done s) \<and>
     length (sr_results s) + taken_results (length (sr_parts s)) (sr_main s) = sent_count sent (sr_parts s) \<and>
     main_ok canceled (sr_ctx s) (sr_cancel s) (length (sr_parts s)) (sr_main s)"

definition gather_work :: "('w \<Rightarrow> nat) \<Rightarrow> ('p \<Rightarrow> nat) \<Rightarrow> ('w, 'p, 'r) gather \<Rightarrow> nat" where
  "gather_work wwork work s = wwork (sr_world s) + sum_list (map work (sr_parts s)) +
     (case sr_main s of Selecting \<Rightarrow> length (sr_parts s) + 2 | Collecting _ n \<Rightarrow> Suc n | ServeReturned _ \<Rightarrow> 0)"

text \<open>A component is over, or the interrupt has come.\<close>

definition winding_down :: "('p \<Rightarrow> bool) \<Rightarrow> ('w, 'p, 'r) gather \<Rightarrow> bool" where
  "winding_down over s \<longleftrightarrow> sr_ctx s \<or> (\<exists>p \<in> set (sr_parts s). over p)"

lemma sent_count_update:
  assumes "i < length xs"
  shows "sent_count P (xs[i := x]) + (if P (xs ! i) then 1 else 0) = sent_count P xs + (if P x then 1 else 0)"
proof -
  have "length (filter P xs) = length (filter P (take i xs @ xs ! i # drop (Suc i) xs))"
    using id_take_nth_drop [OF assms] by simp
  then show ?thesis using assms by (simp add: sent_count_def upd_conv_take_nth_drop)
qed

lemma sent_count_less:
  assumes "i < length ps" and "\<not> sent (ps ! i)"
  shows "sent_count sent ps < length ps"
proof -
  have "\<exists>p \<in> set ps. \<not> sent p" using assms nth_mem by blast
  then show ?thesis unfolding sent_count_def by (auto intro: length_filter_less)
qed

lemma sum_list_map_update:
  "i < length xs \<Longrightarrow> sum_list (map f (xs[i := x])) + f (xs ! i) = sum_list (map f xs) + (f x :: nat)"
  by (induction xs arbitrary: i) (auto split: nat.splits simp: nth_Cons)

lemma work_set_part:
  assumes "i < length (sr_parts s)"
  shows "gather_work wwork work (set_part s i x) + (wwork (sr_world s) + work (sr_parts s ! i)) =
    gather_work wwork work s + (wwork (fst x) + work (snd x))"
  using sum_list_map_update [OF assms, of work "snd x"]
  by (simp add: gather_work_def set_part_def split: main_stage.split)

lemmas main_defs = take_first_def hear_interrupt_def collect_next_def return_result_def

text \<open>A step of the command itself leaves the components alone.\<close>

lemma wf_gather_main:
  assumes wf: "wf_gather ok sent canceled cap s" and "sr_parts s' = sr_parts s" and "sr_world s' = sr_world s"
    and "run_done s \<longrightarrow> run_done s'"
    and "ok (run_done s) (sr_world s) (sr_parts s) \<Longrightarrow> ok (run_done s') (sr_world s) (sr_parts s)"
    and "set (sr_results s') \<subseteq> set (sr_results s)"
    and "main_ok canceled (sr_ctx s') (sr_cancel s') (length (sr_parts s)) (sr_main s')"
    and "length (sr_results s') + taken_results (length (sr_parts s)) (sr_main s') =
      length (sr_results s) + taken_results (length (sr_parts s)) (sr_main s)"
  shows "wf_gather ok sent canceled cap s'"
  using assms unfolding wf_gather_def by (metis subsetD)

subsection \<open>Components that end\<close>

text \<open>The laws of a component.  Steps of either kind keep what is known of the components and their world, do not send,
  and do not revive what is over; a driven step takes work away.  A result that is a cancellation comes only when the context
  is done; once it is done, a component without a result can go on by itself, unless the world is \<open>stuck\<close>, waiting for
  the outside, which driven steps neither bring about nor resolve.  A component that is over while the context is not
  done has its result or has sent it.\<close>

locale gathering =
  fixes drive :: "bool \<Rightarrow> 'w \<times> 'p \<Rightarrow> 'w \<times> 'p \<Rightarrow> bool"
    and outside :: "bool \<Rightarrow> 'w \<times> 'p \<Rightarrow> 'w \<times> 'p \<Rightarrow> bool"
    and ended :: "'p \<Rightarrow> 'r option"
    and mark :: "'p \<Rightarrow> 'p"
    and canceled :: "'r \<Rightarrow> bool"
    and ok :: "bool \<Rightarrow> 'w \<Rightarrow> 'p list \<Rightarrow> bool"
    and sent :: "'p \<Rightarrow> bool"
    and over :: "'p \<Rightarrow> bool"
    and stuck :: "'w \<Rightarrow> bool"
    and wwork :: "'w \<Rightarrow> nat"
    and work :: "'p \<Rightarrow> nat"
  assumes inv_part: "ok d w ps \<Longrightarrow> i < length ps \<Longrightarrow> drive d (w, ps ! i) (w', p) \<or> outside d (w, ps ! i) (w', p) \<Longrightarrow>
      ok d w' (ps[i := p])"
    and inv_mono: "ok d w ps \<Longrightarrow> (d \<longrightarrow> d') \<Longrightarrow> ok d' w ps"
    and inv_mark: "ok d w ps \<Longrightarrow> i < length ps \<Longrightarrow> ended (ps ! i) = Some r \<Longrightarrow> ok d w (ps[i := mark (ps ! i)])"
    and part_sent: "drive d (w, p) (w', p') \<or> outside d (w, p) (w', p') \<Longrightarrow> sent p' = sent p"
    and part_over: "drive d (w, p) (w', p') \<or> outside d (w, p) (w', p') \<Longrightarrow> over p \<Longrightarrow> over p'"
    and drive_work: "drive d (w, p) (w', p') \<Longrightarrow> wwork w' + work p' < wwork w + work p"
    and drive_stuck: "drive d (w, p) (w', p') \<Longrightarrow> stuck w' = stuck w"
    and mark_sent: "ended p = Some r \<Longrightarrow> \<not> sent p \<and> sent (mark p) \<and> over (mark p) \<and> work (mark p) < work p"
    and ended_canceled: "ok d w ps \<Longrightarrow> p \<in> set ps \<Longrightarrow> ended p = Some r \<Longrightarrow> canceled r \<Longrightarrow> d"
    and progress: "ok True w ps \<Longrightarrow> p \<in> set ps \<Longrightarrow> \<not> sent p \<Longrightarrow> ended p = None \<Longrightarrow> \<not> stuck w \<Longrightarrow>
      \<exists>x. drive True (w, p) x"
    and over_ended: "ok False w ps \<Longrightarrow> p \<in> set ps \<Longrightarrow> over p \<Longrightarrow> sent p \<or> ended p \<noteq> None"
begin

abbreviation run :: "nat \<Rightarrow> bool \<Rightarrow> ('w, 'p, 'r) gather \<Rightarrow> ('w, 'p, 'r) gather \<Rightarrow> bool" where
  "run \<equiv> gather_drive drive ended mark canceled"

lemma wf_part:
  assumes wf: "wf_gather ok sent canceled cap s" and i: "i < length (sr_parts s)"
    and st: "drive (run_done s) (sr_world s, sr_parts s ! i) x \<or> outside (run_done s) (sr_world s, sr_parts s ! i) x"
  shows "wf_gather ok sent canceled cap (set_part s i x)"
proof -
  have "ok (run_done s) (fst x) ((sr_parts s)[i := snd x])"
    using inv_part [of "run_done s" "sr_world s" "sr_parts s" i "fst x" "snd x"] wf i st by (simp add: wf_gather_def)
  moreover have "sent_count sent ((sr_parts s)[i := snd x]) = sent_count sent (sr_parts s)"
    using sent_count_update [OF i, of sent "snd x"] part_sent [of "run_done s" "sr_world s" "sr_parts s ! i" "fst x" "snd x"] st
    by simp
  ultimately show ?thesis using wf by (simp add: wf_gather_def set_part_def)
qed

lemma wf_send:
  assumes wf: "wf_gather ok sent canceled cap s" and i: "i < length (sr_parts s)" and st: "ended (sr_parts s ! i) = Some r"
  shows "wf_gather ok sent canceled cap (send_result mark s i r)"
proof -
  have v: "ok (run_done s) (sr_world s) (sr_parts s)" using wf by (simp add: wf_gather_def)
  have "sent_count sent ((sr_parts s)[i := mark (sr_parts s ! i)]) = Suc (sent_count sent (sr_parts s))"
    using sent_count_update [OF i, of sent "mark (sr_parts s ! i)"] mark_sent [OF st] by simp
  then show ?thesis
    using wf inv_mark [OF v i st] ended_canceled [OF v _ st] i by (auto simp: wf_gather_def send_result_def)
qed

lemma wf_drive:
  assumes wf: "wf_gather ok sent canceled cap s" and "run cap stops s s'"
  shows "wf_gather ok sent canceled cap s'"
  using assms(2)
proof cases
  case (drive_part i x)
  then show ?thesis using wf_part [OF wf] by simp
next
  case (drive_send i r)
  then show ?thesis using wf_send [OF wf] by simp
next
  case (drive_first r rs)
  then show ?thesis
    unfolding drive_first(1) using wf
    by (intro wf_gather_main [OF wf]) (auto simp: wf_gather_def main_defs Suc_le_eq elim: inv_mono)
next
  case drive_ctx
  then show ?thesis
    unfolding drive_ctx(1) using wf
    by (intro wf_gather_main [OF wf]) (auto simp: wf_gather_def main_defs elim: inv_mono)
next
  case (drive_collect first n r rs)
  then show ?thesis
    unfolding drive_collect(1) using wf by (intro wf_gather_main [OF wf]) (auto simp: wf_gather_def main_defs)
next
  case (drive_return first)
  then show ?thesis
    unfolding drive_return(1) using wf
    by (intro wf_gather_main [OF wf])
      (auto simp: wf_gather_def main_defs first_result_def elim: inv_mono split: option.splits if_splits)
qed

lemma wf_outside:
  assumes wf: "wf_gather ok sent canceled cap s" and "gather_outside outside s s'"
  shows "wf_gather ok sent canceled cap s'"
  using assms(2)
proof cases
  case outside_interrupt
  have "main_ok canceled True (sr_cancel s) (length (sr_parts s)) (sr_main s)"
    using wf by (cases "sr_main s") (auto simp: wf_gather_def)
  then show ?thesis unfolding outside_interrupt by (intro wf_gather_main [OF wf]) (auto elim: inv_mono)
next
  case (outside_part i x)
  then show ?thesis using wf_part [OF wf] by simp
qed

lemma drive_reaches: "reaches (run cap stops) s s' \<Longrightarrow> wf_gather ok sent canceled cap s \<Longrightarrow> wf_gather ok sent canceled cap s'"
  by (induction rule: reaches.induct) (auto intro: wf_drive)

subsubsection \<open>The command returns\<close>

lemma drive_decreases:
  assumes "run cap stops s s'"
  shows "gather_work wwork work s' < gather_work wwork work s"
  using assms
proof cases
  case (drive_part i x)
  then show ?thesis
    using work_set_part [of i s wwork work x]
      drive_work [of "run_done s" "sr_world s" "sr_parts s ! i" "fst x" "snd x"] by simp
next
  case (drive_send i r)
  then show ?thesis
    using sum_list_map_update [of i "sr_parts s" work "mark (sr_parts s ! i)"] mark_sent [of "sr_parts s ! i" r]
    by (simp add: gather_work_def send_result_def split: main_stage.split)
qed (auto simp: gather_work_def main_defs)

lemma drive_keeps_stuck:
  assumes "run cap stops s s'"
  shows "stuck (sr_world s') = stuck (sr_world s)"
  using assms
proof cases
  case (drive_part i x)
  then show ?thesis using drive_stuck [of "run_done s" "sr_world s" "sr_parts s ! i" "fst x" "snd x"] by (simp add: set_part_def)
qed (simp_all add: main_defs send_result_def)

lemma stuck_reaches: "reaches (run cap stops) s s' \<Longrightarrow> stuck (sr_world s') = stuck (sr_world s)"
  by (induction rule: reaches.induct) (simp_all add: drive_keeps_stuck)

lemma winding_part:
  assumes "winding_down over s" and i: "i < length (sr_parts s)" and "over (sr_parts s ! i) \<Longrightarrow> over (snd x)"
  shows "winding_down over (set_part s i x)"
proof (cases "sr_ctx s")
  case False
  then obtain j where j: "j < length (sr_parts s)" "over (sr_parts s ! j)"
    using assms(1) by (auto simp: winding_down_def in_set_conv_nth)
  have "over ((sr_parts s)[i := snd x] ! j)" using j assms(3) by (cases "j = i") auto
  moreover have "(sr_parts s)[i := snd x] ! j \<in> set ((sr_parts s)[i := snd x])" using j(1) by (intro nth_mem) simp
  ultimately show ?thesis unfolding set_part_def winding_down_def by auto
qed (simp add: winding_down_def set_part_def)

lemma winding_drive:
  assumes "run cap stops s s'" and "winding_down over s"
  shows "winding_down over s'"
  using assms
proof cases
  case (drive_part i x)
  then show ?thesis
    using winding_part [OF assms(2)] part_over [of "run_done s" "sr_world s" "sr_parts s ! i" "fst x" "snd x"] by simp
next
  case (drive_send i r)
  then show ?thesis
    using mark_sent
    by (auto simp: winding_down_def send_result_def intro!: bexI [of _ "mark (sr_parts s ! i)"] set_update_memI)
qed (use assms(2) in \<open>auto simp: winding_down_def main_defs\<close>)

lemma winding_reaches: "reaches (run cap stops) s s' \<Longrightarrow> winding_down over s \<Longrightarrow> winding_down over s'"
  by (induction rule: reaches.induct) (auto intro: winding_drive)

lemma part_progress:
  assumes wf: "wf_gather ok sent canceled cap s" and i: "i < length (sr_parts s)" and "\<not> sent (sr_parts s ! i)"
    and "run_done s \<and> \<not> stuck (sr_world s) \<or> ended (sr_parts s ! i) \<noteq> None"
  shows "\<exists>s'. run cap stops s s'"
proof (cases "ended (sr_parts s ! i)")
  case (Some r)
  have "length (sr_results s) < cap"
    using sent_count_less [of i "sr_parts s" sent] assms(1-3) by (simp add: wf_gather_def)
  then have "run cap stops s (send_result mark s i r)" by (intro drive_send i Some)
  then show ?thesis by blast
next
  case None
  then have d: "run_done s = True" "\<not> stuck (sr_world s)" using assms(4) by auto
  have "ok True (sr_world s) (sr_parts s)" using wf unfolding wf_gather_def d(1) by simp
  then obtain x where "drive True (sr_world s, sr_parts s ! i) x"
    using progress [OF _ nth_mem [OF i] assms(3) None d(2)] by blast
  then show ?thesis using drive_part [OF i, of drive x] unfolding d(1) by blast
qed

lemma main_progress:
  assumes wf: "wf_gather ok sent canceled cap s" and "winding_down over s" and "\<not> stuck (sr_world s)"
    and "\<forall>res. sr_main s \<noteq> ServeReturned res"
  shows "\<exists>s'. run cap stops s s'"
proof (cases "sr_main s")
  case Selecting
  show ?thesis
  proof (cases "sr_ctx s")
    case True
    then show ?thesis using drive_ctx [OF Selecting] by blast
  next
    case False
    then obtain i where i: "i < length (sr_parts s)" "over (sr_parts s ! i)"
      using assms(2) by (auto simp: winding_down_def in_set_conv_nth)
    have d: "run_done s = False" using False wf Selecting by (simp add: wf_gather_def)
    have "ok False (sr_world s) (sr_parts s)" using wf unfolding wf_gather_def d by simp
    then have "sent (sr_parts s ! i) \<or> ended (sr_parts s ! i) \<noteq> None" using over_ended [OF _ nth_mem [OF i(1)] i(2)] by simp
    moreover have ?thesis if "sent (sr_parts s ! i)"
    proof -
      have "sr_parts s ! i \<in> set (filter sent (sr_parts s))" using that i(1) by simp
      then have "0 < sent_count sent (sr_parts s)" unfolding sent_count_def by (rule length_pos_if_in_set)
      then obtain r rs where "sr_results s = r # rs"
        using wf Selecting by (cases "sr_results s") (auto simp: wf_gather_def)
      then show ?thesis using drive_first [OF Selecting] by blast
    qed
    ultimately show ?thesis using part_progress [OF wf i(1)] by blast
  qed
next
  case (Collecting first n)
  then have d: "run_done s" using wf by (simp add: wf_gather_def)
  show ?thesis
  proof (cases "\<forall>i < length (sr_parts s). sent (sr_parts s ! i)")
    case False
    then show ?thesis using part_progress [OF wf] d assms(3) by blast
  next
    case True
    then have all: "sent_count sent (sr_parts s) = length (sr_parts s)"
      by (simp add: sent_count_def filter_True all_set_conv_all_nth)
    show ?thesis
    proof (cases n)
      case 0
      then show ?thesis using drive_return [OF Collecting [unfolded 0]] by blast
    next
      case (Suc m)
      then have "0 < length (sr_results s)" using wf all Collecting by (auto simp: wf_gather_def)
      then obtain r rs where "sr_results s = r # rs" by (cases "sr_results s") auto
      then show ?thesis using drive_collect [OF Collecting [unfolded Suc]] by blast
    qed
  qed
qed (use assms(4) in auto)

text \<open>So every run of driven steps that cannot go on has returned, and as each takes work away, there is one.\<close>

lemma drive_ends:
  assumes "wf_gather ok sent canceled cap s" and "winding_down over s" and "\<not> stuck (sr_world s)"
    and "reaches (run cap stops) s s'" and "\<forall>s''. \<not> run cap stops s' s''"
  shows "\<exists>res. sr_main s' = ServeReturned res"
  using main_progress [OF drive_reaches [OF assms(4,1)] winding_reaches [OF assms(4,2)], of stops] stuck_reaches [OF assms(4)]
    assms(3,5) by blast

lemma can_return:
  assumes "wf_gather ok sent canceled cap s" and "winding_down over s" and "\<not> stuck (sr_world s)"
  shows "\<exists>s' res. reaches (run cap stops) s s' \<and> sr_main s' = ServeReturned res"
  using assms
proof (induction "gather_work wwork work s" arbitrary: s rule: less_induct)
  case less
  show ?case
  proof (cases "\<exists>res. sr_main s = ServeReturned res")
    case True
    then show ?thesis using reaches_refl [of "run cap stops" s] by blast
  next
    case False
    then obtain s1 where s1: "run cap stops s s1" using main_progress [OF less.prems] by blast
    have "wf_gather ok sent canceled cap s1" "winding_down over s1" "\<not> stuck (sr_world s1)"
      using wf_drive [OF less.prems(1) s1] winding_drive [OF s1 less.prems(2)] drive_keeps_stuck [OF s1] less.prems(3) by simp_all
    then show ?thesis using less.hyps [OF drive_decreases [OF s1]] reaches_first [of "run cap stops", OF _ s1] by blast
  qed
qed

lemma returned_all_sent:
  assumes "wf_gather ok sent canceled cap s" and "sr_main s = ServeReturned res"
  shows "\<forall>p \<in> set (sr_parts s). sent p"
proof (rule ccontr)
  assume "\<not> ?thesis"
  then obtain i where "i < length (sr_parts s)" "\<not> sent (sr_parts s ! i)" by (auto simp: in_set_conv_nth)
  then show False using sent_count_less [of i "sr_parts s" sent] assms by (simp add: wf_gather_def)
qed

end

text \<open>Where nothing that happens outside adds work to a component, no step at all does.\<close>

locale calm_gathering = gathering +
  assumes outside_work: "outside d (w, p) (w', p') \<Longrightarrow> wwork w' + work p' \<le> wwork w + work p"
begin

lemma outside_adds_none:
  assumes "gather_outside outside s s'"
  shows "gather_work wwork work s' \<le> gather_work wwork work s"
  using assms
proof cases
  case (outside_part i x)
  then show ?thesis
    using work_set_part [of i s wwork work x]
      outside_work [of "run_done s" "sr_world s" "sr_parts s ! i" "fst x" "snd x"] by simp
qed (simp add: gather_work_def split: main_stage.split)

end

end
