(* ===== verification/Tracker_Serve.thy ===== *)
theory Tracker_Serve
  imports Tracker_Command Gather
begin

text \<open>
  The running command \<^verbatim>\<open>tracker serve\<close>, \<^verbatim>\<open>src/cmd/tracker/main.go\<close>: the two HTTP handlers, \<^verbatim>\<open>serveHTTP\<close>, and the part
  of \<^verbatim>\<open>serve\<close> that starts one or two servers, waits for the first result or an interrupt, and then for all the
  others.  Goroutines interleave as a step relation.  Of \<^verbatim>\<open>net/http\<close> only what the documentation promises is used:
  handlers run at any time, \<^verbatim>\<open>Shutdown\<close> returns (its context has a time-out), after it was called \<^verbatim>\<open>Serve\<close> returns
  \<^verbatim>\<open>ErrServerClosed\<close>, and \<^verbatim>\<open>Serve\<close> may fail at any time otherwise.
\<close>

subsection \<open>The handlers\<close>

text \<open>\<open>None\<close> is the multiplexer's own answer to a path or method that nothing is registered for.\<close>

definition announceHandler ::
    "netlib \<Rightarrow> Server \<Rightarrow> gostring \<Rightarrow> http_Request \<Rightarrow> int \<Rightarrow> http_Response option \<times> Server" where
  "announceHandler net s path request now =
     (if path \<noteq> bytes_of ''/announce'' then (None, s)
      else case ServeHTTP net s request now of (response, s') \<Rightarrow> (Some response, s'))"

text \<open>\<open>json\<close> is the JSON encoding of a snapshot, or \<open>None\<close> when it fails.\<close>

definition trackerStatusHandler ::
    "netlib \<Rightarrow> (Snapshot \<Rightarrow> byte list option) \<Rightarrow> Server \<Rightarrow> gostring \<Rightarrow> http_Request \<Rightarrow> int \<Rightarrow>
     http_Response option \<times> Server" where
  "trackerStatusHandler net json s path request now =
     (if hr_Method request \<noteq> bytes_of ''GET'' \<and> hr_Method request \<noteq> bytes_of ''HEAD'' then (None, s)
      else if path = bytes_of ''/health'' then (Some \<lparr>StatusCode = 204, ContentType = [], hs_Body = []\<rparr>, s)
      else if path = bytes_of ''/v1/snapshot'' then
        (case sv_snapshot net s now of (snapshot, s') \<Rightarrow>
           (Some (case json snapshot of
              Some body \<Rightarrow> \<lparr>StatusCode = 200, ContentType = bytes_of ''application/json'', hs_Body = body\<rparr>
            | None \<Rightarrow> \<lparr>StatusCode = 500, ContentType = bytes_of ''text/plain; charset=utf-8'',
                       hs_Body = bytes_of ''encode tracker snapshot'' @ [10]\<rparr>), s'))
      else (None, s))"

subsection \<open>Serving\<close>

text \<open>What \<^verbatim>\<open>serveHTTP\<close> returns: the context's error or the server's.\<close>

datatype serve_result = CtxCanceled | ServeFailed io_error

text \<open>One call of \<^verbatim>\<open>serveHTTP\<close>: the goroutine that serves and then sends its result, and the one that shuts the server
  down when the context ends.  \<open>part_status\<close> says which of the two handlers is served.\<close>

datatype part_stage = InServe | AwaitShutdown | Ended serve_result | Sent serve_result

datatype watcher = Watching | ShuttingDown | ShutDown

record part =
  part_stage :: part_stage
  part_watcher :: watcher
  part_status :: bool

definition new_part :: "bool \<Rightarrow> part" where
  "new_part status = \<lparr>part_stage = InServe, part_watcher = Watching, part_status = status\<rparr>"

text \<open>What goes on by itself: the watcher sees the context end, calls \<^verbatim>\<open>Shutdown\<close> and closes its channel; \<^verbatim>\<open>Serve\<close> returns
  because \<^verbatim>\<open>Shutdown\<close> was called, and \<^verbatim>\<open>serveHTTP\<close> waits for the watcher and returns the context's error.\<close>

inductive serveHTTP :: "bool \<Rightarrow> part \<Rightarrow> part \<Rightarrow> bool" for ctx_done where
  watch_done: "part_watcher p = Watching \<Longrightarrow> ctx_done \<Longrightarrow> serveHTTP ctx_done p (p\<lparr>part_watcher := ShuttingDown\<rparr>)"
| watch_shutdown: "part_watcher p = ShuttingDown \<Longrightarrow> serveHTTP ctx_done p (p\<lparr>part_watcher := ShutDown\<rparr>)"
| serve_closed: "part_stage p = InServe \<Longrightarrow> part_watcher p \<noteq> Watching \<Longrightarrow>
     serveHTTP ctx_done p (p\<lparr>part_stage := AwaitShutdown\<rparr>)"
| serve_waited: "part_stage p = AwaitShutdown \<Longrightarrow> part_watcher p = ShutDown \<Longrightarrow>
     serveHTTP ctx_done p (p\<lparr>part_stage := Ended CtxCanceled\<rparr>)"

text \<open>What may happen: \<^verbatim>\<open>Serve\<close> fails for another reason.\<close>

definition serve_failed :: "bool \<Rightarrow> part \<Rightarrow> part \<Rightarrow> bool" where
  "serve_failed ctx_done p p' \<longleftrightarrow> part_stage p = InServe \<and>
     (\<exists>er. p' = p\<lparr>part_stage := (if ctx_done then AwaitShutdown else Ended (ServeFailed er))\<rparr>)"

text \<open>The servers of \<^verbatim>\<open>serve\<close> share the tracker.  It changes by requests only, which come from outside, at any time.\<close>

definition server_drive :: "bool \<Rightarrow> Server \<times> part \<Rightarrow> Server \<times> part \<Rightarrow> bool" where
  "server_drive ctx_done x y \<longleftrightarrow> fst y = fst x \<and> serveHTTP ctx_done (snd x) (snd y)"

inductive server_outside ::
    "netlib \<Rightarrow> (Snapshot \<Rightarrow> byte list option) \<Rightarrow> bool \<Rightarrow> Server \<times> part \<Rightarrow> Server \<times> part \<Rightarrow> bool" for net json ctx_done where
  server_request: "(if part_status p then trackerStatusHandler net json else announceHandler net) server path request now =
       (resp, server') \<Longrightarrow> server_outside net json ctx_done (server, p) (server', p)"
| server_failed: "serve_failed ctx_done p p' \<Longrightarrow> server_outside net json ctx_done (server, p) (server, p')"

text \<open>\<^verbatim>\<open>serve\<close>.  The channel of results holds two, and \<^verbatim>\<open>serve\<close> does not cancel when it hears the interrupt.\<close>

type_synonym serve_run = "(Server, part, serve_result) gather"

definition serve_start :: "Server \<Rightarrow> bool \<Rightarrow> serve_run" where
  "serve_start server status =
     \<lparr>sr_ctx = False, sr_cancel = False, sr_results = [],
      sr_parts = new_part False # (if status then [new_part True] else []), sr_main = Selecting, sr_world = server\<rparr>"

definition part_result :: "part \<Rightarrow> serve_result option" where
  "part_result p = (case part_stage p of Ended r \<Rightarrow> Some r | _ \<Rightarrow> None)"

definition part_send :: "part \<Rightarrow> part" where
  "part_send p = (case part_stage p of Ended r \<Rightarrow> p\<lparr>part_stage := Sent r\<rparr> | _ \<Rightarrow> p)"

definition is_canceled :: "serve_result \<Rightarrow> bool" where
  "is_canceled r \<longleftrightarrow> r = CtxCanceled"

definition serve_drive :: "serve_run \<Rightarrow> serve_run \<Rightarrow> bool" where
  "serve_drive = gather_drive server_drive part_result part_send is_canceled 2 False"

definition serve_step :: "netlib \<Rightarrow> (Snapshot \<Rightarrow> byte list option) \<Rightarrow> serve_run \<Rightarrow> serve_run \<Rightarrow> bool" where
  "serve_step net json s s' \<longleftrightarrow> serve_drive s s' \<or> gather_outside (server_outside net json) s s'"

subsection \<open>Invariant\<close>

lemma wf_server_ServeHTTP:
  assumes "wf_server s"
  shows "wf_server (snd (ServeHTTP net s request now))"
proof -
  have "wf_server s'" if "sv_announce s r a now = (resp, s')" for r a resp s'
    using wf_server_announce [OF assms, of r a now] that by simp
  then show ?thesis
    using assms by (auto simp: ServeHTTP_def split: sum.split option.split prod.split)
qed

lemma wf_server_snapshot:
  assumes "wf_server s"
  shows "wf_server (snd (sv_snapshot net s now))"
  using prune_fold [OF assms] by (simp add: sv_snapshot_def prune_all_def Let_def)

lemma wf_server_handlers:
  assumes "wf_server s"
    and "(if status then trackerStatusHandler net json else announceHandler net) s path request now = (resp, s')"
  shows "wf_server s'"
  using assms wf_server_ServeHTTP [OF assms(1), of net request now] wf_server_snapshot [OF assms(1), of net now]
  by (auto simp: trackerStatusHandler_def announceHandler_def split: if_splits prod.splits)

text \<open>One server: what is known of it, and the work left in it.\<close>

definition part_ok :: "bool \<Rightarrow> part \<Rightarrow> bool" where
  "part_ok is_done p \<longleftrightarrow>
     (part_stage p = AwaitShutdown \<or> part_stage p = Ended CtxCanceled \<or> part_watcher p \<noteq> Watching \<longrightarrow> is_done) \<and>
     (part_stage p = Ended CtxCanceled \<or> part_stage p = Sent CtxCanceled \<longrightarrow> part_watcher p = ShutDown)"

definition part_work :: "part \<Rightarrow> nat" where
  "part_work p =
     (case part_stage p of InServe \<Rightarrow> 3 | AwaitShutdown \<Rightarrow> 2 | Ended _ \<Rightarrow> 1 | Sent _ \<Rightarrow> 0) +
     (case part_watcher p of Watching \<Rightarrow> 2 | ShuttingDown \<Rightarrow> 1 | ShutDown \<Rightarrow> 0)"

definition part_sent :: "part \<Rightarrow> bool" where
  "part_sent p \<longleftrightarrow> (\<exists>r. part_stage p = Sent r)"

definition part_over :: "part \<Rightarrow> bool" where
  "part_over p \<longleftrightarrow> part_stage p \<noteq> InServe"

definition servers_ok :: "bool \<Rightarrow> Server \<Rightarrow> part list \<Rightarrow> bool" where
  "servers_ok is_done server ps \<longleftrightarrow> wf_server server \<and> (\<forall>p \<in> set ps. part_ok is_done p)"

lemmas part_defs = part_ok_def part_work_def part_sent_def part_over_def part_result_def part_send_def is_canceled_def

inductive_cases serveHTTPE: "serveHTTP d p p'"

text \<open>Both kinds of steps of one server.\<close>

lemma serve_part_step:
  assumes "serveHTTP d p p' \<or> serve_failed d p p'"
  shows "part_ok d p \<Longrightarrow> part_ok d p'" and "part_sent p' = part_sent p" and "part_over p \<Longrightarrow> part_over p'"
    and "part_work p' < part_work p"
  using assms
  by (auto elim!: serveHTTPE simp: serve_failed_def part_defs split: watcher.splits part_stage.splits if_splits)

lemma serveHTTP_progress:
  assumes "\<not> part_sent p" and "part_result p = None"
  shows "\<exists>p'. serveHTTP True p p'"
proof (cases "part_watcher p")
  case Watching
  show ?thesis by (rule exI, rule watch_done [OF Watching TrueI])
next
  case ShuttingDown
  show ?thesis by (rule exI, rule watch_shutdown [OF ShuttingDown])
next
  case ShutDown
  then show ?thesis
    using assms serve_closed [of p True] serve_waited [of p True] by (cases "part_stage p") (auto simp: part_defs)
qed

lemma part_ok_mono: "part_ok d p \<Longrightarrow> (d \<longrightarrow> d') \<Longrightarrow> part_ok d' p"
  by (auto simp: part_ok_def)

lemma part_ok_send: "part_ok d p \<Longrightarrow> part_ok d (part_send p)"
  by (auto simp: part_ok_def part_send_def split: part_stage.split)

lemma part_result_sent:
  "part_result p = Some r \<Longrightarrow> \<not> part_sent p \<and> part_sent (part_send p) \<and> part_over (part_send p) \<and> part_work (part_send p) < part_work p"
  by (auto simp: part_defs split: part_stage.splits)

lemma part_result_canceled: "part_result p = Some r \<Longrightarrow> part_ok d p \<Longrightarrow> is_canceled r \<Longrightarrow> d"
  by (auto simp: part_defs split: part_stage.splits)

lemma part_over_ended: "part_ok False p \<Longrightarrow> part_over p \<Longrightarrow> part_sent p \<or> part_result p \<noteq> None"
  by (cases "part_stage p") (auto simp: part_defs)

lemma server_part_step:
  assumes "server_drive d (w, p) (w', p') \<or> server_outside net json d (w, p) (w', p')"
  shows "p' = p \<or> serveHTTP d p p' \<or> serve_failed d p p'" and "wf_server w \<Longrightarrow> wf_server w'"
  using assms by (auto simp: server_drive_def wf_server_handlers elim!: server_outside.cases)

lemma list_update_ok: "\<forall>p \<in> set ps. P p \<Longrightarrow> P q \<Longrightarrow> \<forall>p \<in> set (ps[i := q]). P p"
  using set_update_subset_insert [of ps i q] by blast

lemma servers_ok_step:
  assumes "servers_ok d w ps" and i: "i < length ps"
    and st: "server_drive d (w, ps ! i) (w', p) \<or> server_outside net json d (w, ps ! i) (w', p)"
  shows "servers_ok d w' (ps[i := p])"
proof -
  have "wf_server w" "\<forall>p \<in> set ps. part_ok d p" using assms(1) by (simp_all add: servers_ok_def)
  moreover from this have "part_ok d p"
    using server_part_step(1) [OF st] serve_part_step(1) [of d "ps ! i" p] nth_mem [OF i] by auto
  ultimately show ?thesis
    unfolding servers_ok_def by (intro conjI list_update_ok server_part_step(2) [OF st])
qed

interpretation servers: calm_gathering server_drive "server_outside net json" part_result part_send is_canceled servers_ok part_sent
  part_over "\<lambda>_. False" "\<lambda>_. 0" part_work
proof
  fix d d' w w' ps i p p' r
  show "servers_ok d w ps \<Longrightarrow> i < length ps \<Longrightarrow> server_drive d (w, ps ! i) (w', p) \<or> server_outside net json d (w, ps ! i) (w', p) \<Longrightarrow>
      servers_ok d w' (ps[i := p])"
    by (rule servers_ok_step)
  show "servers_ok d w ps \<Longrightarrow> (d \<longrightarrow> d') \<Longrightarrow> servers_ok d' w ps"
    by (auto simp: servers_ok_def elim: part_ok_mono)
  show "servers_ok d w ps \<Longrightarrow> i < length ps \<Longrightarrow> part_result (ps ! i) = Some r \<Longrightarrow> servers_ok d w (ps[i := part_send (ps ! i)])"
    unfolding servers_ok_def by (intro conjI list_update_ok) (auto intro: part_ok_send)
  show "server_drive d (w, p) (w', p') \<or> server_outside net json d (w, p) (w', p') \<Longrightarrow> part_sent p' = part_sent p"
    by (auto dest!: server_part_step(1) serve_part_step(2))
  show "server_drive d (w, p) (w', p') \<or> server_outside net json d (w, p) (w', p') \<Longrightarrow> part_over p \<Longrightarrow> part_over p'"
    by (auto dest!: server_part_step(1) intro: serve_part_step(3))
  show "server_drive d (w, p) (w', p') \<Longrightarrow> 0 + part_work p' < 0 + part_work p"
    by (simp add: server_drive_def serve_part_step(4) [of d])
  show "part_result p = Some r \<Longrightarrow> \<not> part_sent p \<and> part_sent (part_send p) \<and> part_over (part_send p) \<and> part_work (part_send p) < part_work p"
    by (rule part_result_sent)
  show "servers_ok d w ps \<Longrightarrow> p \<in> set ps \<Longrightarrow> part_result p = Some r \<Longrightarrow> is_canceled r \<Longrightarrow> d"
    by (auto simp: servers_ok_def dest: part_result_canceled)
  show "servers_ok True w ps \<Longrightarrow> p \<in> set ps \<Longrightarrow> \<not> part_sent p \<Longrightarrow> part_result p = None \<Longrightarrow> \<not> False \<Longrightarrow>
      \<exists>x. server_drive True (w, p) x"
    using serveHTTP_progress [of p] by (auto simp: server_drive_def)
  show "servers_ok False w ps \<Longrightarrow> p \<in> set ps \<Longrightarrow> part_over p \<Longrightarrow> part_sent p \<or> part_result p \<noteq> None"
    using part_over_ended by (auto simp: servers_ok_def)
  show "server_outside net json d (w, p) (w', p') \<Longrightarrow> 0 + part_work p' \<le> 0 + part_work p"
    by (auto elim!: server_outside.cases intro: less_imp_le serve_part_step(4))
qed simp

abbreviation wf_run :: "serve_run \<Rightarrow> bool" where
  "wf_run \<equiv> wf_gather servers_ok part_sent is_canceled 2"

lemma wf_run_start: "wf_server server \<Longrightarrow> wf_run (serve_start server status)"
  by (simp add: wf_gather_def servers_ok_def serve_start_def new_part_def part_ok_def sent_count_def part_sent_def)

interpretation serving: invariant_system "serve_step net json" wf_run
  by unfold_locales (auto simp: serve_step_def serve_drive_def intro: servers.wf_drive servers.wf_outside)

subsection \<open>Returning\<close>

text \<open>The work left, and that something has ended or the interrupt has come.\<close>

abbreviation serve_work :: "serve_run \<Rightarrow> nat" where
  "serve_work \<equiv> gather_work (\<lambda>_. 0) part_work"

abbreviation serve_winding :: "serve_run \<Rightarrow> bool" where
  "serve_winding \<equiv> winding_down part_over"

lemma serve_drive_work: "serve_drive s s' \<Longrightarrow> serve_work s' < serve_work s"
  unfolding serve_drive_def by (rule servers.drive_decreases)

lemma serve_step_work: "serve_step net json s s' \<Longrightarrow> serve_work s' \<le> serve_work s"
  unfolding serve_step_def using serve_drive_work servers.outside_adds_none by (auto intro: less_imp_le)

lemma serve_ends:
  assumes "wf_run s" and "serve_winding s"
  shows "reaches serve_drive s s' \<Longrightarrow> (\<forall>s''. \<not> serve_drive s' s'') \<Longrightarrow> \<exists>res. sr_main s' = ServeReturned res"
    and "\<exists>s' res. reaches serve_drive s s' \<and> sr_main s' = ServeReturned res"
  unfolding serve_drive_def using servers.drive_ends [OF assms] servers.can_return [OF assms] by auto

text \<open>C37. The tracker command winds down.  However requests, failures and ends of its servers, their shutdowns and an interrupt
  interleave, the registry stays well formed, and when \<^verbatim>\<open>serve\<close> returns, every server it started has ended, those that
  were cancelled after their shutdown was over; it reports no error only after an interrupt, and never reports the cancellation it caused itself.  Once one server has ended or
  the interrupt has come, \<^verbatim>\<open>serve\<close> returns by what its own goroutines do, with nobody's help: each of their steps takes
  work away and no step of any kind adds work, so only finitely many are left; every run of these steps that cannot be
  continued has returned; and there is such a run.  A step of their own is never a request, never the failure of a server
  and never the interrupt: a healthy server ends only because its context was cancelled and the watcher shut it down.\<close>

theorem serve_winds_down:
  assumes "wf_server server" and "reaches (serve_step net json) (serve_start server status) s"
  shows "wf_server (sr_world s) \<and>
    (\<forall>res. sr_main s = ServeReturned res \<longrightarrow>
       (\<forall>p \<in> set (sr_parts s). \<exists>r. part_stage p = Sent r \<and> (r = CtxCanceled \<longrightarrow> part_watcher p = ShutDown)) \<and>
       (res = None \<longrightarrow> sr_ctx s) \<and> res \<noteq> Some CtxCanceled) \<and>
    (serve_winding s \<longrightarrow>
       (\<forall>s'. reaches serve_drive s s' \<and> (\<forall>s''. \<not> serve_drive s' s'') \<longrightarrow> (\<exists>res. sr_main s' = ServeReturned res)) \<and>
       (\<exists>s' res. reaches serve_drive s s' \<and> sr_main s' = ServeReturned res)) \<and>
    (\<forall>s'. serve_drive s s' \<longrightarrow> serve_work s' < serve_work s) \<and>
    (\<forall>s'. serve_step net json s s' \<longrightarrow> serve_work s' \<le> serve_work s)"
proof -
  have wf: "wf_run s" using serving.inv_reaches [OF assms(2) wf_run_start [OF assms(1)]] .
  have "(res = None \<longrightarrow> sr_ctx s) \<and> res \<noteq> Some CtxCanceled" if "sr_main s = ServeReturned res" for res
    using wf that by (auto simp: wf_gather_def is_canceled_def)
  moreover have "wf_server (sr_world s)" using wf by (simp add: wf_gather_def servers_ok_def)
  moreover have "\<exists>r. part_stage p = Sent r \<and> (r = CtxCanceled \<longrightarrow> part_watcher p = ShutDown)"
    if "sr_main s = ServeReturned res" "p \<in> set (sr_parts s)" for res p
    using servers.returned_all_sent [OF wf that(1)] that(2) wf by (auto simp: wf_gather_def servers_ok_def part_ok_def part_sent_def)
  ultimately show ?thesis using serve_ends [OF wf] serve_drive_work serve_step_work by blast
qed

text \<open>Two servers run, and the one for the status fails.  Whatever the goroutines do then, they come to an end, and there
  \<^verbatim>\<open>serve\<close> has returned with the healthy server shut down.\<close>

theorem serve_winds_down_witness:
  "\<exists>s. reaches (serve_step ipv4_net (\<lambda>_. None)) (serve_start demo_server True) s \<and>
     map part_stage (sr_parts s) = [InServe, Ended (ServeFailed ErrIO)] \<and> \<not> sr_ctx s \<and>
     (\<forall>s'. reaches serve_drive s s' \<and> (\<forall>s''. \<not> serve_drive s' s'') \<longrightarrow> (\<exists>res. sr_main s' = ServeReturned res)) \<and>
     (\<exists>s' res. reaches serve_drive s s' \<and> sr_main s' = ServeReturned res)"
proof -
  let ?R = "serve_step ipv4_net (\<lambda>_. None)" and ?start = "serve_start demo_server True"
  let ?x = "(demo_server, (new_part True)\<lparr>part_stage := Ended (ServeFailed ErrIO)\<rparr>)"
  let ?s = "set_part ?start 1 ?x"
  have "serve_failed False (new_part True) (snd ?x)" by (auto simp: serve_failed_def new_part_def)
  then have "server_outside ipv4_net (\<lambda>_. None) (run_done ?start) (sr_world ?start, sr_parts ?start ! 1) ?x"
    using server_failed [of False "new_part True" "snd ?x" ipv4_net "\<lambda>_. None" demo_server] by (simp add: serve_start_def)
  then have "?R ?start ?s" unfolding serve_step_def by (intro disjI2 outside_part) (simp_all add: serve_start_def)
  then have r: "reaches ?R ?start ?s" by (rule reaches_step [of ?R, OF reaches_refl])
  have p: "map part_stage (sr_parts ?s) = [InServe, Ended (ServeFailed ErrIO)]" "\<not> sr_ctx ?s"
    by (simp_all add: set_part_def serve_start_def new_part_def)
  have w: "serve_winding ?s" by (auto simp: winding_down_def part_over_def set_part_def serve_start_def)
  have T: "(\<forall>s'. reaches serve_drive s s' \<and> (\<forall>s''. \<not> serve_drive s' s'') \<longrightarrow> (\<exists>res. sr_main s' = ServeReturned res)) \<and>
      (\<exists>s' res. reaches serve_drive s s' \<and> sr_main s' = ServeReturned res)" if "reaches ?R ?start s" "serve_winding s" for s
    using serve_winds_down [OF wf_demo_server that(1)] that(2) by simp
  show ?thesis by (rule exI [of _ ?s], intro conjI r p T [OF r w, THEN conjunct1] T [OF r w, THEN conjunct2])
qed

end
