(* ===== verification/Sha256.thy ===== *)
theory Sha256
  imports Sha1
begin

text \<open>
  \<^verbatim>\<open>crypto/sha256\<close> (FIPS 180-4): the digest that pins a metainfo file fetched over HTTP.  Padding and
  message words are those of \<^verbatim>\<open>crypto/sha1\<close>.
\<close>

unbundle bit_operations_syntax

definition sha256_K :: "uint32 list" where
  "sha256_K =
     [1116352408, 1899447441, 3049323471, 3921009573, 961987163, 1508970993,
      2453635748, 2870763221, 3624381080, 310598401, 607225278, 1426881987,
      1925078388, 2162078206, 2614888103, 3248222580, 3835390401, 4022224774,
      264347078, 604807628, 770255983, 1249150122, 1555081692, 1996064986,
      2554220882, 2821834349, 2952996808, 3210313671, 3336571891, 3584528711,
      113926993, 338241895, 666307205, 773529912, 1294757372, 1396182291,
      1695183700, 1986661051, 2177026350, 2456956037, 2730485921, 2820302411,
      3259730800, 3345764771, 3516065817, 3600352804, 4094571909, 275423344,
      430227734, 506948616, 659060556, 883997877, 958139571, 1322822218,
      1537002063, 1747873779, 1955562222, 2024104815, 2227730452, 2361852424,
      2428436474, 2756734187, 3204031479, 3329325298]"

text \<open>The message schedule is built in reverse: the newest word first.\<close>

fun sha256_schedule :: "nat \<Rightarrow> uint32 list \<Rightarrow> uint32 list" where
  "sha256_schedule 0 ws = ws"
| "sha256_schedule (Suc n) ws =
     (let x = ws ! 14; y = ws ! 1;
          s0 = word_rotr 7 x XOR word_rotr 18 x XOR drop_bit 3 x;
          s1 = word_rotr 17 y XOR word_rotr 19 y XOR drop_bit 10 y
      in sha256_schedule n ((ws ! 15 + s0 + ws ! 6 + s1) # ws))"

type_synonym sha256_state = "uint32 \<times> uint32 \<times> uint32 \<times> uint32 \<times> uint32 \<times> uint32 \<times> uint32 \<times> uint32"

fun sha256_rounds :: "(uint32 \<times> uint32) list \<Rightarrow> sha256_state \<Rightarrow> sha256_state" where
  "sha256_rounds [] st = st"
| "sha256_rounds ((k, w) # kws) (a, b, c, d, e, f, g, h) =
     (let s1 = word_rotr 6 e XOR word_rotr 11 e XOR word_rotr 25 e;
          ch = (e AND f) XOR (NOT e AND g);
          t1 = h + s1 + ch + k + w;
          s0 = word_rotr 2 a XOR word_rotr 13 a XOR word_rotr 22 a;
          maj = (a AND b) XOR (a AND c) XOR (b AND c)
      in sha256_rounds kws (t1 + s0 + maj, a, b, c, d + t1, e, f, g))"

fun sha256_block :: "sha256_state \<Rightarrow> byte list \<Rightarrow> sha256_state" where
  "sha256_block (h0, h1, h2, h3, h4, h5, h6, h7) blk =
     (case sha256_rounds (zip sha256_K (rev (sha256_schedule 48 (rev (be_words blk)))))
             (h0, h1, h2, h3, h4, h5, h6, h7) of
        (a, b, c, d, e, f, g, h) \<Rightarrow> (h0 + a, h1 + b, h2 + c, h3 + d, h4 + e, h5 + f, h6 + g, h7 + h))"

function sha256_blocks :: "sha256_state \<Rightarrow> byte list \<Rightarrow> sha256_state" where
  "sha256_blocks st s =
     (if length s < 64 then st else sha256_blocks (sha256_block st (take 64 s)) (drop 64 s))"
  by pat_completeness auto
termination
  by (relation "measure (\<lambda>(st, s). length s)") auto

declare sha256_blocks.simps [simp del]

definition sha256_Sum :: "byte list \<Rightarrow> byte list" where
  "sha256_Sum msg =
     (case sha256_blocks
        (1779033703, 3144134277, 1013904242, 2773480762,
         1359893119, 2600822924, 528734635, 1541459225) (sha1_pad msg) of
        (a, b, c, d, e, f, g, h) \<Rightarrow>
          PutUint32 a @ PutUint32 b @ PutUint32 c @ PutUint32 d @ PutUint32 e @ PutUint32 f @ PutUint32 g @ PutUint32 h)"

lemma length_sha256_Sum [simp]: "length (sha256_Sum msg) = 32"
  by (simp add: sha256_Sum_def PutUint32_def split: prod.splits)

end
