(* ===== verification/Torrent_Model.thy ===== *)
theory Torrent_Model
  imports PieceSet_Correct
begin

text \<open>
  The session of one torrent: peers and their queues (\<^verbatim>\<open>src/torrent/peer.go\<close>, \<^verbatim>\<open>peers.go\<close>), the
  session state and its construction (\<^verbatim>\<open>torrent.go\<close>), the message handlers of the transfer
  (\<^verbatim>\<open>transfer.go\<close>), handshakes (\<^verbatim>\<open>discovery.go\<close>), status (\<^verbatim>\<open>status.go\<close>) and the lifecycle (\<^verbatim>\<open>run.go\<close>).

  A \<^verbatim>\<open>*peer\<close> is an index into the store \<open>heap\<close>; an index without an entry is the nil pointer, and
  pointer comparison is comparison of indices.  The maps \<^verbatim>\<open>t.pending\<close> and \<^verbatim>\<open>t.peers\<close> are association
  lists.  Each peer's write loop runs beside the event loop and takes messages from the peer's
  queue: \<open>drains\<close> lists, for the attempts to enqueue a message still to come, how many messages the
  write loop takes from that queue just before; \<open>taken\<close> records them.  A handler that can touch the
  file takes the outcome of that file operation as an argument.
\<close>

subsection \<open>Peers\<close>

type_synonym pref = nat

record peerState =
  AmChoking :: bool
  AmInterested :: bool
  PeerChoking :: bool
  PeerInterested :: bool

record peer =
  peer_id :: gostring
  infoHash :: gostring
  incoming :: bool
  pstate :: peerState
  bitfield :: "byte list"
  outgoing :: "Message list"
  taken :: "Message list"
  conn_open :: bool
  remoteAddr :: "gostring option"

definition peerWriteQueueSize :: nat where
  "peerWriteQueueSize = 32"

definition newPeer :: "gostring option \<Rightarrow> Handshake \<Rightarrow> peer" where
  "newPeer addr handshake =
     \<lparr>peer_id = HsPeerID handshake, infoHash = HsInfoHash handshake, incoming = False,
      pstate = \<lparr>AmChoking = True, AmInterested = False, PeerChoking = True, PeerInterested = False\<rparr>,
      bitfield = [], outgoing = [], taken = [], conn_open = True, remoteAddr = addr\<rparr>"

unbundle bit_operations_syntax

definition hasPiece :: "peer \<Rightarrow> uint32 \<Rightarrow> bool" where
  "hasPiece p index =
     (let byteIndex = unat (index div 8) in
      if byteIndex \<ge> length (bitfield p) then False
      else let mask = push_bit (7 - unat (index mod 8)) 1 in
        bitfield p ! byteIndex AND mask \<noteq> 0)"

definition setPiece :: "peer \<Rightarrow> uint32 \<Rightarrow> peer" where
  "setPiece p index =
     (let byteIndex = unat (index div 8);
          bits = (if byteIndex \<ge> length (bitfield p)
                  then bitfield p @ replicate (byteIndex + 1 - length (bitfield p)) 0
                  else bitfield p) in
      p\<lparr>bitfield := bits[byteIndex := bits ! byteIndex OR push_bit (7 - unat (index mod 8)) 1]\<rparr>)"

subsection \<open>The session\<close>

record Torrent =
  Meta :: MetaInfo
  pieces :: PieceSet
  tfile :: "osfile option"
  pending :: "(BlockRequest \<times> pref) list"
  peers :: "(gostring \<times> pref) list"
  uploaded :: uint64
  downloaded :: uint64
  downloadMode :: string
  TrackerID :: gostring
  running :: bool
  closeErr :: "io_error option"
  heap :: "peer list"
  drains :: "nat list"

datatype torrent_error =
    TPiece piece_error
  | ErrPeerWriteQueueFull
  | NoPeer
  | UnexpectedBlock uint32 uint32
  | PeerLimitReached
  | PeerAlreadyActive
  | ErrAlreadyRunning
  | ErrNotRunning
  | ErrStopped
  | CtxErr
  | BadProtocol
  | BadInfoHash
  | OwnPeerID
  | DialFailed
  | HandshakeIo io_error
  | FileError io_error

abbreviation downloadModeProgress :: string where "downloadModeProgress \<equiv> ''progress''"
abbreviation downloadModePaused :: string where "downloadModePaused \<equiv> ''paused''"

definition maxPeers :: nat where
  "maxPeers = 5"

definition maxPendingPerPeer :: nat where
  "maxPendingPerPeer = 8"

definition new_Torrent :: "MetaInfo \<Rightarrow> piece_error + Torrent" where
  "new_Torrent meta =
     bind_r (NewPieceSet (MInfo meta)) (\<lambda>ps.
       Inr \<lparr>Meta = meta, pieces = ps, tfile = None, pending = [], peers = [], uploaded = 0,
            downloaded = 0, downloadMode = '''', TrackerID = [], running = False, closeErr = None,
            heap = [], drains = []\<rparr>)"

text \<open>\<^verbatim>\<open>OpenDownload\<close> on the file found at the output path (empty when it was created), or the error
  of opening it; \<open>trunc\<close> is the outcome of \<^verbatim>\<open>Truncate\<close>.\<close>

definition OpenDownload ::
    "MetaInfo \<Rightarrow> io_error + osfile \<Rightarrow> io_error option \<Rightarrow> torrent_error + Torrent" where
  "OpenDownload meta opened trunc =
     bind_r (map_sum TPiece id (new_Torrent meta)) (\<lambda>torrent.
     bind_r (map_sum FileError id opened) (\<lambda>f.
       case trunc of
         Some er \<Rightarrow> Inl (FileError er)
       | None \<Rightarrow> Inr (torrent\<lparr>tfile := Some (file_Truncate f (nat (Length (MInfo meta))))\<rparr>)))"

definition OpenSeed ::
    "MetaInfo \<Rightarrow> io_error + osfile \<Rightarrow> (nat \<Rightarrow> io_outcome) \<Rightarrow> torrent_error + Torrent" where
  "OpenSeed meta opened rd =
     bind_r (map_sum TPiece id (new_Torrent meta)) (\<lambda>torrent.
     bind_r (map_sum FileError id opened) (\<lambda>f.
       case ps_VerifyExisting (pieces torrent) (Some f) rd of
         (Some er, _) \<Rightarrow> Inl (TPiece er)
       | (None, ps) \<Rightarrow> Inr (torrent\<lparr>pieces := ps, tfile := Some f\<rparr>)))"

definition pendingCount :: "Torrent \<Rightarrow> pref \<Rightarrow> nat" where
  "pendingCount t r = length (filter (\<lambda>(_, assignedPeer). assignedPeer = r) (pending t))"

definition releasePendingRequests :: "Torrent \<Rightarrow> pref \<Rightarrow> Torrent" where
  "releasePendingRequests t r = t\<lparr>pending := filter (\<lambda>(_, assignedPeer). assignedPeer \<noteq> r) (pending t)\<rparr>"

definition closeFile :: "Torrent \<Rightarrow> io_error option \<Rightarrow> io_error option \<times> Torrent" where
  "closeFile t result =
     (case tfile t of None \<Rightarrow> (None, t) | Some _ \<Rightarrow> (result, t\<lparr>tfile := None\<rparr>))"

definition upd_peer :: "Torrent \<Rightarrow> pref \<Rightarrow> (peer \<Rightarrow> peer) \<Rightarrow> Torrent" where
  "upd_peer t r f = (if r < length (heap t) then t\<lparr>heap := (heap t)[r := f (heap t ! r)]\<rparr> else t)"

definition upd_state :: "Torrent \<Rightarrow> pref \<Rightarrow> (peerState \<Rightarrow> peerState) \<Rightarrow> Torrent" where
  "upd_state t r f = upd_peer t r (\<lambda>p. p\<lparr>pstate := f (pstate p)\<rparr>)"

text \<open>The non-blocking send on the peer's queue; \<^verbatim>\<open>sendMessage\<close> turns a full queue into
  \<^verbatim>\<open>errPeerWriteQueueFull\<close>.\<close>

definition tryEnqueue :: "Torrent \<Rightarrow> pref \<Rightarrow> Message \<Rightarrow> bool \<times> Torrent" where
  "tryEnqueue t r message =
     (let d = (case drains t of [] \<Rightarrow> 0 | d # _ \<Rightarrow> d);
          t' = upd_peer (t\<lparr>drains := tl (drains t)\<rparr>) r
                 (\<lambda>p. p\<lparr>outgoing := drop d (outgoing p), taken := taken p @ take d (outgoing p)\<rparr>) in
      if length (outgoing (heap t' ! r)) < peerWriteQueueSize
      then (True, upd_peer t' r (\<lambda>p. p\<lparr>outgoing := outgoing p @ [message]\<rparr>))
      else (False, t'))"

definition sendMessage :: "Torrent \<Rightarrow> pref \<Rightarrow> Message \<Rightarrow> torrent_error option \<times> Torrent" where
  "sendMessage t r message =
     (case tryEnqueue t r message of
        (True, t') \<Rightarrow> (None, t')
      | (False, t') \<Rightarrow> (Some ErrPeerWriteQueueFull, t'))"

subsection \<open>Membership\<close>

definition closePeer :: "Torrent \<Rightarrow> pref \<Rightarrow> Torrent" where
  "closePeer t r = upd_peer t r (\<lambda>p. p\<lparr>conn_open := False\<rparr>)"

definition hasPeer :: "Torrent \<Rightarrow> pref \<Rightarrow> bool" where
  "hasPeer t r \<longleftrightarrow> r < length (heap t) \<and> m_get (peers t) (peer_id (heap t ! r)) = Some r"

definition removePeer :: "Torrent \<Rightarrow> pref \<Rightarrow> Torrent" where
  "removePeer t r =
     (if r \<ge> length (heap t) then t
      else let t1 = releasePendingRequests t r;
               t2 = (if m_get (peers t1) (peer_id (heap t1 ! r)) = Some r
                     then t1\<lparr>peers := m_del (peer_id (heap t1 ! r)) (peers t1)\<rparr> else t1) in
        closePeer t2 r)"

fun broadcast_loop :: "Torrent \<Rightarrow> (gostring \<times> pref) list \<Rightarrow> Message \<Rightarrow> Torrent" where
  "broadcast_loop t [] message = t"
| "broadcast_loop t ((_, r) # rs) message =
     (case sendMessage t r message of
        (None, t') \<Rightarrow> broadcast_loop t' rs message
      | (Some _, t') \<Rightarrow> broadcast_loop (removePeer t' r) rs message)"

definition broadcastMessage :: "Torrent \<Rightarrow> Message \<Rightarrow> Torrent" where
  "broadcastMessage t message = broadcast_loop t (peers t) message"

definition activatePeer :: "Torrent \<Rightarrow> pref \<Rightarrow> torrent_error option \<times> Torrent" where
  "activatePeer t r =
     (if r \<ge> length (heap t) then (Some NoPeer, t)
      else if length (peers t) \<ge> maxPeers then (Some PeerLimitReached, t)
      else if m_get (peers t) (peer_id (heap t ! r)) \<noteq> None then (Some PeerAlreadyActive, t)
      else case tryEnqueue t r (Bitfield (PiecesBitfield (pieces t))) of
        (False, t') \<Rightarrow> (Some ErrPeerWriteQueueFull, t')
      | (True, t') \<Rightarrow> (None, t'\<lparr>peers := m_put (peer_id (heap t' ! r)) r (peers t')\<rparr>))"

definition closePeers :: "Torrent \<Rightarrow> Torrent" where
  "closePeers t = (fold (\<lambda>(_, r) t. closePeer t r) (peers t) t)\<lparr>peers := [], pending := []\<rparr>"

subsection \<open>Requests\<close>

text \<open>The loop of \<^verbatim>\<open>reserveNextRequest\<close> over piece indices.\<close>

fun reserve_loop ::
    "Torrent \<Rightarrow> pref \<Rightarrow> nat list \<Rightarrow> (torrent_error + BlockRequest option) \<times> Torrent"
where
  "reserve_loop t r [] = (Inr None, t)"
| "reserve_loop t r (index # is) =
     (let pieceIndex = of_nat index in
      if ps_IsComplete (pieces t) pieceIndex \<or> \<not> hasPiece (heap t ! r) pieceIndex
      then reserve_loop t r is
      else case ps_nextMissingBlock (pieces t) pieceIndex (\<lambda>q. m_get (pending t) q \<noteq> None) of
        (Inl er, ps) \<Rightarrow> (Inl (TPiece er), t\<lparr>pieces := ps\<rparr>)
      | (Inr None, ps) \<Rightarrow> reserve_loop (t\<lparr>pieces := ps\<rparr>) r is
      | (Inr (Some request), ps) \<Rightarrow>
          (Inr (Some request), t\<lparr>pieces := ps, pending := m_put request r (pending t)\<rparr>))"

definition reserveNextRequest ::
    "Torrent \<Rightarrow> pref \<Rightarrow> (torrent_error + BlockRequest option) \<times> Torrent" where
  "reserveNextRequest t r = reserve_loop t r [0..<ps_Count (pieces t)]"

text \<open>A request that is proposed is not pending, so reserving it adds one: the loop of
  \<^verbatim>\<open>fillRequestWindow\<close> ends.\<close>

lemma nextMissing_loop_not_pending:
  "nextMissing_loop p w isPending i rs = Inr (Some q) \<Longrightarrow> \<not> isPending q"
  by (induction rs arbitrary: i) (auto simp: bind_r_iffs split: if_splits)

lemma ps_nextMissingBlock_not_pending:
  "ps_nextMissingBlock p w isPending = (Inr (Some q), p') \<Longrightarrow> \<not> isPending q"
  by (auto simp: ps_nextMissingBlock_def split: prod.splits sum.splits dest: nextMissing_loop_not_pending)

lemma reserve_loop_Some:
  assumes "reserve_loop t r is = (Inr (Some q), t')"
  shows "pending t' = pending t @ [(q, r)] \<and> m_get (pending t) q = None"
  using assms
proof (induction "is" arbitrary: t)
  case Nil
  then show ?case by simp
next
  case (Cons i "is")
  show ?case
  proof (cases "ps_IsComplete (pieces t) (of_nat i) \<or> \<not> hasPiece (heap t ! r) (of_nat i)")
    case True
    then show ?thesis using Cons by (simp add: Let_def)
  next
    case False
    obtain res ps where e: "ps_nextMissingBlock (pieces t) (of_nat i) (\<lambda>q. m_get (pending t) q \<noteq> None) = (res, ps)"
      by fastforce
    show ?thesis
    proof (cases "\<exists>request. res = Inr (Some request)")
      case True
      then have eq: "res = Inr (Some q)" "pending t' = m_put q r (pending t)"
        using False Cons.prems e by (auto simp: Let_def)
      then have "m_get (pending t) q = None"
        using ps_nextMissingBlock_not_pending [OF e [unfolded eq(1)]] by simp
      with eq(2) have "m_get (pending t) q = None \<and> pending t' = m_put q r (pending t)" by blast
      then show ?thesis by (auto simp: m_put_fresh map_of_eq_None_iff)
    next
      case no: False
      then obtain "res = Inr None" "reserve_loop (t\<lparr>pieces := ps\<rparr>) r is = (Inr (Some q), t')"
        using False Cons.prems e by (auto simp: Let_def split: sum.splits option.splits)
      then show ?thesis using Cons.IH by fastforce
    qed
  qed
qed

lemma upd_peer_fields [simp]:
  "Meta (upd_peer t r f) = Meta t" "pieces (upd_peer t r f) = pieces t" "tfile (upd_peer t r f) = tfile t"
  "pending (upd_peer t r f) = pending t" "peers (upd_peer t r f) = peers t"
  "uploaded (upd_peer t r f) = uploaded t" "downloaded (upd_peer t r f) = downloaded t"
  "downloadMode (upd_peer t r f) = downloadMode t" "running (upd_peer t r f) = running t"
  "length (heap (upd_peer t r f)) = length (heap t)" "drains (upd_peer t r f) = drains t"
  "TrackerID (upd_peer t r f) = TrackerID t" "closeErr (upd_peer t r f) = closeErr t"
  by (simp_all add: upd_peer_def)

lemma tryEnqueue_pending [simp]: "pending (snd (tryEnqueue t r m)) = pending t"
  by (simp add: tryEnqueue_def Let_def)

lemma sendMessage_pending: "sendMessage t r m = (res, t') \<Longrightarrow> pending t' = pending t"
  using tryEnqueue_pending [of t r m]
  by (cases "tryEnqueue t r m") (auto simp: sendMessage_def simp del: tryEnqueue_pending split: bool.splits)

function fill_loop :: "Torrent \<Rightarrow> pref \<Rightarrow> torrent_error option \<times> Torrent" where
  "fill_loop t r =
     (if pendingCount t r \<ge> maxPendingPerPeer then (None, t)
      else case reserveNextRequest t r of
        (Inl er, t1) \<Rightarrow> (Some er, t1)
      | (Inr None, t1) \<Rightarrow> (None, t1)
      | (Inr (Some req), t1) \<Rightarrow>
          (case sendMessage t1 r (Request req) of
             (Some er, t2) \<Rightarrow> (Some er, t2\<lparr>pending := m_del req (pending t2)\<rparr>)
           | (None, t2) \<Rightarrow> fill_loop t2 r))"
  by pat_completeness auto

lemma fill_loop_progress:
  assumes "\<not> maxPendingPerPeer \<le> pendingCount t r" and "reserveNextRequest t r = (Inr (Some req), t1)"
    and "sendMessage t1 r (Request req) = (None, t2)"
  shows "maxPendingPerPeer - pendingCount t2 r < maxPendingPerPeer - pendingCount t r"
proof -
  have "pending t2 = pending t @ [(req, r)]"
    using reserve_loop_Some [of t r "[0..<ps_Count (pieces t)]" req t1] sendMessage_pending [OF assms(3)] assms(2)
    by (simp add: reserveNextRequest_def)
  then show ?thesis using assms(1) by (simp add: pendingCount_def)
qed

termination fill_loop
  by (relation "measure (\<lambda>(t, r). maxPendingPerPeer - pendingCount t r)")
    (auto intro!: fill_loop_progress dest: sym)

declare fill_loop.simps [simp del]

definition fillRequestWindow :: "Torrent \<Rightarrow> pref \<Rightarrow> torrent_error option \<times> Torrent" where
  "fillRequestWindow t r =
     (if r \<ge> length (heap t) then (None, t)
      else if downloadMode t = downloadModePaused then (None, t)
      else if PeerChoking (pstate (heap t ! r)) \<or> \<not> AmInterested (pstate (heap t ! r)) then (None, t)
      else fill_loop t r)"

subsection \<open>Messages\<close>

definition receiveBlock ::
    "Torrent \<Rightarrow> pref \<Rightarrow> uint32 \<Rightarrow> uint32 \<Rightarrow> byte list \<Rightarrow> io_outcome \<Rightarrow> (torrent_error + bool) \<times> Torrent" where
  "receiveBlock t r index begin data oc =
     (let request = \<lparr>PieceIndex = index, Begin = begin, BlockLength = of_nat (length data)\<rparr> in
      if m_get (pending t) request \<noteq> Some r then (Inl (UnexpectedBlock index begin), t)
      else case ps_StoreBlock (pieces t) request data of
        (Inl er, ps) \<Rightarrow> (Inl (TPiece er), t\<lparr>pieces := ps\<rparr>)
      | (Inr assembled, ps) \<Rightarrow>
          let t1 = t\<lparr>pieces := ps, pending := m_del request (pending t),
                     downloaded := downloaded t + of_nat (length data)\<rparr> in
          if \<not> assembled then (Inr False, t1)
          else case ps_VerifyAndWrite (pieces t1) index (tfile t1) oc of
            (Some er, ps', f') \<Rightarrow> (Inl (TPiece er), t1\<lparr>pieces := ps', tfile := f'\<rparr>)
          | (None, ps', f') \<Rightarrow> (Inr True, t1\<lparr>pieces := ps', tfile := f'\<rparr>))"

definition serveBlock ::
    "Torrent \<Rightarrow> pref \<Rightarrow> BlockRequest \<Rightarrow> io_outcome \<Rightarrow> torrent_error option \<times> Torrent" where
  "serveBlock t r request oc =
     (if r \<ge> length (heap t) \<or> AmChoking (pstate (heap t ! r)) then (None, t)
      else case ps_ReadBlock (pieces t) request (tfile t) oc of
        Inl er \<Rightarrow> (Some (TPiece er), t)
      | Inr data \<Rightarrow>
          (case sendMessage t r (Piece (PieceIndex request) (Begin request) data) of
             (Some er, t1) \<Rightarrow> (Some er, t1)
           | (None, t1) \<Rightarrow> (None, t1\<lparr>uploaded := uploaded t1 + of_nat (length data)\<rparr>)))"

definition wants :: "Torrent \<Rightarrow> pref \<Rightarrow> bool" where
  "wants t r =
     list_ex (\<lambda>index. \<not> ps_IsComplete (pieces t) (of_nat index) \<and> hasPiece (heap t ! r) (of_nat index))
       [0..<ps_Count (pieces t)]"

definition updateInterest :: "Torrent \<Rightarrow> pref \<Rightarrow> torrent_error option \<times> Torrent" where
  "updateInterest t r =
     (let interested = wants t r in
      if interested = AmInterested (pstate (heap t ! r)) then (None, t)
      else case sendMessage t r (if interested then Interested else NotInterested) of
        (Some er, t1) \<Rightarrow> (Some er, t1)
      | (None, t1) \<Rightarrow> (None, upd_state t1 r (\<lambda>s. s\<lparr>AmInterested := interested\<rparr>)))"

definition handleProtocolMessage ::
    "Torrent \<Rightarrow> pref \<Rightarrow> Message \<Rightarrow> io_outcome \<Rightarrow> torrent_error option \<times> Torrent" where
  "handleProtocolMessage t r message oc =
     (if r \<ge> length (heap t) then (Some NoPeer, t)
      else case message of
        KeepAlive \<Rightarrow> (None, t)
      | Choke \<Rightarrow> (None, releasePendingRequests (upd_state t r (\<lambda>s. s\<lparr>PeerChoking := True\<rparr>)) r)
      | Unchoke \<Rightarrow> fillRequestWindow (upd_state t r (\<lambda>s. s\<lparr>PeerChoking := False\<rparr>)) r
      | Interested \<Rightarrow>
          let t1 = upd_state t r (\<lambda>s. s\<lparr>PeerInterested := True\<rparr>) in
          if AmChoking (pstate (heap t1 ! r))
          then (case sendMessage t1 r Unchoke of
                  (Some er, t2) \<Rightarrow> (Some er, t2)
                | (None, t2) \<Rightarrow> (None, upd_state t2 r (\<lambda>s. s\<lparr>AmChoking := False\<rparr>)))
          else (None, t1)
      | NotInterested \<Rightarrow> (None, upd_state t r (\<lambda>s. s\<lparr>PeerInterested := False\<rparr>))
      | Have index \<Rightarrow>
          (case updateInterest (upd_peer t r (\<lambda>p. setPiece p index)) r of
             (Some er, t1) \<Rightarrow> (Some er, t1)
           | (None, t1) \<Rightarrow> fillRequestWindow t1 r)
      | Bitfield bits \<Rightarrow>
          (case updateInterest (upd_peer t r (\<lambda>p. p\<lparr>bitfield := bits\<rparr>)) r of
             (Some er, t1) \<Rightarrow> (Some er, t1)
           | (None, t1) \<Rightarrow> fillRequestWindow t1 r)
      | Request block \<Rightarrow> serveBlock t r block oc
      | CancelRequest block \<Rightarrow> (None, t)
      | Piece index begin data \<Rightarrow>
          (case receiveBlock t r index begin data oc of
             (Inl er, t1) \<Rightarrow> (Some er, t1)
           | (Inr completed, t1) \<Rightarrow>
               fillRequestWindow (if completed then broadcastMessage t1 (Have index) else t1) r))"

text \<open>An event of \<^verbatim>\<open>t.peerEvents\<close>; other kinds are ignored.  The result \<open>None\<close> is a crash of the
  program by a panic in a handler.\<close>

datatype peerEvent = PeerArrived pref | PeerMessageReceived pref Message | PeerDisconnected pref

fun handlePeerEvent :: "Torrent \<Rightarrow> peerEvent \<Rightarrow> io_outcome \<Rightarrow> Torrent option" where
  "handlePeerEvent t (PeerArrived r) oc =
     (case activatePeer t r of
        (None, t1) \<Rightarrow> Some t1
      | (Some _, t1) \<Rightarrow> Some (closePeer t1 r))"
| "handlePeerEvent t (PeerMessageReceived r message) oc =
     (if \<not> hasPeer t r then Some t
      else case handleProtocolMessage t r message oc of
        (None, t1) \<Rightarrow> Some t1
      | (Some (TPiece GoPanic), t1) \<Rightarrow> None
      | (Some _, t1) \<Rightarrow> Some (removePeer t1 r))"
| "handlePeerEvent t (PeerDisconnected r) oc = Some (removePeer t r)"

subsection \<open>Control requests and status\<close>

definition changeDownloadMode :: "Torrent \<Rightarrow> string \<Rightarrow> Torrent" where
  "changeDownloadMode t mode =
     (if downloadMode t = mode then t
      else if downloadMode t = downloadModePaused
      then broadcastMessage (t\<lparr>downloadMode := downloadModePaused\<rparr>) NotInterested
      else if downloadMode t = downloadModeProgress
      then broadcastMessage (t\<lparr>downloadMode := downloadModeProgress\<rparr>) Interested
      else t)"

datatype TransferState = TransferDownloading | TransferPaused | TransferCompleted

record PeerStatus =
  PS_PeerID :: gostring
  PS_Address :: gostring
  PS_Incoming :: bool
  PS_State :: peerState
  PS_AvailablePieces :: nat
  PS_PendingRequests :: nat

record Status =
  S_State :: TransferState
  S_InfoHash :: gostring
  S_Name :: gostring
  S_Tracker :: gostring
  S_TrackerID :: gostring
  S_TotalBytes :: uint64
  S_PieceLength :: int
  S_TotalPieces :: nat
  S_CompletePieces :: nat
  S_BytesLeft :: uint64
  S_DownloadedBytes :: uint64
  S_UploadedBytes :: uint64
  S_PendingRequests :: nat
  S_Peers :: "PeerStatus list"

text \<open>\<^verbatim>\<open>fmt.Sprintf("%x", ...)\<close>: two lower-case hexadecimal digits per byte.\<close>

definition hex_digit :: "nat \<Rightarrow> byte" where
  "hex_digit n = (if n < 10 then 48 + of_nat n else 87 + of_nat n)"

definition hex :: "byte list \<Rightarrow> gostring" where
  "hex bs = concat (map (\<lambda>b. [hex_digit (unat b div 16), hex_digit (unat b mod 16)]) bs)"

definition transferState :: "Torrent \<Rightarrow> piece_error + TransferState" where
  "transferState t =
     (if downloadMode t = downloadModePaused then Inr TransferPaused
      else bind_r (ps_Complete (pieces t)) (\<lambda>c.
        Inr (if c then TransferCompleted else TransferDownloading)))"

definition peerStatus :: "Torrent \<Rightarrow> pref \<Rightarrow> PeerStatus" where
  "peerStatus t r =
     (let p = heap t ! r in
      \<lparr>PS_PeerID = hex (peer_id p), PS_Address = (case remoteAddr p of None \<Rightarrow> [] | Some a \<Rightarrow> a),
       PS_Incoming = incoming p, PS_State = pstate p,
       PS_AvailablePieces = bitCount (bitfield p) (ps_Count (pieces t)),
       PS_PendingRequests = pendingCount t r\<rparr>)"

definition buildStatus :: "Torrent \<Rightarrow> piece_error + Status" where
  "buildStatus t =
     bind_r (transferState t) (\<lambda>st.
     bind_r (ps_BytesLeft (pieces t)) (\<lambda>left.
       Inr \<lparr>S_State = st, S_InfoHash = hex (MInfoHash (Meta t)), S_Name = Name (MInfo (Meta t)),
            S_Tracker = Announce (Meta t), S_TrackerID = TrackerID t,
            S_TotalBytes = of_int (Length (MInfo (Meta t))),
            S_PieceLength = PieceLength (MInfo (Meta t)), S_TotalPieces = ps_Count (pieces t),
            S_CompletePieces = ps_CompletedCount (pieces t), S_BytesLeft = left,
            S_DownloadedBytes = downloaded t, S_UploadedBytes = uploaded t,
            S_PendingRequests = length (pending t),
            S_Peers = sort_key PS_PeerID (map (\<lambda>(_, r). peerStatus t r) (peers t))\<rparr>))"

subsection \<open>Handshakes and connections\<close>

definition writePeerHandshake :: "writer \<Rightarrow> gostring \<Rightarrow> gostring \<Rightarrow> io_error option \<times> writer" where
  "writePeerHandshake conn ih peerId =
     WriteHandshake \<lparr>Protocol = PeerProtocol, Reserved = replicate 8 0, HsInfoHash = ih, HsPeerID = peerId\<rparr> conn"

definition validatePeerHandshake :: "Handshake \<Rightarrow> gostring \<Rightarrow> gostring \<Rightarrow> torrent_error option" where
  "validatePeerHandshake handshake expectedHash localPeerId =
     (if Protocol handshake \<noteq> PeerProtocol then Some BadProtocol
      else if HsInfoHash handshake \<noteq> expectedHash then Some BadInfoHash
      else if HsPeerID handshake = localPeerId then Some OwnPeerID
      else None)"

text \<open>A dialled connection: where our bytes go, what the other side sends and how that ends.\<close>

record dialled =
  d_addr :: "gostring option"
  d_out :: writer
  d_in :: "byte list"
  d_end :: io_error

definition connectPeer :: "Torrent \<Rightarrow> gostring \<Rightarrow> dialled option \<Rightarrow> torrent_error + peer" where
  "connectPeer t peerID dial =
     (case dial of
        None \<Rightarrow> Inl DialFailed
      | Some c \<Rightarrow>
     (case writePeerHandshake (d_out c) (MInfoHash (Meta t)) peerID of
        (Some er, _) \<Rightarrow> Inl (HandshakeIo er)
      | (None, _) \<Rightarrow>
          bind_r (map_sum HandshakeIo id (ReadHandshake (d_end c) (d_in c))) (\<lambda>(handshake, _).
            case validatePeerHandshake handshake (MInfoHash (Meta t)) peerID of
              Some er \<Rightarrow> Inl er
            | None \<Rightarrow> Inr (newPeer (d_addr c) handshake))))"

definition alloc :: "Torrent \<Rightarrow> peer \<Rightarrow> pref \<times> Torrent" where
  "alloc t p = (length (heap t), t\<lparr>heap := heap t @ [p]\<rparr>)"

fun connectTrackerPeers :: "Torrent \<Rightarrow> gostring \<Rightarrow> dialled option list \<Rightarrow> Torrent" where
  "connectTrackerPeers t peerID [] = t"
| "connectTrackerPeers t peerID (candidate # candidates) =
     (if length (peers t) \<ge> maxPeers then t
      else case connectPeer t peerID candidate of
        Inl _ \<Rightarrow> connectTrackerPeers t peerID candidates
      | Inr p \<Rightarrow>
          (case alloc t p of
             (r, t1) \<Rightarrow>
               (case activatePeer t1 r of
                  (None, t2) \<Rightarrow> connectTrackerPeers t2 peerID candidates
                | (Some _, t2) \<Rightarrow> connectTrackerPeers (closePeer t2 r) peerID candidates)))"

text \<open>\<^verbatim>\<open>AcceptIncomingPeer\<close> up to its final \<^verbatim>\<open>select\<close>, which offers the event \<open>PeerArrived r\<close> to the
  event loop.\<close>

definition AcceptIncomingPeer ::
    "Torrent \<Rightarrow> gostring option \<Rightarrow> writer \<Rightarrow> Handshake \<Rightarrow> gostring \<Rightarrow> (torrent_error + pref) \<times> Torrent" where
  "AcceptIncomingPeer t addr conn handshake peerId =
     (if \<not> running t then (Inl ErrAlreadyRunning, t)
      else case validatePeerHandshake handshake (MInfoHash (Meta t)) peerId of
        Some er \<Rightarrow> (Inl er, t)
      | None \<Rightarrow>
     (case writePeerHandshake conn (MInfoHash (Meta t)) peerId of
        (Some er, _) \<Rightarrow> (Inl (HandshakeIo er), t)
      | (None, _) \<Rightarrow>
          (case alloc t ((newPeer addr handshake)\<lparr>incoming := True\<rparr>) of (r, t1) \<Rightarrow> (Inr r, t1))))"

text \<open>The read loop turns a stream into events; it ends with the disconnection.\<close>

function readLoop :: "pref \<Rightarrow> io_error \<Rightarrow> byte list \<Rightarrow> peerEvent list" where
  "readLoop r e s =
     (case ReadMessage e s of
        Inl _ \<Rightarrow> [PeerDisconnected r]
      | Inr (msg, rest) \<Rightarrow> PeerMessageReceived r msg # readLoop r e rest)"
  by pat_completeness auto

termination readLoop
proof (relation "measure (\<lambda>(r, e, s). length s)")
  fix r e s x msg rest
  assume "ReadMessage e s = Inr x" "(msg, rest) = x"
  then have "s = messageFrame msg @ rest \<and> fits msg" using msg.enc_dec [of e s msg rest] by auto
  moreover have "messageFrame msg \<noteq> []"
    by (auto simp: messageFrame_def PutUint32_def split: sum.splits)
  ultimately show "((r, e, rest), r, e, s) \<in> measure (\<lambda>(r, e, s). length s)" by simp
qed simp

declare readLoop.simps [simp del]

text \<open>The write loop over the messages it takes from the queue.\<close>

fun writeLoop :: "pref \<Rightarrow> Message list \<Rightarrow> writer \<Rightarrow> peerEvent list \<times> writer" where
  "writeLoop r [] conn = ([], conn)"
| "writeLoop r (message # ms) conn =
     (case WriteMessage message conn of
        (Some _, conn') \<Rightarrow> ([PeerDisconnected r], conn')
      | (None, conn') \<Rightarrow> writeLoop r ms conn')"

subsection \<open>Lifecycle\<close>

definition beginRun :: "Torrent \<Rightarrow> torrent_error option \<times> Torrent" where
  "beginRun t =
     (if running t then (Some ErrAlreadyRunning, t)
      else (None, t\<lparr>running := True, closeErr := None\<rparr>))"

text \<open>\<open>result\<close> is what closing the file returns.\<close>

definition finishRun :: "Torrent \<Rightarrow> torrent_error option \<Rightarrow> io_error option \<Rightarrow> torrent_error option \<times> Torrent" where
  "finishRun t runErr result =
     (case closeFile (closePeers t) result of (fileErr, t1) \<Rightarrow>
        (if runErr = None then map_option FileError fileErr else runErr,
         t1\<lparr>running := False, closeErr := fileErr\<rparr>))"

text \<open>\<^verbatim>\<open>Close\<close> on a running session cancels the run, whose loop returns the context's error to
  \<^verbatim>\<open>finishRun\<close>, and waits for it.\<close>

definition Close :: "Torrent \<Rightarrow> io_error option \<Rightarrow> io_error option \<times> Torrent" where
  "Close t result =
     (if \<not> running t then closeFile t result
      else case finishRun t (Some CtxErr) result of (_, t1) \<Rightarrow> (closeErr t1, t1))"

definition normalizeTrackerInterval :: "int \<Rightarrow> int" where
  "normalizeTrackerInterval interval = (if interval < 10 ^ 9 then 30 * 10 ^ 9 else interval)"

text \<open>One turn of the \<^verbatim>\<open>select\<close> loop of \<^verbatim>\<open>RunDownload\<close>, or a connection accepted beside it.  Every turn
  fixes what the write loops take meanwhile (\<open>ds\<close>) and the outcome of its file operation (\<open>oc\<close>);
  messages come from \<^verbatim>\<open>ReadMessage\<close>, so they fit its limit; a reannounce that fails dials nobody.\<close>

fun event_fits :: "peerEvent \<Rightarrow> bool" where
  "event_fits (PeerMessageReceived r m) \<longleftrightarrow> fits m"
| "event_fits _ \<longleftrightarrow> True"

inductive run_step :: "gostring \<Rightarrow> Torrent \<Rightarrow> Torrent \<Rightarrow> bool" for peerID where
  step_peer: "event_fits ev \<Longrightarrow> handlePeerEvent (t\<lparr>drains := ds\<rparr>) ev oc = Some t' \<Longrightarrow> run_step peerID t t'"
| step_status: "buildStatus t = Inr st \<Longrightarrow> run_step peerID t t"
| step_mode: "run_step peerID t (changeDownloadMode (t\<lparr>drains := ds\<rparr>) mode)"
| step_reannounce: "run_step peerID t (connectTrackerPeers (t\<lparr>drains := ds\<rparr>) peerID conns)"
| step_accept: "AcceptIncomingPeer t addr conn handshake peerID = (Inr r, t') \<Longrightarrow> run_step peerID t t'"

inductive_cases run_stepE: "run_step peerID t t'"

end
