(* ===== verification/Torrent_Inv.thy ===== *)
theory Torrent_Inv
  imports Torrent_Model Systems
begin

text \<open>
  The invariant of a torrent session and its preservation by every handler: pending requests are
  missing blocks of incomplete pieces, assigned at most eight to a peer; at most five peers; write
  queues within their capacity; complete pieces verified on disk.  It is what keeps the handlers from
  panicking.
\<close>

subsection \<open>The invariant\<close>

definition wanted :: "PieceSet \<Rightarrow> BlockRequest \<Rightarrow> bool" where
  "wanted p q \<longleftrightarrow>
     ps_blockRequest p (PieceIndex q) (Begin q) = Inr q \<and>
     \<not> Complete (ps_states p ! unat (PieceIndex q)) \<and>
     \<not> has_block p (unat (PieceIndex q)) (block_no q)"

definition wf_pending :: "Torrent \<Rightarrow> bool" where
  "wf_pending t \<longleftrightarrow>
     distinct (keys (pending t)) \<and>
     (\<forall>(q, r) \<in> set (pending t). r < length (heap t) \<and> wanted (pieces t) q) \<and>
     (\<forall>r. pendingCount t r \<le> maxPendingPerPeer)"

definition wf_peers :: "Torrent \<Rightarrow> bool" where
  "wf_peers t \<longleftrightarrow>
     distinct (keys (peers t)) \<and> length (peers t) \<le> maxPeers \<and>
     (\<forall>(i, r) \<in> set (peers t). r < length (heap t) \<and> peer_id (heap t ! r) = i) \<and>
     (\<forall>p \<in> set (heap t). length (outgoing p) \<le> peerWriteQueueSize \<and> infoHash p = MInfoHash (Meta t))"

definition wf_content :: "Torrent \<Rightarrow> bool" where
  "wf_content t \<longleftrightarrow>
     wf_ps (pieces t) \<and> ps_info (pieces t) = MInfo (Meta t) \<and>
     (\<forall>f. tfile t = Some f \<longrightarrow> verified (pieces t) f)"

definition wf_t :: "Torrent \<Rightarrow> bool" where
  "wf_t t \<longleftrightarrow> wf_content t \<and> wf_pending t \<and> wf_peers t"

lemmas wf_t_defs = wf_t_def wf_content_def wf_pending_def wf_peers_def

lemma wf_t_ps: "wf_t t \<Longrightarrow> wf_ps (pieces t)"
  by (simp add: wf_t_defs)

text \<open>What handlers leave alone: the store of peers only changes in place, the metainfo and the
  download mode stay, no complete piece is lost, and a file of the content's size keeps that size.\<close>

definition complete_set :: "PieceSet \<Rightarrow> nat set" where
  "complete_set p = {i. i < length (ps_states p) \<and> Complete (ps_states p ! i)}"

abbreviation sized :: "Torrent \<Rightarrow> bool" where
  "sized t \<equiv> map_option length (tfile t) = Some (nat (Length (MInfo (Meta t))))"

definition keeps :: "Torrent \<Rightarrow> Torrent \<Rightarrow> bool" where
  "keeps t t' \<longleftrightarrow> length (heap t') = length (heap t) \<and> Meta t' = Meta t \<and>
     downloadMode t' = downloadMode t \<and> complete_set (pieces t) \<subseteq> complete_set (pieces t') \<and>
     (sized t \<longrightarrow> sized t')"

lemma keeps_refl [simp]: "keeps t t"
  by (simp add: keeps_def)

lemma keeps_trans: "keeps t t1 \<Longrightarrow> keeps t1 t2 \<Longrightarrow> keeps t t2"
  by (auto simp: keeps_def)

lemma keeps_heap: "keeps t t' \<Longrightarrow> length (heap t') = length (heap t)"
  by (simp add: keeps_def)

lemma complete_set_map: "map Complete (ps_states p) = map Complete (ps_states p') \<Longrightarrow> complete_set p = complete_set p'"
  unfolding complete_set_def by (metis (mono_tags, lifting) length_map nth_map)

subsection \<open>Peers and queues\<close>

lemma nth_heap_upd_peer:
  "i < length (heap t) \<Longrightarrow> heap (upd_peer t r f) ! i = (if i = r then f (heap t ! i) else heap t ! i)"
  by (auto simp: upd_peer_def)

lemma pendingCount_upd_peer [simp]: "pendingCount (upd_peer t r f) = pendingCount t"
  by (simp add: pendingCount_def fun_eq_iff)

lemma wf_t_upd_peer:
  assumes "wf_t t" and "\<And>p. peer_id (f p) = peer_id p \<and> infoHash (f p) = infoHash p"
    and "\<And>p. length (outgoing p) \<le> peerWriteQueueSize \<Longrightarrow> length (outgoing (f p)) \<le> peerWriteQueueSize"
  shows "wf_t (upd_peer t r f)"
proof -
  have "peer_id (heap (upd_peer t r f) ! i) = peer_id (heap t ! i)" if "i < length (heap t)" for i
    using that assms(2) by (simp add: nth_heap_upd_peer)
  moreover have "\<forall>p \<in> set (heap (upd_peer t r f)). length (outgoing p) \<le> peerWriteQueueSize \<and>
      infoHash p = MInfoHash (Meta t)"
    using assms by (auto simp: wf_t_defs all_set_conv_all_nth nth_heap_upd_peer)
  ultimately show ?thesis
    using assms(1) by (auto simp: wf_t_defs)
qed

lemma wf_t_upd_state: "wf_t t \<Longrightarrow> wf_t (upd_state t r f)"
  unfolding upd_state_def by (rule wf_t_upd_peer) auto

lemma wf_t_drains [simp]: "wf_t (t\<lparr>drains := ds\<rparr>) = wf_t t"
  by (simp add: wf_t_defs pendingCount_def)

lemma wf_t_uploaded [simp]: "wf_t (t\<lparr>uploaded := u\<rparr>) = wf_t t"
  by (simp add: wf_t_defs pendingCount_def)

lemma wf_t_downloadMode [simp]: "wf_t (t\<lparr>downloadMode := d\<rparr>) = wf_t t"
  by (simp add: wf_t_defs pendingCount_def)

lemma wf_t_tryEnqueue:
  assumes "wf_t t" and "r < length (heap t)"
  shows "wf_t (snd (tryEnqueue t r m))"
proof -
  define d where "d = (case drains t of [] \<Rightarrow> 0 | d # _ \<Rightarrow> d)"
  let ?t = "upd_peer (t\<lparr>drains := tl (drains t)\<rparr>) r
    (\<lambda>p. p\<lparr>outgoing := drop d (outgoing p), taken := taken p @ take d (outgoing p)\<rparr>)"
  have wf: "wf_t ?t" using assms(1) by (intro wf_t_upd_peer) auto
  have "wf_t (upd_peer ?t r (\<lambda>p. p\<lparr>outgoing := outgoing p @ [m]\<rparr>))"
    if "length (outgoing (heap ?t ! r)) < peerWriteQueueSize"
  proof -
    let ?t' = "upd_peer ?t r (\<lambda>p. p\<lparr>outgoing := outgoing p @ [m]\<rparr>)"
    have "peer_id (heap ?t' ! i) = peer_id (heap ?t ! i)" if "i < length (heap ?t)" for i
      using that by (simp add: nth_heap_upd_peer)
    moreover have "\<forall>p \<in> set (heap ?t'). length (outgoing p) \<le> peerWriteQueueSize \<and>
        infoHash p = MInfoHash (Meta t)"
      using wf that by (auto simp: wf_t_defs all_set_conv_all_nth nth_heap_upd_peer)
    ultimately show ?thesis using wf by (auto simp: wf_t_defs)
  qed
  then show ?thesis using wf by (simp add: tryEnqueue_def Let_def flip: d_def)
qed

lemma tryEnqueue_fields:
  assumes "tryEnqueue t r m = (b, t')"
  shows "pieces t' = pieces t" "tfile t' = tfile t" "pending t' = pending t" "peers t' = peers t"
    "Meta t' = Meta t" "length (heap t') = length (heap t)" "running t' = running t"
    "uploaded t' = uploaded t" "downloaded t' = downloaded t" "downloadMode t' = downloadMode t"
    "\<And>i. i < length (heap t) \<Longrightarrow> pstate (heap t' ! i) = pstate (heap t ! i) \<and>
       bitfield (heap t' ! i) = bitfield (heap t ! i) \<and> peer_id (heap t' ! i) = peer_id (heap t ! i)"
  using assms by (auto simp: tryEnqueue_def Let_def nth_heap_upd_peer split: if_splits)

lemma sendMessage_tryEnqueue:
  assumes "sendMessage t r m = (res, t')"
  shows "tryEnqueue t r m = (res = None, t')" "res = None \<or> res = Some ErrPeerWriteQueueFull"
  using assms by (auto simp: sendMessage_def split: prod.splits bool.splits)

lemmas sendMessage_fields = tryEnqueue_fields [OF sendMessage_tryEnqueue(1)]

lemma keeps_upd_peer [simp]: "keeps t (upd_peer t r f)"
  by (simp add: keeps_def)

lemma keeps_sendMessage: "sendMessage t r m = (res, t') \<Longrightarrow> keeps t t'"
  using sendMessage_fields [of t r m res t'] by (simp add: keeps_def)

lemma wf_t_sendMessage: "wf_t t \<Longrightarrow> r < length (heap t) \<Longrightarrow> sendMessage t r m = (res, t') \<Longrightarrow> wf_t t'"
  using wf_t_tryEnqueue [of t r m] sendMessage_tryEnqueue(1) [of t r m res t'] by simp

subsection \<open>Membership\<close>

lemma wf_t_closePeer: "wf_t t \<Longrightarrow> wf_t (closePeer t r)"
  unfolding closePeer_def by (rule wf_t_upd_peer) auto

lemma length_filter_twice: "length (filter P (filter Q xs)) \<le> length (filter P xs)"
  by (induction xs) auto

lemma wf_t_release:
  assumes "wf_t t"
  shows "wf_t (releasePendingRequests t r)"
proof -
  let ?t = "releasePendingRequests t r"
  have "pendingCount ?t r' \<le> maxPendingPerPeer" for r'
    using length_filter_twice [of "\<lambda>(_, a). a = r'" "\<lambda>(_, a). a \<noteq> r" "pending t"] assms
    by (auto simp: wf_t_defs pendingCount_def releasePendingRequests_def intro: order_trans)
  moreover have "distinct (keys (pending ?t))"
    using assms by (simp add: wf_t_defs releasePendingRequests_def distinct_map_filter)
  ultimately show ?thesis
    using assms by (auto simp: wf_t_defs releasePendingRequests_def)
qed

lemma length_m_del: "length (m_del k m) \<le> length m"
  by (induction m) auto

lemma set_m_del: "set (m_del k m) \<subseteq> set m"
  by (induction m) auto

lemma wf_t_del_peer:
  assumes "wf_t t"
  shows "wf_t (t\<lparr>peers := m_del k (peers t)\<rparr>)"
  using assms length_m_del [of k "peers t"] set_m_del [of k "peers t"]
  by (auto simp: wf_t_defs pendingCount_def)

lemma wf_t_removePeer: "wf_t t \<Longrightarrow> wf_t (removePeer t r)"
  by (simp add: removePeer_def Let_def wf_t_closePeer wf_t_del_peer wf_t_release)

lemma removePeer_fields [simp]:
  "pieces (removePeer t r) = pieces t" "tfile (removePeer t r) = tfile t" "Meta (removePeer t r) = Meta t"
  "length (heap (removePeer t r)) = length (heap t)" "downloaded (removePeer t r) = downloaded t"
  "uploaded (removePeer t r) = uploaded t" "running (removePeer t r) = running t"
  "downloadMode (removePeer t r) = downloadMode t"
  by (simp_all add: removePeer_def closePeer_def releasePendingRequests_def Let_def)

lemma keeps_removePeer [simp]: "keeps t (removePeer t r)"
  by (simp add: keeps_def)

lemma broadcast_loop_inv:
  assumes "wf_t t" and "\<forall>(i, r) \<in> set rs. r < length (heap t)"
  shows "wf_t (broadcast_loop t rs m) \<and> keeps t (broadcast_loop t rs m)"
  using assms
proof (induction rs arbitrary: t)
  case Nil
  then show ?case by simp
next
  case (Cons ir rs)
  obtain i r where ir: "ir = (i, r)" by fastforce
  obtain res t' where send: "sendMessage t r m = (res, t')" by fastforce
  have r: "r < length (heap t)" using Cons.prems ir by auto
  have wf: "wf_t t'" using wf_t_sendMessage [OF Cons.prems(1) r send] .
  note f = sendMessage_fields [OF send] and k = keeps_sendMessage [OF send]
  show ?case
  proof (cases res)
    case None
    then show ?thesis using Cons.IH [OF wf] Cons.prems(2) send f k by (auto simp: ir intro: keeps_trans)
  next
    case (Some er)
    then show ?thesis
      using Cons.IH [OF wf_t_removePeer [OF wf, of r]] Cons.prems(2) send f
        keeps_trans [OF k keeps_trans [OF keeps_removePeer [of t' r]]]
      by (auto simp: ir)
  qed
qed

lemma broadcastMessage_inv:
  assumes "wf_t t"
  shows "wf_t (broadcastMessage t m) \<and> keeps t (broadcastMessage t m)"
proof -
  have "\<forall>(i, r) \<in> set (peers t). r < length (heap t)" using assms by (auto simp: wf_t_defs)
  then show ?thesis using broadcast_loop_inv [OF assms] by (simp add: broadcastMessage_def)
qed

lemma wf_t_activatePeer:
  assumes "wf_t t" and "activatePeer t r = (res, t')"
  shows "wf_t t' \<and> keeps t t'"
proof (cases "r < length (heap t) \<and> length (peers t) < maxPeers \<and> m_get (peers t) (peer_id (heap t ! r)) = None")
  case False
  then show ?thesis using assms by (auto simp: activatePeer_def split: if_splits)
next
  case True
  obtain b t1 where e: "tryEnqueue t r (Bitfield (PiecesBitfield (pieces t))) = (b, t1)" by fastforce
  have wf: "wf_t t1" using wf_t_tryEnqueue [OF assms(1), of r] True e by (metis snd_conv)
  note f = tryEnqueue_fields [OF e]
  show ?thesis
  proof (cases b)
    case True1: True
    have t': "t' = t1\<lparr>peers := peers t @ [(peer_id (heap t ! r), r)]\<rparr>"
      using assms(2) True True1 e f by (auto simp: activatePeer_def m_put_fresh map_of_eq_None_iff)
    then show ?thesis
      using wf True f by (auto simp: wf_t_defs pendingCount_def map_of_eq_None_iff keeps_def)
  next
    case False
    then show ?thesis using assms(2) True e f wf by (auto simp: activatePeer_def keeps_def)
  qed
qed

subsection \<open>Requests\<close>

lemma wanted_facts:
  assumes "wf_ps p" and "wanted p q"
  shows "unat (PieceIndex q) < length (ps_states p)"
    and "block_no q < pcount (plen_at p (unat (PieceIndex q))) 16384"
proof -
  have "good_block p q (replicate (unat (BlockLength q)) 0)" using assms(2) by (simp add: wanted_def good_block_def)
  then show "unat (PieceIndex q) < length (ps_states p)"
    and "block_no q < pcount (plen_at p (unat (PieceIndex q))) 16384"
    using good_block_facts [OF wf_ps_geometry [OF assms(1)]] by auto
qed

lemma wanted_prepared:
  assumes "wf_ps p" and "wanted p q"
  shows "wanted (set_state p w (prepared (plen_at p (unat w)) (ps_states p ! unat w))) q"
proof (cases "unat (PieceIndex q) = unat w")
  case True
  then show ?thesis
    using assms wanted_facts [OF assms] by (auto simp: wanted_def has_block_def set_state_nth prepared_def)
next
  case False
  then show ?thesis
    using assms wanted_facts [OF assms] by (simp add: wanted_def has_block_def set_state_nth)
qed

lemma verified_prepared:
  assumes "verified p f"
  shows "verified (set_state p w (prepared n (ps_states p ! unat w))) f"
  using assms by (auto simp: verified_def set_state_nth)

lemma nextMissing_wanted:
  assumes "wf_ps p" and "unat w < length (ps_states p)" and "\<not> Complete (ps_states p ! unat w)"
    and "ps_nextMissingBlock p w isPending = (res, p')"
  shows "wf_ps p'" "ps_info p' = ps_info p" "ps_Count p' = ps_Count p"
    and "\<And>q. wanted p q \<Longrightarrow> wanted p' q" and "\<And>f. verified p f \<Longrightarrow> verified p' f"
    and "\<exists>res'. res = Inr res'" and "\<And>q. res = Inr (Some q) \<Longrightarrow> wanted p' q"
    and "\<And>i. i < length (ps_states p) \<Longrightarrow> Complete (ps_states p' ! i) = Complete (ps_states p ! i)"
proof -
  let ?st = "prepared (plen_at p (unat w)) (ps_states p ! unat w)"
  have p': "p' = set_state p w ?st"
    and res: "res = Inr (map_option (request_no p w) (List.find
      (\<lambda>k. \<not> Received ?st ! k \<and> \<not> isPending (request_no p w k)) [0..<length (Received ?st)]))"
    using assms(4) ps_nextMissingBlock_eq [OF assms(1,2), of isPending] by (simp_all add: Let_def)
  show "wf_ps p'" unfolding p' by (intro wf_ps_set_state wf_state_prepared wf_ps_state assms)
  show "ps_info p' = ps_info p" "ps_Count p' = ps_Count p" by (simp_all add: p' ps_Count_def)
  show "wanted p' q" if "wanted p q" for q using wanted_prepared [OF assms(1) that] by (simp add: p')
  show "verified p' f" if "verified p f" for f using verified_prepared [OF that] by (simp add: p')
  show "\<exists>res'. res = Inr res'" by (simp add: res)
  show "Complete (ps_states p' ! i) = Complete (ps_states p ! i)" if "i < length (ps_states p)" for i
    using that by (auto simp: p' set_state_nth)
  show "wanted p' q" if q: "res = Inr (Some q)" for q
  proof -
    obtain k where k: "k < length (Received ?st)" "\<not> Received ?st ! k" "q = request_no p w k"
      using q by (auto simp: res find_Some_iff)
    have "length (Received ?st) = pcount (plen_at p (unat w)) 16384"
      using prepared_incomplete [OF wf_ps_state [OF assms(1,2)] assms(3)] by blast
    then have kc: "k < pcount (plen_at p (unat w)) 16384" using k(1) by simp
    note rq = ps_blockRequest_no [OF wf_ps_geometry [OF assms(1)] assms(2) kc]
    have "Begin q = of_nat k * blockSize" "PieceIndex q = w" by (simp_all add: k(3) request_no_def blockSize_def)
    then show ?thesis
      using rq k assms(2,3) by (simp add: wanted_def p' has_block_def set_state_nth)
  qed
qed

lemma reserve_loop_inv:
  assumes "wf_t t" and "r < length (heap t)" and "pendingCount t r < maxPendingPerPeer"
    and "\<forall>i \<in> set is. i < ps_Count (pieces t)" and "reserve_loop t r is = (res, t')"
  shows "wf_t t' \<and> (\<exists>res'. res = Inr res') \<and> heap t' = heap t \<and> keeps t t'"
  using assms
proof (induction "is" arbitrary: t)
  case Nil
  then show ?case by auto
next
  case (Cons i "is")
  let ?w = "of_nat i :: uint32"
  have geo: "wf_geometry (pieces t)" and i: "i < length (ps_states (pieces t))"
    using Cons.prems by (auto simp: wf_t_defs ps_Count_def)
  have u: "unat ?w = i" by (rule unat_of_nat_index [OF geo i])
  show ?case
  proof (cases "ps_IsComplete (pieces t) ?w \<or> \<not> hasPiece (heap t ! r) ?w")
    case True
    then show ?thesis using Cons by (simp add: Let_def)
  next
    case False
    have nc: "\<not> Complete (ps_states (pieces t) ! unat ?w)"
      using False i by (simp add: ps_IsComplete_def less_count32 [OF geo] u)
    obtain nres ps where e: "ps_nextMissingBlock (pieces t) ?w (\<lambda>q. m_get (pending t) q \<noteq> None) = (nres, ps)"
      by fastforce
    note N = nextMissing_wanted [OF wf_t_ps [OF Cons.prems(1)] _ nc e, unfolded u, OF i]
    have cmp: "map Complete (ps_states ps) = map Complete (ps_states (pieces t))"
      using N(3,8) by (intro nth_equalityI) (auto simp: ps_Count_def)
    have k1: "keeps t (t\<lparr>pieces := ps\<rparr>)" using complete_set_map [OF cmp] by (simp add: keeps_def)
    have wf1: "wf_t (t\<lparr>pieces := ps\<rparr>)"
      using Cons.prems(1) N by (auto simp: wf_t_defs pendingCount_def)
    show ?thesis
    proof (cases "nres = Inr None")
      case True
      then show ?thesis
        using False Cons.prems e Cons.IH [OF wf1] N(3) keeps_trans [OF k1] by (simp add: Let_def pendingCount_def)
    next
      case no: False
      then obtain q where q: "nres = Inr (Some q)" using N(6) by (metis option.exhaust)
      have fresh: "q \<notin> fst ` set (pending t)"
        using ps_nextMissingBlock_not_pending [OF e [unfolded q]] by (simp add: map_of_eq_None_iff)
      have t': "res = Inr (Some q)" "t' = t\<lparr>pieces := ps, pending := pending t @ [(q, r)]\<rparr>"
        using False Cons.prems(5) e q fresh by (auto simp: Let_def m_put_fresh)
      have "wf_t t'"
        using wf1 Cons.prems(2,3) fresh N(7) [OF q]
        by (auto simp: t' wf_t_defs pendingCount_def)
      then show ?thesis using t' k1 by (simp add: keeps_def)
    qed
  qed
qed

lemma wf_t_filter_pending:
  assumes "wf_t t"
  shows "wf_t (t\<lparr>pending := filter P (pending t)\<rparr>)"
proof -
  have "length (filter (\<lambda>(_, a). a = r) (filter P (pending t))) \<le> maxPendingPerPeer" for r
    using length_filter_twice [of "\<lambda>(_, a). a = r" P "pending t"] assms
    by (auto simp: wf_t_defs pendingCount_def intro: order_trans)
  moreover have "distinct (keys (filter P (pending t)))"
    using assms by (simp add: wf_t_defs distinct_map_filter)
  ultimately show ?thesis using assms by (auto simp: wf_t_defs pendingCount_def)
qed

lemma wf_t_del_pending: "wf_t t \<Longrightarrow> wf_t (t\<lparr>pending := m_del q (pending t)\<rparr>)"
  unfolding AList.delete_eq by (rule wf_t_filter_pending)

text \<open>No piece operation of these loops can fail: the only error is a full queue.\<close>

lemma fill_loop_inv:
  assumes "wf_t t" and "r < length (heap t)" and "fill_loop t r = (res, t')"
  shows "wf_t t' \<and> (res = None \<or> res = Some ErrPeerWriteQueueFull) \<and> keeps t t'"
  using assms
proof (induction t r arbitrary: res t' rule: fill_loop.induct)
  case (1 t r)
  show ?case
  proof (cases "maxPendingPerPeer \<le> pendingCount t r")
    case True
    then show ?thesis using 1 by (simp add: fill_loop.simps [of t])
  next
    case False
    obtain rres t1 where e: "reserveNextRequest t r = (rres, t1)" by fastforce
    have R: "wf_t t1 \<and> (\<exists>res'. rres = Inr res') \<and> heap t1 = heap t \<and> keeps t t1"
      using reserve_loop_inv [OF "1.prems"(1,2), of "[0..<ps_Count (pieces t)]" rres t1] False e
      by (simp add: reserveNextRequest_def)
    show ?thesis
    proof (cases "rres = Inr None")
      case True
      then show ?thesis using "1.prems" False e R by (auto simp: fill_loop.simps [of t])
    next
      case no: False
      then obtain q where q: "rres = Inr (Some q)" using R by (metis option.exhaust)
      obtain sres t2 where snd: "sendMessage t1 r (Request q) = (sres, t2)" by fastforce
      have r1: "r < length (heap t1)" using R "1.prems"(2) by simp
      have wf2: "wf_t t2" using wf_t_sendMessage [OF _ r1 snd] R by blast
      have k2: "keeps t t2" using R keeps_sendMessage [OF snd] keeps_trans by blast
      note f = sendMessage_fields(6) [OF snd] sendMessage_tryEnqueue(2) [OF snd]
      show ?thesis
      proof (cases sres)
        case None
        then have "fill_loop t2 r = (res, t')"
          using "1.prems"(3) False e q snd by (simp add: fill_loop.simps [of t])
        then show ?thesis
          using "1.IH" [OF False e [symmetric] q refl snd [symmetric] None wf2] R f r1 keeps_trans [OF k2] by simp
      next
        case (Some er)
        then show ?thesis
          using "1.prems"(3) False e q snd wf_t_del_pending [OF wf2, of q] R f k2
          by (auto simp: fill_loop.simps [of t] keeps_def)
      qed
    qed
  qed
qed

lemma fillRequestWindow_inv:
  assumes "wf_t t" and "fillRequestWindow t r = (res, t')"
  shows "wf_t t' \<and> (res = None \<or> res = Some ErrPeerWriteQueueFull) \<and> keeps t t'"
  using assms fill_loop_inv [OF assms(1), of r res t']
  by (auto simp: fillRequestWindow_def split: if_splits)

subsection \<open>Receiving a block\<close>

lemma wanted_stored:
  assumes "wf_ps p" and "good_block p q data" and "wanted p q"
  shows "ps_StoreBlock p q data =
    (let st' = stored (prepared (plen_at p (unat (PieceIndex q))) (ps_states p ! unat (PieceIndex q)))
                 (block_no q) data in
     (Inr (allBlocksReceived st'), set_state p (PieceIndex q) st'))"
proof -
  have "\<not> Received (prepared (plen_at p (unat (PieceIndex q))) (ps_states p ! unat (PieceIndex q))) ! block_no q"
    using assms(3) wanted_facts(2) [OF assms(1,3)] by (auto simp: wanted_def has_block_def prepared_def)
  then show ?thesis
    using ps_StoreBlock_good [OF assms(1,2)] assms(3) by (simp add: wanted_def Let_def)
qed

lemma wanted_other:
  assumes "wf_ps p" and "good_block p q data" and "wanted p q" and "wanted p q'" and "q \<noteq> q'"
    and "length data < 2 ^ 32"
  shows "wanted (snd (ps_StoreBlock p q data)) q'"
proof -
  let ?i = "unat (PieceIndex q)"
  let ?st = "prepared (plen_at p ?i) (ps_states p ! ?i)"
  note w' = wanted_facts [OF assms(1,4)] and w = wanted_facts [OF assms(1,3)]
  obtain d where d: "Data ?st = Some d" "length (Received ?st) = pcount (plen_at p ?i) 16384"
    using prepared_incomplete [OF wf_ps_state [OF assms(1) w(1)]] assms(3) by (auto simp: wanted_def)
  show ?thesis
  proof (cases "PieceIndex q' = PieceIndex q")
    case False
    then have "unat (PieceIndex q') \<noteq> ?i" by (simp add: word_unat_eq_iff)
    then show ?thesis
      using assms(4) w' by (simp add: wanted_stored [OF assms(1-3)] Let_def wanted_def has_block_def set_state_nth)
  next
    case True
    have "Begin q' \<noteq> Begin q" using assms(3-5) True by (auto simp: wanted_def)
    then have "unat (Begin q') \<noteq> unat (Begin q)" by (simp add: word_unat_eq_iff)
    moreover have "good_block p q' (replicate (unat (BlockLength q')) 0)"
      using assms(4) by (simp add: wanted_def good_block_def)
    ultimately have "block_no q' \<noteq> block_no q"
      using good_block_facts(4) [OF wf_ps_geometry [OF assms(1)]] assms(2) by metis
    moreover have "\<not> Received ?st ! block_no q'"
      using assms(4) w'(2) True by (auto simp: wanted_def has_block_def prepared_def)
    ultimately have "\<not> Received (stored ?st (block_no q) data) ! block_no q'"
      using d w'(2) True by (simp add: has_block_stored)
    then show ?thesis
      using assms(4) w'(1) True
      by (simp add: wanted_stored [OF assms(1-3)] Let_def wanted_def has_block_def set_state_nth)
  qed
qed

text \<open>Once all blocks of a piece have arrived, none of them is wanted.\<close>

lemma wanted_not_all:
  assumes "wf_ps p" and "wanted p q"
  shows "\<not> allBlocksReceived (ps_states p ! unat (PieceIndex q))"
proof
  assume all: "allBlocksReceived (ps_states p ! unat (PieceIndex q))"
  note w = wanted_facts [OF assms]
  obtain d where d: "Data (ps_states p ! unat (PieceIndex q)) = Some d"
    using received_incomplete [OF assms(1) w(1) all] by blast
  have "length (Received (ps_states p ! unat (PieceIndex q))) = pcount (plen_at p (unat (PieceIndex q))) 16384"
    using wf_ps_state [OF assms(1) w(1)] d by (simp add: wf_state_def)
  then show False
    using all w(2) d assms(2) by (auto simp: allBlocksReceived_def list_all_length wanted_def has_block_def)
qed

lemma wf_t_pieces:
  assumes "wf_t t" and "wf_ps ps" and "ps_info ps = ps_info (pieces t)"
    and "\<And>f. f' = Some f \<Longrightarrow> verified ps f"
    and "\<And>q r. (q, r) \<in> set (pending t) \<Longrightarrow> wanted ps q"
  shows "wf_t (t\<lparr>pieces := ps, tfile := f'\<rparr>)"
  using assms by (fastforce simp: wf_t_defs pendingCount_def)

text \<open>A piece whose blocks have all arrived may be verified and written: nothing pending is lost.\<close>

lemma write_in_file:
  assumes "wf_geometry p" and "i < length (ps_states p)"
  shows "i * ps_psize p + plen_at p i \<le> ps_total p"
  using assms plen_end [of "ps_psize p" i "ps_total p"] by (simp add: plen_at_def wf_geometry_def)

lemma VerifyAndWrite_inv:
  assumes "wf_t t" and "unat w < length (ps_states (pieces t))"
    and "allBlocksReceived (ps_states (pieces t) ! unat w)"
    and "ps_VerifyAndWrite (pieces t) w (tfile t) oc = (res, ps, f')"
  shows "wf_t (t\<lparr>pieces := ps, tfile := f'\<rparr>) \<and> res \<noteq> Some GoPanic \<and>
    complete_set (pieces t) \<subseteq> complete_set ps \<and> (sized t \<longrightarrow> sized (t\<lparr>pieces := ps, tfile := f'\<rparr>))"
proof (cases "tfile t")
  case None
  then have "res = Some FileNotOpen" "ps = pieces t" "f' = tfile t"
    using assms(4) by (auto simp: ps_VerifyAndWrite_def)
  then show ?thesis using assms(1) by simp
next
  case (Some f)
  have wfp: "wf_ps (pieces t)" and ver: "verified (pieces t) f"
    using assms(1) Some by (auto simp: wf_t_defs)
  have pend: "wanted (pieces t) q \<and> unat (PieceIndex q) \<noteq> unat w" if "(q, r) \<in> set (pending t)" for q r
    using that assms(1,3) wanted_not_all [OF wfp, of q] by (auto simp: wf_t_defs)
  have other: "wanted (set_state (pieces t) w st) q" if "(q, r) \<in> set (pending t)" for q r st
    using pend [OF that] wanted_facts(1) [OF wfp, of q]
    by (simp add: wanted_def has_block_def set_state_nth)
  note I = received_incomplete [OF wfp assms(2,3)]
  have "\<not> Complete (ps_states (pieces t) ! unat w)" using I .
  then have grows: "complete_set (pieces t) \<subseteq> complete_set (set_state (pieces t) w st)" for st
    by (auto simp: complete_set_def set_state_nth)
  have "unat w * ps_psize (pieces t) + plen_at (pieces t) (unat w) \<le> nat (Length (MInfo (Meta t)))"
    using write_in_file [OF wf_ps_geometry [OF wfp] assms(2)] assms(1) by (simp add: wf_t_defs)
  then have len: "length (file_put f (unat w * ps_psize (pieces t)) (take k d)) = length f"
    if "length f = nat (Length (MInfo (Meta t)))" "length d = plen_at (pieces t) (unat w)" for d k
    using that by simp
  show ?thesis
    using wfp
  proof (cases rule: ps_VerifyAndWrite_cases [where w = w and f = f and oc = oc])
    case (refused er)
    then show ?thesis using assms(2,3) by blast
  next
    case (mismatch d)
    let ?st = "(ps_states (pieces t) ! unat w)\<lparr>Data := None, Received := []\<rparr>"
    have "\<not> Complete ?st" using I by simp
    then have "wf_t (t\<lparr>pieces := set_state (pieces t) w ?st, tfile := Some f\<rparr>)"
      using wfp ver other by (intro wf_t_pieces assms(1) wf_ps_set_state) (auto simp: wf_state_def verified_set_state)
    then show ?thesis using mismatch(4) assms(4) Some grows by auto
  next
    case (failed d k er)
    let ?f = "file_put f (unat w * ps_psize (pieces t)) (take k d)"
    have "\<not> Complete (ps_states (pieces t) ! unat w)" using I .
    then have "verified (set_state (pieces t) w (ps_states (pieces t) ! unat w)) ?f"
      using wfp ver failed(4) by (intro verified_write) auto
    then have "wf_t (t\<lparr>pieces := pieces t, tfile := Some ?f\<rparr>)"
      using wfp pend by (intro wf_t_pieces assms(1)) auto
    then show ?thesis using failed(6) assms(4) Some grows len [OF _ failed(4), of k] by auto
  next
    case (written d)
    let ?st = "(ps_states (pieces t) ! unat w)\<lparr>Complete := True, Data := None, Received := []\<rparr>"
    have "verified (set_state (pieces t) w ?st) (file_put f (unat w * ps_psize (pieces t)) d)"
      using wfp ver written(3,4) by (intro verified_write) auto
    then have "wf_t (t\<lparr>pieces := set_state (pieces t) w ?st,
        tfile := Some (file_put f (unat w * ps_psize (pieces t)) d)\<rparr>)"
      using wfp other by (intro wf_t_pieces assms(1) wf_ps_set_state) (auto simp: wf_state_def)
    then show ?thesis using written(5) assms(4) Some grows len [OF _ written(3), of "length d"] by auto
  qed
qed

lemma receiveBlock_inv:
  assumes "wf_t t" and "length data < 2 ^ 32" and "receiveBlock t r index begin data oc = (res, t')"
  shows "wf_t t' \<and> res \<noteq> Inl (TPiece GoPanic) \<and> keeps t t'"
proof -
  let ?q = "\<lparr>PieceIndex = index, Begin = begin, BlockLength = of_nat (length data)\<rparr>"
  show ?thesis
  proof (cases "m_get (pending t) ?q = Some r")
    case False
    then show ?thesis using assms by (auto simp: receiveBlock_def Let_def)
  next
    case True
    have wfp: "wf_ps (pieces t)" by (rule wf_t_ps [OF assms(1)])
    have w: "wanted (pieces t) ?q" using map_of_SomeD [OF True] assms(1) by (auto simp: wf_t_defs)
    have "unat (of_nat (length data) :: uint32) = length data" using assms(2) by (simp add: unat_of_nat_small)
    then have good: "good_block (pieces t) ?q data" using w by (simp add: good_block_def wanted_def)
    obtain b ps where st: "ps_StoreBlock (pieces t) ?q data = (Inr b, ps)"
      and b: "b = allBlocksReceived (ps_states ps ! unat index)"
      using wanted_stored [OF wfp good w] wanted_facts(1) [OF wfp w] by (auto simp: Let_def set_state_nth)
    have ps: "ps = snd (ps_StoreBlock (pieces t) ?q data)" using st by simp
    note fr = ps_StoreBlock_frame [OF wfp assms(2), where q = ?q, folded ps]
    have wfps: "wf_ps ps" using wf_ps_StoreBlock [OF wfp assms(2), of ?q] by (simp add: ps)
    have ver: "verified ps f" if "verified (pieces t) f" for f
    proof -
      have "piece_bytes ps f i = piece_bytes (pieces t) f i" "plen_at ps i = plen_at (pieces t) i" for i
        using fr(1,2) by (simp_all add: piece_bytes_def plen_at_def)
      then show ?thesis using that fr by (simp add: verified_def)
    qed
    define t1 where "t1 = t\<lparr>pieces := ps, pending := m_del ?q (pending t), downloaded := downloaded t + of_nat (length data)\<rparr>"
    have pend: "wanted ps q'" if "(q', r') \<in> set (m_del ?q (pending t))" for q' r'
      using that wanted_other [OF wfp good w _ _ assms(2)] assms(1)
      by (auto simp: ps AList.delete_eq wf_t_defs)
    have "wf_t (t\<lparr>pending := m_del ?q (pending t), pieces := ps, tfile := tfile t\<rparr>)"
      using wf_t_del_pending [OF assms(1)] wfps fr(1) ver pend assms(1)
      by (intro wf_t_pieces) (auto simp: wf_t_defs)
    then have wf1: "wf_t t1" by (simp add: t1_def wf_t_defs pendingCount_def)
    have k1: "keeps t t1" using fr(2,3) by (auto simp: keeps_def t1_def complete_set_def)
    show ?thesis
    proof (cases b)
      case False
      then show ?thesis using assms(3) True st wf1 k1 by (auto simp: receiveBlock_def t1_def)
    next
      case all: True
      obtain vres ps' f' where v: "ps_VerifyAndWrite (pieces t1) index (tfile t1) oc = (vres, ps', f')"
        by (metis prod.exhaust)
      have "unat index < length (ps_states (pieces t1))"
        using wanted_facts(1) [OF wfp w] fr(2) by (simp add: t1_def)
      then have V: "wf_t (t1\<lparr>pieces := ps', tfile := f'\<rparr>)" "vres \<noteq> Some GoPanic"
          "keeps t1 (t1\<lparr>pieces := ps', tfile := f'\<rparr>)"
        using VerifyAndWrite_inv [OF wf1 _ _ v] all b by (simp_all add: t1_def keeps_def)
      have "t' = t1\<lparr>pieces := ps', tfile := f'\<rparr> \<and> (res = Inr True \<or> (\<exists>er. vres = Some er \<and> res = Inl (TPiece er)))"
        using assms(3) True st all v by (auto simp: receiveBlock_def t1_def Let_def split: option.splits)
      then show ?thesis using V keeps_trans [OF k1 V(3)] by auto
    qed
  qed
qed

subsection \<open>Handlers\<close>

text \<open>What a handler guarantees: the invariant, and no panic.\<close>

definition safe :: "Torrent \<Rightarrow> torrent_error option \<times> Torrent \<Rightarrow> bool" where
  "safe t out \<longleftrightarrow> wf_t (snd out) \<and> fst out \<noteq> Some (TPiece GoPanic) \<and> keeps t (snd out)"

lemma serveBlock_safe:
  assumes "wf_t t"
  shows "safe t (serveBlock t r q oc)"
proof (cases "r < length (heap t) \<and> \<not> AmChoking (pstate (heap t ! r))")
  case False
  then show ?thesis using assms by (auto simp: serveBlock_def safe_def)
next
  case True
  show ?thesis
  proof (cases "ps_ReadBlock (pieces t) q (tfile t) oc")
    case (Inl er)
    then show ?thesis
      using True assms ps_ReadBlock_no_panic [of "pieces t" q "tfile t" oc] by (auto simp: serveBlock_def safe_def)
  next
    case (Inr data)
    obtain res t1 where send: "sendMessage t r (Piece (PieceIndex q) (Begin q) data) = (res, t1)" by fastforce
    then show ?thesis
      using True Inr wf_t_sendMessage [OF assms _ send] keeps_sendMessage [OF send] sendMessage_tryEnqueue(2) [OF send]
      by (auto simp: serveBlock_def safe_def keeps_def split: option.splits)
  qed
qed

lemma updateInterest_safe:
  assumes "wf_t t" and "r < length (heap t)"
  shows "safe t (updateInterest t r)"
proof (cases "wants t r = AmInterested (pstate (heap t ! r))")
  case True
  then show ?thesis using assms by (simp add: updateInterest_def safe_def)
next
  case False
  obtain res t1 where send: "sendMessage t r (if wants t r then Interested else NotInterested) = (res, t1)" by fastforce
  have "keeps t (upd_state t1 r f)" for f
    using keeps_sendMessage [OF send] by (auto simp: upd_state_def keeps_def)
  then show ?thesis
    using False send wf_t_sendMessage [OF assms send] keeps_sendMessage [OF send] sendMessage_tryEnqueue(2) [OF send]
    by (auto simp: updateInterest_def safe_def wf_t_upd_state Let_def split: option.splits)
qed

lemma fillRequestWindow_safe: "wf_t t \<Longrightarrow> safe t (fillRequestWindow t r)"
  by (cases "fillRequestWindow t r") (use fillRequestWindow_inv [of t r] in \<open>fastforce simp: safe_def\<close>)

text \<open>Sequencing a handler with the one that follows it on success.\<close>

lemma safe_then:
  assumes "safe t out" and "\<And>t1. wf_t t1 \<Longrightarrow> keeps t t1 \<Longrightarrow> safe t1 (k t1)"
  shows "safe t (case out of (Some er, t1) \<Rightarrow> (Some er, t1) | (None, t1) \<Rightarrow> k t1)"
proof (cases out)
  case (Pair res t1)
  then show ?thesis
    using assms by (cases res) (auto simp: safe_def intro: keeps_trans)
qed

lemma keeps_frames [simp]:
  "keeps t (releasePendingRequests t' r) = keeps t t'" "keeps t (upd_state t' r g) = keeps t t'"
  "heap (releasePendingRequests t' r) = heap t'" "length (heap (upd_state t' r g)) = length (heap t')"
  by (simp_all add: releasePendingRequests_def upd_state_def keeps_def)

lemma safe_keeps: "safe t1 out \<Longrightarrow> keeps t t1 \<Longrightarrow> safe t out"
  by (auto simp: safe_def intro: keeps_trans)

lemma safe_upd: "safe (upd_peer t r f) out \<Longrightarrow> safe t out"
  by (rule safe_keeps) auto

lemma handleProtocolMessage_safe:
  assumes "wf_t t" and "r < length (heap t)" and "fits m"
  shows "safe t (handleProtocolMessage t r m oc)"
proof (cases m)
  case Unchoke
  have "safe t (fillRequestWindow (upd_state t r (\<lambda>s. s\<lparr>PeerChoking := False\<rparr>)) r)"
    using fillRequestWindow_safe [OF wf_t_upd_state [OF assms(1)]] by (rule safe_keeps) simp
  then show ?thesis using assms(2) Unchoke by (simp add: handleProtocolMessage_def)
next
  case Interested
  let ?t = "upd_state t r (\<lambda>s. s\<lparr>PeerInterested := True\<rparr>)"
  have wf: "wf_t ?t" and len: "length (heap ?t) = length (heap t)"
    using wf_t_upd_state [OF assms(1)] by simp_all
  have "keeps t ?t" by simp
  obtain res t1 where send: "sendMessage ?t r Message.Unchoke = (res, t1)" by fastforce
  have "wf_t t1" using wf_t_sendMessage [OF wf _ send] assms(2) len by simp
  then show ?thesis
    using assms(2) Interested send wf len keeps_trans [OF \<open>keeps t ?t\<close> keeps_sendMessage [OF send]]
      sendMessage_tryEnqueue(2) [OF send]
    by (auto simp: handleProtocolMessage_def safe_def Let_def wf_t_upd_state split: option.splits)
next
  case (Have index)
  let ?t = "upd_peer t r (\<lambda>p. setPiece p index)"
  have "wf_t ?t" using assms(1) by (intro wf_t_upd_peer) (auto simp: setPiece_def Let_def)
  then have "safe ?t (case updateInterest ?t r of (Some er, t1) \<Rightarrow> (Some er, t1) | (None, t1) \<Rightarrow> fillRequestWindow t1 r)"
    using assms(2) by (intro safe_then updateInterest_safe fillRequestWindow_safe) auto
  then show ?thesis using assms(2) Have by (auto simp: handleProtocolMessage_def dest: safe_upd)
next
  case (Bitfield bits)
  let ?t = "upd_peer t r (\<lambda>p. p\<lparr>bitfield := bits\<rparr>)"
  have "wf_t ?t" using assms(1) by (intro wf_t_upd_peer) auto
  then have "safe ?t (case updateInterest ?t r of (Some er, t1) \<Rightarrow> (Some er, t1) | (None, t1) \<Rightarrow> fillRequestWindow t1 r)"
    using assms(2) by (intro safe_then updateInterest_safe fillRequestWindow_safe) auto
  then show ?thesis using assms(2) Bitfield by (auto simp: handleProtocolMessage_def dest: safe_upd)
next
  case (Piece index off data)
  obtain res t1 where rb: "receiveBlock t r index off data oc = (res, t1)" by fastforce
  have "length data < 2 ^ 32" using assms(3) Piece by (simp add: fits_def maxPeerMessageSize_def)
  then have R: "wf_t t1 \<and> res \<noteq> Inl (TPiece GoPanic) \<and> keeps t t1" using receiveBlock_inv [OF assms(1) _ rb] by blast
  have "safe t (fillRequestWindow (if c then broadcastMessage t1 (Message.Have index) else t1) r)" for c
    using broadcastMessage_inv [of t1 "Message.Have index"] R keeps_trans
    by (intro safe_keeps [OF fillRequestWindow_safe]) auto
  then show ?thesis
    using assms(2) Piece rb R by (auto simp: handleProtocolMessage_def safe_def split: sum.splits)
qed (use assms in \<open>auto simp: handleProtocolMessage_def safe_def wf_t_release wf_t_upd_state
       serveBlock_safe [unfolded safe_def]\<close>)

lemma handlePeerEvent_inv:
  assumes "wf_t t" and "event_fits ev"
  shows "\<exists>t'. handlePeerEvent t ev oc = Some t' \<and> wf_t t'"
proof (cases ev)
  case (PeerArrived r)
  obtain res t1 where a: "activatePeer t r = (res, t1)" by fastforce
  then show ?thesis
    using wf_t_activatePeer [OF assms(1) a] PeerArrived by (auto simp: wf_t_closePeer split: option.splits)
next
  case (PeerMessageReceived r m)
  show ?thesis
  proof (cases "hasPeer t r")
    case True
    obtain res t1 where h: "handleProtocolMessage t r m oc = (res, t1)" by fastforce
    have "safe t (res, t1)"
      using handleProtocolMessage_safe [OF assms(1), of r m oc] True assms(2) PeerMessageReceived h
      by (simp add: hasPeer_def)
    then show ?thesis
      using True PeerMessageReceived h
      by (auto simp: safe_def wf_t_removePeer split: option.splits torrent_error.splits piece_error.splits)
  next
    case False
    then show ?thesis using assms(1) PeerMessageReceived by simp
  qed
next
  case (PeerDisconnected r)
  then show ?thesis using assms(1) by (simp add: wf_t_removePeer)
qed

lemma wf_t_changeDownloadMode: "wf_t t \<Longrightarrow> wf_t (changeDownloadMode t mode)"
  using broadcastMessage_inv by (simp add: changeDownloadMode_def)

lemma wf_t_alloc:
  assumes "wf_t t" and "outgoing p = []" and "infoHash p = MInfoHash (Meta t)"
  shows "wf_t (t\<lparr>heap := heap t @ [p]\<rparr>)"
  using assms by (auto simp: wf_t_defs pendingCount_def nth_append)

lemma validatePeerHandshake_None:
  "validatePeerHandshake h ih pid = None \<longleftrightarrow>
     Protocol h = PeerProtocol \<and> HsInfoHash h = ih \<and> HsPeerID h \<noteq> pid"
  by (simp add: validatePeerHandshake_def)

lemma connectPeer_Inr:
  assumes "connectPeer t pid c = Inr p"
  shows "outgoing p = []" "infoHash p = MInfoHash (Meta t)" "peer_id p \<noteq> pid"
  using assms
  by (auto simp: connectPeer_def newPeer_def bind_r_iffs validatePeerHandshake_None
      split: option.splits prod.splits)

lemma wf_t_connectTrackerPeers: "wf_t t \<Longrightarrow> wf_t (connectTrackerPeers t pid cs)"
proof (induction cs arbitrary: t)
  case Nil
  then show ?case by simp
next
  case (Cons c cs)
  show ?case
  proof (cases "maxPeers \<le> length (peers t)")
    case True
    then show ?thesis using Cons.prems by simp
  next
    case False
    show ?thesis
    proof (cases "connectPeer t pid c")
      case (Inl er)
      then show ?thesis using False Cons by simp
    next
      case (Inr p)
      let ?t = "t\<lparr>heap := heap t @ [p]\<rparr>"
      obtain res t2 where a: "activatePeer ?t (length (heap t)) = (res, t2)" by fastforce
      have "wf_t t2"
        using wf_t_activatePeer [OF wf_t_alloc [OF Cons.prems connectPeer_Inr(1,2) [OF Inr]] a] by blast
      then show ?thesis
        using False Inr a Cons.IH by (auto simp: alloc_def wf_t_closePeer split: option.splits)
    qed
  qed
qed

lemma wf_t_Accept:
  assumes "wf_t t" and "AcceptIncomingPeer t addr conn h pid = (res, t')"
  shows "wf_t t'"
  using assms wf_t_alloc [OF assms(1), of "(newPeer addr h)\<lparr>incoming := True\<rparr>"]
  by (auto simp: AcceptIncomingPeer_def alloc_def newPeer_def validatePeerHandshake_None
      split: if_splits option.splits prod.splits)

interpretation session: invariant_system "run_step peerID" wf_t
proof
  fix s s'
  assume wf: "wf_t s" and "run_step peerID s s'"
  from this(2) show "wf_t s'"
  proof cases
    case (step_peer ev ds oc)
    then show ?thesis using handlePeerEvent_inv [of "s\<lparr>drains := ds\<rparr>" ev oc] wf by auto
  next
    case (step_accept addr conn handshake r)
    then show ?thesis using wf_t_Accept [OF wf] by blast
  qed (use wf in \<open>simp_all add: wf_t_changeDownloadMode wf_t_connectTrackerPeers\<close>)
qed

subsection \<open>Initial sessions\<close>

lemma wf_t_new:
  assumes "new_Torrent meta = Inr t" and "valid_info (MInfo meta)" and "length (PieceHashes (MInfo meta)) < 2 ^ 32"
  shows "wf_t t" "\<forall>st \<in> set (ps_states (pieces t)). st = newPieceState"
    "ps_info (pieces t) = MInfo meta" "Meta t = meta" "pending t = []" "peers t = []" "heap t = []"
proof -
  obtain ps where ps: "NewPieceSet (MInfo meta) = Inr ps" and t: "pieces t = ps" "tfile t = None" "pending t = []"
      "peers t = []" "heap t = []" "Meta t = meta"
    using assms(1) by (auto simp: new_Torrent_def bind_r_iffs)
  have i: "in_int64 (Length (MInfo meta))" using assms(2) by (simp add: valid_info_def)
  note N = NewPieceSet_wf [OF ps i assms(3)]
  show "wf_t t" using N t by (simp add: wf_t_defs pendingCount_def maxPendingPerPeer_def maxPeers_def)
  show "\<forall>st \<in> set (ps_states (pieces t)). st = newPieceState"
    "ps_info (pieces t) = MInfo meta" "Meta t = meta" "pending t = []" "peers t = []" "heap t = []"
    using N t by auto
qed

lemma verified_fresh:
  "\<forall>st \<in> set (ps_states p). st = newPieceState \<Longrightarrow> verified p f"
  by (auto simp: verified_def newPieceState_def all_set_conv_all_nth)

lemma wf_t_OpenDownload:
  assumes "OpenDownload meta opened trunc = Inr t" and "valid_info (MInfo meta)"
    and "length (PieceHashes (MInfo meta)) < 2 ^ 32"
  shows "wf_t t \<and> ps_CompletedCount (pieces t) = 0 \<and>
    (\<exists>f. tfile t = Some f \<and> length f = nat (Length (MInfo meta)))"
proof -
  obtain t0 f where n: "new_Torrent meta = Inr t0"
    and t: "t = t0\<lparr>tfile := Some (file_Truncate f (nat (Length (MInfo meta))))\<rparr>"
    using assms(1) by (auto simp: OpenDownload_def bind_r_iffs split: option.splits)
  note N = wf_t_new [OF n assms(2,3)]
  have "wf_t t" using N verified_fresh [OF N(2)] by (auto simp: t wf_t_defs pendingCount_def)
  moreover have "ps_CompletedCount (pieces t) = 0"
    using N(2) by (auto simp: t ps_CompletedCount_def newPieceState_def filter_empty_conv)
  ultimately show ?thesis by (simp add: t)
qed

lemma verifyExisting_loop_info: "verifyExisting_loop is p f rd = (res, p') \<Longrightarrow> ps_info p' = ps_info p"
proof (induction "is" arbitrary: p)
  case (Cons i "is")
  from Cons.prems show ?case
    by (auto simp: Let_def split: sum.splits prod.splits if_splits dest!: Cons.IH)
qed simp

lemma wf_t_OpenSeed:
  assumes "OpenSeed meta opened rd = Inr t" and "valid_info (MInfo meta)"
    and "length (PieceHashes (MInfo meta)) < 2 ^ 32"
  shows "wf_t t \<and> ps_CompletedCount (pieces t) = ps_Count (pieces t) \<and> tfile t \<noteq> None"
proof -
  obtain t0 f where n: "new_Torrent meta = Inr t0"
    and o: "(case ps_VerifyExisting (pieces t0) (Some f) rd of
       (Some er, _) \<Rightarrow> Inl (TPiece er) | (None, ps) \<Rightarrow> Inr (t0\<lparr>pieces := ps, tfile := Some f\<rparr>)) = Inr t"
    using assms(1) by (auto simp: OpenSeed_def bind_r_iffs)
  then obtain ps where v: "ps_VerifyExisting (pieces t0) (Some f) rd = (None, ps)"
    and t: "t = t0\<lparr>pieces := ps, tfile := Some f\<rparr>"
    by (auto split: prod.splits option.splits)
  note N = wf_t_new [OF n assms(2,3)]
  have d: "\<forall>st \<in> set (ps_states (pieces t0)). Data st = None" using N(2) by (auto simp: newPieceState_def)
  have V: "wf_ps ps \<and> verified ps f \<and> length (ps_states ps) = length (ps_states (pieces t0)) \<and>
      (\<forall>i < length (ps_states (pieces t0)). Complete (ps_states ps ! i))"
    using verifyExisting_loop_None [OF wf_t_ps [OF N(1)] verified_fresh [OF N(2)], of
        "[0..<length (ps_states (pieces t0))]" f rd ps] d v
    by (simp add: ps_VerifyExisting_def)
  have "ps_info ps = MInfo meta"
    using verifyExisting_loop_info v N(3) by (force simp: ps_VerifyExisting_def)
  moreover have "filter Complete (ps_states ps) = ps_states ps"
    using V by (simp add: filter_id_conv all_set_conv_all_nth)
  ultimately show ?thesis
    using V N by (simp add: t wf_t_defs pendingCount_def maxPendingPerPeer_def maxPeers_def
        ps_CompletedCount_def ps_Count_def)
qed

end
