(* ===== verification/Torrent_Correct.thy ===== *)
theory Torrent_Correct
  imports Torrent_Inv
begin

text \<open>
  The correctness theorems of a torrent session: safety and integrity along every run of the event
  loop, what a received block can do, that the request window is kept full, membership, and the
  behaviour of pause and close.
\<close>

subsection \<open>What each step keeps\<close>

lemma handlePeerEvent_keeps:
  assumes "wf_t t" and "event_fits ev" and "handlePeerEvent t ev oc = Some t'"
  shows "keeps t t'"
proof (cases ev)
  case (PeerArrived r)
  obtain res t1 where a: "activatePeer t r = (res, t1)" by fastforce
  have "keeps t t1" using wf_t_activatePeer [OF assms(1) a] by blast
  then show ?thesis
    using PeerArrived assms(3) a by (auto simp: closePeer_def keeps_def split: option.splits)
next
  case (PeerMessageReceived r m)
  show ?thesis
  proof (cases "hasPeer t r")
    case True
    obtain res t1 where h: "handleProtocolMessage t r m oc = (res, t1)" by fastforce
    have "safe t (res, t1)"
      using handleProtocolMessage_safe [OF assms(1), of r m oc] True assms(2) PeerMessageReceived h
      by (simp add: hasPeer_def)
    then have "keeps t t1" by (simp add: safe_def)
    moreover have "t' = t1 \<or> t' = removePeer t1 r"
      using True PeerMessageReceived h assms(3)
      by (auto split: option.splits torrent_error.splits piece_error.splits)
    ultimately show ?thesis using keeps_trans keeps_removePeer by blast
  qed (use assms(3) PeerMessageReceived in simp)
qed (use assms(3) in auto)

text \<open>The session's own part of \<open>keeps\<close>: the store of peers may grow, the rest stays.\<close>

lemma connectTrackerPeers_keeps:
  assumes "wf_t t"
  shows "downloadMode (connectTrackerPeers t pid cs) = downloadMode t \<and>
    pieces (connectTrackerPeers t pid cs) = pieces t \<and> Meta (connectTrackerPeers t pid cs) = Meta t \<and>
    tfile (connectTrackerPeers t pid cs) = tfile t"
proof (induction cs arbitrary: t)
  case (Cons c cs)
  have act: "downloadMode t2 = downloadMode t1 \<and> pieces t2 = pieces t1 \<and> Meta t2 = Meta t1 \<and> tfile t2 = tfile t1"
    if "activatePeer t1 r = (res, t2)" for t1 r res t2
  proof -
    obtain b t' where e: "tryEnqueue t1 r (Bitfield (PiecesBitfield (pieces t1))) = (b, t')" by fastforce
    show ?thesis
      using that e tryEnqueue_fields(1-3,5,10) [OF e]
      by (auto simp: activatePeer_def split: if_splits bool.splits)
  qed
  show ?case
    using Cons.IH
    by (auto simp: alloc_def closePeer_def split: sum.splits prod.splits option.splits dest!: act)
qed simp

lemma run_step_keeps:
  assumes "wf_t t" and "run_step pid t t'"
  shows "complete_set (pieces t) \<subseteq> complete_set (pieces t') \<and> Meta t' = Meta t"
    and "downloadMode t' = downloadMode t" and "sized t \<longrightarrow> sized t'"
proof -
  have mode: "keeps t (changeDownloadMode (t\<lparr>drains := ds\<rparr>) mode)" for ds mode
  proof -
    have "keeps t (broadcastMessage (t\<lparr>drains := ds, downloadMode := d\<rparr>) m)" if "downloadMode t = d" for d m
      using broadcastMessage_inv [of "t\<lparr>drains := ds, downloadMode := d\<rparr>" m] assms(1) that
      by (auto simp: keeps_def)
    moreover have "keeps t (t\<lparr>drains := ds\<rparr>)" by (simp add: keeps_def)
    ultimately show ?thesis by (simp add: changeDownloadMode_def)
  qed
  from assms(2) have "(complete_set (pieces t) \<subseteq> complete_set (pieces t') \<and> Meta t' = Meta t) \<and>
      downloadMode t' = downloadMode t \<and> (sized t \<longrightarrow> sized t')"
  proof cases
    case (step_peer ev ds oc)
    then show ?thesis
      using handlePeerEvent_keeps [of "t\<lparr>drains := ds\<rparr>" ev oc t'] assms(1) by (auto simp: keeps_def)
  next
    case (step_mode ds mode)
    then show ?thesis using mode [of ds mode] by (auto simp: keeps_def)
  next
    case (step_reannounce ds conns)
    then show ?thesis using connectTrackerPeers_keeps [of "t\<lparr>drains := ds\<rparr>" pid conns] assms(1) by simp
  next
    case (step_accept addr conn handshake r)
    then show ?thesis
      by (auto simp: AcceptIncomingPeer_def alloc_def split: if_splits option.splits prod.splits)
  qed simp
  then show "complete_set (pieces t) \<subseteq> complete_set (pieces t') \<and> Meta t' = Meta t"
    and "downloadMode t' = downloadMode t" and "sized t \<longrightarrow> sized t'" by auto
qed

subsection \<open>The request window\<close>

text \<open>Nothing is left to request from peer \<open>r\<close> in the pieces \<open>is\<close>.\<close>

definition exhausted :: "Torrent \<Rightarrow> pref \<Rightarrow> nat set \<Rightarrow> bool" where
  "exhausted t r is \<longleftrightarrow>
     (\<forall>i \<in> is. \<not> Complete (ps_states (pieces t) ! i) \<and> hasPiece (heap t ! r) (of_nat i) \<longrightarrow>
        (\<forall>k < pcount (plen_at (pieces t) i) 16384.
           has_block (pieces t) i k \<or> m_get (pending t) (request_no (pieces t) (of_nat i) k) \<noteq> None))"

lemma has_block_prepared:
  assumes "i < length (ps_states p)" and "k < pcount (plen_at p i) 16384"
  shows "has_block (set_state p w (prepared (plen_at p (unat w)) (ps_states p ! unat w))) i k = has_block p i k"
  using assms by (auto simp: has_block_def set_state_nth prepared_def)

lemma reserve_loop_None:
  assumes "wf_t t" and "\<forall>i \<in> set is. i < ps_Count (pieces t)" and "exhausted t r A"
    and "A \<subseteq> {..<ps_Count (pieces t)}" and "reserve_loop t r is = (Inr None, t')"
  shows "exhausted t' r (A \<union> set is)"
  using assms
proof (induction "is" arbitrary: t A)
  case Nil
  then show ?case by simp
next
  case (Cons i "is")
  let ?w = "of_nat i :: uint32"
  have wfp: "wf_ps (pieces t)" by (rule wf_t_ps [OF Cons.prems(1)])
  have geo: "wf_geometry (pieces t)" and i: "i < length (ps_states (pieces t))"
    using Cons.prems by (auto simp: wf_t_defs ps_Count_def)
  have u: "unat ?w = i" by (rule unat_of_nat_index [OF geo i])
  have un: "A \<union> set (i # is) = insert i A \<union> set is" by auto
  show ?case
  proof (cases "ps_IsComplete (pieces t) ?w \<or> \<not> hasPiece (heap t ! r) ?w")
    case True
    then have "exhausted t r (insert i A)"
      using Cons.prems(3) i by (auto simp: exhausted_def ps_IsComplete_def less_count32 [OF geo] u)
    then show ?thesis
      using True Cons.IH [OF Cons.prems(1) _ _ _, of "insert i A"] Cons.prems un by (simp add: Let_def)
  next
    case False
    have nc: "\<not> Complete (ps_states (pieces t) ! unat ?w)"
      using False i by (simp add: ps_IsComplete_def less_count32 [OF geo] u)
    let ?pend = "\<lambda>q. m_get (pending t) q \<noteq> None"
    obtain nres ps where e: "ps_nextMissingBlock (pieces t) ?w ?pend = (nres, ps)"
      by fastforce
    have iw: "unat ?w < length (ps_states (pieces t))" using i by (simp only: u)
    note N = nextMissing_wanted [OF wfp iw nc e]
    let ?st = "prepared (plen_at (pieces t) i) (ps_states (pieces t) ! i)"
    have eq: "nres = Inr (map_option (request_no (pieces t) ?w) (List.find
        (\<lambda>k. \<not> Received ?st ! k \<and> \<not> ?pend (request_no (pieces t) ?w k)) [0..<length (Received ?st)]))"
      and ps: "ps = set_state (pieces t) ?w ?st"
      using ps_nextMissingBlock_eq [OF wfp iw, of ?pend] e by (simp_all add: u Let_def)
    have none: "nres = Inr None" and loop: "reserve_loop (t\<lparr>pieces := ps\<rparr>) r is = (Inr None, t')"
      using False Cons.prems(5) e N(6) by (auto simp: Let_def split: option.splits)
    have len: "length (Received ?st) = pcount (plen_at (pieces t) i) 16384"
      using prepared_incomplete [OF wf_ps_state [OF wfp i]] nc u by metis
    have same: "has_block ps j k = has_block (pieces t) j k" "Complete (ps_states ps ! j) = Complete (ps_states (pieces t) ! j)"
      if "j < length (ps_states (pieces t))" "k < pcount (plen_at (pieces t) j) 16384" for j k
      using has_block_prepared [OF that, of ?w] that(1) N(8) by (simp_all add: ps u)
    have rq: "request_no ps w k = request_no (pieces t) w k" for w k by (simp add: request_no_def ps)
    have recv: "Received ?st ! k = has_block (pieces t) i k" if "k < pcount (plen_at (pieces t) i) 16384" for k
      using that nc by (auto simp: has_block_def prepared_def u)
    have "\<forall>k < length (Received ?st). Received ?st ! k \<or> ?pend (request_no (pieces t) ?w k)"
      using none unfolding eq by (auto simp: find_None_iff)
    then have here: "has_block (pieces t) i k \<or> ?pend (request_no (pieces t) ?w k)"
      if "k < pcount (plen_at (pieces t) i) 16384" for k
      using that recv len by auto
    have "exhausted (t\<lparr>pieces := ps\<rparr>) r (insert i A)"
      unfolding exhausted_def
    proof (intro ballI impI allI)
      fix j k
      assume j: "j \<in> insert i A" and k: "k < pcount (plen_at (pieces (t\<lparr>pieces := ps\<rparr>)) j) 16384"
        and c: "\<not> Complete (ps_states (pieces (t\<lparr>pieces := ps\<rparr>)) ! j) \<and> hasPiece (heap (t\<lparr>pieces := ps\<rparr>) ! r) (of_nat j)"
      have jl: "j < length (ps_states (pieces t))" using j i Cons.prems(4) by (auto simp: ps_Count_def)
      have kj: "k < pcount (plen_at (pieces t) j) 16384" using k by (simp add: ps)
      have "has_block (pieces t) j k \<or> ?pend (request_no (pieces t) (of_nat j) k)"
      proof (cases "j = i")
        case True
        then show ?thesis using here kj by simp
      next
        case False
        then show ?thesis using j c Cons.prems(3) kj same(2) [OF jl kj] by (simp add: exhausted_def)
      qed
      then show "has_block (pieces (t\<lparr>pieces := ps\<rparr>)) j k \<or>
          m_get (pending (t\<lparr>pieces := ps\<rparr>)) (request_no (pieces (t\<lparr>pieces := ps\<rparr>)) (of_nat j) k) \<noteq> None"
        using same(1) [OF jl kj] rq by simp
    qed
    moreover have "wf_t (t\<lparr>pieces := ps\<rparr>)"
      using Cons.prems(1) N by (auto simp: wf_t_defs pendingCount_def)
    ultimately show ?thesis
      using Cons.IH [of "t\<lparr>pieces := ps\<rparr>" "insert i A"] loop Cons.prems(2,4) N(3) un by simp
  qed
qed

lemma fill_loop_full:
  assumes "wf_t t" and "r < length (heap t)" and "fill_loop t r = (None, t')"
  shows "pendingCount t' r = maxPendingPerPeer \<or> exhausted t' r {..<ps_Count (pieces t')}"
  using assms
proof (induction t r arbitrary: t' rule: fill_loop.induct)
  case (1 t r)
  show ?case
  proof (cases "maxPendingPerPeer \<le> pendingCount t r")
    case True
    then have "t' = t" using "1.prems"(3) by (simp add: fill_loop.simps [of t])
    then show ?thesis using True "1.prems"(1) by (simp add: wf_t_defs le_antisym)
  next
    case False
    obtain rres t1 where e: "reserveNextRequest t r = (rres, t1)" by fastforce
    have R: "wf_t t1 \<and> (\<exists>res'. rres = Inr res') \<and> heap t1 = heap t \<and> keeps t t1"
      using reserve_loop_inv [OF "1.prems"(1,2), of "[0..<ps_Count (pieces t)]" rres t1] False e
      by (simp add: reserveNextRequest_def)
    show ?thesis
    proof (cases "rres = Inr None")
      case True
      then have t': "t' = t1" using "1.prems"(3) False e by (simp add: fill_loop.simps [of t])
      have "ps_info (pieces t1) = ps_info (pieces t)"
        using R "1.prems"(1) by (simp add: wf_t_defs keeps_def)
      then have "ps_Count (pieces t1) = ps_Count (pieces t)"
        using R "1.prems"(1) by (simp add: wf_t_defs wf_ps_def wf_geometry_def ps_Count_def)
      moreover have "exhausted t1 r ({} \<union> set [0..<ps_Count (pieces t)])"
        using e True "1.prems"(1) by (intro reserve_loop_None) (auto simp: reserveNextRequest_def exhausted_def)
      ultimately show ?thesis by (simp add: t' atLeast0LessThan)
    next
      case no: False
      then obtain q where q: "rres = Inr (Some q)" using R by (metis option.exhaust)
      obtain sres t2 where snd: "sendMessage t1 r (Request q) = (sres, t2)" by fastforce
      have wf2: "wf_t t2" "r < length (heap t2)"
        using wf_t_sendMessage [OF _ _ snd] sendMessage_fields(6) [OF snd] R "1.prems"(2) by auto
      have n: "sres = None" and loop: "fill_loop t2 r = (None, t')"
        using "1.prems"(3) False e q snd by (auto simp: fill_loop.simps [of t] split: option.splits)
      show ?thesis using "1.IH" [OF False e [symmetric] q refl snd [symmetric] n wf2 loop] .
    qed
  qed
qed

subsection \<open>Runs\<close>

text \<open>A run starts from a session opened for download or for seeding, and takes any steps.\<close>

definition opened_session :: "MetaInfo \<Rightarrow> Torrent \<Rightarrow> bool" where
  "opened_session meta t0 \<longleftrightarrow>
     (\<exists>opened trunc. OpenDownload meta opened trunc = Inr t0) \<or> (\<exists>opened rd. OpenSeed meta opened rd = Inr t0)"

definition run_of :: "MetaInfo \<Rightarrow> gostring \<Rightarrow> Torrent \<Rightarrow> bool" where
  "run_of meta pid t \<longleftrightarrow>
     valid_info (MInfo meta) \<and> length (PieceHashes (MInfo meta)) < 2 ^ 32 \<and>
     (\<exists>t0 t1. opened_session meta t0 \<and> beginRun t0 = (None, t1) \<and> reaches (run_step pid) t1 t)"

lemma opened_session_wf:
  assumes "opened_session meta t0" and "valid_info (MInfo meta)" and "length (PieceHashes (MInfo meta)) < 2 ^ 32"
  shows "wf_t t0 \<and> Meta t0 = meta \<and> downloadMode t0 = ''''"
proof -
  have "wf_t t0"
    using assms wf_t_OpenDownload [OF _ assms(2,3)] wf_t_OpenSeed [OF _ assms(2,3)]
    by (auto simp: opened_session_def)
  moreover have "\<exists>n f ps. new_Torrent meta = Inr n \<and> t0 = n\<lparr>pieces := ps, tfile := f\<rparr>"
    using assms(1)
  proof (unfold opened_session_def, elim disjE exE)
    fix opened trunc
    assume "OpenDownload meta opened trunc = Inr t0"
    then obtain n f where "new_Torrent meta = Inr n" "t0 = n\<lparr>tfile := f\<rparr>"
      by (auto simp: OpenDownload_def bind_r_iffs split: option.splits)
    then have "new_Torrent meta = Inr n" "t0 = n\<lparr>pieces := pieces n, tfile := f\<rparr>" by auto
    then show ?thesis by blast
  next
    fix opened rd
    assume "OpenSeed meta opened rd = Inr t0"
    then obtain n f where n: "new_Torrent meta = Inr n"
      "(case ps_VerifyExisting (pieces n) (Some f) rd of
         (Some er, _) \<Rightarrow> Inl (TPiece er) | (None, ps) \<Rightarrow> Inr (n\<lparr>pieces := ps, tfile := Some f\<rparr>)) = Inr t0"
      by (auto simp: OpenSeed_def bind_r_iffs)
    then obtain ps where "t0 = n\<lparr>pieces := ps, tfile := Some f\<rparr>" by (auto split: prod.splits option.splits)
    then show ?thesis using n(1) by blast
  qed
  then have "Meta t0 = meta \<and> downloadMode t0 = ''''" by (auto simp: new_Torrent_def bind_r_iffs)
  ultimately show ?thesis by blast
qed

lemma wf_t_beginRun: "wf_t t \<Longrightarrow> beginRun t = (None, t') \<Longrightarrow> wf_t t'"
  by (auto simp: beginRun_def wf_t_defs pendingCount_def split: if_splits)

lemma run_of_inv:
  assumes "run_of meta pid t"
  shows "wf_t t \<and> Meta t = meta \<and> downloadMode t = ''''"
proof -
  obtain t0 t1 where o: "opened_session meta t0" and b: "beginRun t0 = (None, t1)"
    and r: "reaches (run_step pid) t1 t"
    and v: "valid_info (MInfo meta)" "length (PieceHashes (MInfo meta)) < 2 ^ 32"
    using assms by (auto simp: run_of_def)
  have t1: "wf_t t1 \<and> Meta t1 = meta \<and> downloadMode t1 = ''''"
    using opened_session_wf [OF o v] b wf_t_beginRun [OF _ b]
    by (auto simp: beginRun_def split: if_splits)
  from r t1 show ?thesis
  proof (induction rule: reaches.induct)
    case (reaches_step s s' s'')
    then show ?case using run_step_keeps [of s' pid s''] session.inv_step [of s' pid s''] by simp
  qed simp
qed

lemma buildStatus_ok:
  assumes "wf_t t"
  shows "\<exists>st. buildStatus t = Inr st"
  using ps_BytesLeft_exact [OF wf_ps_geometry [OF wf_t_ps [OF assms]]]
  by (simp add: buildStatus_def transferState_def ps_Complete_def)

definition demo_meta :: MetaInfo where
  "demo_meta = \<lparr>Announce = [104], MInfo = demo_info, MInfoHash = replicate 20 7\<rparr>"

definition demo_open :: Torrent where
  "demo_open = \<lparr>Meta = demo_meta, pieces = demo_ps, tfile = Some [0, 0, 0], pending = [], peers = [],
     uploaded = 0, downloaded = 0, downloadMode = '''', TrackerID = [], running = True, closeErr = None,
     heap = [], drains = []\<rparr>"

lemma valid_demo_info: "valid_info demo_info"
  by (simp add: valid_info_def demo_info_def in_int64_def expectedPieces_def int64_def)

lemma new_demo: "new_Torrent demo_meta = Inr (demo_open\<lparr>running := False, tfile := None\<rparr>)"
  by (simp add: new_Torrent_def demo_meta_def NewPieceSet_demo demo_open_def)

lemma run_ofI:
  assumes "valid_info (MInfo meta)" and "length (PieceHashes (MInfo meta)) < 2 ^ 32"
    and "opened_session meta t0" and "beginRun t0 = (None, t1)"
  shows "run_of meta pid t1"
  unfolding run_of_def by (intro conjI exI [of _ t0] exI [of _ t1] assms reaches_refl)

lemma demo_meta_ok: "valid_info (MInfo demo_meta)" "length (PieceHashes (MInfo demo_meta)) < 2 ^ 32"
  using valid_demo_info demo_small(2) by (simp_all add: demo_meta_def)

lemma opened_demo: "opened_session demo_meta (demo_open\<lparr>running := False\<rparr>)"
proof -
  have "OpenDownload demo_meta (Inr []) None = Inr (demo_open\<lparr>running := False\<rparr>)"
    by (simp add: OpenDownload_def new_demo demo_open_def file_Truncate_def)
      (simp add: demo_meta_def demo_info_def numeral_3_eq_3)
  then show ?thesis unfolding opened_session_def by blast
qed

lemma run_demo_open: "run_of demo_meta pid demo_open"
  by (rule run_ofI [OF demo_meta_ok opened_demo]) (simp add: beginRun_def demo_open_def)

lemma run_demo_seed:
  "\<exists>t. run_of demo_meta pid t \<and> ps_IsComplete (pieces t) 0 \<and> tfile t = Some [1, 2, 3]"
proof -
  have ok: "\<forall>i \<in> set [0..<length (ps_states demo_ps)]. i < length (ps_states demo_ps) \<and>
      length (piece_bytes demo_ps [1, 2, 3] i) = plen_at demo_ps i \<and>
      sha1_Sum (piece_bytes demo_ps [1, 2, 3] i) = PieceHashes (ps_info demo_ps) ! i"
    by (simp add: piece_bytes_def plen_at_def plen_def demo_ps_def demo_info_def less_Suc_eq)
  obtain ps where v: "verifyExisting_loop [0..<length (ps_states demo_ps)] demo_ps [1, 2, 3] (\<lambda>_. IoOk) = (None, ps)"
    using verifyExisting_loop_ok [OF wf_ps_geometry [OF wf_demo_ps] ok] by blast
  have fresh: "\<forall>st \<in> set (ps_states demo_ps). st = newPieceState" by (simp add: demo_ps_def)
  then have "\<forall>st \<in> set (ps_states demo_ps). Data st = None" by (auto simp: newPieceState_def)
  then have V: "length (ps_states ps) = length (ps_states demo_ps) \<and>
      (\<forall>i < length (ps_states demo_ps). Complete (ps_states ps ! i))"
    using verifyExisting_loop_None [OF wf_demo_ps verified_fresh [OF fresh] _ _ v] by simp
  let ?t = "demo_open\<lparr>pieces := ps, tfile := Some [1, 2, 3]\<rparr>"
  have "OpenSeed demo_meta (Inr [1, 2, 3]) (\<lambda>_. IoOk) = Inr (?t\<lparr>running := False\<rparr>)"
    using v by (simp add: OpenSeed_def new_demo ps_VerifyExisting_def) (simp add: demo_open_def)
  then have "opened_session demo_meta (?t\<lparr>running := False\<rparr>)" unfolding opened_session_def by blast
  then have "run_of demo_meta pid ?t"
    by (rule run_ofI [OF demo_meta_ok]) (simp add: beginRun_def demo_open_def)
  moreover have "ps_IsComplete ps 0" using V by (simp add: ps_IsComplete_def demo_ps_def)
  ultimately show ?thesis by (auto intro!: exI [of _ ?t])
qed

subsection \<open>Correctness of a session\<close>

text \<open>C20. Safety of the event loop: along every run (whatever peers send, however the write loops drain
  the queues and whatever the file system does) no event handler panics and a status can be built; a
  session has at most five peers, all with its info hash, at most eight requests pending per peer, and
  no write queue over its capacity.\<close>

theorem session_safe:
  assumes "run_of meta pid t"
  shows "(\<forall>ev ds oc. event_fits ev \<longrightarrow> handlePeerEvent (t\<lparr>drains := ds\<rparr>) ev oc \<noteq> None) \<and>
    (\<exists>st. buildStatus t = Inr st) \<and> length (peers t) \<le> maxPeers \<and>
    (\<forall>r. pendingCount t r \<le> maxPendingPerPeer) \<and>
    (\<forall>p \<in> set (heap t). length (outgoing p) \<le> peerWriteQueueSize \<and> infoHash p = MInfoHash meta)"
proof -
  have wf: "wf_t t" and m: "Meta t = meta" using run_of_inv [OF assms] by auto
  have "handlePeerEvent (t\<lparr>drains := ds\<rparr>) ev oc \<noteq> None" if "event_fits ev" for ev ds oc
    using handlePeerEvent_inv [of "t\<lparr>drains := ds\<rparr>" ev oc] wf that by auto
  then show ?thesis using buildStatus_ok [OF wf] wf m by (auto simp: wf_t_defs)
qed

theorem session_safe_witness:
  "handlePeerEvent (demo_open\<lparr>drains := []\<rparr>) (PeerMessageReceived 0 Unchoke) IoOk \<noteq> None"
proof -
  have "event_fits (PeerMessageReceived 0 Unchoke)" by (simp add: fits_def maxPeerMessageSize_def)
  then show ?thesis using session_safe [OF run_demo_open [of "[]"]] by blast
qed

text \<open>C21. Integrity of a session: in every state of a run each complete piece lies in the file with the
  digest of the metainfo, a piece that is complete stays complete for the rest of the run, and a file of the
  content's size keeps that size: no write goes past its end.\<close>

theorem session_integrity:
  assumes "run_of meta pid t" and "reaches (run_step pid) t t'"
  shows "(\<forall>f i. tfile t' = Some f \<and> ps_IsComplete (pieces t') i \<longrightarrow>
       sha1_Sum (piece_bytes (pieces t') f (unat i)) = PieceHashes (MInfo meta) ! unat i) \<and>
    (\<forall>i. ps_IsComplete (pieces t) i \<longrightarrow> ps_IsComplete (pieces t') i) \<and> (sized t \<longrightarrow> sized t')"
proof -
  have wf: "wf_t t" and m: "Meta t = meta" using run_of_inv [OF assms(1)] by auto
  have "sized t \<longrightarrow> sized t'"
    by (rule session.mono_reaches [OF assms(2) wf, of "\<lambda>t. sized t", unfolded le_bool_def])
      (rule run_step_keeps(3))
  moreover have wf': "wf_t t'" using session.inv_reaches [OF assms(2) wf] .
  have "complete_set (pieces t) \<subseteq> complete_set (pieces t')"
    using session.mono_reaches [OF assms(2) wf, of "\<lambda>t. complete_set (pieces t)"] run_step_keeps(1) by blast
  moreover have "ps_IsComplete (pieces s) i \<longleftrightarrow> unat i \<in> complete_set (pieces s)" if "wf_t s" for s i
    using less_count32 [OF wf_ps_geometry [OF wf_t_ps [OF that]]] by (auto simp: ps_IsComplete_def complete_set_def)
  moreover have "Meta t' = meta"
    using assms(2) wf m
  proof (induction rule: reaches.induct)
    case (reaches_step s s' s'')
    then show ?case using run_step_keeps(1) [of s' pid s''] session.inv_reaches [of pid s s'] by auto
  qed simp
  moreover have "ps_info (pieces t') = MInfo (Meta t')" using wf' by (simp add: wf_t_defs)
  ultimately show ?thesis
    using wf wf' by (auto simp: wf_t_def wf_content_def verified_def complete_set_def)
qed

theorem session_integrity_witness:
  "\<exists>t. run_of demo_meta [] t \<and> ps_IsComplete (pieces t) 0 \<and>
     sha1_Sum (piece_bytes (pieces t) [1, 2, 3] 0) = sha1_Sum [1, 2]"
proof -
  obtain t where t: "run_of demo_meta [] t" "ps_IsComplete (pieces t) 0" "tfile t = Some [1, 2, 3]"
    using run_demo_seed by blast
  then have "sha1_Sum (piece_bytes (pieces t) [1, 2, 3] (unat (0 :: uint32))) =
      PieceHashes (MInfo demo_meta) ! unat (0 :: uint32)"
    using session_integrity [OF t(1) reaches_refl] by blast
  then show ?thesis using t by (auto simp: demo_meta_def demo_info_def)
qed

text \<open>C22. Blocks: data that was not requested from that very peer is refused without any change, and
  the peer is disconnected.  Requested data is stored; the request is settled and counted; and a piece
  is reported complete only when it is complete.\<close>

theorem receiveBlock_requested_only:
  assumes "wf_t t" and "length data < 2 ^ 32" and "hasPeer t r"
  shows "let q = \<lparr>PieceIndex = index, Begin = off, BlockLength = of_nat (length data)\<rparr>;
             out = receiveBlock t r index off data oc in
    (m_get (pending t) q \<noteq> Some r \<longrightarrow>
       out = (Inl (UnexpectedBlock index off), t) \<and>
       handlePeerEvent t (PeerMessageReceived r (Piece index off data)) oc = Some (removePeer t r)) \<and>
    (m_get (pending t) q = Some r \<longrightarrow>
       m_get (pending (snd out)) q = None \<and>
       downloaded (snd out) = downloaded t + of_nat (length data) \<and>
       (fst out = Inr True \<longrightarrow> ps_IsComplete (pieces (snd out)) index))"
proof -
  let ?q = "\<lparr>PieceIndex = index, Begin = off, BlockLength = of_nat (length data)\<rparr>"
  have bad: "receiveBlock t r index off data oc = (Inl (UnexpectedBlock index off), t)"
    if "m_get (pending t) ?q \<noteq> Some r"
    using that by (simp add: receiveBlock_def)
  have good: "m_get (pending (snd (receiveBlock t r index off data oc))) ?q = None \<and>
      downloaded (snd (receiveBlock t r index off data oc)) = downloaded t + of_nat (length data) \<and>
      (fst (receiveBlock t r index off data oc) = Inr True \<longrightarrow>
         ps_IsComplete (pieces (snd (receiveBlock t r index off data oc))) index)"
    if p: "m_get (pending t) ?q = Some r"
  proof -
    have wfp: "wf_ps (pieces t)" by (rule wf_t_ps [OF assms(1)])
    have w: "wanted (pieces t) ?q" using map_of_SomeD [OF p] assms(1) by (auto simp: wf_t_defs)
    have "unat (of_nat (length data) :: uint32) = length data" using assms(2) by (simp add: unat_of_nat_small)
    then have gb: "good_block (pieces t) ?q data" using w by (simp add: good_block_def wanted_def)
    obtain b ps where st: "ps_StoreBlock (pieces t) ?q data = (Inr b, ps)"
      using wanted_stored [OF wfp gb w] by (auto simp: Let_def)
    have wfps: "wf_ps ps" using wf_ps_StoreBlock [OF wfp assms(2), of ?q] st by simp
    have fin: "ps_IsComplete ps' index"
      if v: "ps_VerifyAndWrite ps index (tfile t) oc = (None, ps', f')" for ps' f'
    proof (cases "tfile t")
      case None
      then show ?thesis using v by (simp add: ps_VerifyAndWrite_def)
    next
      case (Some f)
      from wfps show ?thesis
      proof (cases rule: ps_VerifyAndWrite_cases [where w = index and f = f and oc = oc])
        case (written d)
        then have "ps' = set_state ps index ((ps_states ps ! unat index)\<lparr>Complete := True, Data := None, Received := []\<rparr>)"
          using v Some by simp
        then show ?thesis
          using written(1) less_count32 [OF wf_ps_geometry [OF wfps]] by (simp add: ps_IsComplete_def set_state_nth)
      qed (use v Some in simp_all)
    qed
    show ?thesis
      using p st fin by (auto simp: receiveBlock_def Let_def split: prod.splits option.splits)
  qed
  show ?thesis
    using bad good assms(3) by (auto simp: Let_def handleProtocolMessage_def hasPeer_def)
qed

definition demo_peer :: peer where
  "demo_peer = \<lparr>peer_id = replicate 20 9, infoHash = replicate 20 7, incoming = False,
     pstate = \<lparr>AmChoking = True, AmInterested = True, PeerChoking = False, PeerInterested = False\<rparr>,
     bitfield = [128], outgoing = [], taken = [], conn_open = True, remoteAddr = None\<rparr>"

definition demo_active :: Torrent where
  "demo_active = demo_open\<lparr>peers := [(replicate 20 9, 0)], heap := [demo_peer]\<rparr>"

lemma wf_demo_active: "wf_t demo_active"
proof -
  have "wf_t demo_open" using run_of_inv [OF run_demo_open [of "[]"]] by blast
  then show ?thesis
    by (simp add: wf_t_defs demo_active_def pendingCount_def demo_peer_def maxPeers_def)
      (simp add: demo_open_def demo_meta_def)
qed

lemma demo_active_peer: "hasPeer demo_active 0"
  by (simp add: hasPeer_def demo_active_def demo_peer_def)

theorem receiveBlock_requested_only_witness:
  "receiveBlock demo_active 0 0 0 [1, 2] IoOk = (Inl (UnexpectedBlock 0 0), demo_active)"
proof -
  have "m_get (pending demo_active) \<lparr>PieceIndex = 0, Begin = 0, BlockLength = of_nat (length [1, 2 :: byte])\<rparr> \<noteq> Some 0"
    by (simp add: demo_active_def demo_open_def)
  then show ?thesis
    using receiveBlock_requested_only [OF wf_demo_active _ demo_active_peer, of "[1, 2]" 0 0 IoOk]
    by (simp add: Let_def)
qed

text \<open>The request window: for a peer that does not choke us and has something we want, filling the
  window either fails because the peer's write queue is full, or ends with eight requests pending at
  the peer, or with nothing left to ask it for: every missing block of every piece it has is pending.\<close>

theorem fillRequestWindow_full:
  assumes "wf_t t" and "r < length (heap t)" and "downloadMode t \<noteq> downloadModePaused"
    and "\<not> PeerChoking (pstate (heap t ! r))" and "AmInterested (pstate (heap t ! r))"
    and "fillRequestWindow t r = (res, t')"
  shows "wf_t t' \<and>
    (res = Some ErrPeerWriteQueueFull \<or>
     res = None \<and> (pendingCount t' r = maxPendingPerPeer \<or> exhausted t' r {..<ps_Count (pieces t')}))"
proof -
  have "fill_loop t r = (res, t')" using assms(2-6) by (simp add: fillRequestWindow_def)
  then show ?thesis
    using fillRequestWindow_inv [OF assms(1,6)] fill_loop_full [OF assms(1,2), of t'] by auto
qed

text \<open>Disconnection: after a peer has been removed it is not a member, its connection is closed and
  none of its requests is pending, so their blocks can be asked from others; requests of other peers
  and the content are untouched.\<close>

theorem removePeer_releases:
  assumes "wf_t t" and "r < length (heap t)"
  shows "let t' = removePeer t r in
    wf_t t' \<and> \<not> hasPeer t' r \<and> \<not> conn_open (heap t' ! r) \<and> pendingCount t' r = 0 \<and>
    (\<forall>r'. r' \<noteq> r \<longrightarrow> pendingCount t' r' = pendingCount t r') \<and> pieces t' = pieces t \<and> tfile t' = tfile t"
proof -
  have other: "filter (\<lambda>(_, a). a = r') (filter (\<lambda>(_, a). a \<noteq> r) xs) = filter (\<lambda>(_, a). a = r') xs"
    if "r' \<noteq> r" for r' and xs :: "(BlockRequest \<times> pref) list"
    using that by (induction xs) auto
  have own: "filter (\<lambda>(_, a). a = r) (filter (\<lambda>(_, a). a \<noteq> r) xs) = []" for xs :: "(BlockRequest \<times> pref) list"
    by (induction xs) auto
  have "\<not> hasPeer (removePeer t r) r"
    using assms(2)
    by (auto simp: hasPeer_def removePeer_def releasePendingRequests_def closePeer_def nth_heap_upd_peer Let_def)
  then show ?thesis
    using assms wf_t_removePeer [OF assms(1), of r] other own
    by (simp add: removePeer_def releasePendingRequests_def closePeer_def nth_heap_upd_peer Let_def pendingCount_def)
qed

text \<open>Pausing has no effect: \<^verbatim>\<open>changeDownloadMode\<close> switches on the current mode instead of the requested
  one, and the current mode of a run is always the empty string, so a request to pause or resume
  reports success and changes nothing, and a session never reports itself paused.\<close>

theorem changeDownloadMode_no_effect:
  assumes "run_of meta pid t"
  shows "changeDownloadMode t mode = t \<and> downloadMode t = '''' \<and>
    (\<forall>st. buildStatus t = Inr st \<longrightarrow> S_State st \<noteq> TransferPaused)"
  using run_of_inv [OF assms]
  by (auto simp: changeDownloadMode_def buildStatus_def transferState_def bind_r_iffs split: if_splits)

subsection \<open>Connections\<close>

lemma writeLoop_buffered:
  "wplan w = [] \<Longrightarrow> writeLoop r ms w = ([], w\<lparr>written := written w @ concat (map messageFrame ms)\<rparr>)"
  by (induction ms arbitrary: w) (simp_all add: WriteMessage_buffered)

lemma ReadMessage_end: "\<exists>er. ReadMessage e [] = Inl er"
  by (simp add: ReadMessage_def ReadFull_def)

lemma readLoop_frames:
  "list_all fits ms \<Longrightarrow> readLoop r e (concat (map messageFrame ms)) =
     map (PeerMessageReceived r) ms @ [PeerDisconnected r]"
proof (induction ms)
  case Nil
  then show ?case using ReadMessage_end [of e] by (auto simp: readLoop.simps [of r e "[]"])
next
  case (Cons m ms)
  then have "ReadMessage e (messageFrame m @ concat (map messageFrame ms)) = Inr (m, concat (map messageFrame ms))"
    by (intro msg.dec_enc) simp
  then show ?case using Cons by (simp add: readLoop.simps [of r e "messageFrame m @ _"])
qed

text \<open>C23. Order on the wire: an accepted message goes to the end of its peer's queue and a refused one
  leaves no trace; and what one side's write loop sends (messages within the reader's size limit), the other side's read loop delivers to its
  event loop in the same order, followed by one disconnection.\<close>

theorem peer_wire_order:
  assumes "list_all fits ms" and "r < length (heap t)"
  shows "(\<forall>m ok t'. tryEnqueue t r m = (ok, t') \<longrightarrow>
       taken (heap t' ! r) @ outgoing (heap t' ! r) =
         (taken (heap t ! r) @ outgoing (heap t ! r)) @ (if ok then [m] else [])) \<and>
    writeLoop r' ms buffer = ([], snd (writeLoop r' ms buffer)) \<and>
    readLoop r e (written (snd (writeLoop r' ms buffer))) =
      map (PeerMessageReceived r) ms @ [PeerDisconnected r]"
  using readLoop_frames [OF assms(1)] writeLoop_buffered [of buffer r' ms] assms(2)
  by (auto simp: buffer_def tryEnqueue_def Let_def nth_heap_upd_peer split: if_splits)

theorem peer_wire_order_witness:
  "readLoop 0 ErrEOF (written (snd (writeLoop 0 [Unchoke, Have 3] buffer))) =
   [PeerMessageReceived 0 Unchoke, PeerMessageReceived 0 (Have 3), PeerDisconnected 0]"
  using peer_wire_order [of "[Unchoke, Have 3]" 0 demo_active]
  by (simp add: fits_def maxPeerMessageSize_def demo_active_def)

text \<open>Who is let in: a connection becomes a peer only after a handshake with the BitTorrent protocol
  string and this torrent's info hash, from someone other than ourselves, both when we dial and when we
  are called; it starts with both sides choking and nothing queued.  A session that is not running
  takes nobody (it answers with \<^verbatim>\<open>ErrAlreadyRunning\<close>).\<close>

theorem handshake_required:
  "(connectPeer t pid dial = Inr p \<longrightarrow>
      infoHash p = MInfoHash (Meta t) \<and> peer_id p \<noteq> pid \<and> outgoing p = [] \<and>
      AmChoking (pstate p) \<and> PeerChoking (pstate p)) \<and>
   (AcceptIncomingPeer t addr conn h pid = (Inr r, t') \<longrightarrow>
      running t \<and> Protocol h = PeerProtocol \<and> HsInfoHash h = MInfoHash (Meta t) \<and> HsPeerID h \<noteq> pid \<and>
      r = length (heap t) \<and> peer_id (heap t' ! r) = HsPeerID h \<and> incoming (heap t' ! r)) \<and>
   (\<not> running t \<longrightarrow> AcceptIncomingPeer t addr conn h pid = (Inl ErrAlreadyRunning, t))"
  by (auto simp: connectPeer_def newPeer_def bind_r_iffs validatePeerHandshake_None AcceptIncomingPeer_def
      alloc_def nth_append split: option.splits prod.splits if_splits)

subsection \<open>Lifecycle\<close>

lemma fold_closePeer:
  assumes "\<forall>(i, r) \<in> set rs. r < length (heap t)"
  shows "length (heap (fold (\<lambda>(_, r) t. closePeer t r) rs t)) = length (heap t) \<and>
    (\<forall>r < length (heap t). (\<exists>i. (i, r) \<in> set rs) \<or> \<not> conn_open (heap t ! r) \<longrightarrow>
       \<not> conn_open (heap (fold (\<lambda>(_, r) t. closePeer t r) rs t) ! r)) \<and>
    tfile (fold (\<lambda>(_, r) t. closePeer t r) rs t) = tfile t"
  using assms
proof (induction rs arbitrary: t)
  case (Cons ir rs)
  obtain a b where ir: "ir = (a, b)" by fastforce
  have len: "length (heap (closePeer t b)) = length (heap t)" "tfile (closePeer t b) = tfile t"
    by (simp_all add: closePeer_def)
  have closed: "\<not> conn_open (heap (closePeer t b) ! r)" if "r < length (heap t)" "r = b \<or> \<not> conn_open (heap t ! r)" for r
    using that by (auto simp: closePeer_def nth_heap_upd_peer)
  show ?case
    using Cons.IH [of "closePeer t b"] Cons.prems closed by (auto simp: ir len)
qed simp

text \<open>Closing: a session runs at most once at a time; closing a running one disconnects every member,
  forgets peers and requests, closes the file and returns what that returned, after which the session
  can be run again.\<close>

theorem Close_finishes_run:
  assumes "wf_t t" and "running t"
  shows "fst (beginRun t) = Some ErrAlreadyRunning \<and>
    (case Close t result of (er, t') \<Rightarrow>
       \<not> running t' \<and> peers t' = [] \<and> pending t' = [] \<and> tfile t' = None \<and>
       er = (if tfile t = None then None else result) \<and>
       (\<forall>(i, r) \<in> set (peers t). \<not> conn_open (heap t' ! r)) \<and> fst (beginRun t') = None)"
proof -
  have p: "\<forall>(i, r) \<in> set (peers t). r < length (heap t)" using assms(1) by (auto simp: wf_t_defs)
  note F = fold_closePeer [OF p]
  have "\<forall>(i, r) \<in> set (peers t). \<not> conn_open (heap (closePeers t) ! r)"
    using F p by (fastforce simp: closePeers_def)
  moreover have "tfile (closePeers t) = tfile t" using F by (simp add: closePeers_def)
  ultimately show ?thesis
    using assms(2)
    by (auto simp: Close_def finishRun_def closeFile_def beginRun_def closePeers_def split: option.splits)
qed

end
