(* ===== verification/Torrent_Command.thy ===== *)
theory Torrent_Command
  imports Go_Command Sha256 Metainfo Torrent_Correct
begin

text \<open>
  The command \<^verbatim>\<open>torrent\<close>, \<^verbatim>\<open>src/cmd/torrent/main.go\<close>: hashing a file into content information (\<^verbatim>\<open>create\<close>), writing a
  metainfo file, loading one from disk or over HTTP against a pinned SHA-256 digest, and opening the session of
  \<^verbatim>\<open>seed\<close> and \<^verbatim>\<open>download\<close>.

  The file calls an interface of the other packages that no longer exists (\<^verbatim>\<open>torrent.NewClient\<close>, an
  \<^verbatim>\<open>EncodeMetaInfo\<close> with three results): the latter is an argument of \<^verbatim>\<open>create\<close>, and \<^verbatim>\<open>seed\<close> and \<^verbatim>\<open>download\<close> are modelled
  here up to the session they open.  Files, URLs, HTTP and integer flags are parameters.
\<close>

datatype cmd_error =
    UsageTorrent
  | UnknownCommand gostring
  | CmdFlag flag_error
  | UsageCreate
  | AnnounceUrlInvalid
  | PieceLengthRange
  | OutputExists gostring
  | StatFailed io_error
  | NotRegular gostring
  | OpenFailed io_error
  | HashSource io_error
  | CmdPanic
  | UsageInspect
  | ReadMetadata metainfo_error
  | UsageSeed
  | UsageDownload
  | BothMetainfo
  | DigestWithoutUrl
  | PathRequired
  | OpenSession torrent_error
  | MkdirFailed io_error
  | DigestLength
  | DigestHex
  | HttpUrlRequired
  | FetchFailed
  | FetchStatus nat
  | DigestMismatch
  | TempFailed io_error
  | WriteFailed io_error
  | CreateMetainfo metainfo_error

subsection \<open>Hashing a file\<close>

text \<open>The loop reads one piece after another into a buffer of the piece length; with a length of zero it would never
  end.\<close>

partial_function (option) hashPieces_loop ::
    "io_error \<Rightarrow> nat \<Rightarrow> byte list \<Rightarrow> byte list list \<Rightarrow> (cmd_error + byte list list) option" where
  "hashPieces_loop e pieceLength source pieceHashes =
     (case io_ReadFull e pieceLength source of (buf, err, rest) \<Rightarrow>
        if err = Some ErrEOF then Some (Inr pieceHashes)
        else if err \<noteq> None \<and> err \<noteq> Some ErrUnexpectedEOF then Some (Inl (HashSource (the err)))
        else let pieceHashes' = pieceHashes @ [sha1_Sum buf] in
          if err = Some ErrUnexpectedEOF then Some (Inr pieceHashes')
          else hashPieces_loop e pieceLength rest pieceHashes')"

definition hashPieces :: "io_error \<Rightarrow> byte list \<Rightarrow> int \<Rightarrow> (cmd_error + byte list list) option" where
  "hashPieces e source pieceLength =
     (if pieceLength < 0 then Some (Inl CmdPanic) else hashPieces_loop e (nat pieceLength) source [])"

subsection \<open>Writing a new file\<close>

text \<open>\<^verbatim>\<open>writeNewFile\<close> over a file system from paths to contents: it writes a temporary file, links it under the final
  name, which fails when that exists, and removes the temporary name.  The outcomes of the calls are arguments; \<open>n\<close> is
  how many bytes a failing write wrote.\<close>

type_synonym filesystem = "gostring \<rightharpoonup> byte list"

definition writeNewFile ::
    "filesystem \<Rightarrow> gostring \<Rightarrow> byte list \<Rightarrow> io_error option \<Rightarrow> io_error + gostring \<Rightarrow> (nat \<times> io_error) option \<Rightarrow>
     io_error option \<Rightarrow> io_error option \<Rightarrow> io_error option \<Rightarrow> cmd_error option \<times> filesystem" where
  "writeNewFile fs path data mkdir temp write chmod close link =
     (case mkdir of
        Some er \<Rightarrow> (Some (MkdirFailed er), fs)
      | None \<Rightarrow>
     (case temp of
        Inl er \<Rightarrow> (Some (TempFailed er), fs)
      | Inr temporaryPath \<Rightarrow>
          let removed = (\<lambda>fs. fs(temporaryPath := None)); fs1 = fs(temporaryPath \<mapsto> []) in
     (case write of
        Some (n, er) \<Rightarrow> (Some (WriteFailed er), removed (fs1(temporaryPath \<mapsto> take n data)))
      | None \<Rightarrow>
          let fs2 = fs1(temporaryPath \<mapsto> data) in
     (case chmod of
        Some er \<Rightarrow> (Some (WriteFailed er), removed fs2)
      | None \<Rightarrow>
     (case close of
        Some er \<Rightarrow> (Some (WriteFailed er), removed fs2)
      | None \<Rightarrow>
          if fs2 path \<noteq> None then (Some (OutputExists path), removed fs2)
          else (case link of
                  Some er \<Rightarrow> (Some (WriteFailed er), removed fs2)
                | None \<Rightarrow> (None, removed (fs2(path := fs2 temporaryPath)))))))))"

text \<open>When the temporary name is fresh, as \<^verbatim>\<open>os.CreateTemp\<close> promises, the file appears whole or not at all and never
  replaces another.\<close>

lemma writeNewFile_atomic:
  assumes "writeNewFile fs path data mkdir temp write chmod close link = (er, fs')"
    and "\<forall>t. temp = Inr t \<longrightarrow> fs t = None \<and> t \<noteq> path"
  shows "if er = None then fs path = None \<and> fs' = fs(path \<mapsto> data) else fs' = fs"
proof (cases "mkdir = None \<and> (\<exists>t. temp = Inr t)")
  case True
  then obtain t where t: "mkdir = None" "temp = Inr t" "fs t = None" "t \<noteq> path" using assms(2) by blast
  then have removed: "fs(t := None) = fs" "(fs(path \<mapsto> data))(t := None) = fs(path \<mapsto> data)"
    by (simp_all add: fun_upd_idem)
  have "(fs(t \<mapsto> data, path \<mapsto> data))(t := None) = fs(path \<mapsto> data)"
    using removed(2) t(4) by (simp add: fun_upd_twist [of path t])
  then show ?thesis
    using assms(1) t removed
    by (auto simp: writeNewFile_def Let_def split: option.splits prod.splits if_splits)
next
  case False
  then show ?thesis using assms(1) by (auto simp: writeNewFile_def split: option.splits sum.splits)
qed

subsection \<open>Loading a metainfo file\<close>

definition validateHTTPURL :: "(gostring \<Rightarrow> (gostring \<times> gostring) option) \<Rightarrow> gostring \<Rightarrow> cmd_error option" where
  "validateHTTPURL ParseRequestURI v =
     (case ParseRequestURI v of
        None \<Rightarrow> Some HttpUrlRequired
      | Some (scheme, host) \<Rightarrow>
          if host = [] \<or> (scheme \<noteq> bytes_of ''http'' \<and> scheme \<noteq> bytes_of ''https'') then Some HttpUrlRequired
          else None)"

definition parseSHA256 :: "gostring \<Rightarrow> cmd_error + byte list" where
  "parseSHA256 v =
     (if length v \<noteq> 64 then Inl DigestLength
      else case hex_decode v of None \<Rightarrow> Inl DigestHex | Some digest \<Rightarrow> Inr digest)"

text \<open>The digest is taken of the bytes that pass through the tee: when the metainfo was read without an error the
  decoder has seen the end of its input, which is the end of the body or the limit of \<^verbatim>\<open>ReadMetaInfo\<close>.\<close>

definition fetchMetaInfo ::
    "(gostring \<Rightarrow> (gostring \<times> gostring) option) \<Rightarrow> (gostring \<Rightarrow> (nat \<times> byte list \<times> io_error) option) \<Rightarrow>
     gostring \<Rightarrow> gostring \<Rightarrow> cmd_error + MetaInfo" where
  "fetchMetaInfo ParseRequestURI http metainfoURL expectedSHA256 =
     bind_r (parseSHA256 expectedSHA256) (\<lambda>expectedDigest.
     case validateHTTPURL ParseRequestURI metainfoURL of
       Some er \<Rightarrow> Inl er
     | None \<Rightarrow>
     (case http metainfoURL of
        None \<Rightarrow> Inl FetchFailed
      | Some (status, body, er) \<Rightarrow>
     if status < 200 \<or> status \<ge> 300 then Inl (FetchStatus status)
     else bind_r (map_sum ReadMetadata id (ReadMetaInfo er body)) (\<lambda>meta.
       if sha256_Sum (take (maxMetaInfoSize + 1) body) \<noteq> expectedDigest then Inl DigestMismatch
       else Inr meta)))"

definition readMetaInfoFile :: "(gostring \<Rightarrow> io_error + byte list \<times> io_error) \<Rightarrow> gostring \<Rightarrow> cmd_error + MetaInfo" where
  "readMetaInfoFile open_file path =
     (case open_file path of
        Inl er \<Rightarrow> Inl (OpenFailed er)
      | Inr (content, er) \<Rightarrow> map_sum ReadMetadata id (ReadMetaInfo er content))"

definition loadDownloadMetaInfo ::
    "(gostring \<Rightarrow> (gostring \<times> gostring) option) \<Rightarrow> (gostring \<Rightarrow> (nat \<times> byte list \<times> io_error) option) \<Rightarrow>
     (gostring \<Rightarrow> io_error + byte list \<times> io_error) \<Rightarrow> gostring list \<Rightarrow> gostring \<Rightarrow> gostring \<Rightarrow> cmd_error + MetaInfo" where
  "loadDownloadMetaInfo ParseRequestURI http open_file paths metainfoURL expectedSHA256 =
     (if metainfoURL \<noteq> []
      then if paths \<noteq> [] then Inl BothMetainfo
           else fetchMetaInfo ParseRequestURI http metainfoURL expectedSHA256
      else case paths of
        [path] \<Rightarrow> readMetaInfoFile open_file path
      | _ \<Rightarrow> Inl PathRequired)"

definition inspect :: "(gostring \<Rightarrow> io_error + byte list \<times> io_error) \<Rightarrow> gostring list \<Rightarrow> cmd_error + MetaInfo" where
  "inspect open_file args =
     (case args of [path] \<Rightarrow> readMetaInfoFile open_file path | _ \<Rightarrow> Inl UsageInspect)"

subsection \<open>The subcommands\<close>

text \<open>\<^verbatim>\<open>run\<close> picks the subcommand and hands it the remaining arguments.\<close>

datatype subcommand = Create | Inspect | Seed | Download

definition torrent_run :: "gostring list \<Rightarrow> cmd_error + subcommand \<times> gostring list" where
  "torrent_run args =
     (case args of
        [] \<Rightarrow> Inl UsageTorrent
      | command # rest \<Rightarrow>
          if command = bytes_of ''create'' then Inr (Create, rest)
          else if command = bytes_of ''inspect'' then Inr (Inspect, rest)
          else if command = bytes_of ''seed'' then Inr (Seed, rest)
          else if command = bytes_of ''download'' then Inr (Download, rest)
          else Inl (UnknownCommand command))"

definition defaultPieceLength :: int where "defaultPieceLength = 256 * 1024"
definition maxPieceLength :: int where "maxPieceLength = 4 * 1024 * 1024"

text \<open>\<^verbatim>\<open>os.Stat\<close>: the size and whether it is a regular file, that there is no such file, or another error.\<close>

datatype stat = StatOk int bool | StatMissing | StatErr io_error

record cmdlib =
  ParseRequestURI :: "gostring \<Rightarrow> (gostring \<times> gostring) option"
  http_Get :: "gostring \<Rightarrow> (nat \<times> byte list \<times> io_error) option"
  os_Stat :: "gostring \<Rightarrow> stat"
  open_read :: "gostring \<Rightarrow> io_error + byte list \<times> io_error"
  filepath_Base :: "gostring \<Rightarrow> gostring"
  ParseInt0 :: "gostring \<Rightarrow> int option"

record create_vars =
  announceURL :: gostring
  cr_output :: gostring
  pieceLengthFlag :: int

definition create_flags :: "cmdlib \<Rightarrow> gostring \<Rightarrow> (gostring \<Rightarrow> create_vars \<Rightarrow> create_vars option) option" where
  "create_flags lib name =
     (if name = bytes_of ''announce'' then Some (\<lambda>v s. Some (s\<lparr>announceURL := v\<rparr>))
      else if name = bytes_of ''output'' then Some (\<lambda>v s. Some (s\<lparr>cr_output := v\<rparr>))
      else if name = bytes_of ''piece-length''
      then Some (\<lambda>v s. map_option (\<lambda>n. s\<lparr>pieceLengthFlag := n\<rparr>) (ParseInt0 lib v))
      else None)"

text \<open>\<^verbatim>\<open>create\<close> up to the content information: the announce URL, the output path and the information.
  First its end: open and hash the file, and put the information together.\<close>

definition create_hashed :: "cmdlib \<Rightarrow> create_vars \<Rightarrow> gostring \<Rightarrow> int \<Rightarrow>
    (cmd_error + gostring \<times> gostring \<times> Info) option" where
  "create_hashed lib s sourcePath sz =
     (case open_read lib sourcePath of
        Inl er \<Rightarrow> Some (Inl (OpenFailed er))
      | Inr (source, e) \<Rightarrow>
          map_option (map_sum id (\<lambda>pieceHashes. (announceURL s, cr_output s,
              \<lparr>Name = filepath_Base lib sourcePath, Length = sz, PieceLength = pieceLengthFlag s,
               PieceHashes = pieceHashes\<rparr>)))
            (hashPieces e source (pieceLengthFlag s)))"

definition create_info :: "cmdlib \<Rightarrow> gostring list \<Rightarrow> (cmd_error + gostring \<times> gostring \<times> Info) option" where
  "create_info lib args =
     (case flag_Parse (create_flags lib) args
             \<lparr>announceURL = [], cr_output = [], pieceLengthFlag = defaultPieceLength\<rparr> of
        Inl er \<Rightarrow> Some (Inl (CmdFlag er))
      | Inr (s, rest) \<Rightarrow>
     if announceURL s = [] \<or> cr_output s = [] \<or> length rest \<noteq> 1 then Some (Inl UsageCreate)
     else if validateHTTPURL (ParseRequestURI lib) (announceURL s) \<noteq> None then Some (Inl AnnounceUrlInvalid)
     else if pieceLengthFlag s \<le> 0 \<or> pieceLengthFlag s > maxPieceLength then Some (Inl PieceLengthRange)
     else case os_Stat lib (cr_output s) of
       StatOk _ _ \<Rightarrow> Some (Inl (OutputExists (cr_output s)))
     | StatErr er \<Rightarrow> Some (Inl (StatFailed er))
     | StatMissing \<Rightarrow>
     let sourcePath = hd rest in
     (case os_Stat lib sourcePath of
        StatErr er \<Rightarrow> Some (Inl (StatFailed er))
      | StatMissing \<Rightarrow> Some (Inl (StatFailed ErrIO))
      | StatOk sz regular \<Rightarrow>
     if \<not> regular then Some (Inl (NotRegular sourcePath))
     else create_hashed lib s sourcePath sz))"

text \<open>The end of \<^verbatim>\<open>create\<close>: encode the metainfo and write it to the new file.  The call of \<^verbatim>\<open>protocol.EncodeMetaInfo\<close> with an
  announce URL and content information, for the bytes and the metainfo, has no counterpart in the package: the function
  called is the argument \<open>encodeMetaInfo\<close>.\<close>

definition create ::
    "cmdlib \<Rightarrow> (gostring \<Rightarrow> Info \<Rightarrow> metainfo_error + byte list \<times> MetaInfo) \<Rightarrow> gostring list \<Rightarrow> filesystem \<Rightarrow>
     io_error option \<Rightarrow> io_error + gostring \<Rightarrow> (nat \<times> io_error) option \<Rightarrow> io_error option \<Rightarrow> io_error option \<Rightarrow>
     io_error option \<Rightarrow> (cmd_error option \<times> filesystem) option" where
  "create lib encodeMetaInfo args fs mkdir temp write chmod close link =
     (case create_info lib args of
        None \<Rightarrow> None
      | Some (Inl er) \<Rightarrow> Some (Some er, fs)
      | Some (Inr (announce, output, info)) \<Rightarrow>
     (case encodeMetaInfo announce info of
        Inl er \<Rightarrow> Some (Some (CreateMetainfo er), fs)
      | Inr (encoded, meta) \<Rightarrow> Some (writeNewFile fs output encoded mkdir temp write chmod close link)))"

record session_vars =
  listenFlag :: gostring
  statusFlag :: gostring
  dataPath :: gostring
  outputPath :: gostring
  metainfoURL :: gostring
  metainfoSHA256 :: gostring

definition no_vars :: session_vars where
  "no_vars = \<lparr>listenFlag = bytes_of '':6881'', statusFlag = [], dataPath = [], outputPath = [], metainfoURL = [],
     metainfoSHA256 = []\<rparr>"

definition seed_flags :: "gostring \<Rightarrow> (gostring \<Rightarrow> session_vars \<Rightarrow> session_vars option) option" where
  "seed_flags name =
     (if name = bytes_of ''listen'' then Some (\<lambda>v s. Some (s\<lparr>listenFlag := v\<rparr>))
      else if name = bytes_of ''status-listen'' then Some (\<lambda>v s. Some (s\<lparr>statusFlag := v\<rparr>))
      else if name = bytes_of ''data'' then Some (\<lambda>v s. Some (s\<lparr>dataPath := v\<rparr>))
      else None)"

definition download_flags :: "gostring \<Rightarrow> (gostring \<Rightarrow> session_vars \<Rightarrow> session_vars option) option" where
  "download_flags name =
     (if name = bytes_of ''listen'' then Some (\<lambda>v s. Some (s\<lparr>listenFlag := v\<rparr>))
      else if name = bytes_of ''status-listen'' then Some (\<lambda>v s. Some (s\<lparr>statusFlag := v\<rparr>))
      else if name = bytes_of ''output'' then Some (\<lambda>v s. Some (s\<lparr>outputPath := v\<rparr>))
      else if name = bytes_of ''metainfo-url'' then Some (\<lambda>v s. Some (s\<lparr>metainfoURL := v\<rparr>))
      else if name = bytes_of ''metainfo-sha256'' then Some (\<lambda>v s. Some (s\<lparr>metainfoSHA256 := v\<rparr>))
      else None)"

text \<open>\<^verbatim>\<open>seed\<close> and \<^verbatim>\<open>download\<close> up to the session and the addresses they hand to \<^verbatim>\<open>runSingleTorrent\<close>.  The opened data file is
  an argument of \<^verbatim>\<open>OpenSeed\<close> with the outcomes of its reads, the output file of \<^verbatim>\<open>OpenDownload\<close>.\<close>

definition seed_open ::
    "cmdlib \<Rightarrow> gostring list \<Rightarrow> (gostring \<Rightarrow> io_error + osfile) \<Rightarrow> (nat \<Rightarrow> io_outcome) \<Rightarrow>
     cmd_error + Torrent \<times> gostring \<times> gostring" where
  "seed_open lib args open_data rd =
     bind_r (map_sum CmdFlag id (flag_Parse seed_flags args no_vars)) (\<lambda>(s, rest).
     if dataPath s = [] \<or> length rest \<noteq> 1 then Inl UsageSeed
     else bind_r (readMetaInfoFile (open_read lib) (hd rest)) (\<lambda>meta.
     bind_r (map_sum OpenSession id (OpenSeed meta (open_data (dataPath s)) rd)) (\<lambda>t.
       Inr (t, listenFlag s, statusFlag s))))"

definition download_open ::
    "cmdlib \<Rightarrow> gostring list \<Rightarrow> io_error option \<Rightarrow> (gostring \<Rightarrow> io_error + osfile) \<Rightarrow> io_error option \<Rightarrow>
     cmd_error + Torrent \<times> gostring \<times> gostring" where
  "download_open lib args mkdir open_output trunc =
     bind_r (map_sum CmdFlag id (flag_Parse download_flags args no_vars)) (\<lambda>(s, rest).
     if outputPath s = [] then Inl UsageDownload
     else if metainfoURL s = [] \<and> length rest \<noteq> 1 then Inl UsageDownload
     else if metainfoURL s \<noteq> [] \<and> rest \<noteq> [] then Inl BothMetainfo
     else if metainfoURL s = [] \<and> metainfoSHA256 s \<noteq> [] then Inl DigestWithoutUrl
     else case os_Stat lib (outputPath s) of
       StatOk _ _ \<Rightarrow> Inl (OutputExists (outputPath s))
     | StatErr er \<Rightarrow> Inl (StatFailed er)
     | StatMissing \<Rightarrow>
     bind_r (loadDownloadMetaInfo (ParseRequestURI lib) (http_Get lib) (open_read lib) rest (metainfoURL s)
               (metainfoSHA256 s)) (\<lambda>meta.
     case mkdir of
       Some er \<Rightarrow> Inl (MkdirFailed er)
     | None \<Rightarrow>
     bind_r (map_sum OpenSession id (OpenDownload meta (open_output (outputPath s)) trunc)) (\<lambda>t.
       Inr (t, listenFlag s, statusFlag s))))"

subsection \<open>Hashing is cutting into pieces\<close>

text \<open>The reference: the digests of the consecutive pieces, as many as the length divided by the piece length, rounded
  up.\<close>

definition piece_digests :: "nat \<Rightarrow> byte list \<Rightarrow> byte list list" where
  "piece_digests pl content =
     map (\<lambda>i. sha1_Sum (take pl (drop (i * pl) content))) [0..<(length content + pl - 1) div pl]"

lemma piece_digests_step:
  assumes "0 < pl" and "content \<noteq> []"
  shows "piece_digests pl content = sha1_Sum (take pl content) # piece_digests pl (drop pl content)"
proof -
  let ?n = "(length (drop pl content) + pl - 1) div pl"
  have "(length content + pl - 1) div pl = Suc ?n"
  proof (cases "pl \<le> length content")
    case True
    then have "length content + pl - 1 = (length (drop pl content) + pl - 1) + pl" using assms by simp
    then show ?thesis using assms(1) by (metis Suc_eq_plus1 div_add_self2 less_numeral_extra(3))
  next
    case False
    then have "?n = 0" using assms(1) by simp
    moreover have "(length content + pl - 1) div pl = 1"
    proof (rule div_nat_eqI)
      have "0 < length content" using assms(2) by simp
      then show "pl * 1 \<le> length content + pl - 1" by linarith
      show "length content + pl - 1 < pl * Suc 1" using False assms(1) by simp
    qed
    ultimately show ?thesis by simp
  qed
  moreover have "sha1_Sum (take pl (drop (Suc i * pl) content)) = sha1_Sum (take pl (drop (i * pl) (drop pl content)))" for i
    by (simp add: add.commute)
  ultimately show ?thesis
    by (simp add: piece_digests_def upt_conv_Cons map_Suc_upt [symmetric] comp_def del: upt_Suc)
qed

lemma hashPieces_loop_eq:
  assumes "0 < pl"
  shows "hashPieces_loop e pl source acc =
    Some (if e = ErrEOF \<or> e = ErrUnexpectedEOF \<and> length source mod pl \<noteq> 0 then Inr (acc @ piece_digests pl source)
          else if e = ErrUnexpectedEOF then Inr (acc @ piece_digests pl source @ [sha1_Sum []])
          else Inl (HashSource e))"
proof (induction "length source" arbitrary: source acc rule: less_induct)
  case less
  show ?case
  proof (cases "source = []")
    case True
    then show ?thesis
      using assms by (subst hashPieces_loop.simps) (auto simp: io_ReadFull_def piece_digests_def)
  next
    case False
    show ?thesis
    proof (cases "pl \<le> length source")
      case True
      then have "length (drop pl source) < length source" using assms False by simp
      note IH = less [OF this, of "acc @ [sha1_Sum (take pl source)]"]
      have "length (drop pl source) mod pl = length source mod pl" using True by (simp add: le_mod_geq)
      then show ?thesis
        using True IH piece_digests_step [OF assms False]
        by (subst hashPieces_loop.simps) (auto simp: io_ReadFull_def)
    next
      case short: False
      then have "piece_digests pl (drop pl source) = []" using assms by (simp add: piece_digests_def)
      moreover have "length source mod pl \<noteq> 0" using short False by simp
      ultimately show ?thesis
        using short False piece_digests_step [OF assms False]
        by (subst hashPieces_loop.simps) (auto simp: io_ReadFull_def)
    qed
  qed
qed

lemma hashPieces_loop_Some:
  assumes "hashPieces_loop e pl source acc = Some res"
  shows "pl \<noteq> 0"
proof (rule hashPieces_loop.raw_induct [where P = "\<lambda>e pl source acc res. pl \<noteq> 0", OF _ assms])
  fix loop e pl source acc res
  assume less: "\<And>e pl source acc y. loop e pl source acc = Some y \<Longrightarrow> pl \<noteq> (0 :: nat)"
    and "(case io_ReadFull e pl source of (buf, err, rest) \<Rightarrow>
        if err = Some ErrEOF then Some (Inr acc)
        else if err \<noteq> None \<and> err \<noteq> Some ErrUnexpectedEOF then Some (Inl (HashSource (the err)))
        else let pieceHashes' = acc @ [sha1_Sum buf] in
          if err = Some ErrUnexpectedEOF then Some (Inr pieceHashes') else loop e pl rest pieceHashes') = Some res"
  then show "pl \<noteq> 0" using less [of e 0] by (cases "pl = 0") (auto simp: io_ReadFull_def Let_def)
qed

text \<open>C39. Hashing a file ends, and gives the reference: for every positive piece length \<^verbatim>\<open>hashPieces\<close> returns the SHA-1 digests
  of the consecutive pieces of the file, the last one possibly shorter, or the error that ended the reading.  With a
  piece length of zero it runs for ever, which is why \<^verbatim>\<open>create\<close> refuses it.\<close>

theorem hashPieces_reference:
  assumes "0 < pieceLength"
  shows "hashPieces ErrEOF source pieceLength = Some (Inr (piece_digests (nat pieceLength) source)) \<and>
    (e \<noteq> ErrEOF \<and> e \<noteq> ErrUnexpectedEOF \<longrightarrow> hashPieces e source pieceLength = Some (Inl (HashSource e))) \<and>
    hashPieces e source 0 = None"
proof -
  have "hashPieces e source 0 = None"
    using hashPieces_loop_Some [of e 0 source "[]"] by (cases "hashPieces_loop e 0 source []") (auto simp: hashPieces_def)
  then show ?thesis
    using assms hashPieces_loop_eq [of "nat pieceLength"] by (simp add: hashPieces_def)
qed

theorem hashPieces_reference_witness:
  "hashPieces ErrEOF [1, 2, 3] 2 = Some (Inr [sha1_Sum [1, 2], sha1_Sum [3]])"
  using hashPieces_reference [of 2 "[1, 2, 3]"] by (simp add: piece_digests_def upt_rec)

subsection \<open>Metainfo from a pinned source\<close>

lemma parseSHA256_iff: "parseSHA256 v = Inr d \<longleftrightarrow> length v = 64 \<and> hex_decode v = Some d"
  by (auto simp: parseSHA256_def split: option.splits)

lemma length_hex_decode: "hex_decode v = Some d \<Longrightarrow> length v = 2 * length d"
  by (induction v arbitrary: d rule: hex_decode.induct) (auto split: option.splits)

text \<open>C40. A download starts only from checked metadata: what \<^verbatim>\<open>loadDownloadMetaInfo\<close> returns has valid content information.
  From a URL it is what a successful HTTP answer holds, and the part of the answer that was read has exactly the SHA-256
  digest that was pinned on the command line, 32 bytes in hexadecimal; from a path it is what that one file holds.
  URL and path exclude each other.\<close>

theorem loadDownloadMetaInfo_pinned:
  assumes "loadDownloadMetaInfo parse http open_file paths url sha = Inr meta"
  shows "valid_info (MInfo meta) \<and> Announce meta \<noteq> [] \<and>
    (if url \<noteq> []
     then paths = [] \<and> validateHTTPURL parse url = None \<and>
       (\<exists>status body er digest. http url = Some (status, body, er) \<and> 200 \<le> status \<and> status < 300 \<and>
          hex_decode sha = Some digest \<and> length digest = 32 \<and> ReadMetaInfo er body = Inr meta \<and>
          sha256_Sum (take (maxMetaInfoSize + 1) body) = digest)
     else (\<exists>path content er. paths = [path] \<and> open_file path = Inr (content, er) \<and> ReadMetaInfo er content = Inr meta))"
proof (cases "url = []")
  case True
  then obtain path content er where "paths = [path]" "open_file path = Inr (content, er)" "ReadMetaInfo er content = Inr meta"
    using assms by (auto simp: loadDownloadMetaInfo_def readMetaInfoFile_def split: list.splits sum.splits)
  then show ?thesis using True ReadMetaInfo_info by auto
next
  case False
  then have f: "fetchMetaInfo parse http url sha = Inr meta" and p: "paths = []"
    using assms by (auto simp: loadDownloadMetaInfo_def split: if_splits)
  obtain digest status body er where d: "parseSHA256 sha = Inr digest" "validateHTTPURL parse url = None"
    "http url = Some (status, body, er)" "200 \<le> status" "status < 300" "ReadMetaInfo er body = Inr meta"
    "sha256_Sum (take (maxMetaInfoSize + 1) body) = digest"
    using f unfolding fetchMetaInfo_def
    by (auto simp: bind_r_Inr_iff split: option.splits if_splits)
  then have "length digest = 32" by (metis length_sha256_Sum)
  then show ?thesis
    using False p d ReadMetaInfo_info(1,3) [OF d(6)] by (auto simp: parseSHA256_iff)
qed

text \<open>The metainfo of the demo file, pinned by its digest.\<close>

theorem loadDownloadMetaInfo_pinned_witness:
  "loadDownloadMetaInfo (\<lambda>_. Some (bytes_of ''http'', [104]))
     (\<lambda>_. Some (200, bencode (metaInfoBencoding tiny_meta), ErrEOF)) (\<lambda>_. Inl ErrIO) [] [104]
     (hex_encode (sha256_Sum (bencode (metaInfoBencoding tiny_meta)))) = Inr tiny_meta \<and>
   valid_info (MInfo tiny_meta)"
proof -
  let ?b = "bencode (metaInfoBencoding tiny_meta)"
  have "length ?b \<le> maxMetaInfoSize" using fits_tiny_meta by (simp add: fits_limits_def)
  then have "take (maxMetaInfoSize + 1) ?b = ?b" by simp
  then have l: "loadDownloadMetaInfo (\<lambda>_. Some (bytes_of ''http'', [104]))
     (\<lambda>_. Some (200, ?b, ErrEOF)) (\<lambda>_. Inl ErrIO) [] [104] (hex_encode (sha256_Sum ?b)) = Inr tiny_meta"
    using ReadMetaInfo_tiny
    by (simp add: loadDownloadMetaInfo_def fetchMetaInfo_def parseSHA256_def validateHTTPURL_def)
  then show ?thesis using loadDownloadMetaInfo_pinned [OF l] by blast
qed

end
