(* ===== verification/Session_Run.thy ===== *)
theory Session_Run
  imports Torrent_Correct Tracker_Correct
begin

text \<open>
  A whole run of a session: the announce to the tracker (\<^verbatim>\<open>src/torrent/discovery.go\<close>), \<^verbatim>\<open>RunDownload\<close> with
  its \<^verbatim>\<open>select\<close> loop (\<^verbatim>\<open>run.go\<close>) and the requests other goroutines make of a running session
  (\<^verbatim>\<open>requests.go\<close>).

  The loop is driven by a list of turns, one per case its \<^verbatim>\<open>select\<close> takes, and ends with the cancellation
  of its context; a connection accepted by another goroutine is a turn as well.  A turn carries what the
  outside contributes to it: the event, the outcome of a file operation, the HTTP transport and the dialled
  connections of an announce.  The value \<open>None\<close> is a panic.
\<close>

subsection \<open>Announces\<close>

record RunConfig =
  rc_PeerID :: gostring
  rc_Port :: uint16

record transport =
  http_Do :: "URL \<Rightarrow> (nat \<times> byte list \<times> io_error) option"
  dialPeer :: "TPeer \<Rightarrow> dialled option"

record library =
  netip :: netlib
  url_Parse :: "gostring \<Rightarrow> URL option"

definition announce_request :: "Torrent \<Rightarrow> RunConfig \<Rightarrow> gostring \<Rightarrow> uint64 \<Rightarrow> AnnounceRequest" where
  "announce_request t config event left =
     \<lparr>ar_InfoHash = MInfoHash (Meta t), ar_PeerID = rc_PeerID config, ar_Port = rc_Port config,
      ar_Uploaded = uploaded t, ar_Downloaded = downloaded t, ar_Left = left, ar_Compact = True,
      ar_Event = event\<rparr>"

definition t_announce ::
    "library \<Rightarrow> transport \<Rightarrow> Torrent \<Rightarrow> RunConfig \<Rightarrow> gostring \<Rightarrow> (tracker_error + AnnounceResponse) option" where
  "t_announce lib tr t config event =
     (case ps_BytesLeft (pieces t) of
        Inl _ \<Rightarrow> None
      | Inr left \<Rightarrow>
          Some (tracker_Announce (netip lib) (url_Parse lib) (http_Do tr) (Announce (Meta t))
            (announce_request t config event left)))"

subsection \<open>The loop\<close>

datatype run_turn =
    PeerTurn peerEvent io_outcome "nat list"
  | StatusTurn
  | ModeTurn string "nat list"
  | ReannounceTurn transport "nat list"
  | AcceptTurn "gostring option" writer Handshake

fun turn_fits :: "run_turn \<Rightarrow> bool" where
  "turn_fits (PeerTurn ev oc ds) \<longleftrightarrow> event_fits ev"
| "turn_fits _ \<longleftrightarrow> True"

text \<open>The loop's state is the session and its local variable \<^verbatim>\<open>interval\<close>.\<close>

fun loop_turn :: "library \<Rightarrow> RunConfig \<Rightarrow> run_turn \<Rightarrow> Torrent \<times> int \<Rightarrow> (Torrent \<times> int) option" where
  "loop_turn lib config (PeerTurn ev oc ds) (t, interval) =
     map_option (\<lambda>t'. (t', interval)) (handlePeerEvent (t\<lparr>drains := ds\<rparr>) ev oc)"
| "loop_turn lib config StatusTurn (t, interval) =
     (case buildStatus t of Inl _ \<Rightarrow> None | Inr _ \<Rightarrow> Some (t, interval))"
| "loop_turn lib config (ModeTurn mode ds) (t, interval) =
     Some (changeDownloadMode (t\<lparr>drains := ds\<rparr>) mode, interval)"
| "loop_turn lib config (ReannounceTurn tr ds) (t, interval) =
     (case t_announce lib tr t config [] of
        None \<Rightarrow> None
      | Some (Inl _) \<Rightarrow> Some (t, interval)
      | Some (Inr resp) \<Rightarrow>
          Some (connectTrackerPeers (t\<lparr>drains := ds\<rparr>) (rc_PeerID config) (map (dialPeer tr) (Peers resp)),
                normalizeTrackerInterval (Interval resp)))"
| "loop_turn lib config (AcceptTurn addr conn handshake) (t, interval) =
     (case AcceptIncomingPeer t addr conn handshake (rc_PeerID config) of
        (Inl _, _) \<Rightarrow> Some (t, interval)
      | (Inr _, t') \<Rightarrow> Some (t', interval))"

fun loop_turns :: "library \<Rightarrow> RunConfig \<Rightarrow> run_turn list \<Rightarrow> Torrent \<times> int \<Rightarrow> (Torrent \<times> int) option" where
  "loop_turns lib config [] s = Some s"
| "loop_turns lib config (turn # turns) s =
     (case loop_turn lib config turn s of None \<Rightarrow> None | Some s' \<Rightarrow> loop_turns lib config turns s')"

datatype run_error = SessionErr torrent_error | AnnounceErr tracker_error

text \<open>The deferred \<^verbatim>\<open>finishRun\<close>, which passes the error of the run through; a run that began always ends
  with one.\<close>

definition run_end :: "Torrent \<Rightarrow> run_error \<Rightarrow> io_error option \<Rightarrow> run_error option \<times> Torrent" where
  "run_end t er result = (case finishRun t (Some CtxErr) result of (_, t') \<Rightarrow> (Some er, t'))"

definition RunDownload ::
    "library \<Rightarrow> RunConfig \<Rightarrow> transport \<Rightarrow> nat list \<Rightarrow> run_turn list \<Rightarrow> io_error option \<Rightarrow> Torrent \<Rightarrow>
     (run_error option \<times> Torrent) option" where
  "RunDownload lib config tr ds turns result t =
     (case beginRun t of
        (Some er, t1) \<Rightarrow> Some (Some (SessionErr er), t1)
      | (None, t1) \<Rightarrow>
     (case t_announce lib tr t1 config StartedEvent of
        None \<Rightarrow> None
      | Some (Inl er) \<Rightarrow> Some (run_end t1 (AnnounceErr er) result)
      | Some (Inr resp) \<Rightarrow>
          let t2 = connectTrackerPeers (t1\<lparr>drains := ds\<rparr>) (rc_PeerID config) (map (dialPeer tr) (Peers resp)) in
          (case loop_turns lib config turns (t2, normalizeTrackerInterval (Interval resp)) of
             None \<Rightarrow> None
           | Some (t3, _) \<Rightarrow> Some (run_end t3 (SessionErr CtxErr) result))))"

subsection \<open>Requests of other goroutines\<close>

text \<open>Which case a \<^verbatim>\<open>select\<close> of a caller takes: the channel operation itself, the caller's context or the
  end of the run.\<close>

datatype select = Ready | CtxDone | RunDone

definition lifecycleRunningLock :: "Torrent \<Rightarrow> torrent_error + unit" where
  "lifecycleRunningLock t = (if \<not> running t then Inl ErrNotRunning else Inr ())"

definition ReqStatus :: "Torrent \<Rightarrow> select \<Rightarrow> select \<Rightarrow> (torrent_error + Status) option" where
  "ReqStatus t send reply =
     (case lifecycleRunningLock t of
        Inl er \<Rightarrow> Some (Inl er)
      | Inr _ \<Rightarrow>
     (case send of
        RunDone \<Rightarrow> Some (Inl ErrNotRunning)
      | CtxDone \<Rightarrow> Some (Inl CtxErr)
      | Ready \<Rightarrow>
     (case reply of
        CtxDone \<Rightarrow> Some (Inl CtxErr)
      | RunDone \<Rightarrow> Some (Inl ErrNotRunning)
      | Ready \<Rightarrow> (case buildStatus t of Inl _ \<Rightarrow> None | Inr resp \<Rightarrow> Some (Inr resp)))))"

text \<open>The loop answers a request in the turn in which it changes the mode; a caller that gives up
  waiting sees no change, and the request, still in the channel, is a later turn of its own.\<close>

definition requestDownloadMode ::
    "Torrent \<Rightarrow> string \<Rightarrow> select \<Rightarrow> select \<Rightarrow> nat list \<Rightarrow> torrent_error option \<times> Torrent" where
  "requestDownloadMode t mode send reply ds =
     (case lifecycleRunningLock t of
        Inl er \<Rightarrow> (Some er, t)
      | Inr _ \<Rightarrow>
     (case send of
        CtxDone \<Rightarrow> (Some CtxErr, t)
      | RunDone \<Rightarrow> (Some ErrStopped, t)
      | Ready \<Rightarrow>
     (case reply of
        Ready \<Rightarrow> (None, changeDownloadMode (t\<lparr>drains := ds\<rparr>) mode)
      | CtxDone \<Rightarrow> (Some CtxErr, t)
      | RunDone \<Rightarrow> (Some ErrStopped, t))))"

definition PauseDownload :: "Torrent \<Rightarrow> select \<Rightarrow> select \<Rightarrow> nat list \<Rightarrow> torrent_error option \<times> Torrent" where
  "PauseDownload t = requestDownloadMode t downloadModePaused"

definition ResumeDownload :: "Torrent \<Rightarrow> select \<Rightarrow> select \<Rightarrow> nat list \<Rightarrow> torrent_error option \<times> Torrent" where
  "ResumeDownload t = requestDownloadMode t downloadModeProgress"


subsection \<open>Turns are steps of the session\<close>

lemma t_announce_exact:
  assumes "wf_t t"
  shows "t_announce lib tr t config event =
    Some (tracker_Announce (netip lib) (url_Parse lib) (http_Do tr) (Announce (Meta t))
      (announce_request t config event (of_nat (bytes_missing (pieces t)))))"
  using ps_BytesLeft_exact [OF wf_ps_geometry [OF wf_t_ps [OF assms]]] by (simp add: t_announce_def)

lemma normalizeTrackerInterval_bound: "second \<le> normalizeTrackerInterval interval"
  by (simp add: normalizeTrackerInterval_def)

lemma loop_turn_run_step:
  assumes "loop_turn lib config turn (t, interval) = Some (t', interval')" and "turn_fits turn"
  shows "t' = t \<or> run_step (rc_PeerID config) t t'"
  using assms
  by (cases turn) (auto intro: run_step.intros split: option.splits sum.splits prod.splits)

lemma loop_turn_step:
  assumes "wf_t t" and "turn_fits turn" and "second \<le> interval"
  shows "\<exists>t' interval'. loop_turn lib config turn (t, interval) = Some (t', interval') \<and>
    second \<le> interval' \<and> (t' = t \<or> run_step (rc_PeerID config) t t')"
proof (cases turn)
  case (PeerTurn ev oc ds)
  then obtain t' where "handlePeerEvent (t\<lparr>drains := ds\<rparr>) ev oc = Some t'"
    using handlePeerEvent_inv [of "t\<lparr>drains := ds\<rparr>" ev oc] assms by auto
  then show ?thesis using PeerTurn assms(2,3) by (auto intro: step_peer)
next
  case StatusTurn
  then show ?thesis using buildStatus_ok [OF assms(1)] assms(3) by auto
next
  case (ReannounceTurn tr ds)
  show ?thesis
    using ReannounceTurn t_announce_exact [OF assms(1), of lib tr config "[]"] assms(3)
    by (auto simp: normalizeTrackerInterval_bound intro: step_reannounce split: sum.split)
next
  case (AcceptTurn addr conn handshake)
  then show ?thesis
    using assms(3) by (auto intro: step_accept split: prod.splits sum.splits)
qed (use assms(3) in \<open>auto intro: step_mode\<close>)

lemma loop_turns_reaches:
  assumes "wf_t t" and "list_all turn_fits turns" and "second \<le> interval"
  shows "\<exists>t' interval'. loop_turns lib config turns (t, interval) = Some (t', interval') \<and>
    second \<le> interval' \<and> reaches (run_step (rc_PeerID config)) t t'"
  using assms
proof (induction turns arbitrary: t interval)
  case Nil
  then show ?case by (auto intro: reaches_refl)
next
  case (Cons turn turns)
  obtain t1 interval1 where s: "loop_turn lib config turn (t, interval) = Some (t1, interval1)"
    "second \<le> interval1" "t1 = t \<or> run_step (rc_PeerID config) t t1"
    using loop_turn_step [OF Cons.prems(1), of turn interval lib config] Cons.prems(2,3) by auto
  then have "wf_t t1" using session.inv_step [OF Cons.prems(1)] Cons.prems(1) by auto
  then obtain t2 interval2 where "loop_turns lib config turns (t1, interval1) = Some (t2, interval2)"
    "second \<le> interval2" "reaches (run_step (rc_PeerID config)) t1 t2"
    using Cons.IH [OF _ _ s(2)] Cons.prems(2) by fastforce
  then show ?case using s(1,3) by (auto intro: reaches_first)
qed

lemma reaches_keeps:
  assumes "reaches (run_step pid) t t'" and "wf_t t"
  shows "wf_t t' \<and> Meta t' = Meta t \<and> downloadMode t' = downloadMode t \<and>
    complete_set (pieces t) \<subseteq> complete_set (pieces t')"
  using assms
proof (induction rule: reaches.induct)
  case (reaches_step s s' s'')
  then show ?case
    using run_step_keeps [of s' pid s''] session.inv_step [of s' pid s''] by auto
qed simp

lemma fold_closePeer_keeps:
  "pieces (fold (\<lambda>(_, r) t. closePeer t r) rs t) = pieces t \<and>
   Meta (fold (\<lambda>(_, r) t. closePeer t r) rs t) = Meta t \<and>
   downloadMode (fold (\<lambda>(_, r) t. closePeer t r) rs t) = downloadMode t \<and>
   tfile (fold (\<lambda>(_, r) t. closePeer t r) rs t) = tfile t"
  by (induction rs arbitrary: t) (auto simp: closePeer_def split: prod.splits)

lemma finishRun_ends:
  assumes "finishRun t runErr result = (er, t')"
  shows "\<not> running t' \<and> peers t' = [] \<and> pending t' = [] \<and> tfile t' = None \<and> pieces t' = pieces t \<and>
    Meta t' = Meta t \<and> closeErr t' = (if tfile t = None then None else result)"
  using assms fold_closePeer_keeps [of "peers t" t]
  by (auto simp: finishRun_def closePeers_def closeFile_def split: option.splits)

subsection \<open>Correctness of a run\<close>

text \<open>A run ends with an error, after steps of the session.\<close>

lemma RunDownload_ends:
  assumes "wf_t t" and "list_all turn_fits turns" and "\<not> running t"
  shows "\<exists>er t3. RunDownload lib config tr ds turns result t = Some (run_end t3 er result) \<and>
      (er = SessionErr CtxErr \<or> (\<exists>ae. er = AnnounceErr ae)) \<and> reaches (run_step (rc_PeerID config)) (t\<lparr>running := True, closeErr := None\<rparr>) t3"
proof -
  let ?pid = "rc_PeerID config"
  let ?t1 = "t\<lparr>running := True, closeErr := None\<rparr>"
  have b: "beginRun t = (None, ?t1)" using assms(3) by (simp add: beginRun_def)
  have wf1: "wf_t ?t1" using wf_t_beginRun [OF assms(1) b] .
  show ?thesis
proof (cases "t_announce lib tr ?t1 config StartedEvent")
    case None
    then show ?thesis using t_announce_exact [OF wf1] by simp
  next
    case (Some answer)
    show ?thesis
    proof (cases answer)
      case (Inl er)
      then show ?thesis using b Some by (auto simp: RunDownload_def intro: reaches_refl)
    next
      case (Inr resp)
      let ?t2 = "connectTrackerPeers (?t1\<lparr>drains := ds\<rparr>) ?pid (map (dialPeer tr) (Peers resp))"
      have s: "run_step ?pid ?t1 ?t2" by (rule step_reannounce)
      then have "wf_t ?t2" using session.inv_step [OF wf1] by blast
      then obtain t3 i where "loop_turns lib config turns (?t2, normalizeTrackerInterval (Interval resp)) = Some (t3, i)"
        "reaches (run_step ?pid) ?t2 t3"
        using loop_turns_reaches [OF _ assms(2) normalizeTrackerInterval_bound] by blast
      then show ?thesis
        using b Some Inr reaches_first [of "run_step ?pid" ?t2, OF _ s] by (auto simp: RunDownload_def Let_def)
    qed
  qed
qed

text \<open>C30. A run of a session, whatever its peers, its tracker, the file system and the goroutines that
  make requests of it do: a session that is running already is left alone; otherwise the run is a sequence
  of steps of the session, no turn of the loop panics, the re-announce timer is never set below one second,
  and when the run ends (with the error of its first announce or of its cancelled context) the session has no
  peers and no requests, its file is closed, the result of closing it is recorded, no complete piece is
  lost, and a new run can begin.\<close>

theorem RunDownload_returns:
  assumes "wf_t t" and "list_all turn_fits turns"
  shows "(running t \<longrightarrow> RunDownload lib config tr ds turns result t = Some (Some (SessionErr ErrAlreadyRunning), t)) \<and>
    (\<not> running t \<longrightarrow>
      (\<exists>er t3 t'. RunDownload lib config tr ds turns result t = Some (Some er, t') \<and>
         (er = SessionErr CtxErr \<or> (\<exists>ae. er = AnnounceErr ae)) \<and>
         reaches (run_step (rc_PeerID config)) (t\<lparr>running := True, closeErr := None\<rparr>) t3 \<and>
         \<not> running t' \<and> peers t' = [] \<and> pending t' = [] \<and> tfile t' = None \<and>
         closeErr t' = (if tfile t3 = None then None else result) \<and>
         pieces t' = pieces t3 \<and> complete_set (pieces t) \<subseteq> complete_set (pieces t') \<and>
         fst (beginRun t') = None)) \<and>
    (\<forall>interval \<ge> second. \<exists>t' interval'. loop_turns lib config turns (t, interval) = Some (t', interval') \<and>
         second \<le> interval')"
proof (intro conjI impI)
  assume "running t"
  then show "RunDownload lib config tr ds turns result t = Some (Some (SessionErr ErrAlreadyRunning), t)"
    by (simp add: RunDownload_def beginRun_def)
next
  assume "\<not> running t"
  let ?pid = "rc_PeerID config"
  let ?t1 = "t\<lparr>running := True, closeErr := None\<rparr>"
  have b: "beginRun t = (None, ?t1)" using \<open>\<not> running t\<close> by (simp add: beginRun_def)
  have wf1: "wf_t ?t1" using wf_t_beginRun [OF assms(1) b] .
  obtain er t3 where r: "RunDownload lib config tr ds turns result t = Some (run_end t3 er result)"
    "er = SessionErr CtxErr \<or> (\<exists>ae. er = AnnounceErr ae)" "reaches (run_step ?pid) ?t1 t3"
    using RunDownload_ends [OF assms \<open>\<not> running t\<close>] by blast
  obtain fe t' where f: "finishRun t3 (Some CtxErr) result = (fe, t')" by fastforce
  have "complete_set (pieces t) \<subseteq> complete_set (pieces t3)" using reaches_keeps [OF r(3) wf1] by simp
  then show "\<exists>er t3 t'. RunDownload lib config tr ds turns result t = Some (Some er, t') \<and>
         (er = SessionErr CtxErr \<or> (\<exists>ae. er = AnnounceErr ae)) \<and>
         reaches (run_step ?pid) ?t1 t3 \<and>
         \<not> running t' \<and> peers t' = [] \<and> pending t' = [] \<and> tfile t' = None \<and>
         closeErr t' = (if tfile t3 = None then None else result) \<and>
         pieces t' = pieces t3 \<and> complete_set (pieces t) \<subseteq> complete_set (pieces t') \<and>
         fst (beginRun t') = None"
    using r f finishRun_ends [OF f]
    by (intro exI [of _ er] exI [of _ t3] exI [of _ t']) (simp add: run_end_def beginRun_def)
next
  show "\<forall>interval \<ge> second. \<exists>t' interval'. loop_turns lib config turns (t, interval) = Some (t', interval') \<and>
         second \<le> interval'"
    using loop_turns_reaches [OF assms] by blast
qed

text \<open>A run that announces, is asked for its status, is asked to pause and is cancelled.\<close>

definition demo_library :: library where
  "demo_library = \<lparr>netip = ipv4_net, url_Parse = (\<lambda>u. Some \<lparr>url_rest = u, RawQuery = []\<rparr>)\<rparr>"

definition demo_transport :: transport where
  "demo_transport =
     \<lparr>http_Do = (\<lambda>_. Some (200, bytes_of ''d8:intervali1800e5:peers0:e'', ErrEOF)), dialPeer = (\<lambda>_. None)\<rparr>"

lemma wf_demo_idle: "wf_t (demo_open\<lparr>running := False\<rparr>)"
  using run_of_inv [OF run_demo_open] by (simp add: wf_t_defs pendingCount_def)

theorem RunDownload_returns_witness:
  "\<exists>er t'. RunDownload demo_library \<lparr>rc_PeerID = replicate 20 9, rc_Port = 6881\<rparr> demo_transport []
      [StatusTurn, ModeTurn downloadModePaused [], PeerTurn (PeerDisconnected 0) IoOk []] (Some ErrIO)
      (demo_open\<lparr>running := False\<rparr>) = Some (Some er, t') \<and> tfile t' = None \<and> \<not> running t'"
proof -
  have "list_all turn_fits [StatusTurn, ModeTurn downloadModePaused [], PeerTurn (PeerDisconnected 0) IoOk []]"
    by simp
  from RunDownload_returns [OF wf_demo_idle this] show ?thesis by fastforce
qed

end
