(* ===== verification/Client_Model.thy ===== *)
theory Client_Model
  imports Session_Run
begin

text \<open>
  The client, \<^verbatim>\<open>src/client\<close>: the registry of torrents, the routing of incoming connections to the session
  their handshake names and the accept loop (\<^verbatim>\<open>client.go\<close>), and the operations on all torrents at once
  (\<^verbatim>\<open>management.go\<close>).

  The map \<^verbatim>\<open>c.torrents\<close> is an association list from info hashes to sessions; only the client holds a
  session, so it stands for the pointer.  Outcomes of \<^verbatim>\<open>select\<close>, of connections and of closing files are
  arguments, as in the sessions.
\<close>

subsection \<open>The registry\<close>

record Client =
  cl_peerID :: gostring
  cl_torrents :: "(gostring \<times> Torrent) list"
  listenPort :: uint16
  listenAddress :: "gostring option"

record ClientStatus =
  cs_PeerID :: gostring
  cs_ListenAddress :: gostring
  RegisteredTorrents :: nat
  InfoHashes :: "gostring list"

datatype client_error =
    ErrTorrentNotFound gostring
  | NotRegistered gostring
  | TorrentIsNil
  | AlreadyRegistered gostring
  | RandFailed io_error
  | ListenFailed io_error
  | ReadHandshakeFailed io_error
  | SessionFailed torrent_error
  | RunFailed run_error
  | CloseFailed io_error

definition PeerID :: "Client \<Rightarrow> gostring" where
  "PeerID c = cl_peerID c"

text \<open>\<^verbatim>\<open>Status\<close> calls a method of the interface value \<^verbatim>\<open>c.listenAddress\<close>, which panics when it is nil.\<close>

definition client_Status :: "Client \<Rightarrow> ClientStatus option" where
  "client_Status c =
     (let hashes = map (\<lambda>(_, t). MInfoHash (Meta t)) (cl_torrents c) in
      case listenAddress c of
        None \<Rightarrow> None
      | Some address \<Rightarrow>
          Some \<lparr>cs_PeerID = cl_peerID c, cs_ListenAddress = address,
                RegisteredTorrents = length (cl_torrents c), InfoHashes = hashes\<rparr>)"

definition client_New :: "io_error + gostring \<Rightarrow> client_error + Client" where
  "client_New random =
     (case random of
        Inl er \<Rightarrow> Inl (RandFailed er)
      | Inr peerID \<Rightarrow> Inr \<lparr>cl_peerID = peerID, cl_torrents = [], listenPort = 0, listenAddress = None\<rparr>)"

definition getTorrent :: "Client \<Rightarrow> gostring \<Rightarrow> Torrent option" where
  "getTorrent c hash = m_get (cl_torrents c) hash"

definition set_torrent :: "Client \<Rightarrow> gostring \<Rightarrow> Torrent \<Rightarrow> Client" where
  "set_torrent c hash t = c\<lparr>cl_torrents := m_put hash t (cl_torrents c)\<rparr>"

definition PauseTorrentDownload ::
    "Client \<Rightarrow> gostring \<Rightarrow> select \<Rightarrow> select \<Rightarrow> nat list \<Rightarrow> client_error option \<times> Client" where
  "PauseTorrentDownload c hash send reply ds =
     (case getTorrent c hash of
        None \<Rightarrow> (Some (NotRegistered hash), c)
      | Some t \<Rightarrow>
          (case PauseDownload t send reply ds of
             (er, t') \<Rightarrow> (map_option SessionFailed er, set_torrent c hash t')))"

definition ResumeTorrentDownload ::
    "Client \<Rightarrow> gostring \<Rightarrow> select \<Rightarrow> select \<Rightarrow> nat list \<Rightarrow> client_error option \<times> Client" where
  "ResumeTorrentDownload c hash send reply ds =
     (case getTorrent c hash of
        None \<Rightarrow> (Some (NotRegistered hash), c)
      | Some t \<Rightarrow>
          (case ResumeDownload t send reply ds of
             (er, t') \<Rightarrow> (map_option SessionFailed er, set_torrent c hash t')))"

text \<open>A missing argument is the nil pointer.\<close>

definition RegisterTorrent :: "Client \<Rightarrow> Torrent option \<Rightarrow> client_error option \<times> Client" where
  "RegisterTorrent c torrent =
     (case torrent of
        None \<Rightarrow> (Some TorrentIsNil, c)
      | Some t \<Rightarrow>
          let hash = MInfoHash (Meta t) in
          if m_get (cl_torrents c) hash \<noteq> None then (Some (AlreadyRegistered hash), c)
          else (None, set_torrent c hash t))"

text \<open>Unregistering hands the closed session back beside the result.\<close>

definition UnregisterTorrent ::
    "Client \<Rightarrow> gostring \<Rightarrow> io_error option \<Rightarrow> (client_error option \<times> Torrent option) \<times> Client" where
  "UnregisterTorrent c hash result =
     (case m_get (cl_torrents c) hash of
        None \<Rightarrow> ((Some (NotRegistered hash), None), c)
      | Some t \<Rightarrow>
          let c' = c\<lparr>cl_torrents := m_del hash (cl_torrents c)\<rparr> in
          (case Close t result of (er, t') \<Rightarrow> ((map_option CloseFailed er, Some t'), c')))"

definition StartTorrentDownload ::
    "library \<Rightarrow> Client \<Rightarrow> gostring \<Rightarrow> transport \<Rightarrow> nat list \<Rightarrow> run_turn list \<Rightarrow> io_error option \<Rightarrow>
     (client_error option \<times> Client) option" where
  "StartTorrentDownload lib c hash tr ds turns result =
     (case getTorrent c hash of
        None \<Rightarrow> Some (Some (ErrTorrentNotFound hash), c)
      | Some t \<Rightarrow>
          map_option (\<lambda>(er, t'). (map_option RunFailed er, set_torrent c hash t'))
            (RunDownload lib \<lparr>rc_PeerID = cl_peerID c, rc_Port = listenPort c\<rparr> tr ds turns result t))"

subsection \<open>Listening\<close>

text \<open>The address of a listener: a TCP address with its port, an \<^verbatim>\<open>int\<close>, or another kind.\<close>

datatype net_Addr = TCPAddr gostring int | OtherAddr gostring

definition setListenPort :: "Client \<Rightarrow> net_Addr \<Rightarrow> Client" where
  "setListenPort c listener =
     (case listener of
        OtherAddr _ \<Rightarrow> c
      | TCPAddr _ port \<Rightarrow>
          if port < 0 \<or> port > 65535 then c else c\<lparr>listenPort := of_int port\<rparr>)"

definition ListenForPeers :: "Client \<Rightarrow> io_error + net_Addr \<Rightarrow> (client_error + net_Addr) \<times> Client" where
  "ListenForPeers c listened =
     (case listened of
        Inl er \<Rightarrow> (Inl (ListenFailed er), c)
      | Inr listener \<Rightarrow> (Inr listener, setListenPort c listener))"

text \<open>A connection: the remote address, where our bytes go, what the other side sends and how that ends.
  The final \<^verbatim>\<open>select\<close> of \<^verbatim>\<open>AcceptIncomingPeer\<close> offers the peer to the session's loop, which handles its
  arrival; when it takes another case the peer is dropped.  (Handling an arrival never panics.)\<close>

definition handleIncomingConnection ::
    "Client \<Rightarrow> dialled \<Rightarrow> select \<Rightarrow> nat list \<Rightarrow> client_error option \<times> Client" where
  "handleIncomingConnection c conn offer ds =
     (case ReadHandshake (d_end conn) (d_in conn) of
        Inl er \<Rightarrow> (Some (ReadHandshakeFailed er), c)
      | Inr (handshake, _) \<Rightarrow>
     (case getTorrent c (HsInfoHash handshake) of
        None \<Rightarrow> (Some (ErrTorrentNotFound (HsInfoHash handshake)), c)
      | Some t \<Rightarrow>
     (case AcceptIncomingPeer t (d_addr conn) (d_out conn) handshake (cl_peerID c) of
        (Inl er, _) \<Rightarrow> (Some (SessionFailed er), c)
      | (Inr r, t1) \<Rightarrow>
     (case offer of
        CtxDone \<Rightarrow> (Some (SessionFailed CtxErr), c)
      | RunDone \<Rightarrow> (Some (SessionFailed ErrStopped), c)
      | Ready \<Rightarrow>
     (case handlePeerEvent (t1\<lparr>drains := ds\<rparr>) (PeerArrived r) IoOk of
        None \<Rightarrow> (None, c)
      | Some t2 \<Rightarrow> (None, set_torrent c (HsInfoHash handshake) t2))))))"

text \<open>Closing every torrent; the results of closing the files come from \<open>result\<close>.\<close>

definition closeTorrents :: "Client \<Rightarrow> (gostring \<Rightarrow> io_error option) \<Rightarrow> Client" where
  "closeTorrents c result =
     c\<lparr>cl_torrents := map (\<lambda>(hash, t). (hash, snd (Close t (result hash)))) (cl_torrents c)\<rparr>"

subsection \<open>All torrents: \<^verbatim>\<open>management.go\<close>\<close>

record torrentStatusResult =
  tr_InfoHash :: gostring
  tr_Status :: "Status option"
  tr_Err :: "torrent_error option"

record TorrentOperationResult =
  op_InfoHash :: gostring
  op_Err :: "torrent_error option"

text \<open>One goroutine per torrent sends its result to a buffered channel; \<open>order\<close> rearranges the
  targets into the order in which results arrive, and \<open>n\<close> how many before the context ends, if it does.  A status request that
  panics would take the program down (\<open>None\<close>).\<close>

definition status_result :: "(gostring \<Rightarrow> select \<times> select) \<Rightarrow> gostring \<times> Torrent \<Rightarrow> torrentStatusResult option" where
  "status_result sel target =
     (case target of (hash, t) \<Rightarrow>
        map_option (\<lambda>res. \<lparr>tr_InfoHash = hash,
            tr_Status = (case res of Inl _ \<Rightarrow> None | Inr st \<Rightarrow> Some st),
            tr_Err = (case res of Inl er \<Rightarrow> Some er | Inr _ \<Rightarrow> None)\<rparr>)
          (ReqStatus t (fst (sel hash)) (snd (sel hash))))"

definition TorrentStatuses ::
    "Client \<Rightarrow> (gostring \<Rightarrow> select \<times> select) \<Rightarrow> ((gostring \<times> Torrent) list \<Rightarrow> (gostring \<times> Torrent) list) \<Rightarrow> nat \<Rightarrow>
     torrentStatusResult list option" where
  "TorrentStatuses c sel order n =
     (let arrivals = order (cl_torrents c) in
      if list_ex (\<lambda>target. status_result sel target = None) arrivals then None
      else Some (List.map_filter (status_result sel) (take n arrivals)))"

definition PauseAllDownloads ::
    "Client \<Rightarrow> (gostring \<Rightarrow> select \<times> select \<times> nat list) \<Rightarrow>
     ((gostring \<times> Torrent) list \<Rightarrow> (gostring \<times> Torrent) list) \<Rightarrow> nat \<Rightarrow>
     TorrentOperationResult list \<times> torrent_error option \<times> Client" where
  "PauseAllDownloads c sel order n =
     (let arrivals = order (cl_torrents c) in
      (map (\<lambda>(hash, t). case sel hash of (send, reply, ds) \<Rightarrow>
          \<lparr>op_InfoHash = hash, op_Err = fst (PauseDownload t send reply ds)\<rparr>) (take n arrivals),
       if n < length arrivals then Some CtxErr else None,
      c\<lparr>cl_torrents := map (\<lambda>(hash, t). case sel hash of (send, reply, ds) \<Rightarrow>
          (hash, snd (PauseDownload t send reply ds))) (cl_torrents c)\<rparr>))"


subsection \<open>Serving peers\<close>

text \<open>\<^verbatim>\<open>ServePeers\<close> accepts connections until \<^verbatim>\<open>Accept\<close> fails (because the context was cancelled and the
  watcher closed the listener, or otherwise), handing each to a goroutine; then it closes the
  connections still listed as pending, waits for the handlers and returns.  A connection is \<open>Handling\<close> while
  its goroutine is in \<^verbatim>\<open>handleIncomingConnection\<close>, and \<open>Handled\<close> with the result after; the goroutine closes it
  on an error, is counted as done and only then removes it from the pending set.\<close>

datatype handler = Handling | Handled "client_error option"

record served_conn =
  sc_handler :: handler
  sc_pending :: bool
  sc_open :: bool

datatype serve_stage = Accepting | Draining | Returned

record serving =
  sp_client :: Client
  sp_conns :: "served_conn list"
  sp_stage :: serve_stage

definition new_conn :: served_conn where
  "new_conn = \<lparr>sc_handler = Handling, sc_pending = True, sc_open = True\<rparr>"

definition finish_conn :: "client_error option \<Rightarrow> served_conn \<Rightarrow> served_conn" where
  "finish_conn er s = s\<lparr>sc_handler := Handled er, sc_open := (sc_open s \<and> er = None)\<rparr>"

definition close_pending :: "served_conn \<Rightarrow> served_conn" where
  "close_pending s = (if sc_pending s then s\<lparr>sc_open := False\<rparr> else s)"

text \<open>A step of the sessions of the client: a run begins, its loop takes a turn, or it ends; and the
  operations other goroutines call.  What is registered are sessions just opened.\<close>

inductive session_step :: "library \<Rightarrow> RunConfig \<Rightarrow> Torrent \<Rightarrow> Torrent \<Rightarrow> bool" for lib config where
  session_begin: "beginRun t = (None, t') \<Longrightarrow> session_step lib config t t'"
| session_turn: "running t \<Longrightarrow> turn_fits turn \<Longrightarrow> loop_turn lib config turn (t, interval) = Some (t', interval') \<Longrightarrow>
     session_step lib config t t'"
| session_end: "running t \<Longrightarrow> finishRun t er result = (er', t') \<Longrightarrow> session_step lib config t t'"

inductive client_step :: "library \<Rightarrow> Client \<Rightarrow> Client \<Rightarrow> bool" for lib where
  client_session: "getTorrent c hash = Some t \<Longrightarrow>
     session_step lib \<lparr>rc_PeerID = cl_peerID c, rc_Port = port\<rparr> t t' \<Longrightarrow> client_step lib c (set_torrent c hash t')"
| client_register: "opened_session meta t \<Longrightarrow> valid_info (MInfo meta) \<Longrightarrow>
     length (PieceHashes (MInfo meta)) < 2 ^ 32 \<Longrightarrow> RegisterTorrent c (Some t) = (er, c') \<Longrightarrow> client_step lib c c'"
| client_unregister: "UnregisterTorrent c hash result = (er, c') \<Longrightarrow> client_step lib c c'"
| client_pause: "PauseTorrentDownload c hash send reply ds = (er, c') \<Longrightarrow> client_step lib c c'"
| client_resume: "ResumeTorrentDownload c hash send reply ds = (er, c') \<Longrightarrow> client_step lib c c'"
| client_pauseAll: "PauseAllDownloads c sel order n = (res, er, c') \<Longrightarrow> client_step lib c c'"
| client_listen: "ListenForPeers c listened = (er, c') \<Longrightarrow> client_step lib c c'"
| client_close: "client_step lib c (closeTorrents c results)"

inductive ServePeers :: "library \<Rightarrow> serving \<Rightarrow> serving \<Rightarrow> bool" for lib where
  serve_client: "client_step lib (sp_client s) c' \<Longrightarrow> ServePeers lib s (s\<lparr>sp_client := c'\<rparr>)"
| serve_accept: "sp_stage s = Accepting \<Longrightarrow> ServePeers lib s (s\<lparr>sp_conns := sp_conns s @ [new_conn]\<rparr>)"
| serve_handle: "i < length (sp_conns s) \<Longrightarrow> sc_handler (sp_conns s ! i) = Handling \<Longrightarrow>
     handleIncomingConnection (sp_client s) conn offer ds = (er, c') \<Longrightarrow>
     ServePeers lib s (s\<lparr>sp_client := c', sp_conns := (sp_conns s)[i := finish_conn er (sp_conns s ! i)]\<rparr>)"
| serve_forget: "i < length (sp_conns s) \<Longrightarrow> sc_handler (sp_conns s ! i) \<noteq> Handling \<Longrightarrow>
     ServePeers lib s (s\<lparr>sp_conns := (sp_conns s)[i := (sp_conns s ! i)\<lparr>sc_pending := False\<rparr>]\<rparr>)"
| serve_stop: "sp_stage s = Accepting \<Longrightarrow>
     ServePeers lib s (s\<lparr>sp_conns := map close_pending (sp_conns s), sp_stage := Draining\<rparr>)"
| serve_return: "sp_stage s = Draining \<Longrightarrow> list_all (\<lambda>k. sc_handler k \<noteq> Handling) (sp_conns s) \<Longrightarrow>
     ServePeers lib s (s\<lparr>sp_stage := Returned\<rparr>)"

end
