(* ===== verification/Client_Correct.thy ===== *)
theory Client_Correct
  imports Client_Model
begin

text \<open>
  Correctness of the client: every torrent is registered under its own info hash and its session stays well
  formed along every interleaving of the operations, incoming connections reach only the session they
  name, and the accept loop leaves no connection behind.
\<close>

subsection \<open>What the operations keep of a session\<close>

text \<open>A session operation keeps a session well formed and fixed in its metainfo, its mode and its complete
  pieces.\<close>

definition advances :: "Torrent \<Rightarrow> Torrent \<Rightarrow> bool" where
  "advances t t' \<longleftrightarrow> wf_t t' \<and> Meta t' = Meta t \<and> downloadMode t' = downloadMode t \<and>
     complete_set (pieces t) \<subseteq> complete_set (pieces t')"

lemma advances_refl: "wf_t t \<Longrightarrow> advances t t"
  by (simp add: advances_def)

lemma advances_run_step: "wf_t t \<Longrightarrow> run_step pid t t' \<Longrightarrow> advances t t'"
  using run_step_keeps [of t pid t'] session.inv_step [of t pid t'] by (simp add: advances_def)

lemma wf_t_closed:
  assumes "wf_t t"
  shows "wf_t (closePeers t)"
proof -
  have "wf_t (fold (\<lambda>(_, r) t. closePeer t r) rs t)" for rs
    using assms by (induction rs arbitrary: t) (auto simp: wf_t_closePeer split: prod.splits)
  from this [of "peers t"] show ?thesis
    by (simp add: closePeers_def) (simp add: wf_t_defs pendingCount_def)
qed

lemma closePeers_keeps:
  "pieces (closePeers t) = pieces t" "Meta (closePeers t) = Meta t" "downloadMode (closePeers t) = downloadMode t"
  using fold_closePeer_keeps [of "peers t" t] by (simp_all add: closePeers_def)

lemma wf_t_lifecycle:
  "wf_t t \<Longrightarrow> wf_t (t\<lparr>running := b, closeErr := er\<rparr>)" "wf_t t \<Longrightarrow> wf_t (t\<lparr>tfile := None\<rparr>)"
  by (simp_all add: wf_t_defs pendingCount_def)

lemma advances_closeFile:
  assumes "wf_t t" and "closeFile t result = (er, t')"
  shows "advances t t'"
  using assms by (auto simp: closeFile_def advances_def wf_t_lifecycle split: option.splits)

lemma advances_finishRun:
  assumes "wf_t t" and "finishRun t runErr result = (er, t')"
  shows "advances t t'"
proof -
  obtain fe t1 where c: "closeFile (closePeers t) result = (fe, t1)" by fastforce
  show ?thesis
    using advances_closeFile [OF wf_t_closed [OF assms(1)] c] assms(2) c
    by (auto simp: finishRun_def advances_def closePeers_keeps wf_t_lifecycle)
qed

lemma advances_Close:
  assumes "wf_t t" and "Close t result = (er, t')"
  shows "advances t t'"
  using assms advances_closeFile [OF assms(1)] advances_finishRun [OF assms(1)]
  by (auto simp: Close_def split: if_splits prod.splits)

lemma advances_session_step:
  assumes "wf_t t" and "session_step lib config t t'"
  shows "advances t t'"
  using assms(2)
proof cases
  case session_begin
  then show ?thesis
    using wf_t_beginRun [OF assms(1)] by (auto simp: advances_def beginRun_def split: if_splits)
next
  case (session_turn turn interval interval')
  then show ?thesis
    using loop_turn_run_step [OF session_turn(3,2)] advances_refl [OF assms(1)] advances_run_step [OF assms(1)] by blast
next
  case (session_end er result er')
  then show ?thesis using advances_finishRun [OF assms(1)] by blast
qed

lemma advances_request:
  assumes "wf_t t"
  shows "advances t (snd (requestDownloadMode t mode send reply ds))"
  using advances_run_step [OF assms step_mode] advances_refl [OF assms]
  by (auto simp: requestDownloadMode_def split: sum.split select.split)


lemma advances_arrival:
  assumes "wf_t t" and "AcceptIncomingPeer t addr conn h pid = (Inr r, t1)"
    and "handlePeerEvent (t1\<lparr>drains := ds\<rparr>) (PeerArrived r) oc = Some t2"
  shows "advances t t2"
proof -
  have "advances t t1" using advances_run_step [OF assms(1) step_accept [OF assms(2)]] .
  moreover from this have "advances t1 t2"
    using advances_run_step [OF _ step_peer [OF _ assms(3)]] by (simp add: advances_def)
  ultimately show ?thesis by (auto simp: advances_def)
qed

subsection \<open>The registry\<close>

definition wf_client :: "Client \<Rightarrow> bool" where
  "wf_client c \<longleftrightarrow> distinct (keys (cl_torrents c)) \<and> listenAddress c = None \<and>
     (\<forall>(hash, t) \<in> set (cl_torrents c). MInfoHash (Meta t) = hash \<and> downloadMode t = '''' \<and> wf_t t)"

lemma getTorrent_set: "getTorrent (set_torrent c hash t) h = (if h = hash then Some t else getTorrent c h)"
  by (simp add: getTorrent_def set_torrent_def)

lemma wf_client_get:
  "wf_client c \<Longrightarrow> getTorrent c hash = Some t \<Longrightarrow> MInfoHash (Meta t) = hash \<and> downloadMode t = '''' \<and> wf_t t"
  by (auto simp: wf_client_def getTorrent_def dest!: map_of_SomeD)

lemma set_m_put: "set (m_put k v m) \<subseteq> insert (k, v) (set m)"
  by (induction m) auto

lemma wf_client_put:
  assumes "wf_client c" and "MInfoHash (Meta t) = hash \<and> downloadMode t = '''' \<and> wf_t t"
  shows "wf_client (set_torrent c hash t)"
  using assms set_m_put [of hash t "cl_torrents c"] by (auto simp: wf_client_def set_torrent_def)

lemma wf_client_advances:
  assumes "wf_client c" and "getTorrent c hash = Some t" and "advances t t'"
  shows "wf_client (set_torrent c hash t')"
  using wf_client_put [OF assms(1), of t' hash] wf_client_get [OF assms(1,2)] assms(3) by (simp add: advances_def)

lemma wf_client_map:
  assumes "wf_client c" and "\<And>hash t. (hash, t) \<in> set (cl_torrents c) \<Longrightarrow> advances t (f hash t)"
  shows "wf_client (c\<lparr>cl_torrents := map (\<lambda>(hash, t). (hash, f hash t)) (cl_torrents c)\<rparr>)"
  using assms by (fastforce simp: wf_client_def advances_def comp_def case_prod_unfold)

lemma wf_client_del: "wf_client c \<Longrightarrow> wf_client (c\<lparr>cl_torrents := m_del hash (cl_torrents c)\<rparr>)"
  using set_m_del [of hash "cl_torrents c"] by (auto simp: wf_client_def)

lemma wf_client_request:
  assumes "wf_client c" and "getTorrent c hash = Some t" and "requestDownloadMode t mode send reply ds = (er, t')"
  shows "wf_client (set_torrent c hash t')"
  using wf_client_advances [OF assms(1,2)] advances_request [of t mode send reply ds] wf_client_get [OF assms(1,2)] assms(3)
  by simp

lemma handleIncomingConnection_cases:
  assumes "handleIncomingConnection c conn offer ds = (er, c')"
  obtains (refused) e where "er = Some e" "c' = c"
  | (routed) h rest t r t1 t2 where "er = None" "ReadHandshake (d_end conn) (d_in conn) = Inr (h, rest)"
      "getTorrent c (HsInfoHash h) = Some t"
      "AcceptIncomingPeer t (d_addr conn) (d_out conn) h (cl_peerID c) = (Inr r, t1)"
      "handlePeerEvent (t1\<lparr>drains := ds\<rparr>) (PeerArrived r) IoOk = Some t2"
      "c' = set_torrent c (HsInfoHash h) t2"
proof -
  have "(\<exists>e. er = Some e) \<and> c' = c \<or>
    (\<exists>h rest t r t1 t2. er = None \<and> ReadHandshake (d_end conn) (d_in conn) = Inr (h, rest) \<and>
      getTorrent c (HsInfoHash h) = Some t \<and>
      AcceptIncomingPeer t (d_addr conn) (d_out conn) h (cl_peerID c) = (Inr r, t1) \<and>
      handlePeerEvent (t1\<lparr>drains := ds\<rparr>) (PeerArrived r) IoOk = Some t2 \<and>
      c' = set_torrent c (HsInfoHash h) t2)"
    using assms
    by (auto simp: handleIncomingConnection_def simp del: handlePeerEvent.simps
        split: sum.splits prod.splits option.splits select.splits)
       (auto split: prod.splits option.splits)
  then show thesis using refused routed by blast
qed

lemma wf_client_incoming:
  assumes "wf_client c" and "handleIncomingConnection c conn offer ds = (er, c')"
  shows "wf_client c'"
  using assms(2)
proof (cases rule: handleIncomingConnection_cases)
  case (routed h rest t r t1 t2)
  have "wf_t t" using wf_client_get [OF assms(1) routed(3)] by simp
  then show ?thesis
    using wf_client_advances [OF assms(1) routed(3)] advances_arrival [OF _ routed(4,5)] routed(6) by simp
qed (use assms(1) in simp)

interpretation registry: invariant_system "client_step lib" wf_client
proof
  fix c c'
  assume wf: "wf_client c" and "client_step lib c c'"
  from this(2) show "wf_client c'"
  proof cases
    case (client_session hash t port t')
    then show ?thesis
      using wf_client_advances [OF wf client_session(2)] advances_session_step wf_client_get [OF wf] by blast
  next
    case (client_register meta t er)
    then show ?thesis
      using wf wf_client_put [OF wf, of t] opened_session_wf [OF client_register(1-3)] by (auto simp: RegisterTorrent_def Let_def split: if_splits)
  next
    case (client_unregister hash result er)
    then show ?thesis
      using wf wf_client_del [OF wf] by (auto simp: UnregisterTorrent_def Let_def split: option.splits prod.splits)
  next
    case (client_pause hash send reply ds er)
    then show ?thesis
      using wf wf_client_request [OF wf]
      by (auto simp: PauseTorrentDownload_def PauseDownload_def split: option.splits prod.splits)
  next
    case (client_resume hash send reply ds er)
    then show ?thesis
      using wf wf_client_request [OF wf]
      by (auto simp: ResumeTorrentDownload_def ResumeDownload_def split: option.splits prod.splits)
  next
    case (client_pauseAll sel order n res er)
    have eq: "c' = c\<lparr>cl_torrents := map (\<lambda>(hash, t). (hash, case sel hash of (send, reply, ds) \<Rightarrow>
        snd (PauseDownload t send reply ds))) (cl_torrents c)\<rparr>"
      using client_pauseAll by (auto simp: PauseAllDownloads_def Let_def case_prod_unfold)
    show ?thesis
      unfolding eq using wf
      by (intro wf_client_map) (auto simp: PauseDownload_def wf_client_def advances_request split: prod.splits)
  next
    case (client_listen listened er)
    then show ?thesis
      using wf by (auto simp: ListenForPeers_def setListenPort_def wf_client_def split: sum.splits net_Addr.splits if_splits)
  next
    case (client_close results)
    have "advances t (snd (Close t (results hash)))" if "(hash, t) \<in> set (cl_torrents c)" for hash t
      using advances_Close [of t "results hash"] that wf by (cases "Close t (results hash)") (auto simp: wf_client_def)
    then show ?thesis unfolding client_close closeTorrents_def by (intro wf_client_map [OF wf])
  qed
qed

lemma client_step_peerID:
  assumes "client_step lib c c'"
  shows "cl_peerID c' = cl_peerID c"
  using assms
  by cases
    (auto simp: set_torrent_def RegisterTorrent_def UnregisterTorrent_def PauseTorrentDownload_def
      ResumeTorrentDownload_def PauseAllDownloads_def ListenForPeers_def setListenPort_def closeTorrents_def Let_def
      split: if_splits option.splits prod.splits sum.splits net_Addr.splits)

lemma wf_client_New: "client_New random = Inr c \<Longrightarrow> wf_client c"
  by (auto simp: client_New_def wf_client_def split: sum.splits)

subsection \<open>Correctness of the registry\<close>

text \<open>C31. The registry: in every client reached from a new one by any interleaving of its operations and of
  the turns of its sessions, the identity announced to peers is the one the client was made with, every session is
  registered once and under its own info hash, and keeps its invariant (complete pieces verified on disk, limits
  on peers and requests).  And \<^verbatim>\<open>Status\<close> panics in all of them, since nothing ever sets
  \<^verbatim>\<open>listenAddress\<close>.\<close>

theorem client_registry:
  assumes "client_New random = Inr c0" and "reaches (client_step lib) c0 c"
  shows "cl_peerID c = cl_peerID c0 \<and> distinct (keys (cl_torrents c)) \<and>
    (\<forall>hash t. getTorrent c hash = Some t \<longrightarrow> MInfoHash (Meta t) = hash \<and> wf_t t) \<and>
    client_Status c = None"
proof -
  have wf: "wf_client c" using registry.inv_reaches [OF assms(2) wf_client_New [OF assms(1)]] .
  have "cl_peerID c = cl_peerID c0"
    using assms(2) by (induction rule: reaches.induct) (auto dest: client_step_peerID)
  then show ?thesis
    using wf wf_client_get [OF wf] by (auto simp: client_Status_def wf_client_def)
qed

definition demo_client :: Client where
  "demo_client = \<lparr>cl_peerID = replicate 20 9, cl_torrents = [(replicate 20 7, demo_open\<lparr>running := False\<rparr>)],
     listenPort = 0, listenAddress = None\<rparr>"

lemma reaches_demo_client:
  "\<exists>c0. client_New (Inr (replicate 20 9)) = Inr c0 \<and> reaches (client_step lib) c0 demo_client"
proof (intro exI conjI)
  let ?c0 = "\<lparr>cl_peerID = replicate 20 9, cl_torrents = [], listenPort = 0, listenAddress = None\<rparr>"
  show "client_New (Inr (replicate 20 9)) = Inr ?c0" by (simp add: client_New_def)
  have "RegisterTorrent ?c0 (Some (demo_open\<lparr>running := False\<rparr>)) = (None, demo_client)"
    by (simp add: RegisterTorrent_def set_torrent_def demo_client_def demo_open_def)
      (simp add: demo_meta_def)
  then have "client_step lib ?c0 demo_client"
    using client_register [OF opened_demo demo_meta_ok] by blast
  then show "reaches (client_step lib) ?c0 demo_client" by (rule reaches_step [OF reaches_refl])
qed

theorem client_registry_witness:
  "distinct (keys (cl_torrents demo_client)) \<and> client_Status demo_client = None"
proof -
  obtain c0 where "client_New (Inr (replicate 20 9)) = Inr c0" "reaches (client_step demo_library) c0 demo_client"
    using reaches_demo_client by blast
  then show ?thesis using client_registry [of "Inr (replicate 20 9)" c0 demo_library demo_client] by blast
qed

text \<open>One torrent at a time: an operation that names an info hash leaves every other torrent alone; on an
  unknown hash it fails and changes nothing; a torrent is registered only under a new hash and is found under it
  afterwards; unregistering removes it and closes its session, which keeps its complete pieces.\<close>

theorem client_one_torrent:
  assumes "wf_client c"
  shows "(\<forall>g. g \<noteq> hash \<longrightarrow>
      getTorrent (snd (PauseTorrentDownload c hash send reply ds)) g = getTorrent c g \<and>
      getTorrent (snd (ResumeTorrentDownload c hash send reply ds)) g = getTorrent c g \<and>
      getTorrent (snd (UnregisterTorrent c hash result)) g = getTorrent c g) \<and>
    (getTorrent c hash = None \<longrightarrow>
      PauseTorrentDownload c hash send reply ds = (Some (NotRegistered hash), c) \<and>
      ResumeTorrentDownload c hash send reply ds = (Some (NotRegistered hash), c) \<and>
      UnregisterTorrent c hash result = ((Some (NotRegistered hash), None), c) \<and>
      StartTorrentDownload lib c hash tr ds turns result = Some (Some (ErrTorrentNotFound hash), c)) \<and>
    (case RegisterTorrent c (Some t) of (er, c') \<Rightarrow>
      if getTorrent c (MInfoHash (Meta t)) = None
      then er = None \<and> getTorrent c' = (getTorrent c)(MInfoHash (Meta t) \<mapsto> t)
      else er = Some (AlreadyRegistered (MInfoHash (Meta t))) \<and> c' = c) \<and>
    (\<forall>t. getTorrent c hash = Some t \<longrightarrow>
      (case UnregisterTorrent c hash result of ((er, closed), c') \<Rightarrow>
         getTorrent c' hash = None \<and> (\<exists>t'. closed = Some t' \<and> advances t t' \<and> \<not> running t' \<and> tfile t' = None)))"
proof (intro conjI allI impI)
  show "case RegisterTorrent c (Some t) of (er, c') \<Rightarrow>
      if getTorrent c (MInfoHash (Meta t)) = None
      then er = None \<and> getTorrent c' = (getTorrent c)(MInfoHash (Meta t) \<mapsto> t)
      else er = Some (AlreadyRegistered (MInfoHash (Meta t))) \<and> c' = c"
    by (auto simp: RegisterTorrent_def getTorrent_def set_torrent_def fun_eq_iff Let_def)
next
  fix t
  assume t: "getTorrent c hash = Some t"
  obtain er t' where cl: "Close t result = (er, t')" by fastforce
  have "advances t t'" using advances_Close [OF _ cl] wf_client_get [OF assms t] by blast
  moreover have "\<not> running t' \<and> tfile t' = None"
    using cl finishRun_ends [of t "Some CtxErr" result]
    by (auto simp: Close_def closeFile_def split: if_splits prod.splits option.splits)
  ultimately show "case UnregisterTorrent c hash result of ((er, closed), c') \<Rightarrow>
         getTorrent c' hash = None \<and> (\<exists>t'. closed = Some t' \<and> advances t t' \<and> \<not> running t' \<and> tfile t' = None)"
    using t cl by (simp add: UnregisterTorrent_def getTorrent_def)
qed (auto simp: PauseTorrentDownload_def ResumeTorrentDownload_def UnregisterTorrent_def StartTorrentDownload_def
      getTorrent_def set_torrent_def Let_def split: option.splits prod.splits)

lemma wf_demo_client: "wf_client demo_client"
  using reaches_demo_client [of demo_library] registry.inv_reaches wf_client_New by blast

subsection \<open>Incoming connections\<close>

lemma activatePeer_member:
  assumes "AcceptIncomingPeer t addr conn h pid = (Inr r, t1)"
    and "handlePeerEvent (t1\<lparr>drains := ds\<rparr>) (PeerArrived r) oc = Some t2"
  shows "m_get (peers t2) (HsPeerID h) \<noteq> None \<or> maxPeers \<le> length (peers t)"
proof -
  have r: "r = length (heap t)" "t1 = t\<lparr>heap := heap t @ [(newPeer addr h)\<lparr>incoming := True\<rparr>]\<rparr>"
    using assms(1) by (auto simp: AcceptIncomingPeer_def alloc_def split: if_splits option.splits prod.splits)
  then show ?thesis
    using assms(2)
    by (auto simp: activatePeer_def tryEnqueue_def Let_def nth_heap_upd_peer newPeer_def peerWriteQueueSize_def
        closePeer_def upd_peer_def split: if_splits option.splits)
qed

text \<open>C32. Routing: a connection that is refused changes nothing.  One that is taken has sent a whole valid
  handshake of the BitTorrent protocol that names a registered, running torrent and comes from someone else; its
  sender is then a peer of that torrent, unless that has all its peers, no other torrent changes, and the torrent keeps its
  invariant and its complete pieces.\<close>

theorem handleIncomingConnection_routes:
  assumes "wf_client c" and "handleIncomingConnection c conn offer ds = (er, c')"
  shows "(er \<noteq> None \<longrightarrow> c' = c) \<and>
    (er = None \<longrightarrow>
      (\<exists>h rest t t'. ReadHandshake (d_end conn) (d_in conn) = Inr (h, rest) \<and> Protocol h = PeerProtocol \<and>
         HsPeerID h \<noteq> cl_peerID c \<and> getTorrent c (HsInfoHash h) = Some t \<and> running t \<and>
         getTorrent c' = (getTorrent c)(HsInfoHash h \<mapsto> t') \<and> advances t t' \<and>
         (m_get (peers t') (HsPeerID h) \<noteq> None \<or> length (peers t) = maxPeers)))"
  using assms(2)
proof (cases rule: handleIncomingConnection_cases)
  case (routed h rest t r t1 t2)
  have wf: "wf_t t" using wf_client_get [OF assms(1) routed(3)] by simp
  have "length (peers t) \<le> maxPeers" using wf by (simp add: wf_t_defs)
  moreover have "running t \<and> Protocol h = PeerProtocol \<and> HsPeerID h \<noteq> cl_peerID c"
    using routed(4)
    by (auto simp: AcceptIncomingPeer_def validatePeerHandshake_None split: if_splits option.splits prod.splits)
  moreover have "getTorrent c' = (getTorrent c)(HsInfoHash h \<mapsto> t2)"
    using routed(6) by (simp add: fun_eq_iff getTorrent_set)
  moreover note advances_arrival [OF wf routed(4,5)] activatePeer_member [OF routed(4,5)]
  ultimately show ?thesis using routed(1-3) by (intro conjI impI exI [of _ h] exI [of _ rest] exI [of _ t] exI [of _ t2]) auto
qed simp

text \<open>A peer connects to the demo client while its torrent runs.\<close>

definition demo_handshake :: Handshake where
  "demo_handshake =
     \<lparr>Protocol = PeerProtocol, Reserved = replicate 8 0, HsInfoHash = replicate 20 7, HsPeerID = replicate 20 5\<rparr>"

definition demo_conn :: dialled where
  "demo_conn = \<lparr>d_addr = None, d_out = buffer, d_in = handshakeFrame demo_handshake, d_end = ErrEOF\<rparr>"

definition demo_running :: Client where
  "demo_running = set_torrent demo_client (replicate 20 7) demo_open"

lemma wf_demo_running: "wf_client demo_running"
  using wf_client_put [OF wf_demo_client, of demo_open] run_of_inv [OF run_demo_open]
  by (simp add: demo_running_def demo_meta_def)

lemma demo_conn_read: "ReadHandshake (d_end demo_conn) (d_in demo_conn) = Inr (demo_handshake, [])"
  using ReadHandshake_frame [of demo_handshake ErrEOF "[]"]
  by (simp add: demo_conn_def demo_handshake_def wf_handshake_def PeerProtocol_def)

lemma demo_conn_taken: "fst (handleIncomingConnection demo_running demo_conn Ready []) = None"
proof -
  have "AcceptIncomingPeer demo_open None buffer demo_handshake (replicate 20 9) =
      (Inr 0, demo_open\<lparr>heap := [(newPeer None demo_handshake)\<lparr>incoming := True\<rparr>]\<rparr>)"
    by (simp add: AcceptIncomingPeer_def demo_open_def validatePeerHandshake_def demo_handshake_def demo_meta_def
        writePeerHandshake_def WriteHandshake_def wr_Write.simps buffer_def alloc_def)
  moreover have "getTorrent demo_running (HsInfoHash demo_handshake) = Some demo_open"
    by (simp add: demo_running_def getTorrent_set demo_handshake_def)
  moreover have "cl_peerID demo_running = replicate 20 9" by (simp add: demo_running_def set_torrent_def demo_client_def)
  ultimately show ?thesis
    using demo_conn_read
    by (simp add: handleIncomingConnection_def demo_conn_def split: option.splits)
qed

theorem handleIncomingConnection_routes_witness:
  "\<exists>c' t'. handleIncomingConnection demo_running demo_conn Ready [] = (None, c') \<and>
     getTorrent c' (replicate 20 7) = Some t' \<and> m_get (peers t') (replicate 20 5) \<noteq> None"
proof -
  obtain c' where h: "handleIncomingConnection demo_running demo_conn Ready [] = (None, c')"
    using demo_conn_taken by (cases "handleIncomingConnection demo_running demo_conn Ready []") auto
  have t: "getTorrent demo_running (replicate 20 7) = Some demo_open"
    by (simp add: demo_running_def getTorrent_set)
  have H: "HsInfoHash demo_handshake = replicate 20 7" "HsPeerID demo_handshake = replicate 20 5"
    by (simp_all add: demo_handshake_def)
  have "peers demo_open = []" by (simp add: demo_open_def)
  then show ?thesis
    using handleIncomingConnection_routes [OF wf_demo_running h] h t H demo_conn_read
    by (auto simp: maxPeers_def)
qed

subsection \<open>Serving peers\<close>

definition wf_serving :: "serving \<Rightarrow> bool" where
  "wf_serving s \<longleftrightarrow> wf_client (sp_client s) \<and>
     (\<forall>k \<in> set (sp_conns s).
        (sc_open k \<longrightarrow> (\<forall>e. sc_handler k \<noteq> Handled (Some e))) \<and>
        (sc_handler k = Handling \<longrightarrow> sc_pending k \<and> sp_stage s \<noteq> Returned) \<and>
        (sc_open k \<and> sc_pending k \<longrightarrow> sp_stage s = Accepting))"

interpretation accept: invariant_system "ServePeers lib" wf_serving
proof
  fix s s'
  assume wf: "wf_serving s" and "ServePeers lib s s'"
  from this(2) show "wf_serving s'"
  proof cases
    case (serve_client c')
    then show ?thesis using wf registry.inv_step [of "sp_client s" lib c'] by (simp add: wf_serving_def)
  next
    case serve_accept
    then show ?thesis using wf by (auto simp: wf_serving_def new_conn_def)
  next
    case (serve_handle i conn offer ds er c')
    have "wf_client c'" using wf wf_client_incoming [OF _ serve_handle(4)] by (simp add: wf_serving_def)
    moreover have "sp_conns s ! i \<in> set (sp_conns s)" using serve_handle(2) by simp
    ultimately show ?thesis
      using wf serve_handle(1,3) set_update_subset_insert [of "sp_conns s" i "finish_conn er (sp_conns s ! i)"]
      by (fastforce simp: wf_serving_def finish_conn_def)
  next
    case (serve_forget i)
    moreover have "sp_conns s ! i \<in> set (sp_conns s)" using serve_forget(2) by simp
    ultimately show ?thesis
      using wf set_update_subset_insert [of "sp_conns s" i "(sp_conns s ! i)\<lparr>sc_pending := False\<rparr>"]
      by (fastforce simp: wf_serving_def)
  next
    case serve_stop
    then show ?thesis using wf by (auto simp: wf_serving_def close_pending_def split: if_splits)
  next
    case serve_return
    then show ?thesis using wf by (auto simp: wf_serving_def list_all_iff)
  qed
qed

text \<open>C33. The accept loop: however acceptance, handlers, sessions and the client's operations interleave, the
  registry stays well formed and a connection whose handler failed is closed.  Once the loop has stopped, every
  connection that is still waiting for its handshake has been closed, so its handler cannot wait for ever; and once
  \<^verbatim>\<open>ServePeers\<close> has returned no handler runs and no connection is open but those that were handed to
  a session.\<close>

theorem ServePeers_leaves_nothing:
  assumes "wf_client (sp_client s0)" and "sp_conns s0 = []" and "reaches (ServePeers lib) s0 s"
  shows "wf_client (sp_client s) \<and>
    (\<forall>k \<in> set (sp_conns s).
       (\<forall>e. sc_handler k = Handled (Some e) \<longrightarrow> \<not> sc_open k) \<and>
       (sp_stage s \<noteq> Accepting \<and> sc_handler k = Handling \<longrightarrow> \<not> sc_open k) \<and>
       (sp_stage s = Returned \<longrightarrow> sc_handler k \<noteq> Handling \<and> (sc_open k \<longrightarrow> sc_handler k = Handled None)))"
proof -
  have "wf_serving s" using accept.inv_reaches [OF assms(3)] assms(1,2) by (simp add: wf_serving_def)
  then show ?thesis by (auto simp: wf_serving_def) (metis handler.exhaust option.exhaust)
qed

text \<open>The demo connection is accepted and handled, then the loop stops and returns.\<close>

theorem ServePeers_leaves_nothing_witness:
  "\<exists>s. reaches (ServePeers demo_library) \<lparr>sp_client = demo_running, sp_conns = [], sp_stage = Accepting\<rparr> s \<and>
     sp_stage s = Returned \<and> length (sp_conns s) = 1 \<and> sc_handler (sp_conns s ! 0) \<noteq> Handling"
proof -
  let ?R = "ServePeers demo_library"
  let ?s0 = "\<lparr>sp_client = demo_running, sp_conns = [], sp_stage = Accepting\<rparr>"
  obtain er c' where h: "handleIncomingConnection demo_running demo_conn Ready [] = (er, c')" by fastforce
  let ?s1 = "?s0\<lparr>sp_conns := [new_conn]\<rparr>"
  let ?s2 = "\<lparr>sp_client = c', sp_conns = [finish_conn er new_conn], sp_stage = Accepting\<rparr>"
  let ?s3 = "?s2\<lparr>sp_conns := map close_pending (sp_conns ?s2), sp_stage := Draining\<rparr>"
  have 1: "?R ?s0 ?s1" using serve_accept [of ?s0] by simp
  have 2: "?R ?s1 ?s2" using serve_handle [of 0 ?s1 demo_conn Ready "[]" er c'] h by (simp add: new_conn_def)
  have 3: "?R ?s2 ?s3" using serve_stop [of ?s2] by simp
  have "?R ?s3 (?s3\<lparr>sp_stage := Returned\<rparr>)"
    using serve_return [of ?s3] by (simp add: finish_conn_def close_pending_def)
  then have r: "reaches ?R ?s0 (?s3\<lparr>sp_stage := Returned\<rparr>)"
    by (rule reaches_step [of ?R, OF reaches_step [of ?R, OF reaches_step [of ?R, OF reaches_step [of ?R, OF reaches_refl 1] 2] 3]])
  have c0: "wf_client (sp_client ?s0)" "sp_conns ?s0 = []" using wf_demo_running by simp_all
  let ?s4 = "?s3\<lparr>sp_stage := Returned\<rparr>"
  have "sp_stage ?s4 = Returned" "sp_conns ?s4 ! 0 \<in> set (sp_conns ?s4)" "length (sp_conns ?s4) = 1" by simp_all
  then show ?thesis using ServePeers_leaves_nothing [OF c0 r] r by blast
qed

subsection \<open>All torrents at once\<close>

lemma ReqStatus_cases:
  assumes "wf_t t"
  shows "\<exists>res. ReqStatus t send reply = Some res \<and>
    (\<forall>st. res = Inr st \<longleftrightarrow> running t \<and> send = Ready \<and> reply = Ready \<and> buildStatus t = Inr st)"
  using buildStatus_ok [OF assms]
  by (cases send; cases reply) (auto simp: ReqStatus_def lifecycleRunningLock_def)

lemma status_result_ok:
  assumes "wf_t t"
  shows "\<exists>res. status_result sel (hash, t) = Some res \<and> tr_InfoHash res = hash \<and>
    (tr_Err res = None \<longleftrightarrow> running t \<and> sel hash = (Ready, Ready)) \<and>
    (tr_Err res = None \<longrightarrow> (\<exists>st. buildStatus t = Inr st \<and> tr_Status res = Some st))"
proof -
  obtain res where r: "ReqStatus t (fst (sel hash)) (snd (sel hash)) = Some res"
    "\<forall>st. res = Inr st \<longleftrightarrow> running t \<and> fst (sel hash) = Ready \<and> snd (sel hash) = Ready \<and> buildStatus t = Inr st"
    using ReqStatus_cases [OF assms] by blast
  obtain st where "buildStatus t = Inr st" using buildStatus_ok [OF assms] by blast
  then show ?thesis
    using r by (cases res) (auto simp: status_result_def prod_eq_iff)
qed

lemma map_filter_total:
  assumes "\<forall>x \<in> set xs. f x \<noteq> None"
  shows "List.map_filter f xs = map (\<lambda>x. the (f x)) xs"
  using assms by (induction xs) (auto simp: List.map_filter_simps)

lemma TorrentStatuses_all:
  assumes "wf_client c" and "\<forall>xs. mset (order xs) = mset xs" and "length (cl_torrents c) \<le> n"
  shows "(\<exists>results. TorrentStatuses c sel order n = Some results \<and>
      mset (map tr_InfoHash results) = mset (keys (cl_torrents c)) \<and>
      (\<forall>res \<in> set results. \<exists>t. getTorrent c (tr_InfoHash res) = Some t \<and>
         (tr_Err res = None \<longleftrightarrow> running t \<and> sel (tr_InfoHash res) = (Ready, Ready)) \<and>
         (tr_Err res = None \<longrightarrow> (\<exists>st. buildStatus t = Inr st \<and> tr_Status res = Some st))) \<and>
      (\<forall>k. \<exists>part. TorrentStatuses c sel order k = Some part \<and> part = take k results))"
proof -
  let ?a = "order (cl_torrents c)"
  have len: "length ?a = length (cl_torrents c)" using assms(2) by (metis size_mset)
  have ms: "mset (map f ?a) = mset (map f (cl_torrents c))" for f :: "gostring \<times> Torrent \<Rightarrow> gostring"
    using assms(2) by simp
  have inn: "set ?a = set (cl_torrents c)" using assms(2) by (metis set_mset_mset)
  have ok: "\<exists>res. status_result sel x = Some res \<and> tr_InfoHash res = fst x \<and>
      (tr_Err res = None \<longleftrightarrow> running (snd x) \<and> sel (fst x) = (Ready, Ready)) \<and>
      (tr_Err res = None \<longrightarrow> (\<exists>st. buildStatus (snd x) = Inr st \<and> tr_Status res = Some st))" if "x \<in> set ?a" for x
    using that status_result_ok [of "snd x" sel "fst x"] assms(1) inn by (fastforce simp: wf_client_def)
  have T: "TorrentStatuses c sel order k = Some (map (\<lambda>x. the (status_result sel x)) (take k ?a))" for k
    using ok map_filter_total [of "take k ?a" "status_result sel"]
    by (fastforce simp: TorrentStatuses_def Let_def list_ex_iff dest: in_set_takeD)
  let ?results = "map (\<lambda>x. the (status_result sel x)) ?a"
  have "map tr_InfoHash ?results = map fst ?a" using ok by fastforce
  then have 1: "mset (map tr_InfoHash ?results) = mset (keys (cl_torrents c))" using ms [of fst] by metis
  have get: "getTorrent c (fst x) = Some (snd x)" if "x \<in> set ?a" for x
    using that assms(1) inn by (simp add: getTorrent_def wf_client_def)
  have 2: "\<forall>res \<in> set ?results. \<exists>t. getTorrent c (tr_InfoHash res) = Some t \<and>
         (tr_Err res = None \<longleftrightarrow> running t \<and> sel (tr_InfoHash res) = (Ready, Ready)) \<and>
         (tr_Err res = None \<longrightarrow> (\<exists>st. buildStatus t = Inr st \<and> tr_Status res = Some st))"
  proof
    fix res
    assume "res \<in> set ?results"
    then obtain x where x: "x \<in> set ?a" "res = the (status_result sel x)" by auto
    then show "\<exists>t. getTorrent c (tr_InfoHash res) = Some t \<and>
         (tr_Err res = None \<longleftrightarrow> running t \<and> sel (tr_InfoHash res) = (Ready, Ready)) \<and>
         (tr_Err res = None \<longrightarrow> (\<exists>st. buildStatus t = Inr st \<and> tr_Status res = Some st))"
      using ok [OF x(1)] get [OF x(1)] by (intro exI [of _ "snd x"]) auto
  qed
  have 3: "\<forall>k. \<exists>part. TorrentStatuses c sel order k = Some part \<and> part = take k ?results"
    using T by (simp add: take_map)
  have "TorrentStatuses c sel order n = Some ?results" using T [of n] assms(3) len by simp
  then show ?thesis using 1 2 3 by blast
qed

lemma PauseAllDownloads_all:
  assumes "wf_client c" and "\<forall>xs. mset (order xs) = mset xs" and "length (cl_torrents c) \<le> n"
  shows "(case PauseAllDownloads c psel order n of (results, er, c') \<Rightarrow>
      mset (map op_InfoHash results) = mset (keys (cl_torrents c)) \<and> er = None \<and> wf_client c' \<and>
      keys (cl_torrents c') = keys (cl_torrents c)) \<and>
    (\<forall>k. fst (snd (PauseAllDownloads c psel order k)) = (if k < length (cl_torrents c) then Some CtxErr else None))"
proof -
  let ?a = "order (cl_torrents c)"
  have len: "length ?a = length (cl_torrents c)" using assms(2) by (metis size_mset)
  have ms: "mset (map f ?a) = mset (map f (cl_torrents c))" for f :: "gostring \<times> Torrent \<Rightarrow> gostring"
    using assms(2) by simp
  obtain results er c' where p: "PauseAllDownloads c psel order n = (results, er, c')" by (metis prod_cases3)
  have "wf_client c'" using registry.inv_step [OF assms(1) client_pauseAll [OF p]] .
  moreover have "map op_InfoHash results = map fst ?a" "er = None" "keys (cl_torrents c') = keys (cl_torrents c)"
    using p assms(3) len by (auto simp: PauseAllDownloads_def Let_def comp_def case_prod_unfold)
  ultimately have 4: "case PauseAllDownloads c psel order n of (results, er, c') \<Rightarrow>
      mset (map op_InfoHash results) = mset (keys (cl_torrents c)) \<and> er = None \<and> wf_client c' \<and>
      keys (cl_torrents c') = keys (cl_torrents c)"
    using p ms [of fst] by (simp flip: mset_map)
  have 5: "\<forall>k. fst (snd (PauseAllDownloads c psel order k)) = (if k < length (cl_torrents c) then Some CtxErr else None)"
    using len by (simp add: PauseAllDownloads_def Let_def)
  then show ?thesis using 4 by blast
qed

text \<open>C34. Operations on all torrents: when the results of \<^verbatim>\<open>TorrentStatuses\<close> all arrive, in whatever order,
  there is exactly one for every registered torrent, an error exactly for those that are not running or whose request was
  given up, and the session's status for the others; if the context ends first, a part of those results is
  returned.  \<^verbatim>\<open>PauseAllDownloads\<close> likewise answers once per torrent, reports an ended context exactly
  when it returns fewer results, and keeps the registry well formed.\<close>

theorem management_reports_all:
  assumes "wf_client c" and "\<forall>xs. mset (order xs) = mset xs" and "length (cl_torrents c) \<le> n"
  shows "(\<exists>results. TorrentStatuses c sel order n = Some results \<and>
      mset (map tr_InfoHash results) = mset (keys (cl_torrents c)) \<and>
      (\<forall>res \<in> set results. \<exists>t. getTorrent c (tr_InfoHash res) = Some t \<and>
         (tr_Err res = None \<longleftrightarrow> running t \<and> sel (tr_InfoHash res) = (Ready, Ready)) \<and>
         (tr_Err res = None \<longrightarrow> (\<exists>st. buildStatus t = Inr st \<and> tr_Status res = Some st))) \<and>
      (\<forall>k. \<exists>part. TorrentStatuses c sel order k = Some part \<and> part = take k results)) \<and>
    (case PauseAllDownloads c psel order n of (results, er, c') \<Rightarrow>
      mset (map op_InfoHash results) = mset (keys (cl_torrents c)) \<and> er = None \<and> wf_client c' \<and>
      keys (cl_torrents c') = keys (cl_torrents c)) \<and>
    (\<forall>k. fst (snd (PauseAllDownloads c psel order k)) = (if k < length (cl_torrents c) then Some CtxErr else None))"
  using TorrentStatuses_all [OF assms, of sel] PauseAllDownloads_all [OF assms, of psel] by blast

theorem management_reports_all_witness:
  "\<exists>results. TorrentStatuses demo_running (\<lambda>_. (Ready, Ready)) rev 1 = Some results \<and>
     mset (map tr_InfoHash results) = {#replicate 20 7#}"
proof -
  have k: "keys (cl_torrents demo_running) = [replicate 20 7]"
    by (simp add: demo_running_def set_torrent_def demo_client_def)
  then have l: "length (cl_torrents demo_running) \<le> 1" by (metis One_nat_def eq_refl length_map length_Cons list.size(3))
  have "\<exists>results. TorrentStatuses demo_running (\<lambda>_. (Ready, Ready)) rev 1 = Some results \<and>
      mset (map tr_InfoHash results) = mset (keys (cl_torrents demo_running))"
    using management_reports_all [OF wf_demo_running _ l, of rev "\<lambda>_. (Ready, Ready)"] by (simp only: mset_rev) blast
  then show ?thesis by (simp add: k)
qed

text \<open>C35. Pausing has no effect: a session starts with the empty download mode, on which \<^verbatim>\<open>changeDownloadMode\<close>
  switches instead of on the mode requested.  So in every client reached from a new one, pausing or resuming a running
  torrent reports success, the torrent's session is the same afterwards up to what the write loops take
  meanwhile, and no torrent ever reports itself paused.\<close>

theorem pause_no_effect:
  assumes "client_New random = Inr c0" and "reaches (client_step lib) c0 c"
    and "getTorrent c hash = Some t" and "running t"
  shows "PauseTorrentDownload c hash Ready Ready ds = (None, set_torrent c hash (t\<lparr>drains := ds\<rparr>)) \<and>
    ResumeTorrentDownload c hash Ready Ready ds = (None, set_torrent c hash (t\<lparr>drains := ds\<rparr>)) \<and>
    (\<forall>st. ReqStatus t Ready Ready = Some (Inr st) \<longrightarrow> S_State st \<noteq> TransferPaused)"
proof -
  have wf: "wf_client c" using registry.inv_reaches [OF assms(2) wf_client_New [OF assms(1)]] .
  then have m: "downloadMode t = ''''" using wf_client_get [OF wf assms(3)] by simp
  have "requestDownloadMode t mode Ready Ready ds = (None, t\<lparr>drains := ds\<rparr>)" if "mode \<noteq> ''''" for mode
    using m assms(4) that by (simp add: requestDownloadMode_def lifecycleRunningLock_def changeDownloadMode_def)
  then have "PauseTorrentDownload c hash Ready Ready ds = (None, set_torrent c hash (t\<lparr>drains := ds\<rparr>)) \<and>
    ResumeTorrentDownload c hash Ready Ready ds = (None, set_torrent c hash (t\<lparr>drains := ds\<rparr>))"
    using assms(3)
    by (simp add: PauseTorrentDownload_def ResumeTorrentDownload_def PauseDownload_def ResumeDownload_def)
  moreover have "S_State st \<noteq> TransferPaused" if "ReqStatus t Ready Ready = Some (Inr st)" for st
  proof -
    have "buildStatus t = Inr st"
      using that assms(4) by (simp add: ReqStatus_def lifecycleRunningLock_def split: sum.splits)
    then show ?thesis using m by (auto simp: buildStatus_def transferState_def bind_r_iffs split: if_splits)
  qed
  ultimately show ?thesis by blast
qed

lemma reaches_demo_running:
  "\<exists>c0. client_New (Inr (replicate 20 9)) = Inr c0 \<and> reaches (client_step lib) c0 demo_running"
proof -
  have "beginRun (demo_open\<lparr>running := False\<rparr>) = (None, demo_open)" by (simp add: beginRun_def demo_open_def)
  moreover have "getTorrent demo_client (replicate 20 7) = Some (demo_open\<lparr>running := False\<rparr>)"
    by (simp add: getTorrent_def demo_client_def)
  ultimately have st: "client_step lib demo_client demo_running"
    unfolding demo_running_def by (intro client_session [OF _ session_begin])
  obtain c0 where "client_New (Inr (replicate 20 9)) = Inr c0" "reaches (client_step lib) c0 demo_client"
    using reaches_demo_client by blast
  then show ?thesis using reaches_step [of "client_step lib" c0 demo_client demo_running] st by blast
qed

theorem pause_no_effect_witness:
  "PauseTorrentDownload demo_running (replicate 20 7) Ready Ready [] =
     (None, set_torrent demo_running (replicate 20 7) (demo_open\<lparr>drains := []\<rparr>))"
proof -
  obtain c0 where "client_New (Inr (replicate 20 9)) = Inr c0" "reaches (client_step demo_library) c0 demo_running"
    using reaches_demo_running by blast
  moreover have "getTorrent demo_running (replicate 20 7) = Some demo_open" "running demo_open"
    by (simp_all add: demo_running_def getTorrent_set demo_open_def)
  ultimately show ?thesis using pause_no_effect by blast
qed

end
