(* ===== verification/Torrent_Serve.thy ===== *)
theory Torrent_Serve
  imports Tracker_Serve Torrent_Command Client_Correct
begin

text \<open>
  How \<^verbatim>\<open>torrent seed\<close> and \<^verbatim>\<open>torrent download\<close> run their session, \<^verbatim>\<open>runSingleTorrent\<close> in \<^verbatim>\<open>src/cmd/torrent/main.go\<close>: a client
  that serves peers (\<^verbatim>\<open>ServePeers\<close>, \<^verbatim>\<open>src/client/client.go\<close>), the torrent's own run (\<^verbatim>\<open>RunDownload\<close>, \<^verbatim>\<open>src/torrent/run.go\<close>) and, if
  asked for, a status server, gathered as in the tracker command.  The three share the client; each goes through the stages
  of its code, and its steps are told apart as there: those it takes of its own accord, and those for which a peer,
  the tracker, a timer or a failure is needed.

  The code calls \<^verbatim>\<open>torrent.NewClient\<close>, \<^verbatim>\<open>RunTorrent\<close> and \<^verbatim>\<open>Snapshot\<close>, which do not exist.  What the first and the last return are
  parameters; the second is the former name of \<^verbatim>\<open>StartTorrentDownload\<close>, as the comment on that function and its tests show.
\<close>

subsection \<open>The status server\<close>

record torrentStatusResponse =
  ts_PeerID :: gostring
  ts_Torrent :: Status

text \<open>\<open>snapshot\<close> is what \<^verbatim>\<open>Snapshot\<close> returned, \<open>text\<close> the text of an error and \<open>json\<close> the encoding of the answer, or \<open>None\<close>
  when it fails.\<close>

definition torrentStatusHandler ::
    "(torrent_error \<Rightarrow> gostring) \<Rightarrow> (torrentStatusResponse \<Rightarrow> byte list option) \<Rightarrow> gostring \<Rightarrow> torrent_error + Status \<Rightarrow>
     gostring \<Rightarrow> http_Request \<Rightarrow> http_Response option" where
  "torrentStatusHandler text json peerID snapshot path request =
     (if hr_Method request \<noteq> bytes_of ''GET'' \<and> hr_Method request \<noteq> bytes_of ''HEAD'' then None
      else if path = bytes_of ''/health'' then Some \<lparr>StatusCode = 204, ContentType = [], hs_Body = []\<rparr>
      else if path = bytes_of ''/v1/snapshot'' then
        (case snapshot of
           Inl er \<Rightarrow> Some \<lparr>StatusCode = 503, ContentType = bytes_of ''text/plain; charset=utf-8'', hs_Body = text er @ [10]\<rparr>
         | Inr st \<Rightarrow>
             Some (case json \<lparr>ts_PeerID = hex_encode peerID, ts_Torrent = st\<rparr> of
                Some body \<Rightarrow> \<lparr>StatusCode = 200, ContentType = bytes_of ''application/json'', hs_Body = body\<rparr>
              | None \<Rightarrow> \<lparr>StatusCode = 500, ContentType = bytes_of ''text/plain; charset=utf-8'',
                         hs_Body = bytes_of ''encode torrent snapshot'' @ [10]\<rparr>))
      else None)"

text \<open>The text of \<^verbatim>\<open>serveTorrentStatus\<close> is that of the tracker command's \<^verbatim>\<open>serveHTTP\<close>, but for the words of its error.\<close>

definition serveTorrentStatus :: "bool \<Rightarrow> part \<Rightarrow> part \<Rightarrow> bool" where
  "serveTorrentStatus = serveHTTP"

subsection \<open>Running one torrent\<close>

datatype single_error =
    CreateClient client_error
  | AddTorrent client_error
  | ListenPeers client_error
  | ListenStatus io_error

text \<open>What a component sends: the cancellation of its context, or another error.  None of the three ever returns nil.\<close>

datatype job_result = JobCanceled | AcceptFailed io_error | RunTorrentFailed client_error | StatusFailed io_error

text \<open>A component works, returns (its result is fixed, its deferred calls run), has ended, and has sent its result.\<close>

datatype job_stage = Working | Returning job_result | JobEnded job_result | JobSent

datatype job = PeersJob job_stage | TorrentJob job_stage | StatusJob part

text \<open>Where \<^verbatim>\<open>RunDownload\<close> is: before \<^verbatim>\<open>beginRun\<close>; waiting for the tracker (for the first time?) with its interval; dialling the
  peers of an answer one after the other; waiting for the handshake of one it has dialled; in its \<^verbatim>\<open>select\<close>; over.\<close>

datatype run_phase =
    Starting
  | Announcing bool int
  | Dialling "TPeer list" int
  | Greeting "TPeer list" int
  | Looping int
  | RunOver

text \<open>What the components share: the client with its accept loop, its listener, and the run of the torrent.\<close>

record single_world =
  sw_serving :: serving
  sw_listening :: bool
  sw_hash :: gostring
  sw_phase :: run_phase

abbreviation sw_client :: "single_world \<Rightarrow> Client" where
  "sw_client w \<equiv> sp_client (sw_serving w)"

definition set_serving :: "single_world \<Rightarrow> (serving \<Rightarrow> serving) \<Rightarrow> single_world" where
  "set_serving w f = w\<lparr>sw_serving := f (sw_serving w)\<rparr>"

type_synonym single_run = "(single_world, job, job_result) gather"

definition single_start :: "Client \<Rightarrow> gostring \<Rightarrow> bool \<Rightarrow> single_run" where
  "single_start c hash status =
     \<lparr>sr_ctx = False, sr_cancel = False, sr_results = [],
      sr_parts = PeersJob Working # TorrentJob Working # (if status then [StatusJob (new_part True)] else []),
      sr_main = Selecting,
      sr_world = \<lparr>sw_serving = \<lparr>sp_client = c, sp_conns = [], sp_stage = Accepting\<rparr>, sw_listening = True, sw_hash = hash,
        sw_phase = Starting\<rparr>\<rparr>"

text \<open>Up to the start of the goroutines; the outcomes of listening are arguments.\<close>

definition runSingleTorrent ::
    "client_error + Client \<Rightarrow> Torrent \<Rightarrow> io_error + net_Addr \<Rightarrow> gostring \<Rightarrow> io_error option \<Rightarrow> single_error + single_run" where
  "runSingleTorrent newClient activeTorrent listened statusAddress statusListened =
     (case newClient of
        Inl er \<Rightarrow> Inl (CreateClient er)
      | Inr client \<Rightarrow>
     (case RegisterTorrent client (Some activeTorrent) of
        (Some er, _) \<Rightarrow> Inl (AddTorrent er)
      | (None, client1) \<Rightarrow>
     (case ListenForPeers client1 listened of
        (Inl er, _) \<Rightarrow> Inl (ListenPeers er)
      | (Inr _, client2) \<Rightarrow>
          let hash = MInfoHash (Meta activeTorrent) in
          if statusAddress = [] then Inr (single_start client2 hash False)
          else case statusListened of
            Some er \<Rightarrow> Inl (ListenStatus er)
          | None \<Rightarrow> Inr (single_start client2 hash True))))"

subsubsection \<open>Serving peers\<close>

text \<open>\<^verbatim>\<open>Accept\<close> has failed: the pending connections are closed, and the loop's result is that of its context if that is done.\<close>

definition stop_accepting :: "serving \<Rightarrow> serving" where
  "stop_accepting v = v\<lparr>sp_conns := map close_pending (sp_conns v), sp_stage := Draining\<rparr>"

definition accept_result :: "bool \<Rightarrow> io_error \<Rightarrow> job_result" where
  "accept_result is_done er = (if is_done then JobCanceled else AcceptFailed er)"

definition handled :: "Client \<Rightarrow> nat \<Rightarrow> client_error option \<Rightarrow> serving \<Rightarrow> serving" where
  "handled c i er v = v\<lparr>sp_client := c, sp_conns := (sp_conns v)[i := finish_conn er (sp_conns v ! i)]\<rparr>"

definition forgotten :: "nat \<Rightarrow> serving \<Rightarrow> serving" where
  "forgotten i v = v\<lparr>sp_conns := (sp_conns v)[i := (sp_conns v ! i)\<lparr>sc_pending := False\<rparr>]\<rparr>"

text \<open>What the last \<^verbatim>\<open>select\<close> of \<^verbatim>\<open>AcceptIncomingPeer\<close> needs: the loop receives the peer, or the context is done, or the run.\<close>

fun loop_receives :: "run_phase \<Rightarrow> bool" where
  "loop_receives (Looping interval) \<longleftrightarrow> True"
| "loop_receives _ \<longleftrightarrow> False"

definition handler_may :: "bool \<Rightarrow> run_phase \<Rightarrow> client_error option \<Rightarrow> bool" where
  "handler_may is_done phase er \<longleftrightarrow> (er = None \<longrightarrow> loop_receives phase) \<and>
     (er = Some (SessionFailed CtxErr) \<longrightarrow> is_done) \<and> (er = Some (SessionFailed ErrStopped) \<longrightarrow> phase = RunOver)"

text \<open>By itself: the watcher closes the listener once the context is done; then \<^verbatim>\<open>Accept\<close> fails; a handler whose connection
  was closed and whose context is done ends, for neither the read of the handshake nor the last \<^verbatim>\<open>select\<close> can wait;
  it takes its connection from the pending set; and when no handler runs, \<^verbatim>\<open>ServePeers\<close> returns.\<close>

inductive peers_drive :: "bool \<Rightarrow> single_world \<times> job_stage \<Rightarrow> single_world \<times> job_stage \<Rightarrow> bool" for is_done where
  peers_watch: "is_done \<Longrightarrow> sw_listening w \<Longrightarrow> peers_drive is_done (w, g) (w\<lparr>sw_listening := False\<rparr>, g)"
| peers_stop: "sp_stage (sw_serving w) = Accepting \<Longrightarrow> \<not> sw_listening w \<Longrightarrow>
     peers_drive is_done (w, Working) (set_serving w stop_accepting, Returning (accept_result is_done er))"
| peers_drain: "is_done \<Longrightarrow> i < length (sp_conns (sw_serving w)) \<Longrightarrow> sc_handler (sp_conns (sw_serving w) ! i) = Handling \<Longrightarrow>
     \<not> sc_open (sp_conns (sw_serving w) ! i) \<Longrightarrow> handleIncomingConnection (sw_client w) conn offer ds = (er, c) \<Longrightarrow>
     handler_may is_done (sw_phase w) er \<Longrightarrow> peers_drive is_done (w, g) (set_serving w (handled c i er), g)"
| peers_forget: "i < length (sp_conns (sw_serving w)) \<Longrightarrow> sc_handler (sp_conns (sw_serving w) ! i) \<noteq> Handling \<Longrightarrow>
     sc_pending (sp_conns (sw_serving w) ! i) \<Longrightarrow> peers_drive is_done (w, g) (set_serving w (forgotten i), g)"
| peers_return: "sp_stage (sw_serving w) = Draining \<Longrightarrow> list_all (\<lambda>k. sc_handler k \<noteq> Handling) (sp_conns (sw_serving w)) \<Longrightarrow>
     peers_drive is_done (w, Returning r)
       ((set_serving w (\<lambda>v. v\<lparr>sp_stage := Returned\<rparr>))\<lparr>sw_listening := False\<rparr>, JobEnded r)"

text \<open>With the outside: a connection arrives while the listener is open; \<^verbatim>\<open>Accept\<close> fails; a handler ends with what its
  peer has sent.\<close>

inductive peers_outside :: "bool \<Rightarrow> single_world \<times> job_stage \<Rightarrow> single_world \<times> job_stage \<Rightarrow> bool" for is_done where
  peers_accept: "sp_stage (sw_serving w) = Accepting \<Longrightarrow> sw_listening w \<Longrightarrow>
     peers_outside is_done (w, g) (set_serving w (\<lambda>v. v\<lparr>sp_conns := sp_conns v @ [new_conn]\<rparr>), g)"
| peers_fail: "sp_stage (sw_serving w) = Accepting \<Longrightarrow>
     peers_outside is_done (w, Working) (set_serving w stop_accepting, Returning (accept_result is_done er))"
| peers_handle: "i < length (sp_conns (sw_serving w)) \<Longrightarrow> sc_handler (sp_conns (sw_serving w) ! i) = Handling \<Longrightarrow>
     handleIncomingConnection (sw_client w) conn offer ds = (er, c) \<Longrightarrow> handler_may is_done (sw_phase w) er \<Longrightarrow>
     peers_outside is_done (w, g) (set_serving w (handled c i er), g)"

subsubsection \<open>Running the torrent\<close>

abbreviation run_config :: "single_world \<Rightarrow> RunConfig" where
  "run_config w \<equiv> \<lparr>rc_PeerID = cl_peerID (sw_client w), rc_Port = listenPort (sw_client w)\<rparr>"

definition set_run :: "single_world \<Rightarrow> Torrent \<Rightarrow> run_phase \<Rightarrow> single_world" where
  "set_run w t phase = (set_serving w (\<lambda>v. v\<lparr>sp_client := set_torrent (sp_client v) (sw_hash w) t\<rparr>))\<lparr>sw_phase := phase\<rparr>"

text \<open>The run ends: \<^verbatim>\<open>finishRun\<close>, deferred, with the outcome of closing the file.\<close>

definition end_run :: "single_world \<Rightarrow> Torrent \<Rightarrow> io_error option \<Rightarrow> single_world" where
  "end_run w t result = set_run w (snd (finishRun t (Some CtxErr) result)) RunOver"

text \<open>An announce has failed: the first one ends the run, a later one is ignored.\<close>

definition announce_failed ::
    "single_world \<Rightarrow> Torrent \<Rightarrow> bool \<Rightarrow> int \<Rightarrow> io_error option \<Rightarrow> job_result \<Rightarrow> single_world \<times> job_stage" where
  "announce_failed w t first interval result r =
     (if first then (end_run w t result, JobEnded r) else (w\<lparr>sw_phase := Looping interval\<rparr>, Working))"

text \<open>By itself: the run is looked up and begins or is refused; an announce and a dial whose context is done fail; with no
  candidate left or the peers at their limit the loop is entered; and there the done context ends the run.\<close>

inductive torrent_drive :: "bool \<Rightarrow> single_world \<times> job_stage \<Rightarrow> single_world \<times> job_stage \<Rightarrow> bool" for is_done where
  run_missing: "sw_phase w = Starting \<Longrightarrow> getTorrent (sw_client w) (sw_hash w) = None \<Longrightarrow>
     torrent_drive is_done (w, Working) (w\<lparr>sw_phase := RunOver\<rparr>, JobEnded (RunTorrentFailed (ErrTorrentNotFound (sw_hash w))))"
| run_refused: "sw_phase w = Starting \<Longrightarrow> getTorrent (sw_client w) (sw_hash w) = Some t \<Longrightarrow> beginRun t = (Some er, t') \<Longrightarrow>
     torrent_drive is_done (w, Working) (set_run w t' RunOver, JobEnded (RunTorrentFailed (RunFailed (SessionErr er))))"
| run_begin: "sw_phase w = Starting \<Longrightarrow> getTorrent (sw_client w) (sw_hash w) = Some t \<Longrightarrow> beginRun t = (None, t') \<Longrightarrow>
     torrent_drive is_done (w, Working) (set_run w t' (Announcing True 0), Working)"
| run_announce_canceled: "is_done \<Longrightarrow> sw_phase w = Announcing first interval \<Longrightarrow>
     getTorrent (sw_client w) (sw_hash w) = Some t \<Longrightarrow>
     torrent_drive is_done (w, Working) (announce_failed w t first interval result JobCanceled)"
| run_dial_canceled: "is_done \<Longrightarrow> sw_phase w = Dialling (c # cs) interval \<Longrightarrow>
     torrent_drive is_done (w, Working) (w\<lparr>sw_phase := Dialling cs interval\<rparr>, Working)"
| run_dialled_all: "sw_phase w = Dialling cs interval \<Longrightarrow> getTorrent (sw_client w) (sw_hash w) = Some t \<Longrightarrow>
     cs = [] \<or> maxPeers \<le> length (peers t) \<Longrightarrow> torrent_drive is_done (w, Working) (w\<lparr>sw_phase := Looping interval\<rparr>, Working)"
| run_canceled: "is_done \<Longrightarrow> sw_phase w = Looping interval \<Longrightarrow> getTorrent (sw_client w) (sw_hash w) = Some t \<Longrightarrow>
     torrent_drive is_done (w, Working) (end_run w t result, JobEnded JobCanceled)"

text \<open>With the outside: the tracker answers or cannot be asked (when the context is done the error may be its
  cancellation); a dial fails or connects; a dialled peer sends its handshake or hangs up, and \<^verbatim>\<open>connectPeer\<close> takes it or
  not; the loop takes an event of a peer or a request, or its timer runs out.  Incoming peers reach it by their handlers.\<close>

fun outside_turn :: "run_turn \<Rightarrow> bool" where
  "outside_turn (PeerTurn ev oc ds) \<longleftrightarrow> event_fits ev"
| "outside_turn StatusTurn \<longleftrightarrow> True"
| "outside_turn (ModeTurn mode ds) \<longleftrightarrow> True"
| "outside_turn _ \<longleftrightarrow> False"

inductive torrent_outside :: "library \<Rightarrow> bool \<Rightarrow> single_world \<times> job_stage \<Rightarrow> single_world \<times> job_stage \<Rightarrow> bool"
    for lib is_done where
  run_announced: "sw_phase w = Announcing first interval \<Longrightarrow> getTorrent (sw_client w) (sw_hash w) = Some t \<Longrightarrow>
     t_announce lib tr t (run_config w) (if first then StartedEvent else []) = Some (Inr resp) \<Longrightarrow>
     torrent_outside lib is_done (w, Working)
       (w\<lparr>sw_phase := Dialling (Peers resp) (normalizeTrackerInterval (Interval resp))\<rparr>, Working)"
| run_announce_failed: "sw_phase w = Announcing first interval \<Longrightarrow> getTorrent (sw_client w) (sw_hash w) = Some t \<Longrightarrow>
     t_announce lib tr t (run_config w) (if first then StartedEvent else []) = Some (Inl er) \<Longrightarrow>
     r = RunTorrentFailed (RunFailed (AnnounceErr er)) \<or> is_done \<and> r = JobCanceled \<Longrightarrow>
     torrent_outside lib is_done (w, Working) (announce_failed w t first interval result r)"
| run_dial_failed: "sw_phase w = Dialling (c # cs) interval \<Longrightarrow>
     torrent_outside lib is_done (w, Working) (w\<lparr>sw_phase := Dialling cs interval\<rparr>, Working)"
| run_dialled: "sw_phase w = Dialling (c # cs) interval \<Longrightarrow> getTorrent (sw_client w) (sw_hash w) = Some t \<Longrightarrow>
     length (peers t) < maxPeers \<Longrightarrow> torrent_outside lib is_done (w, Working) (w\<lparr>sw_phase := Greeting cs interval\<rparr>, Working)"
| run_greeted: "sw_phase w = Greeting cs interval \<Longrightarrow> getTorrent (sw_client w) (sw_hash w) = Some t \<Longrightarrow>
     torrent_outside lib is_done (w, Working)
       (set_run w (connectTrackerPeers (t\<lparr>drains := ds\<rparr>) (cl_peerID (sw_client w)) [Some conn]) (Dialling cs interval), Working)"
| run_turn: "sw_phase w = Looping interval \<Longrightarrow> getTorrent (sw_client w) (sw_hash w) = Some t \<Longrightarrow> outside_turn turn \<Longrightarrow>
     loop_turn lib (run_config w) turn (t, interval) = Some (t', interval') \<Longrightarrow>
     torrent_outside lib is_done (w, Working) (set_run w t' (Looping interval'), Working)"
| run_timer: "sw_phase w = Looping interval \<Longrightarrow>
     torrent_outside lib is_done (w, Working) (w\<lparr>sw_phase := Announcing False interval\<rparr>, Working)"

text \<open>One candidate after the other is the whole list.\<close>

lemma connect_one_by_one:
  "connectTrackerPeers t pid (c # cs) = connectTrackerPeers (connectTrackerPeers t pid [c]) pid cs"
proof (cases "maxPeers \<le> length (peers t)")
  case True
  then show ?thesis by (cases cs) simp_all
qed (simp split: sum.split prod.split option.split)

subsubsection \<open>The components and the gathering\<close>

inductive job_drive :: "bool \<Rightarrow> single_world \<times> job \<Rightarrow> single_world \<times> job \<Rightarrow> bool" for is_done where
  drive_peers: "peers_drive is_done (w, g) (w', g') \<Longrightarrow> job_drive is_done (w, PeersJob g) (w', PeersJob g')"
| drive_torrent: "torrent_drive is_done (w, g) (w', g') \<Longrightarrow> job_drive is_done (w, TorrentJob g) (w', TorrentJob g')"
| drive_status: "serveTorrentStatus is_done p p' \<Longrightarrow> job_drive is_done (w, StatusJob p) (w, StatusJob p')"

inductive job_outside :: "library \<Rightarrow> bool \<Rightarrow> single_world \<times> job \<Rightarrow> single_world \<times> job \<Rightarrow> bool" for lib is_done where
  outside_peers: "peers_outside is_done (w, g) (w', g') \<Longrightarrow> job_outside lib is_done (w, PeersJob g) (w', PeersJob g')"
| outside_torrent: "torrent_outside lib is_done (w, g) (w', g') \<Longrightarrow> job_outside lib is_done (w, TorrentJob g) (w', TorrentJob g')"
| outside_status: "serve_failed is_done p p' \<Longrightarrow> job_outside lib is_done (w, StatusJob p) (w, StatusJob p')"

fun stage_result :: "job_stage \<Rightarrow> job_result option" where
  "stage_result (JobEnded r) = Some r"
| "stage_result _ = None"

fun of_serve_result :: "serve_result \<Rightarrow> job_result" where
  "of_serve_result CtxCanceled = JobCanceled"
| "of_serve_result (ServeFailed er) = StatusFailed er"

fun job_result_of :: "job \<Rightarrow> job_result option" where
  "job_result_of (PeersJob g) = stage_result g"
| "job_result_of (TorrentJob g) = stage_result g"
| "job_result_of (StatusJob p) = map_option of_serve_result (part_result p)"

fun job_send :: "job \<Rightarrow> job" where
  "job_send (PeersJob g) = PeersJob JobSent"
| "job_send (TorrentJob g) = TorrentJob JobSent"
| "job_send (StatusJob p) = StatusJob (part_send p)"

definition job_canceled :: "job_result \<Rightarrow> bool" where
  "job_canceled r \<longleftrightarrow> r = JobCanceled"

text \<open>The channel holds three results, and \<^verbatim>\<open>runSingleTorrent\<close> cancels also when it hears the interrupt.\<close>

definition single_drive :: "single_run \<Rightarrow> single_run \<Rightarrow> bool" where
  "single_drive = gather_drive job_drive job_result_of job_send job_canceled 3 True"

definition single_step :: "library \<Rightarrow> single_run \<Rightarrow> single_run \<Rightarrow> bool" where
  "single_step lib s s' \<longleftrightarrow> single_drive s s' \<or> gather_outside (job_outside lib) s s'"


subsection \<open>The accept loop and the session\<close>

text \<open>What the accept loop does here are steps of \<open>ServePeers\<close>.\<close>

lemma peers_serving:
  assumes "peers_drive d (w, g) (w', g') \<or> peers_outside d (w, g) (w', g')"
  shows "sw_serving w' = sw_serving w \<or> ServePeers lib (sw_serving w) (sw_serving w')"
  using assms
  by (auto simp: set_serving_def stop_accepting_def handled_def forgotten_def intro: ServePeers.intros
      elim!: peers_drive.cases peers_outside.cases)

lemma set_serving_simps [simp]:
  "sw_serving (set_serving w f) = f (sw_serving w)" "sw_listening (set_serving w f) = sw_listening w"
  "sw_hash (set_serving w f) = sw_hash w" "sw_phase (set_serving w f) = sw_phase w"
  by (simp_all add: set_serving_def)

lemma set_run_simps [simp]:
  "sw_client (set_run w t phase) = set_torrent (sw_client w) (sw_hash w) t" "sw_listening (set_run w t phase) = sw_listening w"
  "sw_hash (set_run w t phase) = sw_hash w" "sw_phase (set_run w t phase) = phase"
  "sp_conns (sw_serving (set_run w t phase)) = sp_conns (sw_serving w)"
  "sp_stage (sw_serving (set_run w t phase)) = sp_stage (sw_serving w)"
  by (simp_all add: set_run_def)

lemma set_run_serving: "sw_serving (set_run w t phase) = (sw_serving w)\<lparr>sp_client := set_torrent (sw_client w) (sw_hash w) t\<rparr>"
  by (simp add: set_run_def)

text \<open>An idle session is left alone by connections.\<close>

lemma incoming_session:
  assumes "handleIncomingConnection c conn offer ds = (er, c')" and "getTorrent c hash = Some t"
  shows "\<exists>t'. getTorrent c' hash = Some t' \<and> (\<not> running t \<longrightarrow> t' = t)"
  using assms(1)
proof (cases rule: handleIncomingConnection_cases)
  case (routed h rest u r u1 u2)
  then have "running u" by (auto simp: AcceptIncomingPeer_def split: if_splits)
  then show ?thesis using routed assms(2) by (auto simp: getTorrent_set)
qed (use assms(2) in simp)

text \<open>The run: whenever it has not begun or is over, its session is idle, and at the end it has no peers, no requests and no
  file.\<close>

definition session_at :: "run_phase \<Rightarrow> Torrent \<Rightarrow> bool" where
  "session_at phase t \<longleftrightarrow> (phase = Starting \<or> phase = RunOver \<longrightarrow> \<not> running t) \<and>
     (phase = RunOver \<longrightarrow> peers t = [] \<and> pending t = [] \<and> tfile t = None)"

definition run_ok :: "single_world \<Rightarrow> bool" where
  "run_ok w \<longleftrightarrow> wf_serving (sw_serving w) \<and> (\<exists>t. getTorrent (sw_client w) (sw_hash w) = Some t \<and> session_at (sw_phase w) t)"

lemma run_ok_peers:
  assumes ok: "run_ok w" and st: "peers_drive d (w, g) (w', g') \<or> peers_outside d (w, g) (w', g')"
  shows "run_ok w'" and "sw_phase w' = sw_phase w" and "sw_hash w' = sw_hash w"
proof -
  show same: "sw_phase w' = sw_phase w" "sw_hash w' = sw_hash w"
    using st by (auto elim!: peers_drive.cases peers_outside.cases)
  have "sw_client w' = sw_client w \<or> (\<exists>conn offer ds er. handleIncomingConnection (sw_client w) conn offer ds = (er, sw_client w'))"
    using st by (auto simp: stop_accepting_def handled_def forgotten_def elim!: peers_drive.cases peers_outside.cases)
  then have "\<exists>t. getTorrent (sw_client w') (sw_hash w) = Some t \<and> session_at (sw_phase w) t"
    using ok incoming_session unfolding run_ok_def session_at_def by metis
  moreover have "wf_serving (sw_serving w')"
    using ok peers_serving [OF st] accept.inv_step unfolding run_ok_def by metis
  ultimately show "run_ok w'" by (simp add: run_ok_def same)
qed

lemma run_ok_set:
  assumes "run_ok w" and "getTorrent (sw_client w) (sw_hash w) = Some t" and "advances t t'" and "session_at phase t'"
  shows "run_ok (set_run w t' phase)"
proof -
  have "wf_client (set_torrent (sw_client w) (sw_hash w) t')"
    using assms(1) wf_client_advances [OF _ assms(2,3)] by (simp add: run_ok_def wf_serving_def)
  then show ?thesis using assms(1,4) by (simp add: run_ok_def set_run_serving wf_serving_def getTorrent_set set_run_def set_serving_def)
qed

lemma run_ok_phase:
  assumes "run_ok w" and "phase \<noteq> Starting" and "phase \<noteq> RunOver"
  shows "run_ok (w\<lparr>sw_phase := phase\<rparr>)"
  using assms by (auto simp: run_ok_def session_at_def)

lemma run_ok_end:
  assumes "run_ok w" and t: "getTorrent (sw_client w) (sw_hash w) = Some t"
  shows "run_ok (end_run w t result)"
proof -
  obtain er t' where f: "finishRun t (Some CtxErr) result = (er, t')" by fastforce
  have "wf_t t" using assms(1) wf_client_get [OF _ t] by (simp add: run_ok_def wf_serving_def)
  then have "advances t t'" by (rule advances_finishRun [OF _ f])
  then show ?thesis
    unfolding end_run_def f snd_conv using finishRun_ends [OF f] by (intro run_ok_set [OF assms]) (simp_all add: session_at_def)
qed

lemma run_ok_failed:
  assumes "run_ok w" and "getTorrent (sw_client w) (sw_hash w) = Some t"
  shows "run_ok (fst (announce_failed w t first interval result r))"
  using run_ok_end [OF assms] run_ok_phase [OF assms(1)] by (simp add: announce_failed_def)

lemma run_ok_torrent:
  assumes ok: "run_ok w" and st: "torrent_drive d (w, g) (w', g') \<or> torrent_outside lib d (w, g) (w', g')"
  shows "run_ok w'"
  using st
proof
  assume "torrent_drive d (w, g) (w', g')"
  then show ?thesis
  proof cases
    case run_missing
    then show ?thesis using ok by (simp add: run_ok_def)
  next
    case (run_refused t er t')
    then show ?thesis using ok by (auto simp: run_ok_def session_at_def beginRun_def split: if_splits)
  next
    case (run_begin t t')
    have "wf_t t" using ok wf_client_get [OF _ run_begin(5)] by (simp add: run_ok_def wf_serving_def)
    then have "advances t t'" by (rule advances_session_step [OF _ session_begin [OF run_begin(6)]])
    then show ?thesis using run_ok_set [OF ok run_begin(5)] run_begin(2) by (simp add: session_at_def)
  next
    case (run_announce_canceled first interval t result)
    then show ?thesis using run_ok_failed [OF ok, of t first interval result JobCanceled] by (metis fst_conv)
  next
    case (run_canceled interval t result)
    then show ?thesis using run_ok_end [OF ok] by simp
  qed (use ok in \<open>auto intro: run_ok_phase\<close>)
next
  assume "torrent_outside lib d (w, g) (w', g')"
  then show ?thesis
  proof cases
    case (run_announce_failed first interval t tr er r result)
    then show ?thesis using run_ok_failed [OF ok, of t first interval result r] by (metis fst_conv)
  next
    case (run_greeted cs interval t ds conn)
    have "wf_t t" using ok wf_client_get [OF _ run_greeted(5)] by (simp add: run_ok_def wf_serving_def)
    then show ?thesis
      using run_ok_set [OF ok run_greeted(5) advances_run_step [OF _ step_reannounce]] run_greeted(2) by (simp add: session_at_def del: connectTrackerPeers.simps)
  next
    case (run_turn interval t turn t' interval')
    have wf: "wf_t t" using ok wf_client_get [OF _ run_turn(5)] by (simp add: run_ok_def wf_serving_def)
    have "turn_fits turn" using run_turn(6) by (cases turn) simp_all
    then have "advances t t'"
      using loop_turn_run_step [OF run_turn(7)] advances_refl [OF wf] advances_run_step [OF wf] by blast
    then show ?thesis using run_ok_set [OF ok run_turn(5)] run_turn(2) by (simp add: session_at_def)
  qed (use ok in \<open>auto intro: run_ok_phase\<close>)
qed


subsection \<open>The components obey the laws\<close>

text \<open>The loop waits for the handshake of a peer it has dialled: \<^verbatim>\<open>connectPeer\<close> reads it without a deadline and without
  regard to the context.\<close>

definition greeting :: "single_world \<Rightarrow> bool" where
  "greeting w \<longleftrightarrow> (case sw_phase w of Greeting cs interval \<Rightarrow> True | _ \<Rightarrow> False)"

definition peers_ok :: "bool \<Rightarrow> single_world \<Rightarrow> job_stage \<Rightarrow> bool" where
  "peers_ok is_done w g \<longleftrightarrow>
     (case sp_stage (sw_serving w) of
        Accepting \<Rightarrow> g = Working \<and> (\<not> sw_listening w \<longrightarrow> is_done)
      | Draining \<Rightarrow> (\<exists>r. g = Returning r \<and> (r = JobCanceled \<longrightarrow> is_done))
      | Returned \<Rightarrow> g = JobSent \<or> (\<exists>r. g = JobEnded r \<and> (r = JobCanceled \<longrightarrow> is_done)))"

definition torrent_ok :: "bool \<Rightarrow> single_world \<Rightarrow> job_stage \<Rightarrow> bool" where
  "torrent_ok is_done w g \<longleftrightarrow>
     (if sw_phase w = RunOver then g = JobSent \<or> (\<exists>r. g = JobEnded r \<and> (r = JobCanceled \<longrightarrow> is_done)) else g = Working)"

fun is_status :: "bool \<Rightarrow> job \<Rightarrow> bool" where
  "is_status is_done (StatusJob p) \<longleftrightarrow> part_ok is_done p"
| "is_status is_done _ \<longleftrightarrow> False"

fun jobs_ok :: "bool \<Rightarrow> single_world \<Rightarrow> job list \<Rightarrow> bool" where
  "jobs_ok is_done w (PeersJob a # TorrentJob b # rest) \<longleftrightarrow>
     run_ok w \<and> peers_ok is_done w a \<and> torrent_ok is_done w b \<and> (\<forall>j \<in> set rest. is_status is_done j)"
| "jobs_ok is_done w _ \<longleftrightarrow> False"

fun job_sent :: "job \<Rightarrow> bool" where
  "job_sent (PeersJob g) \<longleftrightarrow> g = JobSent"
| "job_sent (TorrentJob g) \<longleftrightarrow> g = JobSent"
| "job_sent (StatusJob p) \<longleftrightarrow> part_sent p"

fun stage_over :: "job_stage \<Rightarrow> bool" where
  "stage_over (JobEnded r) \<longleftrightarrow> True"
| "stage_over JobSent \<longleftrightarrow> True"
| "stage_over _ \<longleftrightarrow> False"

fun job_over :: "job \<Rightarrow> bool" where
  "job_over (PeersJob g) \<longleftrightarrow> stage_over g"
| "job_over (TorrentJob g) \<longleftrightarrow> stage_over g"
| "job_over (StatusJob p) \<longleftrightarrow> part_over p"

text \<open>The work left.\<close>

fun stage_work :: "job_stage \<Rightarrow> nat" where
  "stage_work Working = 3"
| "stage_work (Returning r) = 2"
| "stage_work (JobEnded r) = 1"
| "stage_work JobSent = 0"

fun job_work :: "job \<Rightarrow> nat" where
  "job_work (PeersJob g) = stage_work g"
| "job_work (TorrentJob g) = stage_work g"
| "job_work (StatusJob p) = part_work p"

definition conn_work :: "served_conn \<Rightarrow> nat" where
  "conn_work k = (if sc_handler k = Handling then 2 else 0) + (if sc_pending k then 1 else 0)"

fun phase_work :: "run_phase \<Rightarrow> nat" where
  "phase_work Starting = 4"
| "phase_work (Announcing first interval) = 3"
| "phase_work (Dialling cs interval) = 2 + length cs"
| "phase_work (Greeting cs interval) = 3 + length cs"
| "phase_work (Looping interval) = 1"
| "phase_work RunOver = 0"

definition world_work :: "single_world \<Rightarrow> nat" where
  "world_work w = sum_list (map conn_work (sp_conns (sw_serving w))) + phase_work (sw_phase w) + (if sw_listening w then 1 else 0)"

lemma conn_work_handled: "sc_handler k = Handling \<Longrightarrow> conn_work (finish_conn er k) < conn_work k"
  by (simp add: conn_work_def finish_conn_def)

lemma conn_work_forgotten: "sc_handler k \<noteq> Handling \<Longrightarrow> sc_pending k \<Longrightarrow> conn_work (k\<lparr>sc_pending := False\<rparr>) < conn_work k"
  by (simp add: conn_work_def)

lemma conn_work_closed: "conn_work (close_pending k) = conn_work k"
  by (simp add: conn_work_def close_pending_def)

lemma conns_work_update:
  "i < length ks \<Longrightarrow> conn_work k < conn_work (ks ! i) \<Longrightarrow>
   sum_list (map conn_work (ks[i := k])) < sum_list (map conn_work ks)"
  using sum_list_map_update [of i ks conn_work k] by simp

lemma peers_drive_work: "peers_drive d (w, g) (w', g') \<Longrightarrow> world_work w' + stage_work g' < world_work w + stage_work g"
  by (erule peers_drive.cases)
    (auto simp: world_work_def stop_accepting_def handled_def forgotten_def comp_def conn_work_closed conn_work_handled
      conn_work_forgotten intro!: conns_work_update add_strict_right_mono)

lemma world_work_run:
  "world_work (set_run w t phase) + phase_work (sw_phase w) = world_work w + phase_work phase"
  "world_work (end_run w t result) + phase_work (sw_phase w) = world_work w"
  "world_work (w\<lparr>sw_phase := phase\<rparr>) + phase_work (sw_phase w) = world_work w + phase_work phase"
  by (simp_all add: world_work_def end_run_def)

lemma torrent_drive_work:
  assumes "torrent_drive d (w, g) (w', g')"
  shows "world_work w' + stage_work g' < world_work w + stage_work g"
  using assms
proof cases
  case (run_announce_canceled first interval t result)
  then show ?thesis
    using world_work_run(2) [of w t result] world_work_run(3) [of "Looping interval" w]
    by (auto simp: announce_failed_def split: if_splits)
qed (auto simp: world_work_def end_run_def)

lemma job_drive_work: "job_drive d (w, j) (w', j') \<Longrightarrow> world_work w' + job_work j' < world_work w + job_work j"
  by (auto simp: serveTorrentStatus_def serve_part_step(4) [of d] elim!: job_drive.cases dest: peers_drive_work torrent_drive_work)

text \<open>What a step does to the stage of its component.\<close>

lemma peers_stage:
  assumes "peers_drive d (w, g) (w', g') \<or> peers_outside d (w, g) (w', g')"
  shows "g' = JobSent \<longleftrightarrow> g = JobSent" and "stage_over g \<Longrightarrow> stage_over g'" and "peers_ok d w g \<Longrightarrow> peers_ok d w' g'"
  using assms
  by (auto simp: peers_ok_def stop_accepting_def handled_def forgotten_def accept_result_def
      elim!: peers_drive.cases peers_outside.cases split: serve_stage.splits)

lemma torrent_stage:
  assumes "torrent_drive d (w, g) (w', g') \<or> torrent_outside lib d (w, g) (w', g')"
  shows "g' = JobSent \<longleftrightarrow> g = JobSent" and "stage_over g \<Longrightarrow> stage_over g'" and "torrent_ok d w g \<Longrightarrow> torrent_ok d w' g'"
    and "sp_stage (sw_serving w') = sp_stage (sw_serving w)" and "sw_listening w' = sw_listening w"
  using assms
  by (auto simp: torrent_ok_def announce_failed_def end_run_def elim!: torrent_drive.cases torrent_outside.cases split: if_splits)

lemma status_ok: "serveTorrentStatus d p p' \<or> serve_failed d p p' \<Longrightarrow> part_ok d p \<Longrightarrow> part_ok d p'"
  unfolding serveTorrentStatus_def by (rule serve_part_step(1))

inductive_cases job_driveE: "job_drive d (w, j) (w', j')"
inductive_cases job_outsideE: "job_outside lib d (w, j) (w', j')"

lemma job_step_cases:
  assumes "job_drive d (w, j) (w', j') \<or> job_outside lib d (w, j) (w', j')"
  obtains (peers) g g' where "j = PeersJob g" "j' = PeersJob g'" "peers_drive d (w, g) (w', g') \<or> peers_outside d (w, g) (w', g')"
  | (torrent) g g' where "j = TorrentJob g" "j' = TorrentJob g'"
      "torrent_drive d (w, g) (w', g') \<or> torrent_outside lib d (w, g) (w', g')"
  | (status) p p' where "j = StatusJob p" "j' = StatusJob p'" "w' = w" "serveHTTP d p p' \<or> serve_failed d p p'"
  using assms by (elim disjE job_driveE job_outsideE) (auto simp: serveTorrentStatus_def)

lemma jobs_ok_step:
  assumes ok: "jobs_ok d w js" and i: "i < length js" and st: "job_drive d (w, js ! i) (w', j) \<or> job_outside lib d (w, js ! i) (w', j)"
  shows "jobs_ok d w' (js[i := j])"
proof -
  obtain a b rest where js: "js = PeersJob a # TorrentJob b # rest" and inv: "run_ok w" "peers_ok d w a" "torrent_ok d w b"
    "\<forall>j \<in> set rest. is_status d j"
    using ok by (cases "(d, w, js)" rule: jobs_ok.cases) auto
  have at: "i = 0 \<or> i = Suc 0 \<or> (\<exists>k. i = Suc (Suc k) \<and> k < length rest \<and> is_status d (rest ! k))"
    using js i inv(4) by (cases i; cases "i - 1") auto
  from st show ?thesis
  proof (cases rule: job_step_cases)
    case (peers g g')
    then have "i = 0" "g = a" using at js by auto
    then show ?thesis
      using js inv peers peers_stage(3) [OF peers(3)] run_ok_peers [OF inv(1) peers(3)] by (simp add: torrent_ok_def)
  next
    case (torrent g g')
    then have "i = Suc 0" "g = b" using at js by auto
    moreover have "peers_ok d w' a" using inv(2) unfolding peers_ok_def torrent_stage(4,5) [OF torrent(3)] .
    ultimately show ?thesis
      using js inv torrent torrent_stage(3) [OF torrent(3)] run_ok_torrent [OF inv(1) torrent(3)] by simp
  next
    case (status p p')
    then obtain k where k: "i = Suc (Suc k)" "k < length rest" "rest ! k = StatusJob p"
      using at js by auto
    then have "part_ok d p'" using inv(4) serve_part_step(1) [OF status(4)] nth_mem [OF k(2)] by fastforce
    then show ?thesis using js inv status k list_update_ok [of rest "is_status d" "StatusJob p'" k] by simp
  qed
qed


lemma of_serve_result_canceled: "of_serve_result r = JobCanceled \<longleftrightarrow> is_canceled r"
  by (cases r) (simp_all add: is_canceled_def)

lemma stage_result_Some [simp]: "stage_result g = Some r \<longleftrightarrow> g = JobEnded r"
  by (cases g) auto

lemma jobs_okE:
  assumes "jobs_ok d w js"
  obtains a b rest where "js = PeersJob a # TorrentJob b # rest" "run_ok w" "peers_ok d w a" "torrent_ok d w b"
    "\<forall>j \<in> set rest. is_status d j"
  using assms by (cases "(d, w, js)" rule: jobs_ok.cases) auto

lemma jobs_ok_mono:
  assumes "jobs_ok d w js" and "d \<longrightarrow> d'"
  shows "jobs_ok d' w js"
proof -
  have "is_status d j \<Longrightarrow> is_status d' j" for j using assms(2) by (cases j) (auto elim: part_ok_mono)
  then show ?thesis
    using assms by (auto simp: peers_ok_def torrent_ok_def elim!: jobs_okE split: serve_stage.splits)
qed

lemma jobs_ok_at:
  assumes "jobs_ok d w js" and "j \<in> set js"
  obtains (peers) g where "j = PeersJob g" "peers_ok d w g" | (torrent) g where "j = TorrentJob g" "torrent_ok d w g"
  | (status) p where "j = StatusJob p" "part_ok d p"
proof -
  have "\<exists>p. j = StatusJob p \<and> part_ok d p" if "is_status d j" using that by (cases j) auto
  then show thesis using assms peers torrent status by (auto elim!: jobs_okE)
qed

lemma is_status_send: "is_status d j \<Longrightarrow> is_status d (job_send j)"
  by (cases j) (simp_all add: part_ok_send)

lemma jobs_ok_send:
  assumes "jobs_ok d w js" and i: "i < length js" and r: "job_result_of (js ! i) = Some r"
  shows "jobs_ok d w (js[i := job_send (js ! i)])"
  using assms(1)
proof (cases rule: jobs_okE)
  case (1 a b rest)
  consider "i = 0" | "i = Suc 0" | k where "i = Suc (Suc k)" "k < length rest"
    using i 1(1) by (cases i; cases "i - 1") auto
  then show ?thesis
  proof cases
    case 1
    then have "a = JobEnded r" using r \<open>js = _\<close> by simp
    then have "peers_ok d w JobSent" using \<open>peers_ok d w a\<close> by (simp add: peers_ok_def split: serve_stage.splits)
    then show ?thesis using 1 \<open>js = _\<close> \<open>run_ok w\<close> \<open>torrent_ok d w b\<close> \<open>\<forall>j \<in> set rest. is_status d j\<close> by simp
  next
    case 2
    then have "b = JobEnded r" using r \<open>js = _\<close> by simp
    then have "torrent_ok d w JobSent" using \<open>torrent_ok d w b\<close> by (simp add: torrent_ok_def split: if_splits)
    then show ?thesis using 2 \<open>js = _\<close> \<open>run_ok w\<close> \<open>peers_ok d w a\<close> \<open>\<forall>j \<in> set rest. is_status d j\<close> by simp
  next
    case (3 k)
    have "is_status d (rest ! k)" using \<open>\<forall>j \<in> set rest. is_status d j\<close> nth_mem [OF 3(2)] by blast
    then have "\<forall>j \<in> set (rest[k := job_send (rest ! k)]). is_status d j"
      using \<open>\<forall>j \<in> set rest. is_status d j\<close> by (intro list_update_ok is_status_send)
    then show ?thesis using 3 \<open>js = _\<close> \<open>run_ok w\<close> \<open>peers_ok d w a\<close> \<open>torrent_ok d w b\<close> by simp
  qed
qed

text \<open>A component whose context is done goes on by itself, the run of the torrent unless it waits for a handshake.\<close>

lemma peers_progress:
  assumes "run_ok w" and "peers_ok True w g" and "g \<noteq> JobSent" and "stage_result g = None"
  shows "\<exists>x. peers_drive True (w, g) x"
proof (cases "sp_stage (sw_serving w)")
  case Accepting
  then have "g = Working" using assms(2) by (simp add: peers_ok_def)
  then show ?thesis using peers_watch [of True w g] peers_stop [OF Accepting, of True] by blast
next
  case Draining
  then obtain r where g: "g = Returning r" using assms(2) by (auto simp: peers_ok_def)
  show ?thesis
  proof (cases "list_all (\<lambda>k. sc_handler k \<noteq> Handling) (sp_conns (sw_serving w))")
    case True
    then show ?thesis using peers_return [OF Draining] g by blast
  next
    case False
    then obtain i where i: "i < length (sp_conns (sw_serving w))" "sc_handler (sp_conns (sw_serving w) ! i) = Handling"
      by (auto simp: list_all_length)
    have "\<not> sc_open (sp_conns (sw_serving w) ! i)"
      using assms(1) i Draining nth_mem [OF i(1)] by (fastforce simp: run_ok_def wf_serving_def)
    let ?conn = "\<lparr>d_addr = None, d_out = buffer, d_in = [], d_end = ErrEOF\<rparr>"
    obtain e where "ReadHandshake ErrEOF [] = Inl e" by (simp add: ReadHandshake_def ReadFull_def)
    then have "handleIncomingConnection (sw_client w) ?conn Ready [] = (Some (ReadHandshakeFailed e), sw_client w)"
      by (simp add: handleIncomingConnection_def)
    then show ?thesis
      using peers_drain [OF TrueI i \<open>\<not> sc_open (sp_conns (sw_serving w) ! i)\<close>] by (fastforce simp: handler_may_def)
  qed
qed (use assms(2-4) in \<open>auto simp: peers_ok_def\<close>)

lemma torrent_progress:
  assumes "run_ok w" and "torrent_ok True w g" and "g \<noteq> JobSent" and "stage_result g = None" and "\<not> greeting w"
  shows "\<exists>x. torrent_drive True (w, g) x"
proof -
  obtain t where t: "getTorrent (sw_client w) (sw_hash w) = Some t" using assms(1) by (auto simp: run_ok_def)
  have g: "g = Working" "sw_phase w \<noteq> RunOver" using assms(2-4) by (auto simp: torrent_ok_def split: if_splits)
  show ?thesis
  proof (cases "sw_phase w")
    case Starting
    then show ?thesis unfolding g(1) using run_begin [OF Starting t] run_refused [OF Starting t] by (cases "beginRun t"; cases "fst (beginRun t)") force+
  next
    case (Announcing first interval)
    then show ?thesis unfolding g(1) using run_announce_canceled [OF TrueI _ t] by blast
  next
    case (Dialling cs interval)
    then show ?thesis
      unfolding g(1) using run_dialled_all [OF _ t] run_dial_canceled [of True w] by (cases cs) blast+
  next
    case (Looping interval)
    then show ?thesis unfolding g(1) using run_canceled [OF TrueI _ t] by blast
  qed (use g(2) assms(5) in \<open>simp_all add: greeting_def\<close>)
qed

lemma jobs_progress:
  assumes ok: "jobs_ok True w js" and "j \<in> set js" and "\<not> job_sent j" and "job_result_of j = None" and "\<not> greeting w"
  shows "\<exists>x. job_drive True (w, j) x"
proof -
  have "run_ok w" using ok by (auto elim: jobs_okE)
  from ok assms(2) show ?thesis
  proof (cases rule: jobs_ok_at)
    case (peers g)
    then show ?thesis
      using peers_progress [OF \<open>run_ok w\<close>, of g] assms(3,4) by (force intro: drive_peers)
  next
    case (torrent g)
    then show ?thesis
      using torrent_progress [OF \<open>run_ok w\<close>, of g] assms(3-5) by (force intro: drive_torrent)
  next
    case (status p)
    then show ?thesis
      using serveHTTP_progress [of p] assms(3,4) drive_status [of True p _ w] by (auto simp: serveTorrentStatus_def)
  qed
qed

lemma drive_greeting: "job_drive d (w, j) (w', j') \<Longrightarrow> greeting w' = greeting w"
  by (auto simp: greeting_def announce_failed_def end_run_def elim!: job_driveE peers_drive.cases torrent_drive.cases
      split: run_phase.splits if_splits)

interpretation jobs: gathering job_drive "job_outside lib" job_result_of job_send job_canceled jobs_ok job_sent job_over
  greeting world_work job_work
proof
  fix d d' w w' js i j j' r
  show "jobs_ok d w js \<Longrightarrow> i < length js \<Longrightarrow> job_drive d (w, js ! i) (w', j) \<or> job_outside lib d (w, js ! i) (w', j) \<Longrightarrow>
      jobs_ok d w' (js[i := j])"
    by (rule jobs_ok_step)
  show "jobs_ok d w js \<Longrightarrow> (d \<longrightarrow> d') \<Longrightarrow> jobs_ok d' w js"
    by (rule jobs_ok_mono)
  show "jobs_ok d w js \<Longrightarrow> i < length js \<Longrightarrow> job_result_of (js ! i) = Some r \<Longrightarrow> jobs_ok d w (js[i := job_send (js ! i)])"
    by (rule jobs_ok_send)
  show "job_drive d (w, j) (w', j') \<or> job_outside lib d (w, j) (w', j') \<Longrightarrow> job_sent j' = job_sent j"
    by (erule job_step_cases) (metis job_sent.simps peers_stage(1) torrent_stage(1) serve_part_step(2))+
  show "job_drive d (w, j) (w', j') \<or> job_outside lib d (w, j) (w', j') \<Longrightarrow> job_over j \<Longrightarrow> job_over j'"
    by (erule job_step_cases) (metis job_over.simps peers_stage(2) torrent_stage(2) serve_part_step(3))+
  show "job_drive d (w, j) (w', j') \<Longrightarrow> world_work w' + job_work j' < world_work w + job_work j"
    by (rule job_drive_work)
  show "job_drive d (w, j) (w', j') \<Longrightarrow> greeting w' = greeting w"
    by (rule drive_greeting)
  show "job_result_of j = Some r \<Longrightarrow> \<not> job_sent j \<and> job_sent (job_send j) \<and> job_over (job_send j) \<and> job_work (job_send j) < job_work j"
    using part_result_sent by (cases j) auto
  show "jobs_ok d w js \<Longrightarrow> j \<in> set js \<Longrightarrow> job_result_of j = Some r \<Longrightarrow> job_canceled r \<Longrightarrow> d"
    by (erule (1) jobs_ok_at) (auto simp: job_canceled_def peers_ok_def torrent_ok_def of_serve_result_canceled
        dest: part_result_canceled split: serve_stage.splits if_splits)
  show "jobs_ok True w js \<Longrightarrow> j \<in> set js \<Longrightarrow> \<not> job_sent j \<Longrightarrow> job_result_of j = None \<Longrightarrow> \<not> greeting w \<Longrightarrow>
      \<exists>x. job_drive True (w, j) x"
    by (rule jobs_progress)
  show "jobs_ok False w js \<Longrightarrow> j \<in> set js \<Longrightarrow> job_over j \<Longrightarrow> job_sent j \<or> job_result_of j \<noteq> None"
    by (erule (1) jobs_ok_at) (auto elim: stage_over.elims dest: part_over_ended)
qed

subsection \<open>The run ends\<close>

abbreviation wf_single :: "single_run \<Rightarrow> bool" where
  "wf_single \<equiv> wf_gather jobs_ok job_sent job_canceled 3"

interpretation single: invariant_system "single_step lib" wf_single
  by unfold_locales (auto simp: single_step_def single_drive_def intro: jobs.wf_drive jobs.wf_outside)

abbreviation single_winding :: "single_run \<Rightarrow> bool" where
  "single_winding \<equiv> winding_down job_over"

abbreviation single_work :: "single_run \<Rightarrow> nat" where
  "single_work \<equiv> gather_work world_work job_work"

lemma opened_idle: "opened_session meta t \<Longrightarrow> \<not> running t"
  by (auto simp: opened_session_def OpenDownload_def OpenSeed_def new_Torrent_def bind_r_iffs split: option.splits prod.splits)

lemma runSingleTorrent_start:
  assumes "runSingleTorrent newClient t listened addr statusListened = Inr s" and "\<And>c. newClient = Inr c \<Longrightarrow> wf_client c"
    and "wf_t t" and "downloadMode t = ''''" and "\<not> running t"
  shows "wf_single s" and "sw_hash (sr_world s) = MInfoHash (Meta t)" and "\<not> greeting (sr_world s)"
proof -
  let ?h = "MInfoHash (Meta t)"
  obtain c c1 c2 b where c: "newClient = Inr c" "RegisterTorrent c (Some t) = (None, c1)"
    "c2 = snd (ListenForPeers c1 listened)" "s = single_start c2 ?h b"
    using assms(1) by (auto simp: runSingleTorrent_def Let_def split: sum.splits option.splits prod.splits if_splits)
  have c1: "c1 = set_torrent c ?h t" using c(2) by (auto simp: RegisterTorrent_def Let_def split: if_splits)
  have "wf_client c1" unfolding c1 by (rule wf_client_put [OF assms(2) [OF c(1)]]) (use assms(3,4) in simp)
  then have "wf_client c2" and k: "cl_torrents c2 = cl_torrents c1"
    by (auto simp: c(3) ListenForPeers_def setListenPort_def wf_client_def split: sum.splits net_Addr.splits)
  then have "run_ok (sr_world s)"
    using assms(5) by (simp add: c(4) c1 single_start_def run_ok_def wf_serving_def getTorrent_def set_torrent_def session_at_def)
  then show "wf_single s"
    by (simp add: c(4) wf_gather_def single_start_def peers_ok_def torrent_ok_def new_part_def part_ok_def sent_count_def part_sent_def)
  show "sw_hash (sr_world s) = ?h" "\<not> greeting (sr_world s)" by (simp_all add: c(4) single_start_def greeting_def)
qed

lemma single_client: "wf_single s \<Longrightarrow> wf_client (sw_client (sr_world s))"
  by (auto simp: wf_gather_def run_ok_def wf_serving_def elim!: jobs_okE)

text \<open>When the command has returned, its components have ended, and so the accept loop and the run are over.\<close>

lemma returned_single:
  assumes wf: "wf_single s" and res: "sr_main s = ServeReturned res"
  shows "(\<forall>j \<in> set (sr_parts s). job_sent j) \<and> (res = None \<longrightarrow> sr_ctx s) \<and> res \<noteq> Some JobCanceled \<and>
    sp_stage (sw_serving (sr_world s)) = Returned \<and>
    (\<forall>k \<in> set (sp_conns (sw_serving (sr_world s))).
       sc_handler k \<noteq> Handling \<and> (sc_open k \<longrightarrow> sc_handler k = Handled None)) \<and>
    (\<forall>p. StatusJob p \<in> set (sr_parts s) \<and> part_stage p = Sent CtxCanceled \<longrightarrow> part_watcher p = ShutDown) \<and>
    (\<exists>t'. getTorrent (sw_client (sr_world s)) (sw_hash (sr_world s)) = Some t' \<and> \<not> running t' \<and> peers t' = [] \<and>
       pending t' = [] \<and> tfile t' = None)"
proof -
  let ?w = "sr_world s"
  have sent: "\<forall>j \<in> set (sr_parts s). job_sent j" by (rule jobs.returned_all_sent [OF wf res])
  have "jobs_ok (run_done s) ?w (sr_parts s)" using wf by (simp add: wf_gather_def)
  then obtain a b rest where js: "sr_parts s = PeersJob a # TorrentJob b # rest" and inv: "run_ok ?w"
    "peers_ok (run_done s) ?w a" "torrent_ok (run_done s) ?w b" and st: "\<forall>j \<in> set rest. is_status (run_done s) j"
    by (rule jobs_okE)
  have "is_status (run_done s) (StatusJob p)" if "StatusJob p \<in> set (sr_parts s)" for p using js st that by auto
  then have shut: "part_watcher p = ShutDown" if "StatusJob p \<in> set (sr_parts s)" "part_stage p = Sent CtxCanceled" for p
    using that by (simp add: part_ok_def)
  have "a = JobSent" "b = JobSent" using sent js by simp_all
  then have over: "sp_stage (sw_serving ?w) = Returned" "sw_phase ?w = RunOver"
    using inv(2,3) by (auto simp: peers_ok_def torrent_ok_def split: serve_stage.splits if_splits)
  have conns: "sc_handler k \<noteq> Handling \<and> (sc_open k \<longrightarrow> sc_handler k = Handled None)" if "k \<in> set (sp_conns (sw_serving ?w))" for k
    using inv(1) over(1) that by (auto simp: run_ok_def wf_serving_def) (metis handler.exhaust option.exhaust)
  have "\<exists>t'. getTorrent (sw_client ?w) (sw_hash ?w) = Some t' \<and> \<not> running t' \<and> peers t' = [] \<and> pending t' = [] \<and> tfile t' = None"
    using inv(1) over(2) by (auto simp: run_ok_def session_at_def)
  moreover have "(res = None \<longrightarrow> sr_ctx s) \<and> res \<noteq> Some JobCanceled" using wf res by (auto simp: wf_gather_def job_canceled_def)
  ultimately show ?thesis using sent over(1) conns shut by blast
qed

lemma single_ends:
  assumes "wf_single s"
  shows "single_winding s \<and> \<not> greeting (sr_world s) \<longrightarrow>
    (\<forall>s'. reaches (jobs.run 3 True) s s' \<and> (\<forall>s''. \<not> jobs.run 3 True s' s'') \<longrightarrow> (\<exists>res. sr_main s' = ServeReturned res)) \<and>
    (\<exists>s' res. reaches (jobs.run 3 True) s s' \<and> sr_main s' = ServeReturned res)"
  using jobs.drive_ends [OF assms] jobs.can_return [OF assms] by blast

lemma greeting_waits:
  assumes "wf_single s" and "greeting (sr_world s)" and "reaches (jobs.run 3 True) s s'"
  shows "sr_main s' \<noteq> ServeReturned res"
proof
  assume res: "sr_main s' = ServeReturned res"
  have wf: "wf_single s'" by (rule jobs.drive_reaches [OF assms(3,1)])
  have sent: "\<forall>j \<in> set (sr_parts s'). job_sent j" by (rule jobs.returned_all_sent [OF wf res])
  have "jobs_ok (run_done s') (sr_world s') (sr_parts s')" using wf by (simp add: wf_gather_def)
  then obtain a b rest where "sr_parts s' = PeersJob a # TorrentJob b # rest" "torrent_ok (run_done s') (sr_world s') b"
    by (rule jobs_okE)
  then have "sw_phase (sr_world s') = RunOver" using sent by (auto simp: torrent_ok_def split: if_splits)
  moreover have "greeting (sr_world s')" using jobs.stuck_reaches [OF assms(3)] assms(2) by simp
  ultimately show False by (simp add: greeting_def)
qed

text \<open>C38. A torrent command runs and ends.  From a session just opened and a fresh client, however connections, handlers, the
  session's announces, dials, events and requests, the failures of the components and an interrupt interleave: the client
  stays well formed (so every complete piece lies verified on disk).  When \<^verbatim>\<open>runSingleTorrent\<close> returns, every component it
  started has ended: \<^verbatim>\<open>ServePeers\<close> has returned, no handler runs and no connection is open but those handed to the
  session; the run is over, the session has no peers and its file is closed; a status server that was cancelled is shut down; it returns nil of its own only after an
  interrupt, and it never reports the cancellation it caused.

  Once a component has ended or the interrupt has come, and unless the session waits for the handshake of a peer it has
  dialled, the command returns by what its own goroutines do: the first result or the interrupt cancels the context, the
  watcher closes the listener, \<^verbatim>\<open>Accept\<close> fails, the pending connections are closed, their handlers end, and an announce,
  a dial or the loop that finds its context done ends the run.  Each of these steps takes work away, every run of them that
  cannot be continued has returned, and there is such a run.  The exception is real: \<^verbatim>\<open>connectPeer\<close> reads a handshake without
  a deadline, and while the dialled peer stays silent the command does not return, whatever it does and interrupt or
  not.\<close>

theorem runSingleTorrent_ends:
  assumes "client_New random = Inr c" and "opened_session meta t" and "valid_info (MInfo meta)"
    and "length (PieceHashes (MInfo meta)) < 2 ^ 32"
    and "runSingleTorrent (Inr c) t listened statusAddress statusListened = Inr s0" and "reaches (single_step lib) s0 s"
  shows "wf_client (sw_client (sr_world s)) \<and>
    (\<forall>res. sr_main s = ServeReturned res \<longrightarrow>
       (\<forall>j \<in> set (sr_parts s). job_sent j) \<and> (res = None \<longrightarrow> sr_ctx s) \<and> res \<noteq> Some JobCanceled \<and>
       sp_stage (sw_serving (sr_world s)) = Returned \<and>
       (\<forall>k \<in> set (sp_conns (sw_serving (sr_world s))).
          sc_handler k \<noteq> Handling \<and> (sc_open k \<longrightarrow> sc_handler k = Handled None)) \<and>
       (\<forall>p. StatusJob p \<in> set (sr_parts s) \<and> part_stage p = Sent CtxCanceled \<longrightarrow> part_watcher p = ShutDown) \<and>
       (\<exists>t'. getTorrent (sw_client (sr_world s)) (sw_hash (sr_world s)) = Some t' \<and> \<not> running t' \<and> peers t' = [] \<and>
          pending t' = [] \<and> tfile t' = None)) \<and>
    (single_winding s \<and> \<not> greeting (sr_world s) \<longrightarrow>
       (\<forall>s'. reaches single_drive s s' \<and> (\<forall>s''. \<not> single_drive s' s'') \<longrightarrow> (\<exists>res. sr_main s' = ServeReturned res)) \<and>
       (\<exists>s' res. reaches single_drive s s' \<and> sr_main s' = ServeReturned res)) \<and>
    (\<forall>s'. single_drive s s' \<longrightarrow> single_work s' < single_work s) \<and>
    (greeting (sr_world s) \<longrightarrow> (\<forall>s' res. reaches single_drive s s' \<longrightarrow> sr_main s' \<noteq> ServeReturned res))"
proof -
  have "wf_t t" "downloadMode t = ''''" using opened_session_wf [OF assms(2-4)] by auto
  then have "wf_single s0"
    using runSingleTorrent_start(1) [OF assms(5)] wf_client_New [OF assms(1)] opened_idle [OF assms(2)] by blast
  then have wf: "wf_single s" by (rule single.inv_reaches [OF assms(6)])
  show ?thesis
    unfolding single_drive_def
    using returned_single [OF wf] greeting_waits [OF wf] jobs.drive_decreases
    by (intro conjI single_client [OF wf] single_ends [OF wf]) simp_all
qed

text \<open>The demo torrent runs without a status server and is interrupted.  Its run has not begun then, so it does not wait for
  any peer: the command comes to an end and has returned there, with no error, its accept loop over and its file closed.\<close>

theorem runSingleTorrent_ends_witness:
  "\<exists>c s0 s s' res. client_New (Inr (replicate 20 9)) = Inr c \<and>
     runSingleTorrent (Inr c) (demo_open\<lparr>running := False\<rparr>) (Inr (OtherAddr [])) [] None = Inr s0 \<and>
     reaches (single_step demo_library) s0 s \<and> sr_ctx s \<and> \<not> greeting (sr_world s) \<and>
     reaches single_drive s s' \<and> sr_main s' = ServeReturned res \<and> sp_stage (sw_serving (sr_world s')) = Returned"
proof -
  let ?t = "demo_open\<lparr>running := False\<rparr>" and ?R = "single_step demo_library"
  obtain c where c: "client_New (Inr (replicate 20 9)) = Inr c" "cl_torrents c = []" by (auto simp: client_New_def)
  obtain s0 where s0: "runSingleTorrent (Inr c) ?t (Inr (OtherAddr [])) [] None = Inr s0"
    using c(2) by (simp add: runSingleTorrent_def RegisterTorrent_def ListenForPeers_def)
  let ?s1 = "s0\<lparr>sr_ctx := True\<rparr>"
  note T = runSingleTorrent_ends [OF c(1) opened_demo demo_meta_ok s0]
  have "?R s0 ?s1" unfolding single_step_def by (intro disjI2 outside_interrupt)
  then have r1: "reaches ?R s0 ?s1" by (rule reaches_step [of ?R, OF reaches_refl])
  have g: "\<not> greeting (sr_world ?s1)"
    using s0 by (auto simp: runSingleTorrent_def single_start_def greeting_def Let_def split: option.splits prod.splits sum.splits)
  have "single_winding ?s1" by (simp add: winding_down_def)
  then obtain s' res where s': "reaches single_drive ?s1 s'" "sr_main s' = ServeReturned res" using T [OF r1] g by blast
  have "reaches ?R ?s1 s'" using s'(1) by (rule reaches_mono) (simp add: single_step_def)
  then have "sp_stage (sw_serving (sr_world s')) = Returned" using T [OF reaches_trans [OF _ r1]] s'(2) by blast
  then show ?thesis using c(1) s0 r1 g s' by (intro exI [of _ c] exI [of _ s0] exI [of _ ?s1] exI [of _ s'] exI [of _ res]) simp
qed

end
