(* ===== verification/Distribution.thy ===== *)
theory Distribution
  imports Torrent_Command Client_Correct
begin

text \<open>
  The components together: a file is hashed into content information, seeded, and downloaded by somebody else.
  The lemmas relate the two sides' views of a piece and its blocks; the properties are in \<open>Spec2Isabelle\<close>.
\<close>

subsection \<open>Published content\<close>

text \<open>Content information that describes \<open>c\<close>: what \<^verbatim>\<open>create\<close> makes of a file.  The last conditions are those of a
  piece set: piece lengths and piece numbers are 32-bit.\<close>

definition published :: "byte list \<Rightarrow> Info \<Rightarrow> bool" where
  "published c info \<longleftrightarrow>
     valid_info info \<and> PieceLength info < 2 ^ 32 \<and> length (PieceHashes info) < 2 ^ 32 \<and>
     Length info = int (length c) \<and> PieceHashes info = piece_digests (nat (PieceLength info)) c"

lemma valid_created:
  assumes "0 < pl" and "in_int64 pl" and "length c < 2 ^ 63" and "name \<noteq> []"
  shows "valid_info \<lparr>Name = name, Length = int (length c), PieceLength = pl, PieceHashes = piece_digests (nat pl) c\<rparr>"
proof -
  have l: "in_int64 (int (length c))"
    using assms(3) of_nat_less_iff [where 'a = int, of "length c" "2 ^ 63"] by (simp add: in_int64_def)
  have "int (length (piece_digests (nat pl) c)) = expectedPieces (int (length c)) pl"
    using expectedPieces_pcount [of "int (length c)" pl] assms(1) l by (simp add: piece_digests_def pcount_def)
  then show ?thesis using assms l by (simp add: valid_info_def list_all_iff piece_digests_def)
qed

lemma create_info_published:
  assumes "create_info lib args = Some (Inr (announce, output, info))"
    and "os_Stat lib (last args) = StatOk (int (length c)) True" and "open_read lib (last args) = Inr (c, ErrEOF)"
    and "filepath_Base lib (last args) \<noteq> []"
    and "length c < 2 ^ 63" and "length (PieceHashes info) < 2 ^ 32"
  shows "published c info" and "announce \<noteq> []"
proof -
  obtain s rest sz where fp: "flag_Parse (create_flags lib) args
        \<lparr>announceURL = [], cr_output = [], pieceLengthFlag = defaultPieceLength\<rparr> = Inr (s, rest)"
    and r: "length rest = 1" "announceURL s \<noteq> []" "0 < pieceLengthFlag s" "pieceLengthFlag s \<le> maxPieceLength"
      "os_Stat lib (hd rest) = StatOk sz True"
    and h: "create_hashed lib s (hd rest) sz = Some (Inr (announce, output, info))"
    using assms(1) unfolding create_info_def
    by (auto simp: Let_def split: sum.splits prod.splits if_splits stat.splits)
  have "hd rest = last args" using flag_Parse_rest [OF fp] r(1) by (cases rest) auto
  then have f: "sz = int (length c)" "open_read lib (hd rest) = Inr (c, ErrEOF)" "filepath_Base lib (hd rest) \<noteq> []"
    using assms(2-4) r(5) by auto
  have "hashPieces ErrEOF c (pieceLengthFlag s) = Some (Inr (piece_digests (nat (pieceLengthFlag s)) c))"
    using hashPieces_loop_eq [of "nat (pieceLengthFlag s)" ErrEOF c "[]"] r(3) by (simp add: hashPieces_def)
  then have i: "announce = announceURL s" "info = \<lparr>Name = filepath_Base lib (hd rest), Length = int (length c), PieceLength = pieceLengthFlag s,
      PieceHashes = piece_digests (nat (pieceLengthFlag s)) c\<rparr>"
    using h f by (simp_all add: create_hashed_def)
  have "pieceLengthFlag s < 2 ^ 32" using r(4) by (simp add: maxPieceLength_def)
  moreover from this have "in_int64 (pieceLengthFlag s)" using r(3) by (simp add: in_int64_def)
  ultimately show "published c info"
    using valid_created [OF r(3) _ assms(5), of "filepath_Base lib (hd rest)"] f assms(6) by (simp add: published_def i)
  show "announce \<noteq> []" using r(2) i by simp
qed

text \<open>What \<^verbatim>\<open>create\<close> wrote can be read back, when it is within the limits of the reader.\<close>

lemma created_reads:
  assumes "create lib encodeMetaInfo args fs mkdir temp write chmod close link = Some (er, fs')"
    and "\<forall>t announce target info. temp = Inr t \<and> create_info lib args = Some (Inr (announce, target, info)) \<longrightarrow>
      fs t = None \<and> t \<noteq> target"
    and "\<forall>a i b m. encodeMetaInfo a i = Inr (b, m) \<longrightarrow> NewMetaInfo a i = Inr m \<and> EncodeMetaInfo m = Inr b"
  shows "er \<noteq> None \<Longrightarrow> fs' = fs"
    and "er = None \<Longrightarrow> \<exists>announce target info encoded meta. create_info lib args = Some (Inr (announce, target, info)) \<and>
      NewMetaInfo announce info = Inr meta \<and> EncodeMetaInfo meta = Inr encoded \<and>
      fs target = None \<and> fs' = fs(target \<mapsto> encoded) \<and> MInfo meta = info \<and> Announce meta = announce \<and>
      (valid_info info \<and> fits_limits meta \<longrightarrow>
        inspect (\<lambda>path. case fs' path of None \<Rightarrow> Inl ErrIO | Some b \<Rightarrow> Inr (b, ErrEOF)) [target] = Inr meta)"
proof -
  show "fs' = fs" if n: "er \<noteq> None"
  proof (cases "\<exists>announce target info encoded meta. create_info lib args = Some (Inr (announce, target, info)) \<and>
      encodeMetaInfo announce info = Inr (encoded, meta)")
    case True
    then obtain announce target info encoded meta where c: "create_info lib args = Some (Inr (announce, target, info))"
      "encodeMetaInfo announce info = Inr (encoded, meta)" by blast
    then have w: "writeNewFile fs target encoded mkdir temp write chmod close link = (er, fs')"
      using assms(1) by (simp add: create_def)
    have fresh: "\<forall>t. temp = Inr t \<longrightarrow> fs t = None \<and> t \<noteq> target" using assms(2) c(1) by blast
    show ?thesis using writeNewFile_atomic [OF w fresh] n by simp
  next
    case False
    then show ?thesis using assms(1) by (auto simp: create_def split: option.splits sum.splits)
  qed
  assume "er = None"
  then obtain announce target info encoded meta where c: "create_info lib args = Some (Inr (announce, target, info))"
    "encodeMetaInfo announce info = Inr (encoded, meta)" "writeNewFile fs target encoded mkdir temp write chmod close link = (None, fs')"
    using assms(1) by (auto simp: create_def split: option.splits sum.splits prod.splits)
  have e: "NewMetaInfo announce info = Inr meta" "EncodeMetaInfo meta = Inr encoded" using assms(3) c(2) by auto
  have fresh: "\<forall>t. temp = Inr t \<longrightarrow> fs t = None \<and> t \<noteq> target" using assms(2) c(1) by blast
  have w: "fs target = None" "fs' = fs(target \<mapsto> encoded)"
    using writeNewFile_atomic [OF c(3) fresh] by simp_all
  have m: "MInfo meta = info" "Announce meta = announce"
    using e(1) by (auto simp: NewMetaInfo_def bind_r_iffs split: if_splits)
  have "inspect (\<lambda>path. case fs' path of None \<Rightarrow> Inl ErrIO | Some b \<Rightarrow> Inr (b, ErrEOF)) [target] = Inr meta"
    if "valid_info info" "fits_limits meta"
  proof -
    have "ReadMetaInfo ErrEOF encoded = Inr meta"
      using read_encoded [OF that(1) e(1) that(2)] e(2) by auto
    then show ?thesis by (simp add: inspect_def readMetaInfoFile_def w(2))
  qed
  then show "\<exists>announce target info encoded meta. create_info lib args = Some (Inr (announce, target, info)) \<and>
      NewMetaInfo announce info = Inr meta \<and> EncodeMetaInfo meta = Inr encoded \<and>
      fs target = None \<and> fs' = fs(target \<mapsto> encoded) \<and> MInfo meta = info \<and> Announce meta = announce \<and>
      (valid_info info \<and> fits_limits meta \<longrightarrow>
        inspect (\<lambda>path. case fs' path of None \<Rightarrow> Inl ErrIO | Some b \<Rightarrow> Inr (b, ErrEOF)) [target] = Inr meta)"
    using c(1) e w m by blast
qed

text \<open>Every view of the content as a piece set has the same pieces, with the published digests.\<close>

lemma plen_at_info: "ps_info p = ps_info p' \<Longrightarrow> plen_at p = plen_at p'"
  by (simp add: plen_at_def fun_eq_iff)

lemma piece_bytes_info: "ps_info p = ps_info p' \<Longrightarrow> piece_bytes p = piece_bytes p'"
  using plen_at_info [of p p'] by (simp add: piece_bytes_def fun_eq_iff)

lemma published_piece:
  assumes "published c info" and "wf_geometry p" and "ps_info p = info" and "i < length (ps_states p)"
  shows "length (piece_bytes p c i) = plen_at p i" and "sha1_Sum (piece_bytes p c i) = PieceHashes info ! i"
proof -
  let ?P = "nat (PieceLength info)"
  have L: "ps_total p = length c" using assms(1,3) by (simp add: published_def)
  show "length (piece_bytes p c i) = plen_at p i"
    using L assms(3) by (simp add: piece_bytes_def plen_at_def plen_def)
  have "piece_bytes p c i = take ?P (drop (i * ?P) c)"
    using L assms(3) by (simp add: piece_bytes_def plen_at_def plen_def take_all_iff min_def)
  moreover have "i < (length c + ?P - 1) div ?P"
    using assms L by (simp add: wf_geometry_def pcount_def)
  ultimately show "sha1_Sum (piece_bytes p c i) = PieceHashes info ! i"
    using assms(1) by (simp add: published_def piece_digests_def)
qed

text \<open>Opening the published file for seeding succeeds, with every piece complete.\<close>

lemma seed_opens:
  assumes "published c (MInfo meta)"
  shows "\<exists>seed. OpenSeed meta (Inr c) (\<lambda>_. IoOk) = Inr seed \<and> tfile seed = Some c \<and> \<not> running seed \<and> wf_ps (pieces seed) \<and>
    ps_info (pieces seed) = MInfo meta \<and> (\<forall>i < length (ps_states (pieces seed)). Complete (ps_states (pieces seed) ! i))"
proof -
  have v: "valid_info (MInfo meta)" "length (PieceHashes (MInfo meta)) < 2 ^ 32"
    using assms by (auto simp: published_def)
  obtain p where p: "NewPieceSet (MInfo meta) = Inr p"
    using NewPieceSet_valid_info [OF v(1)] assms by (auto simp: published_def)
  then obtain t0 where n: "new_Torrent meta = Inr t0" and t0: "pieces t0 = p" "\<not> running t0" by (simp add: new_Torrent_def)
  note N = wf_t_new [OF n v]
  have wf: "wf_ps p" using wf_t_ps [OF N(1)] t0 by simp
  have "\<exists>ps. verifyExisting_loop [0..<length (ps_states p)] p c (\<lambda>_. IoOk) = (None, ps)"
  proof (rule verifyExisting_loop_ok)
    show "\<forall>i \<in> set [0..<length (ps_states p)]. i < length (ps_states p) \<and>
      length (piece_bytes p c i) = plen_at p i \<and> sha1_Sum (piece_bytes p c i) = PieceHashes (ps_info p) ! i"
      using published_piece [OF assms wf_ps_geometry [OF wf]] N(3) t0 by simp
  qed (use wf in simp)
  then obtain ps where ps: "verifyExisting_loop [0..<length (ps_states p)] p c (\<lambda>_. IoOk) = (None, ps)" by blast
  then have o: "OpenSeed meta (Inr c) (\<lambda>_. IoOk) = Inr (t0\<lparr>pieces := ps, tfile := Some c\<rparr>)"
    by (simp add: OpenSeed_def n ps_VerifyExisting_def t0)
  have d: "\<forall>st \<in> set (ps_states p). Data st = None" using N(2) t0 by (auto simp: newPieceState_def)
  have V: "wf_ps ps \<and> length (ps_states ps) = length (ps_states p) \<and> (\<forall>i < length (ps_states p). Complete (ps_states ps ! i))"
    using verifyExisting_loop_None [OF wf verified_fresh _ d ps] N(2) t0 by simp
  have "ps_info ps = MInfo meta" using verifyExisting_loop_info [OF ps] N(3) t0 by simp
  then show ?thesis using o V t0(2) by (intro exI [of _ "t0\<lparr>pieces := ps, tfile := Some c\<rparr>"]) simp
qed

subsection \<open>Blocks on both sides\<close>

lemma wf_geometry_hashes: "wf_geometry p \<Longrightarrow> length (ps_states p) = length (PieceHashes (ps_info p))"
  by (simp add: wf_geometry_def)

lemma ps_blockRequest_info:
  assumes "wf_geometry p" and "wf_geometry p'" and "ps_info p = ps_info p'"
  shows "ps_blockRequest p = ps_blockRequest p'"
proof -
  have l: "length (ps_states p) = length (ps_states p')"
    using wf_geometry_hashes [OF assms(1)] wf_geometry_hashes [OF assms(2)] assms(3) by metis
  have "ps_PieceLength p = ps_PieceLength p'"
    by (intro ext) (unfold ps_PieceLength_def l assms(3), rule refl)
  then show ?thesis by (simp add: fun_eq_iff ps_blockRequest_def)
qed

lemma good_block_info:
  "wf_geometry p \<Longrightarrow> wf_geometry p' \<Longrightarrow> ps_info p = ps_info p' \<Longrightarrow> good_block p = good_block p'"
  using ps_blockRequest_info [of p p'] by (simp add: good_block_def fun_eq_iff)

text \<open>The bytes of a block request are its block of the piece.\<close>

lemma block_bytes:
  assumes "wf_geometry p" and "good_block p q data" and "length (piece_bytes p c (unat (PieceIndex q))) = plen_at p (unat (PieceIndex q))"
  shows "take (unat (BlockLength q)) (drop (block_pos p q) c) = block_of (piece_bytes p c (unat (PieceIndex q))) (block_no q)"
proof -
  let ?i = "unat (PieceIndex q)"
  note f = good_block_facts [OF assms(1,2)]
  have l: "unat (BlockLength q) = plen (plen_at p ?i) 16384 (block_no q)" using assms(2) f(3) by (simp add: good_block_def)
  have "plen (plen_at p ?i) 16384 (block_no q) \<le> plen_at p ?i - block_no q * 16384" by (simp add: plen_def)
  then have "take (plen (plen_at p ?i) 16384 (block_no q)) (drop (block_no q * 16384) (piece_bytes p c ?i)) =
      take (plen (plen_at p ?i) 16384 (block_no q)) (drop (?i * ps_psize p + block_no q * 16384) c)"
    by (simp add: piece_bytes_def drop_take min_def add.commute)
  then show ?thesis using l assms(3) f(4) by (simp add: block_of_def block_pos_def)
qed

text \<open>A seed answers every request for a block, with the right bytes.\<close>

lemma seed_serves:
  assumes "published c info" and "wf_geometry p" and "ps_info p = info"
    and "\<forall>i < length (ps_states p). Complete (ps_states p ! i)"
    and "ps_blockRequest p (PieceIndex q) (Begin q) = Inr q"
  shows "ps_ReadBlock p q (Some c) IoOk = Inr (block_of (piece_bytes p c (unat (PieceIndex q))) (block_no q))"
proof -
  let ?i = "unat (PieceIndex q)"
  have w: "?i < length (ps_states p)" by (rule good_block_pos(1) [OF assms(2,5)])
  have c: "ps_IsComplete p (PieceIndex q)" using w assms(2,4) by (simp add: ps_IsComplete_def less_count32)
  let ?data = "take (unat (BlockLength q)) (drop (block_pos p q) c)"
  have g: "good_block p q (replicate (unat (BlockLength q)) 0)" using assms(5) by (simp add: good_block_def)
  note P = published_piece(1) [OF assms(1-3) w]
  note B = block_bytes [OF assms(2) g P]
  have "length ?data = unat (BlockLength q)"
    using B P good_block_facts(3) [OF assms(2) g] good_block_facts(2) [OF assms(2) g]
    by (simp add: block_of_def plen_def)
  then show ?thesis
    using ps_ReadBlock_complete [OF assms(2,5) c, of c IoOk] B by (simp add: file_ReadAt_def Let_def)
qed


lemma seed_answers:
  assumes "published c info" and "wf_geometry s" and "ps_info s = info"
    and "\<forall>i < length (ps_states s). Complete (ps_states s ! i)" and "wf_geometry p" and "ps_info p = info"
    and "ps_blockRequest p (PieceIndex q) (Begin q) = Inr q"
  shows "ps_ReadBlock s q (Some c) IoOk = Inr (take (unat (BlockLength q)) (drop (block_pos p q) c))"
proof -
  have e: "ps_info p = ps_info s" using assms(3,6) by simp
  have r: "ps_blockRequest s (PieceIndex q) (Begin q) = Inr q"
    using assms(7) ps_blockRequest_info [OF assms(5,2) e] by simp
  have w: "unat (PieceIndex q) < length (ps_states s)" by (rule good_block_pos(1) [OF assms(2) r])
  have g: "good_block s q (replicate (unat (BlockLength q)) 0)" using r by (simp add: good_block_def)
  have "block_pos p q = block_pos s q" using e by (simp add: block_pos_def)
  then show ?thesis
    using seed_serves [OF assms(1-4) r] block_bytes [OF assms(2) g published_piece(1) [OF assms(1-3) w]] by simp
qed

text \<open>What a seed reads for a request is the block of the published piece, for every view of the content.\<close>

lemma read_block_of:
  assumes "published c info" and "wf_geometry s" and "ps_info s = info" and "wf_geometry p" and "ps_info p = info"
    and "ps_ReadBlock s q (Some c) IoOk = Inr data"
  shows "good_block p q data" and "data = block_of (piece_bytes p c (unat (PieceIndex q))) (block_no q)"
proof -
  have e: "ps_info s = ps_info p" using assms(3,5) by simp
  note R = ps_ReadBlock_Inr [OF assms(2,6)]
  have w: "unat (PieceIndex q) < length (ps_states s)" by (rule good_block_facts(1) [OF assms(2) R(2)])
  have "data = block_of (piece_bytes s c (unat (PieceIndex q))) (block_no q)"
    using R(3) block_bytes [OF assms(2) R(2) published_piece(1) [OF assms(1-3) w]] by simp
  then show "good_block p q data" "data = block_of (piece_bytes p c (unat (PieceIndex q))) (block_no q)"
    using R(2) unfolding good_block_info [OF assms(2,4) e] piece_bytes_info [OF e] by simp_all
qed

subsection \<open>Downloading one piece\<close>

lemma store_blocks_info:
  assumes "wf_ps p" and "\<forall>(q, data) \<in> set qs. length data < 2 ^ 32"
  shows "wf_ps (store_blocks p qs) \<and> ps_info (store_blocks p qs) = ps_info p"
  using assms
proof (induction qs arbitrary: p)
  case Nil
  then show ?case by (simp add: store_blocks_def)
next
  case (Cons qd qs)
  obtain q d where qd: "qd = (q, d)" by (cases qd)
  let ?p = "snd (ps_StoreBlock p q d)"
  have l: "length d < 2 ^ 32" using Cons.prems(2) qd by simp
  have e: "store_blocks p (qd # qs) = store_blocks ?p qs" by (simp add: store_blocks_def qd)
  have "wf_ps ?p" by (rule wf_ps_StoreBlock [OF Cons.prems(1) l])
  then show ?case
    using Cons.IH [of ?p] Cons.prems(2) ps_StoreBlock_frame(1) [OF Cons.prems(1) l, of q] unfolding e by simp
qed

lemma block_bytes_short: "wf_geometry p \<Longrightarrow> good_block p q data \<Longrightarrow> length data < 2 ^ 32"
  using unsigned_less [of "BlockLength q", where 'a = nat] by (simp add: good_block_def)

text \<open>The answers of a seed \<open>s\<close> to requests for blocks of the piece \<open>w\<close>: every pair is a request with its answer, and
  every request that the piece has is among them.\<close>

definition answered :: "PieceSet \<Rightarrow> byte list \<Rightarrow> PieceSet \<Rightarrow> uint32 \<Rightarrow> (BlockRequest \<times> byte list) list \<Rightarrow> bool" where
  "answered s c p w qs \<longleftrightarrow>
     (\<forall>(q, data) \<in> set qs. ps_ReadBlock s q (Some c) IoOk = Inr data) \<and>
     (\<forall>b q. ps_blockRequest p w b = Inr q \<longrightarrow> q \<in> fst ` set qs)"

lemma answered_data:
  assumes "published c info" and "wf_geometry s" and "ps_info s = info" and "wf_geometry p" and "ps_info p = info"
    and "answered s c p w qs" and "(q, data) \<in> set qs"
  shows "good_block p q data \<and> data = block_of (piece_bytes p c (unat (PieceIndex q))) (block_no q)"
  using read_block_of [OF assms(1-5)] assms(6,7) unfolding answered_def by blast

lemma answered_covers:
  assumes "wf_geometry p" and "unat w < length (ps_states p)" and "answered s c p w qs"
    and "k < pcount (plen_at p (unat w)) 16384"
  shows "\<exists>(q, data) \<in> set qs. unat (PieceIndex q) = unat w \<and> block_no q = k"
proof -
  note r = ps_blockRequest_no [OF assms(1,2,4)]
  have "request_no p w k \<in> fst ` set qs" using r(1) assms(3) unfolding answered_def by blast
  then obtain data where d: "(request_no p w k, data) \<in> set qs" by auto
  have "PieceIndex (request_no p w k) = w" "Begin (request_no p w k) = of_nat k * blockSize"
    using r(1) by (auto simp: ps_blockRequest_Inr)
  then show ?thesis using d r(2) by (intro bexI [OF _ d]) (simp add: block_no_def)
qed

lemma download_piece:
  assumes "published c info" and "wf_geometry s" and "ps_info s = info"
    and "wf_ps p" and "ps_info p = info" and "unat w < length (ps_states p)"
    and "\<not> Complete (ps_states p ! unat w)" and "Data (ps_states p ! unat w) = None"
    and "answered s c p w qs"
  shows "\<exists>p' f'. ps_VerifyAndWrite (store_blocks p qs) w (Some f) IoOk = (None, p', Some f') \<and>
    ps_IsComplete p' w \<and> piece_bytes p' f' (unat w) = piece_bytes s c (unat w)"
proof -
  let ?c = "piece_bytes p c (unat w)" and ?p = "store_blocks p qs"
  have geo: "wf_geometry p" using assms(4) by simp
  note P = published_piece [OF assms(1) geo assms(5,6)]
  note A = answered_data [OF assms(1-3) geo assms(5,9)]
  have blocks: "\<forall>(q, data) \<in> set qs. length data < 2 ^ 32 \<and>
      (good_block p q data \<and> unat (PieceIndex q) = unat w \<longrightarrow> data = block_of ?c (block_no q))"
    using A block_bytes_short [OF geo] by fastforce
  have cover: "\<forall>k < pcount (length ?c) 16384.
      \<exists>(q, data) \<in> set qs. good_block p q data \<and> unat (PieceIndex q) = unat w \<and> block_no q = k"
    using answered_covers [OF geo assms(6,9)] A P(1) by fastforce
  have R: "Data (ps_states ?p ! unat w) = Some ?c" "allBlocksReceived (ps_states ?p ! unat w)"
    using store_blocks_ready [OF assms(4) _ assms(7,8) P(1) blocks cover] assms(6) by (simp_all add: ps_Count_def)
  have I: "wf_ps ?p" "ps_info ?p = ps_info p" using store_blocks_info [OF assms(4), of qs] blocks by fastforce+
  have n: "length (ps_states ?p) = length (ps_states p)"
    using wf_geometry_hashes [of ?p] wf_geometry_hashes [OF geo] I by simp
  have w: "unat w < length (ps_states ?p)" using n assms(6) by simp
  obtain off where o: "off = unat w * ps_psize ?p" by blast
  have off: "ps_PieceOffset ?p w = Inr (int off)" unfolding o by (rule ps_PieceOffset_in [OF wf_ps_geometry [OF I(1)] w])
  have h: "\<not> w \<ge> count32 ?p" "\<not> length (PieceHashes (ps_info ?p)) \<le> unat w"
    using w ge_count32 [OF wf_ps_geometry [OF I(1)]] wf_geometry_hashes [OF wf_ps_geometry [OF I(1)]] by auto
  have d: "sha1_Sum ?c = PieceHashes (ps_info ?p) ! unat w" using P(2) I(2) assms(5) by simp
  let ?q = "set_state ?p w ((ps_states ?p ! unat w)\<lparr>Complete := True, Data := None, Received := []\<rparr>)"
  have V: "ps_VerifyAndWrite ?p w (Some f) IoOk = (None, ?q, Some (file_put f off ?c))"
    using R h d by (simp add: ps_VerifyAndWrite_def off file_WriteAt_def Let_def)
  have "ps_info ?q = ps_info s" using I(2) assms(3,5) by simp
  then have e: "piece_bytes ?q = piece_bytes s" by (rule piece_bytes_info)
  have "piece_bytes ?q (file_put f off ?c) (unat w) = ?c"
    unfolding o using piece_bytes_own [of ?c ?p "unat w" f] P(1) plen_at_info [OF I(2)] by simp
  moreover have "?c = piece_bytes s c (unat w)" using piece_bytes_info [of p s] assms(3,5) by simp
  moreover have "ps_IsComplete ?q w"
    using w ge_count32 [OF wf_ps_geometry [OF I(1)], of w] by (simp add: ps_IsComplete_def set_state_nth not_le)
  ultimately show ?thesis using V by auto
qed

subsection \<open>A finished download\<close>

text \<open>The pieces determine the content.\<close>

lemma piece_bytes_nth:
  assumes "length (piece_bytes p f i) = plen_at p i" and "k < plen_at p i"
  shows "i * ps_psize p + k < length f" and "piece_bytes p f i ! k = f ! (i * ps_psize p + k)"
  using assms by (auto simp: piece_bytes_def)

lemma pieces_determine:
  assumes "wf_geometry p" and "length c = ps_total p"
    and "\<forall>i < length (ps_states p). length (piece_bytes p c i) = plen_at p i \<and> piece_bytes p f i = piece_bytes p c i"
  shows "take (length c) f = c"
proof -
  have at: "j < length f \<and> f ! j = c ! j" if j: "j < length c" for j
  proof -
    let ?P = "ps_psize p"
    let ?i = "j div ?P" and ?k = "j mod ?P"
    have P: "0 < ?P" using assms(1) by (simp add: wf_geometry_def)
    have e: "?i * ?P + ?k = j" by simp
    then have "?i * ?P < length c \<or> ?k = 0 \<and> ?i * ?P = j" using j by linarith
    then have "?i * ?P < length c" using j by auto
    then have i: "?i < length (ps_states p)" using assms(1,2) P by (simp add: wf_geometry_def less_pcount)
    have k: "?k < plen_at p ?i" using j P assms(2) less_diff_conv [of ?k "ps_total p" "?i * ?P"] e
      by (simp add: plen_at_def plen_def add.commute)
    have p: "length (piece_bytes p c ?i) = plen_at p ?i" "length (piece_bytes p f ?i) = plen_at p ?i"
      "piece_bytes p f ?i = piece_bytes p c ?i"
      using assms(3) i by auto
    show ?thesis
      using piece_bytes_nth [OF p(1) k] piece_bytes_nth [OF p(2) k] p(3) unfolding e by simp
  qed
  then have "length c \<le> length f" by (cases "length c") (auto simp: Suc_le_eq)
  then show ?thesis using at by (intro nth_equalityI) auto
qed

lemma all_Complete:
  assumes "wf_geometry p" and "\<forall>i < length (ps_states p). Complete (ps_states p ! i)"
  shows "ps_Complete p = Inr True"
proof -
  have "bytes_missing p = 0" using assms(2) bytes_missing_0 [OF assms(1)] by (auto simp: in_set_conv_nth)
  then show ?thesis by (simp add: ps_Complete_def ps_BytesLeft_exact [OF assms(1)])
qed

lemma ps_Complete_all:
  assumes "wf_geometry p" and "ps_Complete p = Inr True"
  shows "\<forall>i < length (ps_states p). Complete (ps_states p ! i)"
proof -
  have "bytes_missing p < 2 ^ 64"
    using bytes_missing_le [OF assms(1)] assms(1) by (auto simp: wf_geometry_def in_int64_def)
  then have "unat (of_nat (bytes_missing p) :: uint64) = bytes_missing p" by (simp add: unat_of_nat_small)
  moreover have "(of_nat (bytes_missing p) :: uint64) = 0"
    using assms(2) by (simp add: ps_Complete_def ps_BytesLeft_exact [OF assms(1)])
  ultimately have "bytes_missing p = 0" by simp
  then show ?thesis using bytes_missing_0 [OF assms(1)] by simp
qed

lemma complete_content:
  assumes "published c info" and "wf_geometry p" and "ps_info p = info" and "verified p f"
    and "ps_Complete p = Inr True"
  shows "take (length c) f = c \<or>
    (\<exists>i < ps_Count p. piece_bytes p f i \<noteq> piece_bytes p c i \<and> sha1_Sum (piece_bytes p f i) = sha1_Sum (piece_bytes p c i))"
proof (cases "\<forall>i < length (ps_states p). piece_bytes p f i = piece_bytes p c i")
  case True
  have "length c = ps_total p" using assms(1,3) by (simp add: published_def)
  then show ?thesis
    using pieces_determine [OF assms(2)] published_piece(1) [OF assms(1-3)] True by blast
next
  case False
  then obtain i where i: "i < length (ps_states p)" "piece_bytes p f i \<noteq> piece_bytes p c i" by blast
  then have "sha1_Sum (piece_bytes p f i) = PieceHashes info ! i"
    using assms(3,4) ps_Complete_all [OF assms(2,5)] by (simp add: verified_def)
  then show ?thesis using i published_piece(2) [OF assms(1-3) i(1)] by (auto simp: ps_Count_def)
qed

subsection \<open>Finding each other\<close>

text \<open>The server after a session has announced to it.\<close>

definition server_after :: "library \<Rightarrow> Server \<Rightarrow> Torrent \<Rightarrow> RunConfig \<Rightarrow> gostring \<Rightarrow> gostring \<Rightarrow> int \<Rightarrow> Server" where
  "server_after lib s t config event remote now =
     (case ps_BytesLeft (pieces t) of
        Inl _ \<Rightarrow> s
      | Inr left \<Rightarrow>
     case buildAnnounceUrl (url_Parse lib) (Announce (Meta t)) (announce_request t config event left) of
        Inl _ \<Rightarrow> s
      | Inr url \<Rightarrow>
          snd (ServeHTTP (netip lib) s
            \<lparr>hr_Method = bytes_of ''GET'', hr_RawQuery = RawQuery url, RemoteAddr = remote\<rparr> now))"

text \<open>A session that can announce: what \<^verbatim>\<open>parseAnnounceRequest\<close> asks of a request.\<close>

definition can_announce :: "library \<Rightarrow> Torrent \<Rightarrow> RunConfig \<Rightarrow> bool" where
  "can_announce lib t config \<longleftrightarrow>
     wf_t t \<and> length (MInfoHash (Meta t)) = 20 \<and> length (rc_PeerID config) = 20 \<and> rc_Port config \<noteq> 0 \<and>
     (case url_Parse lib (Announce (Meta t)) of
        None \<Rightarrow> False
      | Some base \<Rightarrow> length (v_pairs (url_Query (RawQuery base))) + 8 \<le> maxQueryParams)"

text \<open>A session's announce is the server's, up to the encoding.\<close>

lemma t_announce_served:
  assumes "can_announce lib t config" and "event \<in> {[], StartedEvent, CompletedEvent, StoppedEvent}"
    and "wf_server s" and "sv_allows s (MInfoHash (Meta t))" and "ParseAddrPort (netip lib) remote = Some (a, port)"
    and "sv_interval s = n * second" "0 \<le> n" "sv_interval s < 2 ^ 63"
    and "\<forall>pid e. view s now (MInfoHash (Meta t)) pid = Some e \<longrightarrow> snd (Address e) \<noteq> 0"
    and "http_Do tr = served (netip lib) s remote now"
  shows "\<exists>r. ar_InfoHash r = MInfoHash (Meta t) \<and> ar_PeerID r = rc_PeerID config \<and> ar_Port r = rc_Port config \<and>
    ar_Event r = event \<and> server_after lib s t config event remote now = snd (sv_announce s r (Unmap a) now) \<and>
    t_announce lib tr t config event = Some (Inr \<lparr>Interval = sv_interval s,
      Peers = map compact_view (filter (\<lambda>p. Is4 (tp_IP p)) (Peers (fst (sv_announce s r (Unmap a) now))))\<rparr>)"
proof -
  have wf: "wf_t t" using assms(1) by (simp add: can_announce_def)
  obtain left where l: "ps_BytesLeft (pieces t) = Inr left"
    using ps_BytesLeft_exact [OF wf_ps_geometry [OF wf_t_ps [OF wf]]] by blast
  let ?r = "announce_request t config event left"
  obtain base where b: "url_Parse lib (Announce (Meta t)) = Some base"
    "length (v_pairs (url_Query (RawQuery base))) + 8 \<le> maxQueryParams"
    using assms(1) by (auto simp: can_announce_def split: option.splits)
  obtain resp s' where sv: "sv_announce s ?r (Unmap a) now = (resp, s')" by fastforce
  have r: "valid_request ?r" "ar_Compact ?r" "ar_InfoHash ?r = MInfoHash (Meta t)" "ar_PeerID ?r = rc_PeerID config"
    "ar_Port ?r = rc_Port config" "ar_Event ?r = event"
    using assms(1,2) by (auto simp: valid_request_def announce_request_def can_announce_def)
  have al: "sv_allows s (ar_InfoHash ?r)" using assms(4) r(3) by simp
  have v: "\<forall>pid e. view s now (ar_InfoHash ?r) pid = Some e \<longrightarrow> snd (Address e) \<noteq> 0" using assms(9) r(3) by simp
  have E: "tracker_Announce (netip lib) (url_Parse lib) (served (netip lib) s remote now) (Announce (Meta t)) ?r =
      Inr \<lparr>Interval = sv_interval s, Peers = map compact_view (filter (\<lambda>p. Is4 (tp_IP p)) (Peers resp))\<rparr>"
    "\<exists>url. buildAnnounceUrl (url_Parse lib) (Announce (Meta t)) ?r = Inr url \<and>
     snd (ServeHTTP (netip lib) s \<lparr>hr_Method = bytes_of ''GET'', hr_RawQuery = RawQuery url, RemoteAddr = remote\<rparr> now) = s'"
    using announce_end_to_end [where url_Parse = "url_Parse lib" and u = "Announce (Meta t)", OF assms(3) r(1,2) al b assms(5-8) v sv] by simp_all
  then show ?thesis
    using l r(3-6) sv assms(10) by (intro exI [of _ ?r]) (auto simp: server_after_def t_announce_def)
qed

lemma NewServer_facts:
  assumes "NewServer config = Inr s"
  shows "wf_server s" "swarms s = []" "sv_interval s = sv_interval s div second * second" "0 < sv_interval s"
    "sv_interval s = AnnounceInterval config"
  using assms by (auto simp: NewServer_def Config_Validate_def wf_server_def split: option.splits if_splits)

text \<open>The first announce to a fresh server leaves exactly one entry.\<close>

lemma first_announce:
  assumes "swarms s = []" and "ar_Event r \<noteq> StoppedEvent" and "sv_announce s r a now = (resp, s')"
  shows "swarm_of s' (ar_InfoHash r) = [(ar_PeerID r, entry_of r a now)]" and "peerTTL s' = peerTTL s"
    and "sv_interval s' = sv_interval s" and "allowedInfoHashes s' = allowedInfoHashes s"
proof -
  have "swarm_of (pruneSwarmLocked s (ar_InfoHash r) now) (ar_InfoHash r) = []"
    using assms(1) swarm_of_prune [of s "ar_InfoHash r" now "ar_InfoHash r"] by (simp add: swarm_of_def [of s])
  then show "swarm_of s' (ar_InfoHash r) = [(ar_PeerID r, entry_of r a now)]"
    using sv_announce_eq(1) [OF assms(3)] assms(2) by (simp add: swarm_of_store)
  show "peerTTL s' = peerTTL s" "sv_interval s' = sv_interval s" "allowedInfoHashes s' = allowedInfoHashes s"
    using sv_announce_eq(1) [OF assms(3)] by (simp_all add: pruneSwarmLocked_def Let_def)
qed

lemma second_announce:
  assumes "swarm_of s h = [(pid, e)]" and "\<not> expired s now e" and "ar_InfoHash r = h" and "ar_PeerID r \<noteq> pid"
    and "sv_announce s r a now = (resp, s')"
  shows "Peers resp = [\<lparr>tp_PeerID = pid, tp_IP = fst (Address e), tp_Port = snd (Address e)\<rparr>]"
    and "view s now h pid' = (if pid' = pid then Some e else None)"
  using sv_announce_eq(2) [OF assms(5)] assms by (auto simp: others_def view_def maxPeersPerAnnounce_def)

lemma discovery:
  assumes "NewServer config = Inr s" "in_int64 (AnnounceInterval config)" and "sv_allows s (MInfoHash (Meta t1))"
    and "can_announce lib t1 c1" and "can_announce lib t2 c2" and "MInfoHash (Meta t2) = MInfoHash (Meta t1)"
    and "rc_PeerID c1 \<noteq> rc_PeerID c2"
    and "ParseAddrPort (netip lib) remote1 = Some (a1, port1)" and "ParseAddrPort (netip lib) remote2 = Some (a2, port2)"
    and "Is4 (Unmap a1)" and "e1 \<in> {[], StartedEvent, CompletedEvent}"
    and "e2 \<in> {[], StartedEvent, CompletedEvent, StoppedEvent}" and "time_Sub now2 now1 \<le> peerTTL s"
    and "http_Do tr1 = served (netip lib) s remote1 now1"
    and "http_Do tr2 = served (netip lib) (server_after lib s t1 c1 e1 remote1 now1) remote2 now2"
  shows "t_announce lib tr1 t1 c1 e1 = Some (Inr \<lparr>Interval = AnnounceInterval config, Peers = []\<rparr>)"
    and "t_announce lib tr2 t2 c2 e2 = Some (Inr \<lparr>Interval = AnnounceInterval config,
      Peers = [\<lparr>tp_PeerID = replicate 20 0, tp_IP = Unmap a1, tp_Port = rc_Port c1\<rparr>]\<rparr>)"
proof -
  let ?h = "MInfoHash (Meta t1)" and ?s1 = "server_after lib s t1 c1 e1 remote1 now1"
  note N = NewServer_facts [OF assms(1)]
  define n where "n = sv_interval s div second"
  have i: "sv_interval s = n * second" "0 \<le> n" "sv_interval s < 2 ^ 63"
    using N(3-5) assms(2) by (auto simp: n_def in_int64_def)
  have empty: "swarm_of s h = []" for h using N(2) by (simp add: swarm_of_def)
  have stopped: "e1 \<noteq> StoppedEvent"
    using assms(11) by (auto simp: StartedEvent_def CompletedEvent_def StoppedEvent_def bytes_of_def)
  have v0: "\<forall>pid e. view s now1 ?h pid = Some e \<longrightarrow> snd (Address e) \<noteq> 0" by (simp add: view_def empty)
  obtain r1 where r1: "ar_InfoHash r1 = ?h" "ar_PeerID r1 = rc_PeerID c1" "ar_Port r1 = rc_Port c1" "ar_Event r1 = e1"
    "?s1 = snd (sv_announce s r1 (Unmap a1) now1)"
    and A1: "t_announce lib tr1 t1 c1 e1 = Some (Inr \<lparr>Interval = sv_interval s,
      Peers = map compact_view (filter (\<lambda>p. Is4 (tp_IP p)) (Peers (fst (sv_announce s r1 (Unmap a1) now1))))\<rparr>)"
    using t_announce_served [OF assms(4) _ N(1) assms(3) assms(8) i v0 assms(14)] assms(11) by blast
  obtain resp1 where s1: "sv_announce s r1 (Unmap a1) now1 = (resp1, ?s1)" using r1(5) by (metis prod.collapse)
  have "Peers resp1 = []" using sv_announce_eq(2) [OF s1] empty by (simp add: others_def)
  then show "t_announce lib tr1 t1 c1 e1 = Some (Inr \<lparr>Interval = AnnounceInterval config, Peers = []\<rparr>)"
    using A1 s1 N(5) by simp
  note F = first_announce [OF N(2) _ s1, unfolded r1(1-4), OF stopped]
  let ?e = "entry_of r1 (Unmap a1) now1"
  have live: "\<not> expired ?s1 now2 ?e" using F(2) assms(13) by (simp add: expired_def entry_of_def)
  have wf1: "wf_server ?s1" using wf_server_announce [OF N(1), of r1 "Unmap a1" now1] s1 by simp
  have al: "sv_allows ?s1 (MInfoHash (Meta t2))" using assms(3,6) F(4) by (simp add: sv_allows_def)
  have i1: "sv_interval ?s1 = n * second" "sv_interval ?s1 < 2 ^ 63" using i F(3) by simp_all
  have port: "rc_Port c1 \<noteq> 0" using assms(4) by (simp add: can_announce_def)
  have v1: "\<forall>pid e. view ?s1 now2 (MInfoHash (Meta t2)) pid = Some e \<longrightarrow> snd (Address e) \<noteq> 0"
    using F(1) live port assms(6) by (simp add: view_def entry_of_def r1(3))
  obtain r2 where r2: "ar_InfoHash r2 = MInfoHash (Meta t2)" "ar_PeerID r2 = rc_PeerID c2"
    and A2: "t_announce lib tr2 t2 c2 e2 = Some (Inr \<lparr>Interval = sv_interval ?s1,
      Peers = map compact_view (filter (\<lambda>p. Is4 (tp_IP p)) (Peers (fst (sv_announce ?s1 r2 (Unmap a2) now2))))\<rparr>)"
    using t_announce_served [OF assms(5,12) wf1 al assms(9) i1(1) i(2) i1(2) v1 assms(15)] by blast
  obtain resp2 s2 where s2: "sv_announce ?s1 r2 (Unmap a2) now2 = (resp2, s2)" by fastforce
  have "Peers resp2 = [\<lparr>tp_PeerID = rc_PeerID c1, tp_IP = Unmap a1, tp_Port = rc_Port c1\<rparr>]"
    using second_announce(1) [OF F(1) live _ _ s2] r2 assms(6,7) by (simp add: entry_of_def r1(3))
  then show "t_announce lib tr2 t2 c2 e2 = Some (Inr \<lparr>Interval = AnnounceInterval config,
      Peers = [\<lparr>tp_PeerID = replicate 20 0, tp_IP = Unmap a1, tp_Port = rc_Port c1\<rparr>]\<rparr>)"
    using A2 s2 F(3) N(5) assms(10) by (simp add: compact_view_def)
qed

end
