(* ===== verification/Completion.thy ===== *)
theory Completion
  imports Distribution
begin

text \<open>
  A download from one seed ends.  What is missing of a content is a finite set of blocks; every answer of the seed
  takes one of them away, and while there are any the session has asked for some.
\<close>

subsection \<open>What is missing\<close>

definition missing :: "PieceSet \<Rightarrow> (nat \<times> nat) set" where
  "missing p = {(i, k). i < length (ps_states p) \<and> \<not> Complete (ps_states p ! i) \<and>
     k < pcount (plen_at p i) 16384 \<and> \<not> has_block p i k}"

text \<open>Everything held so far is from \<open>c\<close>, and no piece whose blocks have all arrived is left unwritten.\<close>

definition from_content :: "byte list \<Rightarrow> PieceSet \<Rightarrow> osfile \<Rightarrow> bool" where
  "from_content c p f \<longleftrightarrow> (\<forall>i < length (ps_states p).
     if Complete (ps_states p ! i) then piece_bytes p f i = piece_bytes p c i
     else agrees (piece_bytes p c i) (ps_states p ! i) \<and> \<not> allBlocksReceived (ps_states p ! i))"

lemma finite_missing: "finite (missing p)"
proof (rule finite_subset)
  show "missing p \<subseteq> (SIGMA i:{..<length (ps_states p)}. {..<pcount (plen_at p i) 16384})" by (auto simp: missing_def)
qed simp

lemma missing_some:
  assumes "wf_ps p" and "i < length (ps_states p)" and "\<not> Complete (ps_states p ! i)" and "\<not> allBlocksReceived (ps_states p ! i)"
  shows "\<exists>k. (i, k) \<in> missing p"
proof -
  let ?st = "ps_states p ! i"
  have n: "0 < plen_at p i" using plen_at_pos [OF wf_ps_geometry [OF assms(1)] assms(2)] .
  then have pos: "0 < pcount (plen_at p i) 16384" by (simp add: less_pcount)
  show ?thesis
  proof (cases "Data ?st")
    case None
    then show ?thesis using assms(2,3) pos by (auto simp: missing_def has_block_def)
  next
    case (Some d)
    then have w: "length d = plen_at p i" "length (Received ?st) = pcount (plen_at p i) 16384"
      using wf_ps_state [OF assms(1,2)] assms(3) by (auto simp: wf_state_def)
    then have "\<not> list_all (\<lambda>r. r) (Received ?st)" using assms(4) Some n pos by (auto simp: allBlocksReceived_def)
    then obtain k where "k < length (Received ?st)" "\<not> Received ?st ! k" by (auto simp: list_all_length)
    then show ?thesis using assms(2,3) w by (auto simp: missing_def has_block_def)
  qed
qed

lemma missing_empty:
  assumes "wf_ps p" and "from_content c p f" and "missing p = {}"
  shows "\<forall>i < length (ps_states p). Complete (ps_states p ! i)"
  using missing_some [OF assms(1)] assms(2,3) unfolding from_content_def by (metis empty_iff)

subsection \<open>Preparing pieces changes nothing\<close>

definition prepares :: "PieceSet \<Rightarrow> PieceSet \<Rightarrow> bool" where
  "prepares p p' \<longleftrightarrow> ps_info p' = ps_info p \<and> length (ps_states p') = length (ps_states p) \<and>
     (\<forall>i < length (ps_states p). ps_states p' ! i = ps_states p ! i \<or>
        \<not> Complete (ps_states p ! i) \<and> ps_states p' ! i = prepared (plen_at p i) (ps_states p ! i))"

lemma prepares_refl [simp]: "prepares p p"
  by (simp add: prepares_def)

lemma prepared_twice: "prepared n (prepared n st) = prepared n st"
  by (simp add: prepared_def)

lemma prepares_trans: "prepares p p1 \<Longrightarrow> prepares p1 p2 \<Longrightarrow> prepares p p2"
  using plen_at_info [of p1 p] by (fastforce simp: prepares_def prepared_twice)

lemma prepares_set_state:
  assumes "unat w < length (ps_states p)" and "\<not> Complete (ps_states p ! unat w)"
  shows "prepares p (set_state p w (prepared (plen_at p (unat w)) (ps_states p ! unat w)))"
  using assms by (auto simp: prepares_def set_state_nth)

lemma prepares_missing:
  assumes "prepares p p'"
  shows "missing p' = missing p"
proof -
  have "has_block p' i k = has_block p i k" if i: "i < length (ps_states p)" and k: "k < pcount (plen_at p i) 16384" for i k
  proof -
    have "ps_states p' ! i = ps_states p ! i \<or> \<not> Complete (ps_states p ! i) \<and> ps_states p' ! i = prepared (plen_at p i) (ps_states p ! i)"
      using assms i by (simp add: prepares_def)
    then show ?thesis using k by (elim disjE) (auto simp: has_block_def prepared_def)
  qed
  moreover have "Complete (ps_states p' ! i) = Complete (ps_states p ! i)" if "i < length (ps_states p)" for i
    using assms that by (auto simp: prepares_def)
  moreover have "plen_at p' = plen_at p" "length (ps_states p') = length (ps_states p)"
    using assms plen_at_info [of p' p] by (simp_all add: prepares_def)
  ultimately show ?thesis by (auto simp: missing_def)
qed

lemma prepared_not_all:
  assumes "wf_ps p" and "i < length (ps_states p)" and "\<not> allBlocksReceived (ps_states p ! i)"
  shows "\<not> allBlocksReceived (prepared (plen_at p i) (ps_states p ! i))"
proof -
  have "0 < plen_at p i" using plen_at_pos [OF wf_ps_geometry [OF assms(1)] assms(2)] .
  then have "pcount (plen_at p i) 16384 \<noteq> 0" by (simp add: less_pcount)
  then obtain m where "pcount (plen_at p i) 16384 = Suc m" using not0_implies_Suc by blast
  then show ?thesis using assms(3) by (auto simp: prepared_def allBlocksReceived_def)
qed

lemma prepares_content:
  assumes "prepares p p'" and "wf_ps p" and "from_content c p f"
  shows "from_content c p' f"
  unfolding from_content_def
proof (intro allI impI)
  fix i
  assume "i < length (ps_states p')"
  then have i: "i < length (ps_states p)" and e: "ps_info p' = ps_info p"
    and st: "ps_states p' ! i = ps_states p ! i \<or>
      \<not> Complete (ps_states p ! i) \<and> ps_states p' ! i = prepared (plen_at p i) (ps_states p ! i)"
    using assms(1) by (auto simp: prepares_def)
  have b: "piece_bytes p' = piece_bytes p" by (rule piece_bytes_info [OF e])
  have C: "if Complete (ps_states p ! i) then piece_bytes p f i = piece_bytes p c i
     else agrees (piece_bytes p c i) (ps_states p ! i) \<and> \<not> allBlocksReceived (ps_states p ! i)"
    using assms(3) i by (simp add: from_content_def)
  show "if Complete (ps_states p' ! i) then piece_bytes p' f i = piece_bytes p' c i
     else agrees (piece_bytes p' c i) (ps_states p' ! i) \<and> \<not> allBlocksReceived (ps_states p' ! i)"
    using st C agrees_prepared prepared_not_all [OF assms(2) i] unfolding b by (auto split: if_splits)
qed

subsection \<open>An answer\<close>

text \<open>Storing the right bytes of a wanted block.\<close>

lemma answer_stored:
  assumes "wf_ps p" and "from_content c p f" and "wanted p q" and "good_block p q data"
    and "length (piece_bytes p c (unat (PieceIndex q))) = plen_at p (unat (PieceIndex q))"
    and "data = block_of (piece_bytes p c (unat (PieceIndex q))) (block_no q)"
  shows "\<exists>p1. ps_StoreBlock p q data = (Inr (allBlocksReceived (ps_states p1 ! unat (PieceIndex q))), p1) \<and>
    wf_ps p1 \<and> ps_info p1 = ps_info p \<and> length (ps_states p1) = length (ps_states p) \<and>
    (\<forall>j < length (ps_states p). j \<noteq> unat (PieceIndex q) \<longrightarrow> ps_states p1 ! j = ps_states p ! j) \<and>
    \<not> Complete (ps_states p1 ! unat (PieceIndex q)) \<and>
    agrees (piece_bytes p c (unat (PieceIndex q))) (ps_states p1 ! unat (PieceIndex q)) \<and>
    (unat (PieceIndex q), block_no q) \<in> missing p \<and>
    missing p1 = missing p - {(unat (PieceIndex q), block_no q)}"
proof -
  let ?i = "unat (PieceIndex q)" and ?p = "snd (ps_StoreBlock p q data)"
  note w = wanted_facts [OF assms(1,3)]
  have nc: "\<not> Complete (ps_states p ! ?i)" "\<not> has_block p ?i (block_no q)" using assms(3) by (simp_all add: wanted_def)
  have len: "length data < 2 ^ 32" by (rule block_bytes_short [OF wf_ps_geometry [OF assms(1)] assms(4)])
  note S = wanted_stored [OF assms(1,4,3)]
  have st: "ps_StoreBlock p q data = (Inr (allBlocksReceived (ps_states ?p ! ?i)), ?p)"
    using w(1) by (simp add: S Let_def set_state_nth)
  note fr = ps_StoreBlock_frame [OF assms(1) len, where q = q]
  have "agrees (piece_bytes p c ?i) (ps_states p ! ?i)"
    using assms(2) w(1) nc(1) by (auto simp: from_content_def)
  then have a: "agrees (piece_bytes p c ?i) (ps_states ?p ! ?i)"
    using assms(5,6) by (intro agrees_StoreBlock [OF assms(1) len w(1)]) auto
  have pl: "plen_at ?p = plen_at p" by (rule plen_at_info [OF fr(1)])
  obtain d where d: "Data (prepared (plen_at p ?i) (ps_states p ! ?i)) = Some d"
    "length (Received (prepared (plen_at p ?i) (ps_states p ! ?i))) = pcount (plen_at p ?i) 16384"
    using prepared_incomplete [OF wf_ps_state [OF assms(1) w(1)] nc(1)] by blast
  have own: "has_block ?p ?i k \<longleftrightarrow> k = block_no q \<or> has_block p ?i k" if "k < pcount (plen_at p ?i) 16384" for k
  proof -
    have "has_block ?p ?i k \<longleftrightarrow> k = block_no q \<or> Received (prepared (plen_at p ?i) (ps_states p ! ?i)) ! k"
      using w(1) d that by (simp add: S Let_def has_block_def set_state_nth has_block_stored del: not_None_eq)
    then show ?thesis using that nc(1) by (auto simp: has_block_def prepared_def)
  qed
  have "missing ?p = missing p - {(?i, block_no q)}"
  proof -
    have "has_block ?p i k \<longleftrightarrow> (i, k) = (?i, block_no q) \<or> has_block p i k"
      if "i < length (ps_states p)" "k < pcount (plen_at p i) 16384" for i k
      using that own fr(4) [of i] by (cases "i = ?i") (auto simp: has_block_def)
    then show ?thesis using fr(2,3) pl by (auto simp: missing_def)
  qed
  moreover have "(?i, block_no q) \<in> missing p" using w nc by (simp add: missing_def)
  ultimately show ?thesis
    using st wf_ps_StoreBlock [OF assms(1) len, of q] fr a nc(1) w(1) by (intro exI [of _ ?p]) simp
qed

text \<open>Writing a piece whose blocks are all from the content.\<close>

lemma answer_written:
  assumes "published c (ps_info p)" and "wf_ps p" and "unat w < length (ps_states p)"
    and "\<forall>j < length (ps_states p). j \<noteq> unat w \<longrightarrow> (if Complete (ps_states p ! j) then piece_bytes p f j = piece_bytes p c j
      else agrees (piece_bytes p c j) (ps_states p ! j) \<and> \<not> allBlocksReceived (ps_states p ! j))"
    and "agrees (piece_bytes p c (unat w)) (ps_states p ! unat w)" and "allBlocksReceived (ps_states p ! unat w)"
  shows "\<exists>p' f'. ps_VerifyAndWrite p w (Some f) IoOk = (None, p', Some f') \<and> from_content c p' f' \<and>
    missing p' = missing p \<and> length (ps_states p') = length (ps_states p)"
proof -
  let ?c = "piece_bytes p c (unat w)"
  have geo: "wf_geometry p" using assms(2) by simp
  note P = published_piece [OF assms(1) geo refl]
  have d: "Data (ps_states p ! unat w) = Some ?c"
    using agrees_all_received [OF assms(5) _ assms(6)] wf_ps_state [OF assms(2,3)] P(1) [OF assms(3)] by simp
  have "length (Received (ps_states p ! unat w)) = pcount (plen_at p (unat w)) 16384"
    using wf_ps_state [OF assms(2,3)] d received_incomplete [OF assms(2,3,6)] by (auto simp: wf_state_def)
  then have all: "has_block p (unat w) k" if "k < pcount (plen_at p (unat w)) 16384" for k
    using d assms(6) that by (auto simp: has_block_def allBlocksReceived_def list_all_length)
  have h: "\<not> w \<ge> count32 p" "\<not> length (PieceHashes (ps_info p)) \<le> unat w"
    using assms(3) ge_count32 [OF geo] wf_geometry_hashes [OF geo] by auto
  obtain off where o: "off = unat w * ps_psize p" by blast
  have off: "ps_PieceOffset p w = Inr (int off)" unfolding o by (rule ps_PieceOffset_in [OF geo assms(3)])
  let ?p = "set_state p w ((ps_states p ! unat w)\<lparr>Complete := True, Data := None, Received := []\<rparr>)"
  let ?f = "file_put f off ?c"
  have V: "ps_VerifyAndWrite p w (Some f) IoOk = (None, ?p, Some ?f)"
    using h d assms(6) P(2) [OF assms(3)] by (simp add: ps_VerifyAndWrite_def off file_WriteAt_def Let_def)
  have own: "piece_bytes p ?f (unat w) = ?c" unfolding o by (rule piece_bytes_own) (rule P(1) [OF assms(3)])
  have other: "piece_bytes p ?f j = piece_bytes p c j"
    if "j < length (ps_states p)" "j \<noteq> unat w" "piece_bytes p f j = piece_bytes p c j" for j
    unfolding o using piece_bytes_other [OF geo that(1,2), of ?c f] that P(1) [OF that(1)] P(1) [OF assms(3)] by simp
  have "from_content c ?p ?f"
    using assms(4) own other by (simp add: from_content_def set_state_nth)
  moreover have "missing ?p = missing p"
    using all by (auto simp: missing_def set_state_nth has_block_def split: if_splits)
  ultimately show ?thesis using V by auto
qed

subsection \<open>Queues that are drained\<close>

text \<open>The write loop empties a peer's queue before each of the next \<open>n\<close> messages is enqueued.\<close>

definition keeps_up :: "nat \<Rightarrow> nat list \<Rightarrow> bool" where
  "keeps_up n ds \<longleftrightarrow> n \<le> length ds \<and> (\<forall>d \<in> set ds. peerWriteQueueSize \<le> d)"

lemma keeps_up_less: "keeps_up n ds \<Longrightarrow> m \<le> n \<Longrightarrow> keeps_up m ds"
  by (simp add: keeps_up_def)

text \<open>Everything that was ever queued for a peer, in order: what the write loop took and what waits.\<close>

definition wire :: "Torrent \<Rightarrow> pref \<Rightarrow> Message list" where
  "wire t r = taken (heap t ! r) @ outgoing (heap t ! r)"

lemma sendMessage_wire:
  "sendMessage t x m = (None, t') \<Longrightarrow> x < length (heap t) \<Longrightarrow> y < length (heap t) \<Longrightarrow>
   wire t' y = wire t y @ (if y = x then [m] else [])"
  by (auto simp: sendMessage_def tryEnqueue_def Let_def nth_heap_upd_peer wire_def split: if_splits)

text \<open>What sending to peers and filling the window of peer \<open>r\<close> do to a session.\<close>

definition tops_up :: "pref \<Rightarrow> Torrent \<Rightarrow> Torrent \<Rightarrow> bool" where
  "tops_up r t t' \<longleftrightarrow> wf_t t' \<and> prepares (pieces t) (pieces t') \<and> tfile t' = tfile t \<and> peers t' = peers t \<and>
     Meta t' = Meta t \<and> downloadMode t' = downloadMode t \<and> length (heap t') = length (heap t) \<and>
     (\<forall>i < length (heap t). pstate (heap t' ! i) = pstate (heap t ! i) \<and>
        bitfield (heap t' ! i) = bitfield (heap t ! i) \<and> peer_id (heap t' ! i) = peer_id (heap t ! i)) \<and>
     (\<forall>(q, r') \<in> set (pending t'). (q, r') \<in> set (pending t) \<or> r' = r)"

lemma tops_up_refl: "wf_t t \<Longrightarrow> tops_up r t t"
  by (auto simp: tops_up_def)

lemma tops_up_wf: "tops_up r t t' \<Longrightarrow> wf_t t'"
  by (simp add: tops_up_def)

lemma tops_up_trans: "tops_up r t t1 \<Longrightarrow> tops_up r t1 t2 \<Longrightarrow> tops_up r t t2"
  unfolding tops_up_def using prepares_trans by fastforce

lemma sendMessage_drained:
  assumes "wf_t t" and "x < length (heap t)" and "keeps_up (Suc n) (drains t)"
  shows "\<exists>t'. sendMessage t x m = (None, t') \<and> keeps_up n (drains t') \<and> pending t' = pending t \<and> tops_up r t t'"
proof -
  obtain d ds where d: "drains t = d # ds" "peerWriteQueueSize \<le> d" "keeps_up n ds"
    using assms(3) by (cases "drains t") (auto simp: keeps_up_def)
  have "length (outgoing (heap t ! x)) \<le> peerWriteQueueSize"
    using assms(1,2) by (simp add: wf_t_defs)
  then have "length (outgoing (heap t ! x)) \<le> d" using d(2) by simp
  then obtain t' where t': "sendMessage t x m = (None, t')" "drains t' = ds"
    using d(1) assms(2) by (simp add: sendMessage_def tryEnqueue_def Let_def nth_heap_upd_peer peerWriteQueueSize_def)
  have "tops_up r t t'"
    using sendMessage_fields [OF t'(1)] wf_t_sendMessage [OF assms(1,2) t'(1)] by (auto simp: tops_up_def)
  then show ?thesis using t' d(3) sendMessage_pending [OF t'(1)] by auto
qed

lemma broadcast_drained:
  assumes "wf_t t" and "\<forall>(i, x) \<in> set rs. x < length (heap t)" and "keeps_up (length rs + n) (drains t)"
    and "r < length (heap t)"
  shows "keeps_up n (drains (broadcast_loop t rs m)) \<and> pending (broadcast_loop t rs m) = pending t \<and>
    tops_up r t (broadcast_loop t rs m) \<and>
    wire (broadcast_loop t rs m) r = wire t r @ replicate (count_list (map snd rs) r) m"
  using assms
proof (induction rs arbitrary: t)
  case Nil
  then show ?case by (simp add: tops_up_refl)
next
  case (Cons ix rs)
  obtain i x where ix: "ix = (i, x)" by fastforce
  obtain t1 where s: "sendMessage t x m = (None, t1)" "keeps_up (length rs + n) (drains t1)" "pending t1 = pending t"
      "tops_up r t t1"
    using sendMessage_drained [OF Cons.prems(1), of x "length rs + n" m r] Cons.prems(2,3) ix by auto
  have w: "wire t1 r = wire t r @ (if r = x then [m] else [])"
    using sendMessage_wire [OF s(1)] Cons.prems(2,4) ix by auto
  have "length (heap t1) = length (heap t)" using s(4) by (simp add: tops_up_def)
  then have "keeps_up n (drains (broadcast_loop t1 rs m)) \<and> pending (broadcast_loop t1 rs m) = pending t1 \<and>
      tops_up r t1 (broadcast_loop t1 rs m) \<and>
      wire (broadcast_loop t1 rs m) r = wire t1 r @ replicate (count_list (map snd rs) r) m"
    using Cons.IH [OF tops_up_wf [OF s(4)] _ s(2)] Cons.prems(2,4) by auto
  then show ?case using s tops_up_trans [OF s(4)] w by (simp add: ix replicate_append_same)
qed

text \<open>A member hears a broadcast at most once.\<close>

lemma count_list_le_1: "distinct xs \<Longrightarrow> count_list xs x \<le> 1"
  by (induction xs) (auto simp: count_list_0_iff)

lemma member_once:
  assumes "wf_t t"
  shows "count_list (map snd (peers t)) r \<le> 1"
proof (rule count_list_le_1)
  have "distinct (peers t)" using assms by (simp add: wf_t_defs distinct_map)
  moreover have i: "fst a = peer_id (heap t ! snd a)" if "a \<in> set (peers t)" for a
  proof -
    have "\<forall>(i, x) \<in> set (peers t). x < length (heap t) \<and> peer_id (heap t ! x) = i" using assms by (simp add: wf_t_def wf_peers_def)
    from bspec [OF this that] show ?thesis by (simp add: case_prod_beta)
  qed
  have "inj_on snd (set (peers t))" by (intro inj_onI prod_eqI) (simp only: i)
  ultimately show "distinct (map snd (peers t))" by (simp add: distinct_map)
qed

lemma nextMissing_prepares:
  assumes "wf_ps p" and "unat w < length (ps_states p)" and "\<not> Complete (ps_states p ! unat w)"
    and "ps_nextMissingBlock p w isPending = (res, p')"
  shows "prepares p p'"
  using ps_nextMissingBlock_eq [OF assms(1,2), of isPending] prepares_set_state [OF assms(2,3)] assms(4) by (simp add: Let_def)

lemma reserve_loop_prepares:
  assumes "wf_t t" and "\<forall>i \<in> set is. i < ps_Count (pieces t)" and "reserve_loop t r is = (res, t')"
  shows "prepares (pieces t) (pieces t') \<and> tfile t' = tfile t \<and> peers t' = peers t \<and> drains t' = drains t \<and>
    (\<forall>(q, r') \<in> set (pending t'). (q, r') \<in> set (pending t) \<or> r' = r)"
  using assms
proof (induction "is" arbitrary: t)
  case Nil
  then show ?case by auto
next
  case (Cons i "is")
  let ?w = "of_nat i :: uint32"
  have wfp: "wf_ps (pieces t)" and geo: "wf_geometry (pieces t)" and i: "i < length (ps_states (pieces t))"
    using Cons.prems by (auto simp: wf_t_defs ps_Count_def)
  have u: "unat ?w = i" by (rule unat_of_nat_index [OF geo i])
  then have iw: "unat ?w < length (ps_states (pieces t))" using i by simp
  show ?case
  proof (cases "ps_IsComplete (pieces t) ?w \<or> \<not> hasPiece (heap t ! r) ?w")
    case True
    then show ?thesis using Cons by (simp add: Let_def)
  next
    case False
    have nc: "\<not> Complete (ps_states (pieces t) ! unat ?w)"
      using False i by (simp add: ps_IsComplete_def less_count32 [OF geo] u)
    obtain nres ps where e: "ps_nextMissingBlock (pieces t) ?w (\<lambda>q. m_get (pending t) q \<noteq> None) = (nres, ps)"
      by fastforce
    note N = nextMissing_wanted [OF wfp iw nc e] and p1 = nextMissing_prepares [OF wfp iw nc e]
    show ?thesis
    proof (cases "nres = Inr None")
      case True
      have "wf_t (t\<lparr>pieces := ps\<rparr>)" using Cons.prems(1) N by (auto simp: wf_t_defs pendingCount_def)
      then show ?thesis
        using True False Cons.prems e Cons.IH [of "t\<lparr>pieces := ps\<rparr>"] N(3) prepares_trans [OF p1] by (simp add: Let_def)
    next
      case no: False
      then obtain q where q: "nres = Inr (Some q)" using N(6) by (metis option.exhaust)
      have "q \<notin> fst ` set (pending t)"
        using ps_nextMissingBlock_not_pending [OF e [unfolded q]] by (simp add: map_of_eq_None_iff)
      then show ?thesis using False Cons.prems(3) e q p1 by (auto simp: Let_def m_put_fresh)
    qed
  qed
qed

lemma reserve_tops_up:
  assumes "wf_t t" and "r < length (heap t)" and "pendingCount t r < maxPendingPerPeer"
    and "reserveNextRequest t r = (res, t')"
  shows "tops_up r t t' \<and> drains t' = drains t"
proof -
  have "wf_t t' \<and> (\<exists>res'. res = Inr res') \<and> heap t' = heap t \<and> keeps t t'"
    using reserve_loop_inv [OF assms(1-3), of "[0..<ps_Count (pieces t)]" res t'] assms(4) by (simp add: reserveNextRequest_def)
  moreover have "\<forall>i \<in> set [0..<ps_Count (pieces t)]. i < ps_Count (pieces t)" by simp
  ultimately show ?thesis
    using reserve_loop_prepares [OF assms(1) _ assms(4) [unfolded reserveNextRequest_def]] by (simp add: tops_up_def keeps_def)
qed

lemma fill_drained:
  assumes "wf_t t" and "r < length (heap t)" and "keeps_up (maxPendingPerPeer - pendingCount t r) (drains t)"
  shows "\<exists>t'. fill_loop t r = (None, t') \<and> tops_up r t t'"
  using assms
proof (induction t r rule: fill_loop.induct)
  case (1 t r)
  show ?case
  proof (cases "maxPendingPerPeer \<le> pendingCount t r")
    case True
    then show ?thesis using "1.prems"(1) by (simp add: fill_loop.simps [of t] tops_up_refl)
  next
    case False
    obtain rres t1 where e: "reserveNextRequest t r = (rres, t1)" by fastforce
    have R: "wf_t t1 \<and> (\<exists>res'. rres = Inr res') \<and> heap t1 = heap t \<and> keeps t t1"
      using reserve_loop_inv [OF "1.prems"(1,2), of "[0..<ps_Count (pieces t)]" rres t1] False e
      by (simp add: reserveNextRequest_def)
    have A: "tops_up r t t1" "drains t1 = drains t" using reserve_tops_up [OF "1.prems"(1,2) _ e] False by auto
    show ?thesis
    proof (cases "rres = Inr None")
      case True
      then show ?thesis using False e A by (simp add: fill_loop.simps [of t])
    next
      case no: False
      then obtain q where q: "rres = Inr (Some q)" using R by (metis option.exhaust)
      have r1: "r < length (heap t1)" using R "1.prems"(2) by simp
      have "Suc (maxPendingPerPeer - pendingCount t r - 1) = maxPendingPerPeer - pendingCount t r" using False by simp
      then have "keeps_up (Suc (maxPendingPerPeer - pendingCount t r - 1)) (drains t1)"
        using "1.prems"(3) A(2) by (simp only:)
      then obtain t2 where snd: "sendMessage t1 r (Request q) = (None, t2)"
        "keeps_up (maxPendingPerPeer - pendingCount t r - 1) (drains t2)" "tops_up r t1 t2"
        using sendMessage_drained [OF _ r1] R by blast
      have l: "maxPendingPerPeer - pendingCount t2 r < maxPendingPerPeer - pendingCount t r"
        by (rule fill_loop_progress [OF False _ snd(1)]) (simp add: e q)
      have "\<exists>t'. fill_loop t2 r = (None, t') \<and> tops_up r t2 t'"
        using "1.IH" [OF False e [symmetric] q refl snd(1) [symmetric] refl tops_up_wf [OF snd(3)]]
          keeps_up_less [OF snd(2)] l snd(3) r1 by (simp add: tops_up_def)
      moreover have "fill_loop t r = fill_loop t2 r" using False e q snd(1) by (simp add: fill_loop.simps [of t])
      ultimately show ?thesis using tops_up_trans [OF A(1)] tops_up_trans [OF snd(3)] by metis
    qed
  qed
qed

text \<open>Filling the window queues the new requests for the peer.\<close>

lemma reserve_loop_heap: "heap (snd (reserve_loop t r is)) = heap t"
  by (induction "is" arbitrary: t) (auto simp: Let_def split: sum.split option.split prod.split)

lemma reserve_loop_no_pending:
  assumes "reserve_loop t r is = (Inr None, t')"
  shows "pending t' = pending t"
  using assms
proof (induction "is" arbitrary: t)
  case Nil
  then show ?case by simp
next
  case (Cons i "is")
  show ?case
  proof (cases "ps_IsComplete (pieces t) (of_nat i) \<or> \<not> hasPiece (heap t ! r) (of_nat i)")
    case True
    then show ?thesis using Cons by (simp add: Let_def)
  next
    case False
    obtain res ps where e: "ps_nextMissingBlock (pieces t) (of_nat i) (\<lambda>q. m_get (pending t) q \<noteq> None) = (res, ps)"
      by fastforce
    then have "reserve_loop (t\<lparr>pieces := ps\<rparr>) r is = (Inr None, t')"
      using False Cons.prems by (simp add: Let_def split: sum.splits option.splits)
    then show ?thesis using Cons.IH [of "t\<lparr>pieces := ps\<rparr>"] by simp
  qed
qed

lemma fill_loop_wire:
  assumes "fill_loop t r = (None, t')" and "r < length (heap t)"
  shows "\<exists>qs. pending t' = pending t @ map (\<lambda>q. (q, r)) qs \<and> wire t' r = wire t r @ map Request qs"
  using assms
proof (induction t r arbitrary: t' rule: fill_loop.induct)
  case (1 t r)
  show ?case
  proof (cases "maxPendingPerPeer \<le> pendingCount t r")
    case True
    then show ?thesis using "1.prems"(1) by (simp add: fill_loop.simps [of t])
  next
    case False
    obtain rres t1 where e: "reserveNextRequest t r = (rres, t1)" by fastforce
    then have h: "heap t1 = heap t" using reserve_loop_heap [of t r] by (metis reserveNextRequest_def snd_conv)
    show ?thesis
    proof (cases rres)
      case (Inl er)
      then show ?thesis using "1.prems"(1) False e by (simp add: fill_loop.simps [of t])
    next
      case (Inr o1)
      show ?thesis
      proof (cases o1)
        case None
        then have "t' = t1" using "1.prems"(1) False e Inr by (simp add: fill_loop.simps [of t])
        moreover have "pending t1 = pending t"
          using reserve_loop_no_pending e Inr None by (simp add: reserveNextRequest_def)
        ultimately show ?thesis using h by (simp add: wire_def)
      next
        case (Some q)
        obtain sres t2 where snd: "sendMessage t1 r (Request q) = (sres, t2)" by fastforce
        have n: "sres = None" and loop: "fill_loop t2 r = (None, t')"
          using "1.prems"(1) False e Inr Some snd by (auto simp: fill_loop.simps [of t] split: option.splits)
        have r2: "r < length (heap t2)" using sendMessage_fields(6) [OF snd] h "1.prems"(2) by simp
        have "pending t2 = pending t @ [(q, r)]"
          using reserve_loop_Some [of t r "[0..<ps_Count (pieces t)]" q t1] sendMessage_pending [OF snd] e Inr Some
          by (simp add: reserveNextRequest_def)
        moreover have "wire t2 r = wire t r @ [Request q]"
          using sendMessage_wire [of t1 r "Request q" t2 r] snd n h "1.prems"(2) by (simp add: wire_def)
        moreover obtain qs where "pending t' = pending t2 @ map (\<lambda>q. (q, r)) qs" "wire t' r = wire t2 r @ map Request qs"
          using "1.IH" [OF False e [symmetric] Inr Some snd [symmetric] n loop r2] by blast
        ultimately show ?thesis by (intro exI [of _ "q # qs"]) simp
      qed
    qed
  qed
qed

subsection \<open>A session and its seed\<close>

text \<open>Peer \<open>r\<close> is a member that has everything; only it was asked; all that is held is from \<open>c\<close>.\<close>

definition seeded :: "byte list \<Rightarrow> pref \<Rightarrow> Torrent \<Rightarrow> bool" where
  "seeded c r t \<longleftrightarrow> wf_t t \<and> hasPeer t r \<and> downloadMode t \<noteq> downloadModePaused \<and>
     AmInterested (pstate (heap t ! r)) \<and> (\<forall>i < ps_Count (pieces t). hasPiece (heap t ! r) (of_nat i)) \<and>
     (\<forall>(q, r') \<in> set (pending t). r' = r) \<and> (\<exists>f. tfile t = Some f \<and> from_content c (pieces t) f)"

definition asked :: "pref \<Rightarrow> Torrent \<Rightarrow> bool" where
  "asked r t \<longleftrightarrow> pendingCount t r = maxPendingPerPeer \<or> exhausted t r {..<ps_Count (pieces t)}"

definition supplied :: "byte list \<Rightarrow> pref \<Rightarrow> Torrent \<Rightarrow> bool" where
  "supplied c r t \<longleftrightarrow> seeded c r t \<and> \<not> PeerChoking (pstate (heap t ! r)) \<and> asked r t"

lemma seeded_wf: "seeded c r t \<Longrightarrow> wf_t t \<and> r < length (heap t)"
  by (simp add: seeded_def hasPeer_def)

lemma hasPiece_bitfield: "bitfield p = bitfield p' \<Longrightarrow> hasPiece p = hasPiece p'"
  by (simp add: hasPiece_def fun_eq_iff)

lemma seeded_tops_up:
  assumes "seeded c r t" and "tops_up r t t'"
  shows "seeded c r t'" and "missing (pieces t') = missing (pieces t)"
    and "PeerChoking (pstate (heap t' ! r)) = PeerChoking (pstate (heap t ! r))" and "Meta t' = Meta t"
proof -
  have r: "r < length (heap t)" using seeded_wf [OF assms(1)] by blast
  have p: "prepares (pieces t) (pieces t')" using assms(2) by (simp add: tops_up_def)
  then show "missing (pieces t') = missing (pieces t)" by (rule prepares_missing)
  obtain f where f: "tfile t = Some f" "from_content c (pieces t) f" using assms(1) by (auto simp: seeded_def)
  have "from_content c (pieces t') f"
    using prepares_content [OF p _ f(2)] seeded_wf [OF assms(1)] by (simp add: wf_t_ps)
  moreover have "hasPiece (heap t' ! r) = hasPiece (heap t ! r)"
    using assms(2) r by (intro hasPiece_bitfield) (simp add: tops_up_def)
  moreover have "hasPeer t' r" using assms r by (simp add: hasPeer_def tops_up_def seeded_def)
  moreover have "ps_Count (pieces t') = ps_Count (pieces t)" using p by (simp add: prepares_def ps_Count_def)
  moreover have "\<forall>(q, r') \<in> set (pending t'). r' = r" using assms by (fastforce simp: tops_up_def seeded_def)
  ultimately show "seeded c r t'"
    using assms r f(1) by (simp add: seeded_def tops_up_def)
  show "PeerChoking (pstate (heap t' ! r)) = PeerChoking (pstate (heap t ! r))" "Meta t' = Meta t"
    using assms(2) r by (simp_all add: tops_up_def)
qed

text \<open>What went out to \<open>r\<close>: the messages \<open>ms\<close>, then the requests \<open>qs\<close>, which are pending now.\<close>

definition asks :: "pref \<Rightarrow> Message list \<Rightarrow> BlockRequest list \<Rightarrow> Torrent \<Rightarrow> Torrent \<Rightarrow> bool" where
  "asks r ms qs t t' \<longleftrightarrow> wire t' r = wire t r @ ms @ map Request qs \<and> pending t' = pending t @ map (\<lambda>q. (q, r)) qs"

lemma fill_seeded:
  assumes "seeded c r t" and "keeps_up maxPendingPerPeer (drains t)"
  shows "\<exists>t' qs. fillRequestWindow t r = (None, t') \<and> tops_up r t t' \<and> asks r [] qs t t' \<and>
    (if PeerChoking (pstate (heap t ! r)) then qs = [] else supplied c r t')"
proof -
  note wf = seeded_wf [OF assms(1)]
  have u: "keeps_up (maxPendingPerPeer - pendingCount t r) (drains t)" by (rule keeps_up_less [OF assms(2)]) simp
  obtain t' where t': "fill_loop t r = (None, t')" "tops_up r t t'" using fill_drained [OF _ _ u] wf by blast
  obtain qs where q: "asks r [] qs t t'" using fill_loop_wire [OF t'(1)] wf by (auto simp: asks_def)
  have a: "asked r t'" using fill_loop_full [OF _ _ t'(1)] wf by (simp add: asked_def)
  show ?thesis
  proof (cases "PeerChoking (pstate (heap t ! r))")
    case True
    then show ?thesis
      using wf tops_up_refl by (intro exI [of _ t] exI [of _ "[]"]) (simp add: fillRequestWindow_def asks_def)
  next
    case False
    then have "supplied c r t'" using a seeded_tops_up [OF assms(1) t'(2)] by (simp add: supplied_def)
    then show ?thesis using False t' q assms(1) wf by (auto simp: fillRequestWindow_def seeded_def)
  qed
qed

text \<open>While anything is missing, something has been asked for.\<close>

lemma supplied_pending:
  assumes "supplied c r t" and "missing (pieces t) \<noteq> {}"
  shows "\<exists>q. (q, r) \<in> set (pending t)"
proof -
  have "pending t \<noteq> []"
  proof (cases "pendingCount t r = maxPendingPerPeer")
    case True
    then show ?thesis by (auto simp: pendingCount_def maxPendingPerPeer_def)
  next
    case False
    then have x: "exhausted t r {..<ps_Count (pieces t)}" using assms(1) by (simp add: supplied_def asked_def)
    obtain i k where ik: "i < length (ps_states (pieces t))" "\<not> Complete (ps_states (pieces t) ! i)"
      "k < pcount (plen_at (pieces t) i) 16384" "\<not> has_block (pieces t) i k"
      using assms(2) by (auto simp: missing_def)
    moreover have "hasPiece (heap t ! r) (of_nat i)"
      using assms(1) ik(1) by (simp add: supplied_def seeded_def ps_Count_def)
    ultimately have "m_get (pending t) (request_no (pieces t) (of_nat i) k) \<noteq> None"
      using x by (auto simp: exhausted_def ps_Count_def)
    then show ?thesis by auto
  qed
  then obtain q r' where "(q, r') \<in> set (pending t)" by (cases "pending t") auto
  then show ?thesis using assms(1) by (auto simp: supplied_def seeded_def)
qed

text \<open>The two outcomes of a stored block: the piece is not full yet, or it is written.\<close>

lemma receive_stored:
  assumes "m_get (pending t) q = Some r"
    and "\<lparr>PieceIndex = PieceIndex q, Begin = Begin q, BlockLength = of_nat (length data)\<rparr> = q"
    and "ps_StoreBlock (pieces t) q data = (Inr (allBlocksReceived (ps_states p1 ! unat (PieceIndex q))), p1)"
    and "tfile t = Some f" and "published c (ps_info p1)" and "wf_ps p1" and "unat (PieceIndex q) < length (ps_states p1)"
    and "\<forall>j < length (ps_states p1). j \<noteq> unat (PieceIndex q) \<longrightarrow>
      (if Complete (ps_states p1 ! j) then piece_bytes p1 f j = piece_bytes p1 c j
       else agrees (piece_bytes p1 c j) (ps_states p1 ! j) \<and> \<not> allBlocksReceived (ps_states p1 ! j))"
    and "\<not> Complete (ps_states p1 ! unat (PieceIndex q))"
    and "agrees (piece_bytes p1 c (unat (PieceIndex q))) (ps_states p1 ! unat (PieceIndex q))"
  shows "\<exists>b p2 f2. receiveBlock t r (PieceIndex q) (Begin q) data IoOk = (Inr b,
      t\<lparr>pieces := p2, pending := m_del q (pending t), downloaded := downloaded t + of_nat (length data), tfile := Some f2\<rparr>) \<and>
    from_content c p2 f2 \<and> missing p2 = missing p1 \<and> length (ps_states p2) = length (ps_states p1)"
proof (cases "allBlocksReceived (ps_states p1 ! unat (PieceIndex q))")
  case False
  then have "from_content c p1 f"
    using assms(8-10) unfolding from_content_def by (metis (no_types, lifting))
  moreover have "receiveBlock t r (PieceIndex q) (Begin q) data IoOk = (Inr False,
      t\<lparr>pieces := p1, pending := m_del q (pending t), downloaded := downloaded t + of_nat (length data), tfile := Some f\<rparr>)"
    using False assms(1-4) by (simp add: receiveBlock_def)
  ultimately show ?thesis by blast
next
  case True
  then obtain p2 f2 where v: "ps_VerifyAndWrite p1 (PieceIndex q) (Some f) IoOk = (None, p2, Some f2)"
    "from_content c p2 f2" "missing p2 = missing p1" "length (ps_states p2) = length (ps_states p1)"
    using answer_written [OF assms(5-8,10)] by blast
  have "receiveBlock t r (PieceIndex q) (Begin q) data IoOk = (Inr True,
      t\<lparr>pieces := p2, pending := m_del q (pending t), downloaded := downloaded t + of_nat (length data), tfile := Some f2\<rparr>)"
    using True assms(1-4) v(1) by (simp add: receiveBlock_def Let_def)
  then show ?thesis using v by blast
qed

lemma receive_seeded:
  assumes "seeded c r t" and "published c (MInfo (Meta t))" and "(q, r) \<in> set (pending t)"
    and "good_block (pieces t) q data"
    and "data = block_of (piece_bytes (pieces t) c (unat (PieceIndex q))) (block_no q)"
  shows "\<exists>b t1. receiveBlock t r (PieceIndex q) (Begin q) data IoOk = (Inr b, t1) \<and> seeded c r t1 \<and>
    Suc (card (missing (pieces t1))) = card (missing (pieces t)) \<and>
    drains t1 = drains t \<and> heap t1 = heap t \<and> peers t1 = peers t \<and> Meta t1 = Meta t \<and> pending t1 = m_del q (pending t)"
proof -
  let ?p = "pieces t" and ?i = "unat (PieceIndex q)"
  have wf: "wf_t t" using seeded_wf [OF assms(1)] by blast
  have wfp: "wf_ps ?p" and geo: "wf_geometry ?p" using wf_t_ps [OF wf] by simp_all
  have info: "ps_info ?p = MInfo (Meta t)" using wf by (simp add: wf_t_defs)
  have w: "wanted ?p q" using wf assms(3) by (auto simp: wf_t_defs)
  obtain f where f: "tfile t = Some f" "from_content c ?p f" using assms(1) by (auto simp: seeded_def)
  have P: "length (piece_bytes ?p c ?i) = plen_at ?p ?i"
    by (rule published_piece(1) [OF assms(2) geo info wanted_facts(1) [OF wfp w]])
  have len: "length data < 2 ^ 32" by (rule block_bytes_short [OF geo assms(4)])
  have eq: "\<lparr>PieceIndex = PieceIndex q, Begin = Begin q, BlockLength = of_nat (length data)\<rparr> = q"
    using assms(4) by (cases q) (simp add: good_block_def)
  have mine: "m_get (pending t) q = Some r" using wf assms(3) by (intro map_of_is_SomeI) (auto simp: wf_t_defs)
  obtain p1 where p1: "ps_StoreBlock ?p q data = (Inr (allBlocksReceived (ps_states p1 ! ?i)), p1)"
    "wf_ps p1" "ps_info p1 = ps_info ?p" "length (ps_states p1) = length (ps_states ?p)"
    and other: "\<forall>j < length (ps_states ?p). j \<noteq> ?i \<longrightarrow> ps_states p1 ! j = ps_states ?p ! j"
    and own: "\<not> Complete (ps_states p1 ! ?i)" "agrees (piece_bytes ?p c ?i) (ps_states p1 ! ?i)"
    and m: "(?i, block_no q) \<in> missing ?p" "missing p1 = missing ?p - {(?i, block_no q)}"
    using answer_stored [OF wfp f(2) w assms(4) P assms(5)] by blast
  have b: "piece_bytes p1 = piece_bytes ?p" by (rule piece_bytes_info [OF p1(3)])
  have card: "Suc (card (missing p1)) = card (missing ?p)"
    using m finite_missing [of ?p] by (simp add: card_Suc_Diff1 del: card_Diff_insert)
  have others: "\<forall>j < length (ps_states p1). j \<noteq> ?i \<longrightarrow> (if Complete (ps_states p1 ! j) then piece_bytes p1 f j = piece_bytes p1 c j
      else agrees (piece_bytes p1 c j) (ps_states p1 ! j) \<and> \<not> allBlocksReceived (ps_states p1 ! j))"
    using other f(2) p1(4) unfolding b by (simp add: from_content_def)
  let ?t = "\<lambda>p2 f2. t\<lparr>pieces := p2, pending := m_del q (pending t), downloaded := downloaded t + of_nat (length data), tfile := Some f2\<rparr>"
  have "published c (ps_info p1)" "?i < length (ps_states p1)"
    using assms(2) info wanted_facts(1) [OF wfp w] p1(3,4) by simp_all
  then obtain b p2 f2 where R: "receiveBlock t r (PieceIndex q) (Begin q) data IoOk = (Inr b, ?t p2 f2)"
    "from_content c p2 f2" "missing p2 = missing p1" "length (ps_states p2) = length (ps_states p1)"
    using receive_stored [OF mine eq p1(1) f(1) _ p1(2) _ others own(1)] own(2) unfolding b by blast
  have "wf_t (?t p2 f2)" using receiveBlock_inv [OF wf len R(1)] by blast
  then have "seeded c r (?t p2 f2)"
    using assms(1) R(2,4) p1(4) by (auto simp: seeded_def hasPeer_def ps_Count_def AList.delete_eq)
  then show ?thesis using R(1,3) card by (intro exI [of _ b] exI [of _ "?t p2 f2"]) simp
qed

subsection \<open>Answers, one after the other\<close>

lemma seeded_drains [simp]: "seeded c r (t\<lparr>drains := ds\<rparr>) = seeded c r t"
  by (simp add: seeded_def hasPeer_def)

text \<open>The write loops keep up with one event: a broadcast to every peer and a full window.\<close>

abbreviation keeping_up :: "nat list \<Rightarrow> bool" where
  "keeping_up \<equiv> keeps_up (maxPeers + maxPendingPerPeer)"

lemma answer_step:
  assumes "supplied c r t" and "published c (MInfo (Meta t))" and "(q, r) \<in> set (pending t)"
    and "wf_geometry s" and "ps_info s = MInfo (Meta t)" and "ps_ReadBlock s q (Some c) IoOk = Inr data" and "keeping_up ds"
  shows "\<exists>t'. handlePeerEvent (t\<lparr>drains := ds\<rparr>) (PeerMessageReceived r (Piece (PieceIndex q) (Begin q) data)) IoOk = Some t' \<and>
    supplied c r t' \<and> Meta t' = Meta t \<and> Suc (card (missing (pieces t'))) = card (missing (pieces t)) \<and>
    (\<exists>ms qs. (ms = [] \<or> ms = [Have (PieceIndex q)]) \<and> wire t' r = wire t r @ ms @ map Request qs \<and>
       pending t' = m_del q (pending t) @ map (\<lambda>q. (q, r)) qs)"
proof -
  let ?t = "t\<lparr>drains := ds\<rparr>"
  have sd: "seeded c r ?t" and nc: "\<not> PeerChoking (pstate (heap t ! r))" using assms(1) by (simp_all add: supplied_def)
  have wf: "wf_t t" using seeded_wf [OF sd] by simp
  have info: "ps_info (pieces ?t) = MInfo (Meta t)" using wf by (simp add: wf_t_defs)
  have geo: "wf_geometry (pieces ?t)" using wf_t_ps [OF wf] by simp
  note D = read_block_of [OF assms(2,4,5) geo info assms(6)]
  obtain b t1 where R: "receiveBlock ?t r (PieceIndex q) (Begin q) data IoOk = (Inr b, t1)" "seeded c r t1"
    "Suc (card (missing (pieces t1))) = card (missing (pieces t))"
    "drains t1 = ds" "heap t1 = heap t" "peers t1 = peers t" "Meta t1 = Meta t" "pending t1 = m_del q (pending t)"
    using receive_seeded [OF sd _ _ D] assms(2,3) by auto
  let ?t2 = "if b then broadcastMessage t1 (Have (PieceIndex q)) else t1"
  have wf1: "wf_t t1" using seeded_wf [OF R(2)] by simp
  have "length (peers t1) \<le> maxPeers" "\<forall>(i, x) \<in> set (peers t1). x < length (heap t1)"
    using wf1 by (auto simp: wf_t_defs)
  moreover from this have "keeps_up (length (peers t1) + maxPendingPerPeer) (drains t1)"
    using keeps_up_less [OF assms(7)] R(4) by simp
  moreover have "r < length (heap t1)" using seeded_wf [OF R(2)] by simp
  ultimately have B: "tops_up r t1 ?t2" "keeps_up maxPendingPerPeer (drains ?t2)" "pending ?t2 = pending t1"
    "wire ?t2 r = wire t1 r @ (if b then replicate (count_list (map snd (peers t1)) r) (Have (PieceIndex q)) else [])"
    using broadcast_drained [OF wf1, where rs = "peers t1" and n = maxPendingPerPeer and m = "Have (PieceIndex q)" and r = r]
      tops_up_refl [OF wf1] keeps_up_less [OF assms(7)] R(4) by (auto simp: broadcastMessage_def)
  have "count_list (map snd (peers t1)) r = 0 \<or> count_list (map snd (peers t1)) r = 1" using member_once [OF wf1, of r] by linarith
  moreover define ms where "ms = (if b then replicate (count_list (map snd (peers t1)) r) (Have (PieceIndex q)) else [])"
  ultimately have ms: "ms = [] \<or> ms = [Have (PieceIndex q)]" "wire ?t2 r = wire t1 r @ ms" using B(4) by auto
  note S2 = seeded_tops_up [OF R(2) B(1)]
  obtain t3 qs where F: "fillRequestWindow ?t2 r = (None, t3)" "tops_up r ?t2 t3" "supplied c r t3" "asks r [] qs ?t2 t3"
    using fill_seeded [OF S2(1) B(2)] S2(3) nc R(5) by auto
  have "wire t1 r = wire t r" using R(5) by (simp add: wire_def)
  then have W: "wire t3 r = wire t r @ ms @ map Request qs" "pending t3 = m_del q (pending t) @ map (\<lambda>q. (q, r)) qs"
    using F(4) B(3) ms(2) R(8) by (simp_all add: asks_def)
  note S3 = seeded_tops_up [OF S2(1) F(2)]
  have len: "r < length (heap ?t)" and h: "hasPeer ?t r" using seeded_wf [OF sd] sd by (simp_all add: seeded_def)
  have "handleProtocolMessage ?t r (Piece (PieceIndex q) (Begin q) data) IoOk = (None, t3)"
    unfolding handleProtocolMessage_def using len R(1) F(1) by simp
  then have "handlePeerEvent ?t (PeerMessageReceived r (Piece (PieceIndex q) (Begin q) data)) IoOk = Some t3"
    using h by simp
  then show ?thesis using F(3) S2 S3 R(3,7) ms(1) W by (intro exI [of _ t3]) auto
qed

text \<open>After \<open>n\<close> answers of the seed \<open>s\<close>, which come in any order.\<close>

inductive answers :: "PieceSet \<Rightarrow> byte list \<Rightarrow> pref \<Rightarrow> nat \<Rightarrow> Torrent \<Rightarrow> Torrent \<Rightarrow> bool" for s c r where
  answers_0: "answers s c r 0 t t"
| answers_Suc: "answers s c r n t t1 \<Longrightarrow> (q, r) \<in> set (pending t1) \<Longrightarrow> ps_ReadBlock s q (Some c) IoOk = Inr data \<Longrightarrow>
    keeping_up ds \<Longrightarrow>
    handlePeerEvent (t1\<lparr>drains := ds\<rparr>) (PeerMessageReceived r (Piece (PieceIndex q) (Begin q) data)) IoOk = Some t' \<Longrightarrow>
    answers s c r (Suc n) t t'"

lemma answers_supplied:
  assumes "answers s c r n t t'" and "supplied c r t" and "published c (MInfo (Meta t))"
    and "wf_geometry s" and "ps_info s = MInfo (Meta t)"
  shows "supplied c r t' \<and> Meta t' = Meta t \<and> n + card (missing (pieces t')) = card (missing (pieces t))"
  using assms
proof (induction rule: answers.induct)
  case (answers_0 t)
  then show ?case by simp
next
  case (answers_Suc n t t1 q data ds t')
  have IH: "supplied c r t1" "Meta t1 = Meta t" "n + card (missing (pieces t1)) = card (missing (pieces t))"
    using answers_Suc by auto
  have pub: "published c (MInfo (Meta t1))" and si: "ps_info s = MInfo (Meta t1)" using answers_Suc.prems IH(2) by simp_all
  obtain t2 where "handlePeerEvent (t1\<lparr>drains := ds\<rparr>) (PeerMessageReceived r (Piece (PieceIndex q) (Begin q) data)) IoOk = Some t2"
    "supplied c r t2" "Meta t2 = Meta t1" "Suc (card (missing (pieces t2))) = card (missing (pieces t1))"
    using answer_step [OF IH(1) pub answers_Suc.hyps(2) answers_Suc.prems(3) si answers_Suc.hyps(3,4)] by blast
  then show ?case using IH answers_Suc.hyps(5) by simp
qed

text \<open>When nothing is missing, the set is complete and the file begins with the content.\<close>

lemma seeded_finished:
  assumes "seeded c r t" and "published c (MInfo (Meta t))" and "missing (pieces t) = {}"
  shows "ps_Complete (pieces t) = Inr True \<and> (\<exists>f. tfile t = Some f \<and> take (length c) f = c)"
proof -
  have wf: "wf_t t" using seeded_wf [OF assms(1)] by blast
  have wfp: "wf_ps (pieces t)" and geo: "wf_geometry (pieces t)" using wf_t_ps [OF wf] by simp_all
  have info: "ps_info (pieces t) = MInfo (Meta t)" using wf by (simp add: wf_t_defs)
  obtain f where f: "tfile t = Some f" "from_content c (pieces t) f" using assms(1) by (auto simp: seeded_def)
  note all = missing_empty [OF wfp f(2) assms(3)]
  have "length c = ps_total (pieces t)" using assms(2) info by (simp add: published_def)
  moreover have "\<forall>i < length (ps_states (pieces t)). length (piece_bytes (pieces t) c i) = plen_at (pieces t) i \<and>
      piece_bytes (pieces t) f i = piece_bytes (pieces t) c i"
    using all f(2) published_piece(1) [OF assms(2) geo info] by (simp add: from_content_def)
  ultimately have "take (length c) f = c" by (rule pieces_determine [OF geo])
  then show ?thesis using f(1) all_Complete [OF geo all] by simp
qed

subsection \<open>The seed introduces itself\<close>

text \<open>After its bitfield and \<^verbatim>\<open>unchoke\<close> a complete peer supplies the session.\<close>

lemma seed_bitfield:
  assumes "wf_geometry s" and "\<forall>i < length (ps_states s). Complete (ps_states s ! i)" and "i < ps_Count s"
  shows "hasPiece (x\<lparr>bitfield := PiecesBitfield s\<rparr>) (of_nat i)"
proof -
  have u: "unat (of_nat i :: uint32) = i" using unat_of_nat_index [OF assms(1)] assms(3) by (simp add: ps_Count_def)
  have "bit_set (PiecesBitfield s) i" using PiecesBitfield_bits(2) [OF assms(1)] assms(2,3) by (simp add: ps_Count_def)
  then show ?thesis
    by (simp add: hasPiece_def bit_set_def piece_mask_def unat_div_distrib unat_mod u Let_def not_le)
qed

lemma interest_seeded:
  assumes "wf_t t" and "hasPeer t r" and "downloadMode t \<noteq> downloadModePaused" and "pending t = []"
    and "tfile t = Some f" and "from_content c (pieces t) f"
    and "\<forall>i < ps_Count (pieces t). hasPiece (heap t ! r) (of_nat i)" and "wants t r"
    and "keeps_up (Suc maxPendingPerPeer) (drains t)"
  shows "\<exists>t'. updateInterest t r = (None, t') \<and> seeded c r t' \<and> keeps_up maxPendingPerPeer (drains t') \<and>
    Meta t' = Meta t \<and> missing (pieces t') = missing (pieces t) \<and> pending t' = [] \<and>
    PeerChoking (pstate (heap t' ! r)) = PeerChoking (pstate (heap t ! r)) \<and>
    (\<not> AmInterested (pstate (heap t ! r)) \<longrightarrow> wire t' r = wire t r @ [Interested])"
proof (cases "AmInterested (pstate (heap t ! r))")
  case True
  then have "seeded c r t" using assms by (simp add: seeded_def)
  then show ?thesis using True assms(4,8) keeps_up_less [OF assms(9)] by (simp add: updateInterest_def)
next
  case False
  have r: "r < length (heap t)" using assms(2) by (simp add: hasPeer_def)
  obtain t1 where t1: "sendMessage t r Interested = (None, t1)" "keeps_up maxPendingPerPeer (drains t1)" "pending t1 = pending t"
      "tops_up r t t1"
    using sendMessage_drained [OF assms(1) r assms(9)] by blast
  let ?t = "upd_state t1 r (\<lambda>s. s\<lparr>AmInterested := True\<rparr>)"
  have U: "updateInterest t r = (None, ?t)" using False assms(8) t1(1) by (simp add: updateInterest_def)
  note f = sendMessage_fields [OF t1(1)]
  have at: "heap ?t ! r = (heap t1 ! r)\<lparr>pstate := (pstate (heap t1 ! r))\<lparr>AmInterested := True\<rparr>\<rparr>"
    using r f(6) by (simp add: upd_state_def nth_heap_upd_peer)
  have "hasPiece (heap ?t ! r) = hasPiece (heap t ! r)" by (rule hasPiece_bitfield) (simp add: at f(11) [OF r])
  moreover have "hasPeer ?t r" using assms(2) r f(4,6) at f(11) [OF r] by (simp add: hasPeer_def upd_state_def)
  moreover have "wf_t ?t" by (rule wf_t_upd_state [OF tops_up_wf [OF t1(4)]])
  ultimately have "seeded c r ?t"
    using assms(3-7) f(1,2,10) t1(3) at by (simp add: seeded_def upd_state_def)
  moreover have "wire ?t r = wire t r @ [Interested]" using sendMessage_wire [OF t1(1) r r] at by (simp add: wire_def)
  ultimately show ?thesis
    using U f(1,5) f(11) [OF r] t1(2,3) assms(4) at by (intro exI [of _ ?t]) (simp add: upd_state_def)
qed

lemma bitfield_seeded:
  assumes "wf_t t" and "hasPeer t r" and "downloadMode t \<noteq> downloadModePaused" and "pending t = []"
    and "tfile t = Some f" and "from_content c (pieces t) f" and "ps_Complete (pieces t) = Inr False"
    and "wf_geometry s" and "ps_info s = ps_info (pieces t)" and "\<forall>i < length (ps_states s). Complete (ps_states s ! i)"
    and "keeping_up ds"
  shows "\<exists>t'. handlePeerEvent (t\<lparr>drains := ds\<rparr>) (PeerMessageReceived r (Bitfield (PiecesBitfield s))) oc = Some t' \<and>
    seeded c r t' \<and> Meta t' = Meta t \<and> missing (pieces t') = missing (pieces t) \<and>
    PeerChoking (pstate (heap t' ! r)) = PeerChoking (pstate (heap t ! r)) \<and>
    (PeerChoking (pstate (heap t ! r)) \<and> \<not> AmInterested (pstate (heap t ! r)) \<longrightarrow>
       pending t' = [] \<and> wire t' r = wire t r @ [Interested])"
proof -
  have geo: "wf_geometry (pieces t)" using wf_t_ps [OF assms(1)] by simp
  have r: "r < length (heap t)" using assms(2) by (simp add: hasPeer_def)
  have n: "ps_Count (pieces t) = ps_Count s"
    using wf_geometry_hashes [OF geo] wf_geometry_hashes [OF assms(8)] assms(9) by (simp add: ps_Count_def)
  let ?t = "upd_peer (t\<lparr>drains := ds\<rparr>) r (\<lambda>p. p\<lparr>bitfield := PiecesBitfield s\<rparr>)"
  have wf1: "wf_t ?t" using assms(1) by (intro wf_t_upd_peer) auto
  have at: "heap ?t ! r = (heap t ! r)\<lparr>bitfield := PiecesBitfield s\<rparr>" using r by (simp add: nth_heap_upd_peer)
  have has: "hasPiece (heap ?t ! r) (of_nat i)" if "i < ps_Count (pieces t)" for i
    unfolding at using seed_bitfield [OF assms(8,10)] that n by simp
  have "\<exists>i < length (ps_states (pieces t)). \<not> Complete (ps_states (pieces t) ! i)"
    using all_Complete [OF geo] assms(7) by auto
  then have w: "wants ?t r"
    using has unat_of_nat_index [OF geo] by (force simp: wants_def list_ex_iff ps_IsComplete_def ps_Count_def)
  have len: "r < length (heap ?t)" using r by simp
  have hp: "hasPeer ?t r" using assms(2) r by (simp add: hasPeer_def at)
  have k: "keeps_up (Suc maxPendingPerPeer) (drains ?t)" using keeps_up_less [OF assms(11)] by (simp add: maxPeers_def)
  have h: "downloadMode ?t \<noteq> downloadModePaused" "pending ?t = []" "tfile ?t = Some f" "from_content c (pieces ?t) f"
    "\<forall>i < ps_Count (pieces ?t). hasPiece (heap ?t ! r) (of_nat i)"
    using assms(3-6) has by simp_all
  obtain t2 where U: "updateInterest ?t r = (None, t2)" "seeded c r t2" "keeps_up maxPendingPerPeer (drains t2)"
    "Meta t2 = Meta t" "missing (pieces t2) = missing (pieces t)" "pending t2 = []"
    "PeerChoking (pstate (heap t2 ! r)) = PeerChoking (pstate (heap t ! r))"
    "\<not> AmInterested (pstate (heap t ! r)) \<longrightarrow> wire t2 r = wire t r @ [Interested]"
    using interest_seeded [OF wf1 hp h w k] at by (auto simp: wire_def)
  obtain t3 qs where F: "fillRequestWindow t2 r = (None, t3)" "tops_up r t2 t3" "asks r [] qs t2 t3"
    "PeerChoking (pstate (heap t2 ! r)) \<longrightarrow> qs = []"
    using fill_seeded [OF U(2,3)] by (metis (no_types))
  have "handleProtocolMessage (t\<lparr>drains := ds\<rparr>) r (Bitfield (PiecesBitfield s)) oc = (None, t3)"
    using r U(1) F(1) by (simp add: handleProtocolMessage_def)
  then have "handlePeerEvent (t\<lparr>drains := ds\<rparr>) (PeerMessageReceived r (Bitfield (PiecesBitfield s))) oc = Some t3"
    using assms(2) by (simp add: hasPeer_def)
  then show ?thesis using seeded_tops_up [OF U(2) F(2)] U(4-8) F(3,4) by (simp add: asks_def)
qed

lemma unchoke_supplied:
  assumes "seeded c r t" and "keeping_up ds"
  shows "\<exists>t'. handlePeerEvent (t\<lparr>drains := ds\<rparr>) (PeerMessageReceived r Unchoke) oc = Some t' \<and>
    supplied c r t' \<and> Meta t' = Meta t \<and> missing (pieces t') = missing (pieces t) \<and> (\<exists>qs. asks r [] qs t t')"
proof -
  let ?t = "upd_state (t\<lparr>drains := ds\<rparr>) r (\<lambda>s. s\<lparr>PeerChoking := False\<rparr>)"
  have r: "r < length (heap t)" and wf: "wf_t t" using seeded_wf [OF assms(1)] by auto
  have at: "heap ?t ! r = (heap t ! r)\<lparr>pstate := (pstate (heap t ! r))\<lparr>PeerChoking := False\<rparr>\<rparr>"
    using r by (simp add: upd_state_def nth_heap_upd_peer)
  have "hasPiece (heap ?t ! r) = hasPiece (heap t ! r)" by (rule hasPiece_bitfield) (simp add: at)
  moreover have "hasPeer ?t r" using assms(1) r at by (simp add: hasPeer_def upd_state_def seeded_def)
  moreover have "wf_t ?t" by (rule wf_t_upd_state) (use wf in simp)
  ultimately have S: "seeded c r ?t" using assms(1) at by (simp add: seeded_def upd_state_def)
  have k: "keeps_up maxPendingPerPeer (drains ?t)" using keeps_up_less [OF assms(2)] by (simp add: upd_state_def)
  obtain t1 qs where F: "fillRequestWindow ?t r = (None, t1)" "tops_up r ?t t1" "supplied c r t1" "asks r [] qs ?t t1"
    using fill_seeded [OF S k] at by auto
  have "asks r [] qs t t1" using F(4) at by (simp add: asks_def wire_def upd_state_def)
  have "handleProtocolMessage (t\<lparr>drains := ds\<rparr>) r Unchoke oc = (None, t1)"
    using r F(1) by (simp add: handleProtocolMessage_def)
  then have "handlePeerEvent (t\<lparr>drains := ds\<rparr>) (PeerMessageReceived r Unchoke) oc = Some t1"
    using assms(1) by (simp add: hasPeer_def seeded_def)
  then show ?thesis using F(3) seeded_tops_up [OF S F(2)] \<open>asks r [] qs t t1\<close> by (auto simp: upd_state_def)
qed

subsection \<open>Downloads end\<close>

text \<open>Another answer is always possible while anything is missing.\<close>

lemma supplied_served:
  assumes "supplied c r t" and "published c (MInfo (Meta t))" and "wf_geometry s" and "ps_info s = MInfo (Meta t)"
    and "\<forall>i < length (ps_states s). Complete (ps_states s ! i)" and "(q, r') \<in> set (pending t)"
  shows "r' = r" and "\<exists>data. ps_ReadBlock s q (Some c) IoOk = Inr data"
proof -
  show "r' = r" using assms(1,6) by (auto simp: supplied_def seeded_def)
  have wf: "wf_t t" using assms(1) seeded_wf [of c r t] by (simp add: supplied_def)
  then have "wanted (pieces t) q" "ps_info (pieces t) = MInfo (Meta t)" using assms(6) by (auto simp: wf_t_defs)
  then show "\<exists>data. ps_ReadBlock s q (Some c) IoOk = Inr data"
    using seed_answers [OF assms(2-5) wf_ps_geometry [OF wf_t_ps [OF wf]]] by (auto simp: wanted_def)
qed

lemma answers_next:
  assumes "supplied c r t" and "published c (MInfo (Meta t))" and "wf_geometry s" and "ps_info s = MInfo (Meta t)"
    and "\<forall>i < length (ps_states s). Complete (ps_states s ! i)" and "(q, r') \<in> set (pending t)" and "keeping_up ds"
  shows "\<exists>data t'. ps_ReadBlock s q (Some c) IoOk = Inr data \<and>
    handlePeerEvent (t\<lparr>drains := ds\<rparr>) (PeerMessageReceived r (Piece (PieceIndex q) (Begin q) data)) IoOk = Some t' \<and> hasPeer t' r"
proof -
  obtain data where d: "ps_ReadBlock s q (Some c) IoOk = Inr data" using supplied_served(2) [OF assms(1-6)] by blast
  have "(q, r) \<in> set (pending t)" using assms(6) supplied_served(1) [OF assms(1-6)] by simp
  then obtain t' where "handlePeerEvent (t\<lparr>drains := ds\<rparr>) (PeerMessageReceived r (Piece (PieceIndex q) (Begin q) data)) IoOk = Some t'"
    "supplied c r t'"
    using answer_step [OF assms(1,2) _ assms(3,4) d assms(7)] by blast
  then show ?thesis using d unfolding supplied_def seeded_def by blast
qed

text \<open>Everything pending was asked of \<open>r\<close>, which can answer it and stays a member.\<close>

definition answerable :: "PieceSet \<Rightarrow> byte list \<Rightarrow> pref \<Rightarrow> Torrent \<Rightarrow> bool" where
  "answerable s c r t \<longleftrightarrow> (\<forall>(q, r') \<in> set (pending t). r' = r \<and> (\<forall>ds. keeping_up ds \<longrightarrow>
     (\<exists>data t'. ps_ReadBlock s q (Some c) IoOk = Inr data \<and>
        handlePeerEvent (t\<lparr>drains := ds\<rparr>) (PeerMessageReceived r (Piece (PieceIndex q) (Begin q) data)) IoOk = Some t' \<and>
        hasPeer t' r)))"

lemma supplied_answerable:
  assumes "supplied c r t" and "published c (MInfo (Meta t))" and "wf_geometry s" and "ps_info s = MInfo (Meta t)"
    and "\<forall>i < length (ps_states s). Complete (ps_states s ! i)"
  shows "answerable s c r t"
  using supplied_served(1) [OF assms] answers_next [OF assms] unfolding answerable_def by blast

lemma keeping_up_drained: "keeping_up (replicate (maxPeers + maxPendingPerPeer) peerWriteQueueSize)"
  by (simp add: keeps_up_def)

lemma answers_exist:
  assumes "supplied c r t" and "published c (MInfo (Meta t))" and "wf_geometry s" and "ps_info s = MInfo (Meta t)"
    and "\<forall>i < length (ps_states s). Complete (ps_states s ! i)" and "n \<le> card (missing (pieces t))"
  shows "\<exists>t'. answers s c r n t t'"
  using assms(6)
proof (induction n)
  case 0
  then show ?case using answers_0 by blast
next
  case (Suc n)
  then obtain t1 where a: "answers s c r n t t1" by auto
  have S: "supplied c r t1" "Meta t1 = Meta t" "n + card (missing (pieces t1)) = card (missing (pieces t))"
    using answers_supplied [OF a assms(1-4)] by auto
  then have "missing (pieces t1) \<noteq> {}" using Suc.prems by auto
  then obtain q where q: "(q, r) \<in> set (pending t1)" using supplied_pending [OF S(1)] by blast
  have pub: "published c (MInfo (Meta t1))" and si: "ps_info s = MInfo (Meta t1)" using assms(2,4) S(2) by simp_all
  show ?case
    using answers_next [OF S(1) pub assms(3) si assms(5) q keeping_up_drained] answers_Suc [OF a q _ keeping_up_drained] by blast
qed

text \<open>C6. A download from one seed completes.  Let a session of published content hold nothing but bytes of that content
  and have nothing pending, and let a member \<open>r\<close> introduce itself with the bitfield of a seed and unchoke the session,
  while the write loops keep up (the queues are empty at every event) and every write of a finished piece succeeds: the
  answers are handled with file operations that do not fail.  Then every answer of the seed to a pending request, in any order, takes one missing
  block away and does not lose the seed; while blocks are missing, some request is pending, and the seed can answer each
  of them; so exactly as many answers as blocks were missing lead to a complete set whose file begins with the content.\<close>

theorem seed_completes_download:
  assumes "run_of meta pid t" and "published c (MInfo meta)" and "OpenSeed meta (Inr c) (\<lambda>_. IoOk) = Inr seed"
    and "hasPeer t r" and "pending t = []" and "tfile t = Some f" and "from_content c (pieces t) f"
    and "ps_Complete (pieces t) = Inr False" and "keeping_up ds1" and "keeping_up ds2"
  shows "\<exists>t1 t2. handlePeerEvent (t\<lparr>drains := ds1\<rparr>) (PeerMessageReceived r (Bitfield (PiecesBitfield (pieces seed)))) oc1 = Some t1 \<and>
    handlePeerEvent (t1\<lparr>drains := ds2\<rparr>) (PeerMessageReceived r Unchoke) oc2 = Some t2 \<and>
    (\<exists>t3. answers (pieces seed) c r (card (missing (pieces t))) t2 t3) \<and>
    (\<forall>n t3. answers (pieces seed) c r n t2 t3 \<longrightarrow>
       n \<le> card (missing (pieces t)) \<and> card (missing (pieces t3)) = card (missing (pieces t)) - n \<and>
       (n < card (missing (pieces t)) \<longrightarrow> pending t3 \<noteq> []) \<and>
       answerable (pieces seed) c r t3 \<and>
       (n = card (missing (pieces t)) \<longrightarrow>
          ps_Complete (pieces t3) = Inr True \<and> (\<exists>g. tfile t3 = Some g \<and> take (length c) g = c)))"
proof -
  let ?s = "pieces seed"
  have wf: "wf_t t" and m: "Meta t = meta" and mode: "downloadMode t \<noteq> downloadModePaused" using run_of_inv [OF assms(1)] by auto
  have "wf_ps ?s \<and> ps_info ?s = MInfo meta \<and> (\<forall>i < length (ps_states ?s). Complete (ps_states ?s ! i))"
    using seed_opens [OF assms(2)] assms(3) by auto
  then have s: "wf_geometry ?s" "ps_info ?s = MInfo meta" "\<forall>i < length (ps_states ?s). Complete (ps_states ?s ! i)" by auto
  have "ps_info ?s = ps_info (pieces t)" using wf m s(2) by (simp add: wf_t_defs)
  then obtain t1 where t1: "handlePeerEvent (t\<lparr>drains := ds1\<rparr>) (PeerMessageReceived r (Bitfield (PiecesBitfield ?s))) oc1 = Some t1"
    "seeded c r t1" "Meta t1 = Meta t" "missing (pieces t1) = missing (pieces t)"
    using bitfield_seeded [OF wf assms(4) mode assms(5-8) s(1) _ s(3) assms(9)] by blast
  obtain t2 where t2: "handlePeerEvent (t1\<lparr>drains := ds2\<rparr>) (PeerMessageReceived r Unchoke) oc2 = Some t2"
    "supplied c r t2" "Meta t2 = meta" "missing (pieces t2) = missing (pieces t)"
    using unchoke_supplied [OF t1(2) assms(10)] t1(3,4) m by metis
  have p: "published c (MInfo (Meta t2))" "ps_info ?s = MInfo (Meta t2)" using assms(2) s(2) t2(3) by simp_all
  have A: "n + card (missing (pieces t3)) = card (missing (pieces t)) \<and> supplied c r t3 \<and> Meta t3 = meta"
    if "answers ?s c r n t2 t3" for n t3
    using answers_supplied [OF that t2(2) p(1) s(1) p(2)] t2(3,4) by simp
  have "pending t3 \<noteq> []" if "answers ?s c r n t2 t3" "n < card (missing (pieces t))" for n t3
  proof -
    have "missing (pieces t3) \<noteq> {}" using A [OF that(1)] that(2) by auto
    then show ?thesis using supplied_pending A [OF that(1)] by fastforce
  qed
  moreover have "ps_Complete (pieces t3) = Inr True \<and> (\<exists>g. tfile t3 = Some g \<and> take (length c) g = c)"
    if "answers ?s c r (card (missing (pieces t))) t2 t3" for t3
    using seeded_finished [of c r t3] A [OF that] assms(2) finite_missing [of "pieces t3"] by (simp add: supplied_def)
  moreover have "answerable ?s c r t3" if "answers ?s c r n t2 t3" for n t3
    using A [OF that] supplied_answerable [of c r t3 ?s] assms(2) s by simp
  moreover have "\<exists>t3. answers ?s c r (card (missing (pieces t))) t2 t3"
    using answers_exist [OF t2(2) p(1) s(1) p(2) s(3)] t2(4) by simp
  moreover have "n \<le> card (missing (pieces t)) \<and> card (missing (pieces t3)) = card (missing (pieces t)) - n"
    if "answers ?s c r n t2 t3" for n t3
    using A [OF that] by linarith
  ultimately show ?thesis using t1(1) t2(1) by blast
qed

subsection \<open>A session with a member\<close>

lemma run_of_step:
  assumes "run_of meta pid t" and "run_step pid t t'"
  shows "run_of meta pid t'"
  using assms unfolding run_of_def by (blast intro: reaches_step)

definition demo_member :: peer where
  "demo_member = (newPeer None demo_handshake)\<lparr>incoming := True, outgoing := [Bitfield [0]]\<rparr>"

definition demo_joined :: Torrent where
  "demo_joined = demo_open\<lparr>peers := [(replicate 20 5, 0)], heap := [demo_member]\<rparr>"

lemma run_demo_joined: "run_of demo_meta (replicate 20 9) demo_joined"
proof -
  let ?t = "demo_open\<lparr>heap := [(newPeer None demo_handshake)\<lparr>incoming := True\<rparr>]\<rparr>"
  have "AcceptIncomingPeer demo_open None buffer demo_handshake (replicate 20 9) = (Inr 0, ?t)"
    by (simp add: AcceptIncomingPeer_def demo_open_def validatePeerHandshake_def demo_handshake_def demo_meta_def
        writePeerHandshake_def WriteHandshake_def wr_Write.simps buffer_def alloc_def)
  then have r: "run_of demo_meta (replicate 20 9) ?t" by (rule run_of_step [OF run_demo_open step_accept])
  have "PiecesBitfield demo_ps = [0]" by (simp add: PiecesBitfield_def demo_ps_def ps_Count_def upt_rec ps_IsComplete_def newPieceState_def)
  then have "handlePeerEvent (?t\<lparr>drains := []\<rparr>) (PeerArrived 0) IoOk = Some demo_joined"
    by (simp add: activatePeer_def demo_open_def tryEnqueue_def upd_peer_def Let_def newPeer_def demo_handshake_def
        maxPeers_def peerWriteQueueSize_def demo_joined_def demo_member_def)
  then have "run_step (replicate 20 9) ?t demo_joined" by (intro step_peer [where ev = "PeerArrived 0"]) simp_all
  then show ?thesis by (rule run_of_step [OF r])
qed

lemma demo_missing: "missing demo_ps = {(0, 0), (1, 0)}"
proof -
  have "plen_at demo_ps (Suc 0) = 1" using demo_plen(2) by simp
  then show ?thesis
    using demo_plen(1) by (auto simp: missing_def demo_ps_def newPieceState_def has_block_def pcount_def less_Suc_eq)
qed

theorem seed_completes_download_witness:
  "\<exists>seed t2 t3 g. OpenSeed demo_meta (Inr [1, 2, 3]) (\<lambda>_. IoOk) = Inr seed \<and> answers (pieces seed) [1, 2, 3] 0 2 t2 t3 \<and>
     ps_Complete (pieces t3) = Inr True \<and> tfile t3 = Some g \<and> take 3 g = [1, 2, 3]"
proof -
  have P: "published [1, 2, 3] (MInfo demo_meta)"
    using demo_small(2) valid_demo_info by (simp add: published_def demo_meta_def demo_info_def piece_digests_def)
  obtain seed where s: "OpenSeed demo_meta (Inr [1, 2, 3]) (\<lambda>_. IoOk) = Inr seed" using seed_opens [OF P] by blast
  have j: "pieces demo_joined = demo_ps" "tfile demo_joined = Some [0, 0, 0]" "pending demo_joined = []" "hasPeer demo_joined 0"
    by (simp_all add: demo_joined_def demo_open_def hasPeer_def demo_member_def newPeer_def demo_handshake_def)
  have fc: "from_content [1, 2, 3] (pieces demo_joined) [0, 0, 0]"
    by (simp add: j(1) from_content_def demo_ps_def newPieceState_def agrees_def allBlocksReceived_def less_Suc_eq)
  have "bytes_missing demo_ps = 3"
    using demo_plen by (simp add: bytes_missing_def demo_ps_def newPieceState_def lessThan_Suc numeral_2_eq_2)
  then have c: "ps_Complete (pieces demo_joined) = Inr False"
    by (simp add: j(1) ps_Complete_def ps_BytesLeft_exact [OF wf_ps_geometry [OF wf_demo_ps]])
  have n: "card (missing (pieces demo_joined)) = 2" by (simp add: j(1) demo_missing)
  note D = seed_completes_download [OF run_demo_joined P s j(4,3,2) fc c keeping_up_drained keeping_up_drained, unfolded n]
  obtain t2 t3 where a: "answers (pieces seed) [1, 2, 3] 0 2 t2 t3"
    and f: "\<forall>n t3. answers (pieces seed) [1, 2, 3] 0 n t2 t3 \<longrightarrow> n \<le> 2 \<and> card (missing (pieces t3)) = 2 - n \<and>
      (n < 2 \<longrightarrow> pending t3 \<noteq> []) \<and> answerable (pieces seed) [1, 2, 3] 0 t3 \<and>
      (n = 2 \<longrightarrow> ps_Complete (pieces t3) = Inr True \<and> (\<exists>g. tfile t3 = Some g \<and> take (length [1, 2, 3 :: byte]) g = [1, 2, 3]))"
    using D [of IoOk IoOk] by blast
  have "ps_Complete (pieces t3) = Inr True \<and> (\<exists>g. tfile t3 = Some g \<and> take (length [1, 2, 3 :: byte]) g = [1, 2, 3])"
    using f [rule_format, OF a] by blast
  moreover have "length [1, 2, 3 :: byte] = 3" by simp
  ultimately show ?thesis using s a by metis
qed

end
