(* ===== verification/Two_Sessions.thy ===== *)
theory Two_Sessions
  imports Completion
begin

text \<open>
  Two sessions of the same torrent at the two ends of one connection: a seed and a client that misses something.
  Their write loops and read loops deliver every message in order (\<open>peer_wire_order\<close>); how the deliveries of the two
  directions interleave is free.  The exchange ends, with the content on the client's disk.
\<close>

subsection \<open>The connection\<close>

record link =
  downloader :: Torrent
  seeder :: Torrent
  to_seed :: nat    \<comment> \<open>how many of the client's messages the seed has received\<close>
  to_client :: nat

text \<open>A step delivers the next message of one direction; a reader takes no message beyond its size limit.\<close>

inductive link_step :: "pref \<Rightarrow> pref \<Rightarrow> link \<Rightarrow> link \<Rightarrow> bool" for r x where
  deliver_seed: "to_seed l < length (wire (downloader l) r) \<Longrightarrow> fits (wire (downloader l) r ! to_seed l) \<Longrightarrow> keeping_up ds \<Longrightarrow>
     handlePeerEvent ((seeder l)\<lparr>drains := ds\<rparr>) (PeerMessageReceived x (wire (downloader l) r ! to_seed l)) IoOk = Some s' \<Longrightarrow>
     link_step r x l (l\<lparr>seeder := s', to_seed := Suc (to_seed l)\<rparr>)"
| deliver_client: "to_client l < length (wire (seeder l) x) \<Longrightarrow> fits (wire (seeder l) x ! to_client l) \<Longrightarrow> keeping_up ds \<Longrightarrow>
     handlePeerEvent ((downloader l)\<lparr>drains := ds\<rparr>) (PeerMessageReceived r (wire (seeder l) x ! to_client l)) IoOk = Some d' \<Longrightarrow>
     link_step r x l (l\<lparr>downloader := d', to_client := Suc (to_client l)\<rparr>)"

text \<open>Both ends as \<^verbatim>\<open>activatePeer\<close> leaves them: only the bitfield was queued.\<close>

definition joined :: "Torrent \<Rightarrow> pref \<Rightarrow> bool" where
  "joined t r \<longleftrightarrow> hasPeer t r \<and> wire t r = [Bitfield (PiecesBitfield (pieces t))] \<and> AmChoking (pstate (heap t ! r)) \<and>
     \<not> AmInterested (pstate (heap t ! r)) \<and> PeerChoking (pstate (heap t ! r)) \<and> pending t = []"

subsection \<open>The seed's side\<close>

definition serving_to :: "byte list \<Rightarrow> pref \<Rightarrow> Torrent \<Rightarrow> bool" where
  "serving_to c x s \<longleftrightarrow> wf_t s \<and> hasPeer s x \<and> tfile s = Some c \<and> \<not> AmInterested (pstate (heap s ! x)) \<and>
     (\<forall>i < length (ps_states (pieces s)). Complete (ps_states (pieces s) ! i))"

lemma serving_frame:
  assumes "serving_to c x s" and "wf_t s'" and "tfile s' = tfile s" and "pieces s' = pieces s" and "peers s' = peers s"
    and "length (heap s') = length (heap s)" and "peer_id (heap s' ! x) = peer_id (heap s ! x)"
    and "\<not> AmInterested (pstate (heap s' ! x))"
  shows "serving_to c x s'"
  using assms by (simp add: serving_to_def hasPeer_def)

lemma wants_nothing:
  assumes "wf_geometry (pieces s)" and "\<forall>i < length (ps_states (pieces s)). Complete (ps_states (pieces s) ! i)"
  shows "\<not> wants s x"
  using assms unat_of_nat_index [OF assms(1)] less_count32 [OF assms(1)]
  by (auto simp: wants_def list_ex_iff ps_IsComplete_def ps_Count_def)

text \<open>A seed that hears what the other side has does nothing.\<close>

lemma seed_ignores:
  assumes "serving_to c x s" and "m = Bitfield bits \<or> m = Have i"
  shows "\<exists>s'. handlePeerEvent (s\<lparr>drains := ds\<rparr>) (PeerMessageReceived x m) oc = Some s' \<and>
    serving_to c x s' \<and> wire s' x = wire s x \<and> AmChoking (pstate (heap s' ! x)) = AmChoking (pstate (heap s ! x)) \<and>
    pieces s' = pieces s \<and> Meta s' = Meta s"
proof -
  have wf: "wf_t s" and hp: "hasPeer s x" and x: "x < length (heap s)" and ni: "\<not> AmInterested (pstate (heap s ! x))"
    using assms(1) by (simp_all add: serving_to_def hasPeer_def)
  have all: "\<forall>i < length (ps_states (pieces s)). Complete (ps_states (pieces s) ! i)" using assms(1) by (simp add: serving_to_def)
  obtain f where f: "f = (case m of Bitfield bits \<Rightarrow> (\<lambda>p. p\<lparr>bitfield := bits\<rparr>) | _ \<Rightarrow> (\<lambda>p. setPiece p i))"
    and fp: "\<And>p. pstate (f p) = pstate p \<and> peer_id (f p) = peer_id p \<and> infoHash (f p) = infoHash p \<and>
      outgoing (f p) = outgoing p \<and> taken (f p) = taken p"
    using assms(2) by (auto simp: setPiece_def Let_def)
  let ?s = "upd_peer (s\<lparr>drains := ds\<rparr>) x f"
  have wf1: "wf_t ?s" using wf fp by (intro wf_t_upd_peer) auto
  have at: "pstate (heap ?s ! x) = pstate (heap s ! x)" "peer_id (heap ?s ! x) = peer_id (heap s ! x)"
    "wire ?s x = wire s x"
    using x fp by (simp_all add: nth_heap_upd_peer wire_def)
  have "wf_geometry (pieces ?s)" using wf_t_ps [OF wf1] by simp
  then have "\<not> wants ?s x" using wants_nothing [of ?s x] all by simp
  then have "updateInterest ?s x = (None, ?s)" using ni at(1) by (simp add: updateInterest_def)
  moreover have "fillRequestWindow ?s x = (None, ?s)" using ni at(1) by (simp add: fillRequestWindow_def)
  ultimately have "handleProtocolMessage (s\<lparr>drains := ds\<rparr>) x m oc = (None, ?s)"
    using assms(2) x f by (auto simp: handleProtocolMessage_def)
  then have "handlePeerEvent (s\<lparr>drains := ds\<rparr>) (PeerMessageReceived x m) oc = Some ?s" using hp by (simp add: hasPeer_def)
  moreover have "serving_to c x ?s"
    by (rule serving_frame [OF assms(1) wf1]) (use at ni in simp_all)
  ultimately show ?thesis using at by (intro exI [of _ ?s]) simp
qed

text \<open>It answers interest by unchoking,\<close>

lemma seed_unchokes:
  assumes "serving_to c x s" and "AmChoking (pstate (heap s ! x))" and "keeping_up ds"
  shows "\<exists>s'. handlePeerEvent (s\<lparr>drains := ds\<rparr>) (PeerMessageReceived x Interested) oc = Some s' \<and>
    serving_to c x s' \<and> wire s' x = wire s x @ [Unchoke] \<and> \<not> AmChoking (pstate (heap s' ! x)) \<and>
    pieces s' = pieces s \<and> Meta s' = Meta s"
proof -
  have wf: "wf_t s" and hp: "hasPeer s x" and x: "x < length (heap s)" and ni: "\<not> AmInterested (pstate (heap s ! x))"
    using assms(1) by (simp_all add: serving_to_def hasPeer_def)
  let ?s = "upd_state (s\<lparr>drains := ds\<rparr>) x (\<lambda>s. s\<lparr>PeerInterested := True\<rparr>)"
  have at: "heap ?s ! x = (heap s ! x)\<lparr>pstate := (pstate (heap s ! x))\<lparr>PeerInterested := True\<rparr>\<rparr>"
    using x by (simp add: upd_state_def nth_heap_upd_peer)
  have x1: "x < length (heap ?s)" using x by simp
  have wf1: "wf_t ?s" by (rule wf_t_upd_state) (use wf in simp)
  have f1: "pieces ?s = pieces s" "tfile ?s = tfile s" "peers ?s = peers s" "Meta ?s = Meta s" by (simp_all add: upd_state_def)
  have "keeps_up (Suc maxPendingPerPeer) (drains ?s)" using keeps_up_less [OF assms(3)] by (simp add: upd_state_def maxPeers_def)
  then obtain s1 where s1: "sendMessage ?s x Unchoke = (None, s1)"
    using sendMessage_drained [OF wf1 x1] by blast
  note f = sendMessage_fields [OF s1] and w = sendMessage_wire [OF s1 x1 x1]
  let ?s2 = "upd_state s1 x (\<lambda>s. s\<lparr>AmChoking := False\<rparr>)"
  have at2: "heap ?s2 ! x = (heap s1 ! x)\<lparr>pstate := (pstate (heap s1 ! x))\<lparr>AmChoking := False\<rparr>\<rparr>"
    using x1 f(6) by (simp add: upd_state_def nth_heap_upd_peer)
  have wf2: "wf_t ?s2" by (rule wf_t_upd_state [OF wf_t_sendMessage [OF wf1 x1 s1]])
  have "handleProtocolMessage (s\<lparr>drains := ds\<rparr>) x Interested oc = (None, ?s2)"
    using x s1 assms(2) at by (simp add: handleProtocolMessage_def)
  then have "handlePeerEvent (s\<lparr>drains := ds\<rparr>) (PeerMessageReceived x Interested) oc = Some ?s2" using hp by (simp add: hasPeer_def)
  moreover have "serving_to c x ?s2"
    by (rule serving_frame [OF assms(1) wf2])
      (use f f1 f(11) [OF x1] at at2 ni x in \<open>simp_all add: upd_state_def\<close>)
  moreover have "wire ?s2 x = wire s x @ [Unchoke]" using w at at2 by (simp add: wire_def)
  ultimately show ?thesis using f f1 at2 by (intro exI [of _ ?s2]) (simp add: upd_state_def)
qed

text \<open>and a request by the block.\<close>

definition reply :: "PieceSet \<Rightarrow> byte list \<Rightarrow> BlockRequest \<Rightarrow> Message" where
  "reply p c q = Piece (PieceIndex q) (Begin q) (take (unat (BlockLength q)) (drop (block_pos p q) c))"

lemma seed_replies:
  assumes "serving_to c x s" and "\<not> AmChoking (pstate (heap s ! x))" and "keeping_up ds"
    and "ps_ReadBlock (pieces s) q (Some c) oc = Inr (take (unat (BlockLength q)) (drop (block_pos (pieces s) q) c))"
  shows "\<exists>s'. handlePeerEvent (s\<lparr>drains := ds\<rparr>) (PeerMessageReceived x (Request q)) oc = Some s' \<and>
    serving_to c x s' \<and> wire s' x = wire s x @ [reply (pieces s) c q] \<and> \<not> AmChoking (pstate (heap s' ! x)) \<and>
    pieces s' = pieces s \<and> Meta s' = Meta s"
proof -
  let ?s = "s\<lparr>drains := ds\<rparr>" and ?data = "take (unat (BlockLength q)) (drop (block_pos (pieces s) q) c)"
  have wf: "wf_t ?s" and hp: "hasPeer s x" and x: "x < length (heap ?s)" and ni: "\<not> AmInterested (pstate (heap s ! x))"
    and tf: "tfile s = Some c"
    using assms(1) by (simp_all add: serving_to_def hasPeer_def)
  have "keeps_up (Suc maxPendingPerPeer) (drains ?s)" using keeps_up_less [OF assms(3)] by (simp add: maxPeers_def)
  then obtain s1 where s1: "sendMessage ?s x (reply (pieces s) c q) = (None, s1)"
    using sendMessage_drained [OF wf x] by blast
  note f = sendMessage_fields [OF s1] and w = sendMessage_wire [OF s1 x x] and wf1 = wf_t_sendMessage [OF wf x s1]
  let ?s2 = "s1\<lparr>uploaded := uploaded s1 + of_nat (length ?data)\<rparr>"
  have "serveBlock ?s x q oc = (None, ?s2)"
    using x s1 assms(2,4) tf by (simp add: serveBlock_def reply_def)
  then have "handleProtocolMessage ?s x (Request q) oc = (None, ?s2)" using x by (simp add: handleProtocolMessage_def)
  then have "handlePeerEvent ?s (PeerMessageReceived x (Request q)) oc = Some ?s2" using hp by (simp add: hasPeer_def)
  moreover have "serving_to c x ?s2"
    by (rule serving_frame [OF assms(1)]) (use f f(11) [OF x] wf1 ni in simp_all)
  moreover have "wire ?s2 x = wire s x @ [reply (pieces s) c q]" using w by (simp add: wire_def)
  ultimately show ?thesis using f f(11) [OF x] assms(2) by (intro exI [of _ ?s2]) simp
qed

subsection \<open>The invariant of the exchange\<close>

fun requests :: "Message list \<Rightarrow> BlockRequest list" where
  "requests [] = []"
| "requests (Request q # ms) = q # requests ms"
| "requests (_ # ms) = requests ms"

lemma requests_append [simp]: "requests (ms @ ms') = requests ms @ requests ms'"
  by (induction ms rule: requests.induct) auto

lemma requests_Request [simp]: "requests (map Request qs) = qs"
  by (induction qs) auto

text \<open>Before the client has heard the seed's bitfield it is as it was; it is then interested and choked, until it is
  unchoked; from then on what is pending is exactly what was requested and not answered yet, in order.\<close>

definition greeting :: "Torrent \<Rightarrow> pref \<Rightarrow> pref \<Rightarrow> link \<Rightarrow> bool" where
  "greeting d0 r x l \<longleftrightarrow> downloader l = d0 \<and> to_client l = 0 \<and> to_seed l \<le> 1 \<and>
     AmChoking (pstate (heap (seeder l) ! x)) \<and> wire (seeder l) x = [Bitfield (PiecesBitfield (pieces (seeder l)))]"

definition choked :: "Torrent \<Rightarrow> byte list \<Rightarrow> pref \<Rightarrow> pref \<Rightarrow> link \<Rightarrow> bool" where
  "choked d0 c r x l \<longleftrightarrow> seeded c r (downloader l) \<and> PeerChoking (pstate (heap (downloader l) ! r)) \<and> pending (downloader l) = [] \<and>
     missing (pieces (downloader l)) = missing (pieces d0) \<and> to_client l = 1 \<and> to_seed l \<le> 2 \<and>
     wire (downloader l) r = [Bitfield (PiecesBitfield (pieces d0)), Interested] \<and>
     wire (seeder l) x = Bitfield (PiecesBitfield (pieces (seeder l))) # (if to_seed l = 2 then [Unchoke] else []) \<and>
     (AmChoking (pstate (heap (seeder l) ! x)) \<longleftrightarrow> to_seed l < 2)"

definition flowing :: "Torrent \<Rightarrow> byte list \<Rightarrow> pref \<Rightarrow> pref \<Rightarrow> Message list \<Rightarrow> link \<Rightarrow> bool" where
  "flowing d0 c r x ms l \<longleftrightarrow> supplied c r (downloader l) \<and> \<not> AmChoking (pstate (heap (seeder l) ! x)) \<and>
     wire (downloader l) r = Bitfield (PiecesBitfield (pieces d0)) # Interested # ms \<and> set ms \<subseteq> range Have \<union> range Request \<and>
     length ms \<le> length (requests ms) + (to_client l - 2) \<and>
     2 \<le> to_seed l \<and> to_seed l \<le> length ms + 2 \<and> 2 \<le> to_client l \<and> to_client l \<le> length (wire (seeder l) x) \<and>
     wire (seeder l) x = Bitfield (PiecesBitfield (pieces (seeder l))) # Unchoke #
       map (reply (pieces (seeder l)) c) (requests (take (to_seed l - 2) ms)) \<and>
     map fst (pending (downloader l)) = drop (to_client l - 2) (requests ms) \<and>
     card (missing (pieces (downloader l))) + (to_client l - 2) = card (missing (pieces d0))"

definition exchange :: "Torrent \<Rightarrow> byte list \<Rightarrow> pref \<Rightarrow> pref \<Rightarrow> PieceSet \<Rightarrow> link \<Rightarrow> bool" where
  "exchange d0 c r x p l \<longleftrightarrow>
     serving_to c x (seeder l) \<and> pieces (seeder l) = p \<and> Meta (downloader l) = Meta d0 \<and>
     (greeting d0 r x l \<or> choked d0 c r x l \<or> (\<exists>ms. flowing d0 c r x ms l))"

text \<open>What is fixed: the published content, the seed's complete set, and where the client starts.\<close>

definition exchange_start :: "Torrent \<Rightarrow> byte list \<Rightarrow> pref \<Rightarrow> PieceSet \<Rightarrow> bool" where
  "exchange_start d0 c r p \<longleftrightarrow>
     published c (MInfo (Meta d0)) \<and> wf_geometry p \<and> ps_info p = MInfo (Meta d0) \<and>
     (\<forall>i < length (ps_states p). Complete (ps_states p ! i)) \<and> fits (Bitfield (PiecesBitfield p)) \<and>
     wf_t d0 \<and> joined d0 r \<and> downloadMode d0 \<noteq> downloadModePaused \<and>
     (\<exists>f. tfile d0 = Some f \<and> from_content c (pieces d0) f) \<and> ps_Complete (pieces d0) = Inr False"

lemma supplied_reply:
  assumes "exchange_start d0 c r p" and "supplied c r t" and "Meta t = Meta d0" and "q \<in> fst ` set (pending t)"
  shows "(q, r) \<in> set (pending t)"
    and "ps_ReadBlock p q (Some c) IoOk = Inr (take (unat (BlockLength q)) (drop (block_pos p q) c))"
proof -
  obtain r' where q: "(q, r') \<in> set (pending t)" using assms(4) by auto
  have P: "published c (MInfo (Meta t))" "wf_geometry p" "ps_info p = MInfo (Meta t)"
    "\<forall>i < length (ps_states p). Complete (ps_states p ! i)"
    using assms(1,3) by (simp_all add: exchange_start_def)
  note S = supplied_served [OF assms(2) P q]
  show "(q, r) \<in> set (pending t)" using q S(1) by simp
  obtain data where "ps_ReadBlock p q (Some c) IoOk = Inr data" using S(2) by blast
  then show "ps_ReadBlock p q (Some c) IoOk = Inr (take (unat (BlockLength q)) (drop (block_pos p q) c))"
    using ps_ReadBlock_Inr(3) [OF P(2)] by simp
qed

lemma nth_Cons_Cons: "2 \<le> n \<Longrightarrow> (a # b # xs) ! n = xs ! (n - 2)"
  by (cases n; cases "n - 1") auto

text \<open>Deliveries to the seed.\<close>

lemma flowing_to_seed:
  assumes st: "exchange_start d0 c r p" and inv: "serving_to c x (seeder l)" "pieces (seeder l) = p" "Meta (downloader l) = Meta d0"
    and fl: "flowing d0 c r x ms l" and more: "to_seed l < length ms + 2" and k: "keeping_up ds"
  shows "\<exists>s'. handlePeerEvent ((seeder l)\<lparr>drains := ds\<rparr>) (PeerMessageReceived x (wire (downloader l) r ! to_seed l)) IoOk = Some s' \<and>
    serving_to c x s' \<and> pieces s' = p \<and> flowing d0 c r x ms (l\<lparr>seeder := s', to_seed := Suc (to_seed l)\<rparr>)"
proof -
  let ?n = "to_seed l - 2"
  let ?m = "ms ! ?n"
  have n: "?n < length ms" "2 \<le> to_seed l" using more fl by (auto simp: flowing_def)
  have "wire (downloader l) r = Bitfield (PiecesBitfield (pieces d0)) # Interested # ms" using fl by (simp add: flowing_def)
  then have m: "wire (downloader l) r ! to_seed l = ?m" using nth_Cons_Cons [OF n(2)] by metis
  have t: "take (Suc (to_seed l) - 2) ms = take ?n ms @ [?m]"
  proof -
    have "Suc (to_seed l) - 2 = Suc ?n" using n(2) by simp
    then show ?thesis using take_Suc_conv_app_nth [OF n(1)] by (simp only:)
  qed
  have split: "requests ms = requests (take ?n ms) @ requests [?m] @ requests (drop (Suc ?n) ms)"
  proof -
    have "ms = take ?n ms @ [?m] @ drop (Suc ?n) ms" using id_take_nth_drop [OF n(1)] by simp
    then have "requests ms = requests (take ?n ms @ [?m] @ drop (Suc ?n) ms)" by (rule arg_cong)
    then show ?thesis by (simp only: requests_append)
  qed
  have nc: "\<not> AmChoking (pstate (heap (seeder l) ! x))" using fl by (simp add: flowing_def)
  have "?m \<in> set ms" using n(1) by simp
  then consider i where "?m = Have i" | q where "?m = Request q" using fl by (auto simp: flowing_def)
  then show ?thesis
  proof cases
    case 1
    then obtain s' where h: "handlePeerEvent ((seeder l)\<lparr>drains := ds\<rparr>) (PeerMessageReceived x ?m) IoOk = Some s'"
      "serving_to c x s'" "wire s' x = wire (seeder l) x" "\<not> AmChoking (pstate (heap s' ! x))" "pieces s' = pieces (seeder l)"
      using seed_ignores [OF inv(1), of ?m _ i ds IoOk] nc by auto
    have "requests (take (Suc (to_seed l) - 2) ms) = requests (take ?n ms)" using 1 by (simp only: t) simp
    then have "flowing d0 c r x ms (l\<lparr>seeder := s', to_seed := Suc (to_seed l)\<rparr>)"
      using fl h(3-5) more by (auto simp: flowing_def)
    then show ?thesis using h(1,2,5) inv(2) unfolding m by blast
  next
    case 2
    have "length (wire (seeder l) x) = 2 + length (requests (take ?n ms))" using fl by (simp add: flowing_def)
    then have "to_client l - 2 \<le> length (requests (take ?n ms))" using fl by (auto simp: flowing_def)
    then have "q \<in> set (drop (to_client l - 2) (requests ms))" using 2 by (simp add: split)
    then have "q \<in> fst ` set (pending (downloader l))" using fl by (simp add: flowing_def flip: set_map)
    then have rd: "ps_ReadBlock (pieces (seeder l)) q (Some c) IoOk =
        Inr (take (unat (BlockLength q)) (drop (block_pos (pieces (seeder l)) q) c))"
      using supplied_reply(2) [OF st _ inv(3)] fl inv(2) by (simp add: flowing_def)
    obtain s' where h: "handlePeerEvent ((seeder l)\<lparr>drains := ds\<rparr>) (PeerMessageReceived x ?m) IoOk = Some s'"
      "serving_to c x s'" "wire s' x = wire (seeder l) x @ [reply (pieces (seeder l)) c q]" "\<not> AmChoking (pstate (heap s' ! x))"
      "pieces s' = pieces (seeder l)"
      using seed_replies [OF inv(1) nc k rd] 2 by auto
    have "requests (take (Suc (to_seed l) - 2) ms) = requests (take ?n ms) @ [q]" using 2 by (simp only: t) simp
    then have "flowing d0 c r x ms (l\<lparr>seeder := s', to_seed := Suc (to_seed l)\<rparr>)"
      using fl h(3-5) more by (auto simp: flowing_def)
    then show ?thesis using h(1,2,5) inv(2) unfolding m by blast
  qed
qed

text \<open>Deliveries to the client: the next answer is for the oldest pending request.\<close>

lemma next_reply:
  assumes "pieces (seeder l) = p" and fl: "flowing d0 c r x ms l" and more: "to_client l < length (wire (seeder l) x)"
  obtains q r' rest where "wire (seeder l) x ! to_client l = reply p c q" "pending (downloader l) = (q, r') # rest"
    "map fst rest = drop (Suc (to_client l - 2)) (requests ms)" "Suc (to_client l - 2) \<le> length (requests ms)"
    "Suc (to_client l) - 2 = Suc (to_client l - 2)"
proof -
  let ?n = "to_client l - 2" and ?sent = "requests (take (to_seed l - 2) ms)"
  have w: "wire (seeder l) x = Bitfield (PiecesBitfield p) # Unchoke # map (reply p c) ?sent"
    using fl assms(1) by (simp add: flowing_def)
  have n: "?n < length ?sent" "2 \<le> to_client l" using more fl w by (auto simp: flowing_def)
  have pre: "requests ms = ?sent @ requests (drop (to_seed l - 2) ms)"
    by (metis append_take_drop_id requests_append)
  have m: "wire (seeder l) x ! to_client l = reply p c (?sent ! ?n)"
    unfolding w nth_Cons_Cons [OF n(2)] using n(1) by (rule nth_map)
  have tail: "drop ?n (requests ms) = ?sent ! ?n # drop (Suc ?n) (requests ms)"
    using n(1) by (subst Cons_nth_drop_Suc [symmetric]) (simp_all add: pre nth_append)
  then obtain r' rest where "pending (downloader l) = (?sent ! ?n, r') # rest" "map fst rest = drop (Suc ?n) (requests ms)"
    using fl by (cases "pending (downloader l)") (auto simp: flowing_def)
  moreover have "Suc ?n \<le> length (requests ms)" "Suc (to_client l) - 2 = Suc ?n" using n by (simp_all add: pre)
  ultimately show ?thesis using that m by blast
qed

lemma flowing_to_client:
  assumes st: "exchange_start d0 c r p" and inv: "serving_to c x (seeder l)" "pieces (seeder l) = p" "Meta (downloader l) = Meta d0"
    and fl: "flowing d0 c r x ms l" and more: "to_client l < length (wire (seeder l) x)" and k: "keeping_up ds"
  shows "\<exists>d' ms'. handlePeerEvent ((downloader l)\<lparr>drains := ds\<rparr>) (PeerMessageReceived r (wire (seeder l) x ! to_client l)) IoOk = Some d' \<and>
    Meta d' = Meta d0 \<and> flowing d0 c r x ms' (l\<lparr>downloader := d', to_client := Suc (to_client l)\<rparr>)"
proof -
  let ?d = "downloader l" and ?n = "to_client l - 2"
  obtain q r' rest where m: "wire (seeder l) x ! to_client l = reply p c q" and pd: "pending ?d = (q, r') # rest"
    "map fst rest = drop (Suc ?n) (requests ms)" and n: "Suc ?n \<le> length (requests ms)" "Suc (to_client l) - 2 = Suc ?n"
    by (rule next_reply [OF inv(2) fl more])
  have sd: "supplied c r ?d" using fl by (simp add: flowing_def)
  have wf: "wf_t ?d" using sd seeded_wf [of c r ?d] by (simp add: supplied_def)
  have del: "m_del q (pending ?d) = rest"
  proof -
    have "distinct (map fst (pending ?d))" using wf by (simp add: wf_t_defs)
    then have "\<forall>y \<in> set rest. q \<noteq> fst y" using pd(1) by auto
    then show ?thesis using pd(1) by (simp add: AList.delete_eq filter_id_conv split_beta)
  qed
  have pub: "published c (MInfo (Meta ?d))" "wf_geometry p" "ps_info p = MInfo (Meta ?d)"
    using st inv(3) by (simp_all add: exchange_start_def)
  have mine: "(q, r) \<in> set (pending ?d)"
    and rd: "ps_ReadBlock p q (Some c) IoOk = Inr (take (unat (BlockLength q)) (drop (block_pos p q) c))"
    using supplied_reply [OF st sd inv(3), of q] pd(1) by auto
  obtain d' hs qs where A: "handlePeerEvent (?d\<lparr>drains := ds\<rparr>) (PeerMessageReceived r (reply p c q)) IoOk = Some d'"
    "supplied c r d'" "Meta d' = Meta ?d" "Suc (card (missing (pieces d'))) = card (missing (pieces ?d))"
    "hs = [] \<or> hs = [Have (PieceIndex q)]" "wire d' r = wire ?d r @ hs @ map Request qs"
    "pending d' = rest @ map (\<lambda>q. (q, r)) qs"
    using answer_step [OF sd pub(1) mine pub(2,3) rd k] del unfolding reply_def by auto
  have hs: "requests hs = []" "set hs \<subseteq> range Have" "length hs \<le> 1" using A(5) by auto
  have "flowing d0 c r x (ms @ hs @ map Request qs) (l\<lparr>downloader := d', to_client := Suc (to_client l)\<rparr>)"
  proof -
    have "map fst (pending d') = drop (Suc ?n) (requests ms) @ qs" using A(7) pd(2) by (simp add: comp_def)
    moreover have "to_seed l - 2 \<le> length ms" using fl by (auto simp: flowing_def)
    ultimately show ?thesis
      using fl A(2,4,6) hs more n by (auto simp: flowing_def)
  qed
  then show ?thesis using A(1,3) inv(3) by (auto simp: m)
qed

text \<open>The exchange of greetings.\<close>

lemma greeting_to_seed:
  assumes "serving_to c x (seeder l)" and "greeting d0 r x l" and "joined d0 r" and "to_seed l < length (wire (downloader l) r)"
  shows "\<exists>s'. handlePeerEvent ((seeder l)\<lparr>drains := ds\<rparr>) (PeerMessageReceived x (wire (downloader l) r ! to_seed l)) IoOk = Some s' \<and>
    serving_to c x s' \<and> pieces s' = pieces (seeder l) \<and> greeting d0 r x (l\<lparr>seeder := s', to_seed := Suc (to_seed l)\<rparr>)"
proof -
  have w: "wire (downloader l) r = [Bitfield (PiecesBitfield (pieces d0))]" "to_seed l = 0"
    using assms(2-4) by (auto simp: greeting_def joined_def)
  obtain s' where "handlePeerEvent ((seeder l)\<lparr>drains := ds\<rparr>) (PeerMessageReceived x (Bitfield (PiecesBitfield (pieces d0)))) IoOk = Some s'"
    "serving_to c x s'" "wire s' x = wire (seeder l) x" "AmChoking (pstate (heap s' ! x)) = AmChoking (pstate (heap (seeder l) ! x))"
    "pieces s' = pieces (seeder l)"
    using seed_ignores [OF assms(1), of "Bitfield (PiecesBitfield (pieces d0))" "PiecesBitfield (pieces d0)" _ ds IoOk] by auto
  then show ?thesis using assms(2) w by (intro exI [of _ s']) (simp add: greeting_def)
qed

lemma greeting_to_client:
  assumes st: "exchange_start d0 c r p" and inv: "serving_to c x (seeder l)" "pieces (seeder l) = p" and g: "greeting d0 r x l"
    and k: "keeping_up ds"
  shows "\<exists>d'. handlePeerEvent ((downloader l)\<lparr>drains := ds\<rparr>) (PeerMessageReceived r (wire (seeder l) x ! to_client l)) IoOk = Some d' \<and>
    Meta d' = Meta d0 \<and> choked d0 c r x (l\<lparr>downloader := d', to_client := Suc (to_client l)\<rparr>)"
proof -
  have w: "downloader l = d0" "wire (seeder l) x ! to_client l = Bitfield (PiecesBitfield p)"
    using g inv(2) by (simp_all add: greeting_def)
  obtain f where f: "tfile d0 = Some f" "from_content c (pieces d0) f" using st by (auto simp: exchange_start_def)
  have S: "wf_t d0" "hasPeer d0 r" "downloadMode d0 \<noteq> downloadModePaused" "pending d0 = []" "ps_Complete (pieces d0) = Inr False"
    "wf_geometry p" "\<forall>i < length (ps_states p). Complete (ps_states p ! i)"
    and j: "wire d0 r = [Bitfield (PiecesBitfield (pieces d0))]" "\<not> AmInterested (pstate (heap d0 ! r))" "PeerChoking (pstate (heap d0 ! r))"
    using st by (simp_all add: exchange_start_def joined_def)
  have i: "ps_info p = ps_info (pieces d0)" using st by (simp add: exchange_start_def wf_t_defs)
  obtain d' where "handlePeerEvent (d0\<lparr>drains := ds\<rparr>) (PeerMessageReceived r (Bitfield (PiecesBitfield p))) IoOk = Some d'"
    "seeded c r d'" "Meta d' = Meta d0" "missing (pieces d') = missing (pieces d0)"
    "PeerChoking (pstate (heap d' ! r))" "pending d' = []" "wire d' r = wire d0 r @ [Interested]"
    using bitfield_seeded [OF S(1-4) f S(5,6) i S(7) k, of IoOk] j by auto
  then show ?thesis using g w j by (intro exI [of _ d']) (simp add: greeting_def choked_def)
qed

lemma choked_to_seed:
  assumes "serving_to c x (seeder l)" and "choked d0 c r x l" and "to_seed l < length (wire (downloader l) r)" and "keeping_up ds"
  shows "\<exists>s'. handlePeerEvent ((seeder l)\<lparr>drains := ds\<rparr>) (PeerMessageReceived x (wire (downloader l) r ! to_seed l)) IoOk = Some s' \<and>
    serving_to c x s' \<and> pieces s' = pieces (seeder l) \<and> choked d0 c r x (l\<lparr>seeder := s', to_seed := Suc (to_seed l)\<rparr>)"
proof -
  have w: "wire (downloader l) r = [Bitfield (PiecesBitfield (pieces d0)), Interested]" "AmChoking (pstate (heap (seeder l) ! x))"
    using assms(2,3) by (auto simp: choked_def)
  consider "to_seed l = 0" | "to_seed l = 1" using assms(3) w(1) by fastforce
  then show ?thesis
  proof cases
    case 1
    obtain s' where "handlePeerEvent ((seeder l)\<lparr>drains := ds\<rparr>) (PeerMessageReceived x (Bitfield (PiecesBitfield (pieces d0)))) IoOk = Some s'"
      "serving_to c x s'" "wire s' x = wire (seeder l) x" "AmChoking (pstate (heap s' ! x))" "pieces s' = pieces (seeder l)"
      using seed_ignores [OF assms(1), of "Bitfield (PiecesBitfield (pieces d0))" "PiecesBitfield (pieces d0)" _ ds IoOk] w(2) by auto
    then show ?thesis using assms(2) w 1 by (intro exI [of _ s']) (simp add: choked_def)
  next
    case 2
    obtain s' where "handlePeerEvent ((seeder l)\<lparr>drains := ds\<rparr>) (PeerMessageReceived x Interested) IoOk = Some s'"
      "serving_to c x s'" "wire s' x = wire (seeder l) x @ [Unchoke]" "\<not> AmChoking (pstate (heap s' ! x))" "pieces s' = pieces (seeder l)"
      using seed_unchokes [OF assms(1) w(2) assms(4), of IoOk] by auto
    then show ?thesis using assms(2) w 2 by (intro exI [of _ s']) (simp add: choked_def)
  qed
qed

lemma choked_to_client:
  assumes "choked d0 c r x l" and "Meta (downloader l) = Meta d0" and "to_client l < length (wire (seeder l) x)" and "keeping_up ds"
  shows "\<exists>d' ms. handlePeerEvent ((downloader l)\<lparr>drains := ds\<rparr>) (PeerMessageReceived r (wire (seeder l) x ! to_client l)) IoOk = Some d' \<and>
    Meta d' = Meta d0 \<and> flowing d0 c r x ms (l\<lparr>downloader := d', to_client := Suc (to_client l)\<rparr>)"
proof -
  have s2: "to_seed l = 2" "wire (seeder l) x = [Bitfield (PiecesBitfield (pieces (seeder l))), Unchoke]" "to_client l = 1"
    using assms(1,3) by (auto simp: choked_def split: if_splits)
  have sd: "seeded c r (downloader l)" using assms(1) by (simp add: choked_def)
  obtain d' qs where d: "handlePeerEvent ((downloader l)\<lparr>drains := ds\<rparr>) (PeerMessageReceived r Unchoke) IoOk = Some d'"
    "supplied c r d'" "Meta d' = Meta (downloader l)" "missing (pieces d') = missing (pieces (downloader l))" "asks r [] qs (downloader l) d'"
    using unchoke_supplied [OF sd assms(4), of IoOk] by auto
  have "flowing d0 c r x (map Request qs) (l\<lparr>downloader := d', to_client := Suc (to_client l)\<rparr>)"
    using assms(1) s2 d(2,4,5) by (auto simp: flowing_def choked_def asks_def comp_def)
  then show ?thesis using d(1,3) s2 assms(2) by auto
qed

subsection \<open>Every delivery succeeds\<close>

lemma exchange_to_seed:
  assumes "exchange_start d0 c r p" and "exchange d0 c r x p l" and "to_seed l < length (wire (downloader l) r)" and "keeping_up ds"
  shows "\<exists>s'. handlePeerEvent ((seeder l)\<lparr>drains := ds\<rparr>) (PeerMessageReceived x (wire (downloader l) r ! to_seed l)) IoOk = Some s' \<and>
    exchange d0 c r x p (l\<lparr>seeder := s', to_seed := Suc (to_seed l)\<rparr>)"
proof -
  have inv: "serving_to c x (seeder l)" "pieces (seeder l) = p" "Meta (downloader l) = Meta d0" using assms(2) by (simp_all add: exchange_def)
  consider "greeting d0 r x l" | "choked d0 c r x l" | ms where "flowing d0 c r x ms l" using assms(2) by (auto simp: exchange_def)
  then show ?thesis
  proof cases
    case 1
    moreover have "joined d0 r" using assms(1) by (simp add: exchange_start_def)
    ultimately show ?thesis
      using greeting_to_seed [OF inv(1) 1 _ assms(3), of ds] inv(2,3) by (fastforce simp: exchange_def)
  next
    case 2
    then show ?thesis using choked_to_seed [OF inv(1) 2 assms(3,4)] inv(2,3) by (fastforce simp: exchange_def)
  next
    case 3
    then have "to_seed l < length ms + 2" using assms(3) by (auto simp: flowing_def)
    then show ?thesis using flowing_to_seed [OF assms(1) inv 3 _ assms(4)] inv(3) by (fastforce simp: exchange_def)
  qed
qed

lemma exchange_to_client:
  assumes "exchange_start d0 c r p" and "exchange d0 c r x p l" and "to_client l < length (wire (seeder l) x)" and "keeping_up ds"
  shows "\<exists>d'. handlePeerEvent ((downloader l)\<lparr>drains := ds\<rparr>) (PeerMessageReceived r (wire (seeder l) x ! to_client l)) IoOk = Some d' \<and>
    exchange d0 c r x p (l\<lparr>downloader := d', to_client := Suc (to_client l)\<rparr>)"
proof -
  have inv: "serving_to c x (seeder l)" "pieces (seeder l) = p" "Meta (downloader l) = Meta d0" using assms(2) by (simp_all add: exchange_def)
  consider "greeting d0 r x l" | "choked d0 c r x l" | ms where "flowing d0 c r x ms l" using assms(2) by (auto simp: exchange_def)
  then show ?thesis
  proof cases
    case 1
    then show ?thesis using greeting_to_client [OF assms(1) inv(1,2) 1 assms(4)] inv(1,2) by (fastforce simp: exchange_def)
  next
    case 2
    then show ?thesis using choked_to_client [OF 2 inv(3) assms(3,4)] inv(1,2) by (fastforce simp: exchange_def)
  next
    case 3
    then show ?thesis using flowing_to_client [OF assms(1) inv 3 assms(3,4)] inv(1,2) by (fastforce simp: exchange_def)
  qed
qed

interpretation exchange: invariant_system "link_step r x" "\<lambda>l. exchange_start d0 c r p \<and> exchange d0 c r x p l"
proof
  fix l l'
  assume inv: "exchange_start d0 c r p \<and> exchange d0 c r x p l" and "link_step r x l l'"
  from this(2) show "exchange_start d0 c r p \<and> exchange d0 c r x p l'"
  proof cases
    case (deliver_seed ds s')
    then show ?thesis using exchange_to_seed [of d0 c r p x l ds] inv by auto
  next
    case (deliver_client ds d')
    then show ?thesis using exchange_to_client [of d0 c r p x l ds] inv by auto
  qed
qed

text \<open>All messages are within the size limit of the reader.\<close>

lemma fits_small:
  "fits (Have i)" "fits Interested" "fits Unchoke" "fits (Request q)" "length data \<le> 16384 \<Longrightarrow> fits (Piece i b data)"
  by (simp_all add: fits_def maxPeerMessageSize_def encodeBlockRequest_def PutUint32_def)

lemma reply_fits:
  assumes "ps_blockRequest p (PieceIndex q) (Begin q) = Inr q"
  shows "fits (reply p c q)"
  using assms fits_small(5) by (auto simp: ps_blockRequest_Inr reply_def)

lemma bitfield_fits:
  assumes "wf_geometry p" and "wf_geometry p'" and "ps_info p = ps_info p'" and "fits (Bitfield (PiecesBitfield p))"
  shows "fits (Bitfield (PiecesBitfield p'))"
proof -
  have "ps_Count p = ps_Count p'"
    using wf_geometry_hashes [OF assms(1)] wf_geometry_hashes [OF assms(2)] assms(3) by (simp add: ps_Count_def)
  then show ?thesis
    using assms(4) PiecesBitfield_bits(1) [OF assms(1)] PiecesBitfield_bits(1) [OF assms(2)] by (simp add: fits_def)
qed

lemma exchange_fits:
  assumes st: "exchange_start d0 c r p" and ex: "exchange d0 c r x p l"
  shows "to_seed l < length (wire (downloader l) r) \<Longrightarrow> fits (wire (downloader l) r ! to_seed l)"
    and "to_client l < length (wire (seeder l) x) \<Longrightarrow> fits (wire (seeder l) x ! to_client l)"
proof -
  have geo: "wf_geometry p" "wf_geometry (pieces d0)" and i: "ps_info p = ps_info (pieces d0)" and fp: "fits (Bitfield (PiecesBitfield p))"
    and j: "joined d0 r"
    using st wf_ps_geometry [OF wf_t_ps] by (auto simp: exchange_start_def wf_t_defs)
  have fd: "fits (Bitfield (PiecesBitfield (pieces d0)))" by (rule bitfield_fits [OF geo i fp])
  have p: "pieces (seeder l) = p" using ex by (simp add: exchange_def)
  consider "greeting d0 r x l" | "choked d0 c r x l" | ms where "flowing d0 c r x ms l" using ex by (auto simp: exchange_def)
  then have "\<forall>m \<in> set (wire (downloader l) r). fits m"
  proof cases
    case 3
    then have "set ms \<subseteq> range Have \<union> range Request" by (simp add: flowing_def)
    then have "\<forall>m \<in> set ms. fits m" using fits_small(1,4) by auto
    then show ?thesis using 3 fd fits_small(2) by (simp add: flowing_def)
  qed (use fd fits_small(2) j in \<open>auto simp: greeting_def choked_def joined_def\<close>)
  then show "to_seed l < length (wire (downloader l) r) \<Longrightarrow> fits (wire (downloader l) r ! to_seed l)" by simp
  show "fits (wire (seeder l) x ! to_client l)" if more: "to_client l < length (wire (seeder l) x)"
    using ex unfolding exchange_def
  proof (elim conjE disjE exE)
    assume "greeting d0 r x l"
    then show ?thesis using p fp by (simp add: greeting_def)
  next
    assume "choked d0 c r x l"
    then show ?thesis using more fits_small(3) by (auto simp: choked_def split: if_splits)
  next
    fix ms
    assume fl: "flowing d0 c r x ms l"
    obtain q r' rest where m: "wire (seeder l) x ! to_client l = reply p c q" "pending (downloader l) = (q, r') # rest"
      by (rule next_reply [OF p fl more])
    have "supplied c r (downloader l)" "Meta (downloader l) = Meta d0" using fl ex by (simp_all add: flowing_def exchange_def)
    then have "ps_ReadBlock p q (Some c) IoOk = Inr (take (unat (BlockLength q)) (drop (block_pos p q) c))"
      using supplied_reply(2) [OF st, of "downloader l" q] m(2) by simp
    then have "good_block p q (take (unat (BlockLength q)) (drop (block_pos p q) c))" by (rule ps_ReadBlock_Inr(2) [OF geo(1)])
    then show ?thesis using reply_fits [of p q c] m(1) by (simp add: good_block_def)
  qed
qed

subsection \<open>The exchange ends\<close>

lemma pending_bound:
  assumes "supplied c r t"
  shows "length (pending t) \<le> maxPendingPerPeer"
proof -
  have "filter (\<lambda>(_, a). a = r) (pending t) = pending t"
    using assms by (auto simp: supplied_def seeded_def filter_id_conv)
  then have "length (pending t) = pendingCount t r" by (simp add: pendingCount_def)
  then show ?thesis using assms seeded_wf [of c r t] by (simp add: supplied_def wf_t_defs)
qed

lemma exchange_bound:
  assumes "exchange d0 c r x p l"
  shows "to_seed l + to_client l \<le> 3 * card (missing (pieces d0)) + 12"
proof -
  consider "greeting d0 r x l" | "choked d0 c r x l" | ms where "flowing d0 c r x ms l" using assms by (auto simp: exchange_def)
  then show ?thesis
  proof cases
    case 3
    have "length (pending (downloader l)) \<le> 8"
      using pending_bound [of c r "downloader l"] 3 by (simp add: flowing_def maxPendingPerPeer_def)
    moreover have "length (map fst (pending (downloader l))) = length (drop (to_client l - 2) (requests ms))"
      using 3 by (simp only: flowing_def)
    then have "length (pending (downloader l)) = length (requests ms) - (to_client l - 2)" by simp
    moreover have "length ms \<le> length (requests ms) + (to_client l - 2)" "to_seed l \<le> length ms + 2" "2 \<le> to_client l"
      "card (missing (pieces (downloader l))) + (to_client l - 2) = card (missing (pieces d0))"
      using 3 by (auto simp: flowing_def)
    ultimately show ?thesis by linarith
  qed (simp_all add: greeting_def choked_def)
qed

text \<open>When everything was delivered, nothing is missing.\<close>

lemma exchange_quiet:
  assumes st: "exchange_start d0 c r p" and ex: "exchange d0 c r x p l"
    and q: "length (wire (downloader l) r) \<le> to_seed l" "length (wire (seeder l) x) \<le> to_client l"
  shows "ps_Complete (pieces (downloader l)) = Inr True \<and> (\<exists>f. tfile (downloader l) = Some f \<and> take (length c) f = c)"
proof -
  have "\<not> greeting d0 r x l" using q(2) by (auto simp: greeting_def)
  moreover have "\<not> choked d0 c r x l" using q by (auto simp: choked_def)
  ultimately obtain ms where fl: "flowing d0 c r x ms l" using ex by (auto simp: exchange_def)
  have "to_seed l = length ms + 2" using fl q(1) by (auto simp: flowing_def)
  then have "to_client l = length (requests ms) + 2" using fl q(2) by (auto simp: flowing_def)
  then have "map fst (pending (downloader l)) = []" using fl by (simp add: flowing_def)
  then have "missing (pieces (downloader l)) = {}" using supplied_pending [of c r "downloader l"] fl by (auto simp: flowing_def)
  moreover have "Meta (downloader l) = Meta d0" using ex by (simp add: exchange_def)
  ultimately show ?thesis
    using seeded_finished [of c r "downloader l"] fl st by (simp add: flowing_def supplied_def exchange_start_def)
qed

abbreviation undelivered :: "pref \<Rightarrow> pref \<Rightarrow> link \<Rightarrow> bool" where
  "undelivered r x l \<equiv> to_seed l < length (wire (downloader l) r) \<or> to_client l < length (wire (seeder l) x)"

lemma exchange_progress:
  assumes "exchange_start d0 c r p" and "exchange d0 c r x p l" and "undelivered r x l"
  shows "\<exists>l'. link_step r x l l' \<and> exchange d0 c r x p l' \<and> to_seed l' + to_client l' = Suc (to_seed l + to_client l)"
proof (cases "to_seed l < length (wire (downloader l) r)")
  case True
  obtain s' where "handlePeerEvent ((seeder l)\<lparr>drains := replicate (maxPeers + maxPendingPerPeer) peerWriteQueueSize\<rparr>)
      (PeerMessageReceived x (wire (downloader l) r ! to_seed l)) IoOk = Some s'"
    "exchange d0 c r x p (l\<lparr>seeder := s', to_seed := Suc (to_seed l)\<rparr>)"
    using exchange_to_seed [OF assms(1,2) True keeping_up_drained] by blast
  then show ?thesis
    using deliver_seed [OF True exchange_fits(1) [OF assms(1,2) True] keeping_up_drained]
    by (intro exI [of _ "l\<lparr>seeder := s', to_seed := Suc (to_seed l)\<rparr>"]) simp
next
  case False
  then have c: "to_client l < length (wire (seeder l) x)" using assms(3) by simp
  obtain d' where "handlePeerEvent ((downloader l)\<lparr>drains := replicate (maxPeers + maxPendingPerPeer) peerWriteQueueSize\<rparr>)
      (PeerMessageReceived r (wire (seeder l) x ! to_client l)) IoOk = Some d'"
    "exchange d0 c r x p (l\<lparr>downloader := d', to_client := Suc (to_client l)\<rparr>)"
    using exchange_to_client [OF assms(1,2) c keeping_up_drained] by blast
  then show ?thesis
    using deliver_client [OF c exchange_fits(2) [OF assms(1,2) c] keeping_up_drained]
    by (intro exI [of _ "l\<lparr>downloader := d', to_client := Suc (to_client l)\<rparr>"]) simp
qed

lemma exchange_can_end:
  assumes "exchange_start d0 c r p" and "exchange d0 c r x p l"
  shows "\<exists>l'. reaches (link_step r x) l l' \<and> exchange d0 c r x p l' \<and> \<not> undelivered r x l'"
  using assms(2)
proof (induction "3 * card (missing (pieces d0)) + 12 - (to_seed l + to_client l)" arbitrary: l rule: less_induct)
  case less
  show ?case
  proof (cases "undelivered r x l")
    case False
    then show ?thesis using less.prems reaches_refl [of "link_step r x" l] by blast
  next
    case True
    obtain l1 where l1: "link_step r x l l1" "exchange d0 c r x p l1" "to_seed l1 + to_client l1 = Suc (to_seed l + to_client l)"
      using exchange_progress [OF assms(1) less.prems True] by blast
    have "3 * card (missing (pieces d0)) + 12 - (to_seed l1 + to_client l1) < 3 * card (missing (pieces d0)) + 12 - (to_seed l + to_client l)"
      using exchange_bound [OF l1(2)] l1(3) by linarith
    then show ?thesis using less.hyps [OF _ l1(2)] reaches_first [of "link_step r x", OF _ l1(1)] by blast
  qed
qed

lemma exchange_begins:
  assumes "run_of meta p2 s" and "joined s x" and "tfile s = Some c" and "ps_Complete (pieces s) = Inr True"
  shows "exchange d0 c r x (pieces s) \<lparr>downloader = d0, seeder = s, to_seed = 0, to_client = 0\<rparr>"
proof -
  have "wf_t s" using run_of_inv [OF assms(1)] by blast
  moreover from this have "\<forall>i < length (ps_states (pieces s)). Complete (ps_states (pieces s) ! i)"
    using ps_Complete_all [OF wf_ps_geometry [OF wf_t_ps] assms(4)] by blast
  ultimately show ?thesis
    using assms(2,3) by (simp add: exchange_def greeting_def serving_to_def joined_def)
qed

lemma exchange_members:
  assumes "exchange_start d0 c r p" and "exchange d0 c r x p l"
  shows "hasPeer (downloader l) r" and "hasPeer (seeder l) x"
  using assms
  by (auto simp: exchange_def exchange_start_def greeting_def choked_def flowing_def supplied_def seeded_def joined_def serving_to_def)

text \<open>The client's file keeps its size.\<close>

lemma exchange_sized:
  assumes "exchange_start d0 c r p" and "reaches (link_step r x) l l'" and "exchange d0 c r x p l" and "sized (downloader l)"
  shows "sized (downloader l')"
  using assms(2-4)
proof (induction rule: reaches.induct)
  case (reaches_step l l1 l2)
  have ex: "exchange d0 c r x p l1" using exchange.inv_reaches [OF reaches_step.hyps(1)] assms(1) reaches_step.prems(1) by blast
  have wf: "wf_t (downloader l1)"
    using ex assms(1) seeded_wf [of c r "downloader l1"]
    by (auto simp: exchange_def exchange_start_def greeting_def choked_def flowing_def supplied_def)
  have "sized (downloader l1)" by (rule reaches_step.IH [OF reaches_step.prems])
  with reaches_step.hyps(2) show ?case
  proof cases
    case (deliver_client ds d')
    have "keeps ((downloader l1)\<lparr>drains := ds\<rparr>) d'"
      by (rule handlePeerEvent_keeps [OF _ _ deliver_client(5)]) (use wf deliver_client(3) in simp_all)
    then show ?thesis using \<open>sized (downloader l1)\<close> deliver_client(1) by (auto simp: keeps_def)
  qed simp
qed simp

text \<open>What the invariant says of every state of the exchange.\<close>

lemma exchange_ends:
  assumes st: "exchange_start d c r p" and start: "exchange d c r x p l0" "downloader l0 = d"
    and l: "reaches (link_step r x) l0 l"
  shows "to_seed l + to_client l \<le> 3 * card (missing (pieces d)) + 12"
    and "hasPeer (downloader l) r" and "hasPeer (seeder l) x"
    and "undelivered r x l \<Longrightarrow> \<exists>l'. link_step r x l l'"
    and "\<not> undelivered r x l \<Longrightarrow> ps_Complete (pieces (downloader l)) = Inr True \<and>
       (\<exists>g. tfile (downloader l) = Some g \<and> take (length c) g = c \<and> (sized d \<longrightarrow> g = c))"
    and "\<exists>l'. reaches (link_step r x) l l' \<and> \<not> undelivered r x l'"
proof -
  have ex: "exchange d c r x p l" using exchange.inv_reaches [OF l] start(1) st by blast
  show "to_seed l + to_client l \<le> 3 * card (missing (pieces d)) + 12"
    "undelivered r x l \<Longrightarrow> \<exists>l'. link_step r x l l'" "\<exists>l'. reaches (link_step r x) l l' \<and> \<not> undelivered r x l'"
    using exchange_bound [OF ex] exchange_progress [OF st ex] exchange_can_end [OF st ex] by blast+
  show "hasPeer (downloader l) r" "hasPeer (seeder l) x" by (rule exchange_members [OF st ex])+
  assume "\<not> undelivered r x l"
  then obtain g where g: "ps_Complete (pieces (downloader l)) = Inr True" "tfile (downloader l) = Some g" "take (length c) g = c"
    using exchange_quiet [OF st ex] by (auto simp: not_less)
  moreover have "g = c" if "sized d"
  proof -
    have "sized (downloader l)" using exchange_sized [OF st l start(1)] start(2) that by simp
    moreover have "Meta (downloader l) = Meta d" using ex by (simp add: exchange_def)
    ultimately have "length g = length c" using g(2) st by (simp add: exchange_start_def published_def)
    then show ?thesis using g(3) by simp
  qed
  ultimately show "ps_Complete (pieces (downloader l)) = Inr True \<and>
       (\<exists>g. tfile (downloader l) = Some g \<and> take (length c) g = c \<and> (sized d \<longrightarrow> g = c))" by blast
qed

lemma exchange_start_sessions:
  assumes "run_of meta p1 d" and "run_of meta p2 s" and "published c (MInfo meta)" and "joined d r" and "joined s x"
    and "tfile d = Some f" and "from_content c (pieces d) f" and "ps_Complete (pieces d) = Inr False"
    and "tfile s = Some c" and "ps_Complete (pieces s) = Inr True" and "fits (Bitfield (PiecesBitfield (pieces s)))"
  shows "exchange_start d c r (pieces s)"
    and "exchange d c r x (pieces s) \<lparr>downloader = d, seeder = s, to_seed = 0, to_client = 0\<rparr>"
proof -
  have d: "wf_t d" "Meta d = meta" "downloadMode d \<noteq> downloadModePaused" using run_of_inv [OF assms(1)] by auto
  have s: "wf_t s" "Meta s = meta" using run_of_inv [OF assms(2)] by auto
  have geo: "wf_geometry (pieces s)" using wf_t_ps [OF s(1)] by simp
  show "exchange_start d c r (pieces s)"
    using d s geo assms(3,4,6-8,11) ps_Complete_all [OF geo assms(10)] by (simp add: exchange_start_def wf_t_defs)
  show "exchange d c r x (pieces s) \<lparr>downloader = d, seeder = s, to_seed = 0, to_client = 0\<rparr>"
    by (rule exchange_begins [OF assms(2,5,9,10)])
qed

text \<open>C5. Two sessions complete a download.  A seed and a client of the same published content are joined by a connection
  that delivers every message in order, both sides having queued only their bitfields, and what the client holds is from
  the content.  It is assumed that the write loops keep up (each session's queues are empty when it handles an event) and that
  every file operation, the reads of the seed and the writes of the client, succeeds.  Then, whatever the order in
  which the two directions deliver: the exchange ends, after at most three messages for every missing block and twelve more; no side loses the other; while a message
  is undelivered one can be delivered; and once all are, the client's set is complete and its file begins with the
  content, and is the content when it had its size.\<close>

theorem two_sessions_complete:
  assumes "run_of meta p1 d" and "run_of meta p2 s" and "published c (MInfo meta)" and "joined d r" and "joined s x"
    and "tfile d = Some f" and "from_content c (pieces d) f" and "ps_Complete (pieces d) = Inr False"
    and "tfile s = Some c" and "ps_Complete (pieces s) = Inr True" and "fits (Bitfield (PiecesBitfield (pieces s)))"
    and "reaches (link_step r x) \<lparr>downloader = d, seeder = s, to_seed = 0, to_client = 0\<rparr> l"
  shows "to_seed l + to_client l \<le> 3 * card (missing (pieces d)) + 12 \<and>
    hasPeer (downloader l) r \<and> hasPeer (seeder l) x \<and> (undelivered r x l \<longrightarrow> (\<exists>l'. link_step r x l l')) \<and>
    (\<not> undelivered r x l \<longrightarrow> ps_Complete (pieces (downloader l)) = Inr True \<and>
       (\<exists>g. tfile (downloader l) = Some g \<and> take (length c) g = c \<and> (sized d \<longrightarrow> g = c))) \<and>
    (\<exists>l'. reaches (link_step r x) l l' \<and> \<not> undelivered r x l')"
  using exchange_ends [OF exchange_start_sessions [OF assms(1-11)] _ assms(12)] by auto

subsection \<open>How two sessions get there\<close>

text \<open>A session without peers that accepts a connection is joined to it.\<close>

lemma accept_joined:
  assumes "run_of meta pid t" and "peers t = []" and "pending t = []"
    and "AcceptIncomingPeer t addr conn h pid = (Inr r, t1)"
  shows "\<exists>t'. handlePeerEvent (t1\<lparr>drains := []\<rparr>) (PeerArrived r) IoOk = Some t' \<and>
    run_of meta pid t' \<and> joined t' r \<and> pieces t' = pieces t \<and> tfile t' = tfile t"
proof -
  let ?p = "(newPeer addr h)\<lparr>incoming := True\<rparr>"
  have t1: "r = length (heap t)" "t1 = t\<lparr>heap := heap t @ [?p]\<rparr>"
    using assms(4) by (auto simp: AcceptIncomingPeer_def alloc_def split: if_splits option.splits prod.splits)
  have run1: "run_of meta pid t1" by (rule run_of_step [OF assms(1) step_accept [OF assms(4)]])
  let ?u = "t1\<lparr>drains := []\<rparr>" and ?m = "Bitfield (PiecesBitfield (pieces t))"
  let ?v = "t1\<lparr>heap := heap t @ [?p\<lparr>outgoing := [?m]\<rparr>], drains := [], peers := [(HsPeerID h, r)]\<rparr>"
  have "tryEnqueue ?u r ?m = (True, t1\<lparr>heap := heap t @ [?p\<lparr>outgoing := [?m]\<rparr>], drains := []\<rparr>)"
    by (simp add: tryEnqueue_def upd_peer_def t1 newPeer_def Let_def peerWriteQueueSize_def)
  then have ev: "handlePeerEvent ?u (PeerArrived r) IoOk = Some ?v"
    using assms(2) by (simp add: activatePeer_def t1 maxPeers_def newPeer_def)
  then have "run_step pid t1 ?v" by (rule step_peer [rotated]) simp
  then have "run_of meta pid ?v" by (rule run_of_step [OF run1])
  moreover have "joined ?v r" using assms(3) by (simp add: joined_def hasPeer_def wire_def t1 newPeer_def)
  ultimately show ?thesis using ev by (intro exI [of _ ?v]) (simp add: t1 del: handlePeerEvent.simps)
qed

lemma OpenSeed_run:
  assumes "OpenSeed meta (Inr c) rd = Inr t0" and "valid_info (MInfo meta)" and "length (PieceHashes (MInfo meta)) < 2 ^ 32"
  shows "\<exists>t. beginRun t0 = (None, t) \<and> run_of meta pid t \<and> running t \<and> Meta t = meta \<and> peers t = [] \<and> pending t = [] \<and> heap t = [] \<and>
    pieces t = pieces t0 \<and> tfile t = tfile t0"
proof -
  obtain n where n: "new_Torrent meta = Inr n" and o: "(case ps_VerifyExisting (pieces n) (Some c) rd of
      (Some er, _) \<Rightarrow> Inl (TPiece er) | (None, ps) \<Rightarrow> Inr (n\<lparr>pieces := ps, tfile := Some c\<rparr>)) = Inr t0"
    using assms(1) by (auto simp: OpenSeed_def bind_r_iffs)
  then have t0: "\<exists>ps. t0 = n\<lparr>pieces := ps, tfile := Some c\<rparr>" by (auto split: prod.splits option.splits)
  have "\<not> running n" using n by (auto simp: new_Torrent_def bind_r_iffs)
  then have b: "beginRun t0 = (None, t0\<lparr>running := True, closeErr := None\<rparr>)" using t0 by (auto simp: beginRun_def)
  have "opened_session meta t0" using assms(1) unfolding opened_session_def by blast
  then have "run_of meta pid (t0\<lparr>running := True, closeErr := None\<rparr>)" by (rule run_ofI [OF assms(2,3) _ b])
  then show ?thesis
    using wf_t_new [OF n assms(2,3)] t0 b by (intro exI [of _ "t0\<lparr>running := True, closeErr := None\<rparr>"]) auto
qed

lemma demo_accepts:
  assumes "running t" and "Meta t = demo_meta"
  shows "AcceptIncomingPeer t None buffer demo_handshake (replicate 20 9) =
    (Inr (length (heap t)), t\<lparr>heap := heap t @ [(newPeer None demo_handshake)\<lparr>incoming := True\<rparr>]\<rparr>)"
  using assms
  by (simp add: AcceptIncomingPeer_def validatePeerHandshake_def demo_handshake_def demo_meta_def
      writePeerHandshake_def WriteHandshake_def wr_Write.simps buffer_def alloc_def)

theorem two_sessions_complete_witness:
  "\<exists>d s l g. reaches (link_step 0 0) \<lparr>downloader = d, seeder = s, to_seed = 0, to_client = 0\<rparr> l \<and>
     pieces d = demo_ps \<and> tfile d = Some [0, 0, 0] \<and> tfile s = Some [1, 2, 3] \<and>
     ps_Complete (pieces (downloader l)) = Inr True \<and> tfile (downloader l) = Some g \<and> take 3 g = [1, 2, 3]"
proof -
  have P: "published [1, 2, 3] (MInfo demo_meta)"
    using demo_small(2) valid_demo_info by (simp add: published_def demo_meta_def demo_info_def piece_digests_def)
  obtain t0 where o: "OpenSeed demo_meta (Inr [1, 2, 3]) (\<lambda>_. IoOk) = Inr t0" "tfile t0 = Some [1, 2, 3]" "wf_ps (pieces t0)"
    "ps_info (pieces t0) = MInfo demo_meta" "\<forall>i < length (ps_states (pieces t0)). Complete (ps_states (pieces t0) ! i)"
    using seed_opens [OF P] by blast
  obtain s0 where s0: "run_of demo_meta (replicate 20 9) s0" "running s0" "Meta s0 = demo_meta" "peers s0 = []" "pending s0 = []"
    "heap s0 = []" "pieces s0 = pieces t0" "tfile s0 = Some [1, 2, 3]"
    using OpenSeed_run [OF o(1) demo_meta_ok, of "replicate 20 9"] o(2) by auto
  obtain s where s: "run_of demo_meta (replicate 20 9) s" "joined s 0" "pieces s = pieces t0" "tfile s = Some [1, 2, 3]"
    using accept_joined [OF s0(1,4,5) demo_accepts [OF s0(2,3)]] s0(6-8) by auto
  have d0: "running demo_open" "Meta demo_open = demo_meta" "peers demo_open = []" "pending demo_open = []" "heap demo_open = []"
    by (simp_all add: demo_open_def)
  obtain d where d: "run_of demo_meta (replicate 20 9) d" "joined d 0" "pieces d = demo_ps" "tfile d = Some [0, 0, 0]"
    using accept_joined [OF run_demo_open d0(3,4) demo_accepts [OF d0(1,2)]] by (auto simp: demo_open_def)
  have fc: "from_content [1, 2, 3] (pieces d) [0, 0, 0]"
    by (simp add: d(3) from_content_def demo_ps_def newPieceState_def agrees_def allBlocksReceived_def less_Suc_eq)
  have "bytes_missing demo_ps = 3"
    using demo_plen by (simp add: bytes_missing_def demo_ps_def newPieceState_def lessThan_Suc numeral_2_eq_2)
  then have cd: "ps_Complete (pieces d) = Inr False"
    by (simp add: d(3) ps_Complete_def ps_BytesLeft_exact [OF wf_ps_geometry [OF wf_demo_ps]])
  have geo: "wf_geometry (pieces s)" using o(3) s(3) by simp
  have cs: "ps_Complete (pieces s) = Inr True" using all_Complete [OF geo] o(5) s(3) by simp
  have "length (PiecesBitfield (pieces s)) = 1"
    using PiecesBitfield_bits(1) [OF geo] wf_geometry_hashes [OF geo] o(4) s(3)
    by (simp add: ps_Count_def demo_meta_def demo_info_def)
  then have ft: "fits (Bitfield (PiecesBitfield (pieces s)))" by (simp add: fits_def maxPeerMessageSize_def)
  note T = two_sessions_complete [OF d(1) s(1) P d(2) s(2) d(4) fc cd s(4) cs ft]
  obtain l where l: "reaches (link_step 0 0) \<lparr>downloader = d, seeder = s, to_seed = 0, to_client = 0\<rparr> l" "\<not> undelivered 0 0 l"
    using T [OF reaches_refl] by blast
  have "ps_Complete (pieces (downloader l)) = Inr True \<and> (\<exists>g. tfile (downloader l) = Some g \<and> take (length [1, 2, 3 :: byte]) g = [1, 2, 3])"
    using T [OF l(1)] l(2) by blast
  moreover have "length [1, 2, 3 :: byte] = 3" by simp
  ultimately show ?thesis using l(1) d(3,4) s(4) by metis
qed

end
