(* ===== verification/Meeting.thy ===== *)
theory Meeting
  imports Two_Sessions
begin

text \<open>
  From opening to the finished download: a client that seeds the content, a session that opens the same torrent to
  download it and dials the client, and what the two then exchange.  No state is assumed: both ends are the ones the
  operations of the code produce.
\<close>

subsection \<open>Dialling the seed\<close>

text \<open>The connection between a session that dials and a client that accepts.  The dialler writes its handshake first
  (\<^verbatim>\<open>connectPeer\<close>); the client reads it, routes it and answers with its own (\<^verbatim>\<open>handleIncomingConnection\<close>,
  \<^verbatim>\<open>AcceptIncomingPeer\<close>), which the dialler reads.\<close>

definition hello :: "Torrent \<Rightarrow> gostring \<Rightarrow> byte list" where
  "hello t pid = written (snd (writePeerHandshake buffer (MInfoHash (Meta t)) pid))"

definition dial_of :: "byte list \<Rightarrow> dialled" where
  "dial_of bytes = \<lparr>d_addr = None, d_out = buffer, d_in = bytes, d_end = ErrEOF\<rparr>"

definition first_contact :: "Client \<Rightarrow> Torrent \<Rightarrow> Torrent \<Rightarrow> gostring \<Rightarrow> (client_error option \<times> Client) \<times> Torrent" where
  "first_contact server s d pid =
     (handleIncomingConnection server (dial_of (hello d pid)) Ready [],
      connectTrackerPeers (d\<lparr>drains := []\<rparr>) pid [Some (dial_of (hello s (cl_peerID server)))])"

abbreviation greeting_of :: "gostring \<Rightarrow> gostring \<Rightarrow> Handshake" where
  "greeting_of ih pid \<equiv> \<lparr>Protocol = PeerProtocol, Reserved = replicate 8 0, HsInfoHash = ih, HsPeerID = pid\<rparr>"

lemma read_hello:
  assumes "length (MInfoHash (Meta t)) = 20" and "length pid = 20"
  shows "ReadHandshake e (hello t pid) = Inr (greeting_of (MInfoHash (Meta t)) pid, [])"
proof -
  let ?h = "greeting_of (MInfoHash (Meta t)) pid"
  have "wf_handshake ?h" using assms by (simp add: wf_handshake_def PeerProtocol_def)
  moreover have "hello t pid = handshakeFrame ?h"
    by (simp add: hello_def writePeerHandshake_def WriteHandshake_def wr_Write.simps buffer_def)
  ultimately show ?thesis using ReadHandshake_frame [of ?h e "[]"] by simp
qed

lemma write_hello: "fst (writePeerHandshake buffer ih pid) = None"
  by (simp add: writePeerHandshake_def WriteHandshake_def wr_Write.simps buffer_def)

text \<open>The accepting side.\<close>

lemma seed_accepts:
  assumes "getTorrent server (MInfoHash meta) = Some s" and "run_of meta (cl_peerID server) s" and "running s"
    and "peers s = []" and "pending s = []" and "Meta s = meta" and "Meta d = meta"
    and "length (MInfoHash meta) = 20" and "length pid = 20" and "pid \<noteq> cl_peerID server"
  shows "\<exists>s'. handleIncomingConnection server (dial_of (hello d pid)) Ready [] = (None, set_torrent server (MInfoHash meta) s') \<and>
    run_of meta (cl_peerID server) s' \<and> joined s' (length (heap s)) \<and> pieces s' = pieces s \<and> tfile s' = tfile s"
proof -
  let ?h = "greeting_of (MInfoHash meta) pid" and ?r = "length (heap s)"
  let ?s1 = "s\<lparr>heap := heap s @ [(newPeer None ?h)\<lparr>incoming := True\<rparr>]\<rparr>"
  have r: "ReadHandshake ErrEOF (hello d pid) = Inr (?h, [])" using read_hello [of d pid] assms(7-9) by simp
  obtain w where "writePeerHandshake buffer (MInfoHash meta) (cl_peerID server) = (None, w)"
    using write_hello by (metis prod.collapse)
  then have a: "AcceptIncomingPeer s None buffer ?h (cl_peerID server) = (Inr ?r, ?s1)"
    using assms(3,6,10) by (simp add: AcceptIncomingPeer_def validatePeerHandshake_def alloc_def)
  obtain s' where "handlePeerEvent (?s1\<lparr>drains := []\<rparr>) (PeerArrived ?r) IoOk = Some s'"
    "run_of meta (cl_peerID server) s'" "joined s' ?r" "pieces s' = pieces s" "tfile s' = tfile s"
    using accept_joined [OF assms(2,4,5) a] by blast
  then show ?thesis
    using r a assms(1)
    by (intro exI [of _ s']) (simp add: handleIncomingConnection_def dial_of_def del: handlePeerEvent.simps)
qed

text \<open>The dialling side.\<close>

lemma dialler_joins:
  assumes "run_of meta pid d" and "peers d = []" and "pending d = []" and "Meta d = meta" and "Meta s = meta"
    and "length (MInfoHash meta) = 20" and "length pid' = 20" and "pid' \<noteq> pid"
  shows "\<exists>d'. connectTrackerPeers (d\<lparr>drains := []\<rparr>) pid [Some (dial_of (hello s pid'))] = d' \<and>
    run_of meta pid d' \<and> joined d' (length (heap d)) \<and> pieces d' = pieces d \<and> tfile d' = tfile d \<and> Meta d' = meta"
proof -
  let ?h = "greeting_of (MInfoHash meta) pid'" and ?c = "dial_of (hello s pid')" and ?m = "Bitfield (PiecesBitfield (pieces d))"
  let ?p = "newPeer None ?h"
  let ?d = "d\<lparr>drains := [], heap := heap d @ [?p\<lparr>outgoing := [?m]\<rparr>], peers := [(pid', length (heap d))]\<rparr>"
  have r: "ReadHandshake ErrEOF (hello s pid') = Inr (?h, [])" using read_hello [of s pid'] assms(5-7) by simp
  obtain w where "writePeerHandshake buffer (MInfoHash meta) pid = (None, w)"
    using write_hello by (metis prod.collapse)
  then have "connectPeer (d\<lparr>drains := []\<rparr>) pid (Some ?c) = Inr ?p"
    using r assms(4,8) by (simp add: connectPeer_def dial_of_def validatePeerHandshake_def)
  moreover have "tryEnqueue (d\<lparr>drains := [], heap := heap d @ [?p]\<rparr>) (length (heap d)) ?m =
      (True, d\<lparr>drains := [], heap := heap d @ [?p\<lparr>outgoing := [?m]\<rparr>]\<rparr>)"
    by (simp add: tryEnqueue_def upd_peer_def newPeer_def Let_def peerWriteQueueSize_def)
  ultimately have eq: "connectTrackerPeers (d\<lparr>drains := []\<rparr>) pid [Some ?c] = ?d"
    using assms(2) by (simp add: alloc_def activatePeer_def maxPeers_def newPeer_def)
  then have "run_step pid d ?d" using step_reannounce [of pid d "[]" "[Some ?c]"] by simp
  then have "run_of meta pid ?d" by (rule run_of_step [OF assms(1)])
  moreover have "joined ?d (length (heap d))" using assms(3) by (simp add: joined_def hasPeer_def wire_def newPeer_def)
  ultimately show ?thesis using eq assms(4) by (intro exI [of _ ?d]) simp
qed

subsection \<open>Opening\<close>

text \<open>A download just opened holds nothing, in a file of the content's size.\<close>

lemma OpenDownload_run:
  assumes "published c (MInfo meta)"
  shows "\<exists>d0 d. OpenDownload meta (Inr f0) None = Inr d0 \<and> beginRun d0 = (None, d) \<and> run_of meta pid d \<and> Meta d = meta \<and>
    peers d = [] \<and> pending d = [] \<and> heap d = [] \<and> (\<forall>st \<in> set (ps_states (pieces d)). st = newPieceState) \<and>
    (\<exists>f. tfile d = Some f \<and> length f = length c)"
proof -
  have v: "valid_info (MInfo meta)" "length (PieceHashes (MInfo meta)) < 2 ^ 32" "Length (MInfo meta) = int (length c)"
    using assms by (auto simp: published_def)
  obtain p where "NewPieceSet (MInfo meta) = Inr p"
    using NewPieceSet_valid_info [OF v(1)] assms by (auto simp: published_def)
  then obtain n where n: "new_Torrent meta = Inr n" "\<not> running n" by (simp add: new_Torrent_def)
  let ?f = "file_Truncate f0 (length c)"
  let ?new = "n\<lparr>tfile := Some ?f\<rparr>"
  let ?d = "?new\<lparr>running := True, closeErr := None\<rparr>"
  have o: "OpenDownload meta (Inr f0) None = Inr ?new" using n v(3) by (simp add: OpenDownload_def)
  have b: "beginRun ?new = (None, ?d)" using n by (simp add: beginRun_def)
  have "opened_session meta ?new" using o unfolding opened_session_def by blast
  then have "run_of meta pid ?d" by (rule run_ofI [OF v(1,2) _ b])
  then show ?thesis
    using o b wf_t_new [OF n(1) v(1,2)] by - (rule exI [of _ ?new], rule exI [of _ ?d], simp)
qed

lemma fresh_from_content:
  assumes "wf_geometry p" and "\<forall>st \<in> set (ps_states p). st = newPieceState"
  shows "from_content c p f"
proof -
  have "ps_states p ! i = newPieceState \<and> 0 < pcount (plen_at p i) 16384" if "i < length (ps_states p)" for i
    using assms that plen_at_pos [OF assms(1) that] by (simp add: pcount_pos)
  then show ?thesis by (simp add: from_content_def newPieceState_def agrees_def allBlocksReceived_def)
qed

lemma fresh_incomplete:
  assumes "wf_geometry p" and "\<forall>st \<in> set (ps_states p). st = newPieceState" and "0 < ps_total p"
  shows "ps_Complete p = Inr False"
proof -
  have "0 < pcount (ps_total p) (ps_psize p)" using assms(1,3) by (simp add: wf_geometry_def less_pcount)
  then have "ps_states p \<noteq> []" using assms(1) by (auto simp: wf_geometry_def)
  then have "bytes_missing p \<noteq> 0" using assms(2) bytes_missing_0 [OF assms(1)] by (cases "ps_states p") (auto simp: newPieceState_def)
  moreover have "ps_total p < 2 ^ 63" using assms(1) by (simp add: wf_geometry_def in_int64_def nat_less_iff)
  then have "bytes_missing p < 2 ^ 64" using bytes_missing_le [OF assms(1)] by simp
  ultimately show ?thesis using ps_BytesLeft_exact [OF assms(1)] by (simp add: ps_Complete_def unat_of_nat_small flip: unat_eq_0)
qed

text \<open>Metainfo within the limits of the parser has a bitfield within the limit of a message.\<close>

lemma fits_bitfield:
  assumes "wf_geometry p" and "ps_info p = MInfo meta" and "valid_info (MInfo meta)" and "fits_limits meta"
  shows "fits (Bitfield (PiecesBitfield p))"
proof -
  have "20 * length (ps_states p) \<le> maxBencodedStringLength"
    using assms(3,4) wf_geometry_hashes [OF assms(1)] assms(2) length_concat_20 [of "PieceHashes (MInfo meta)"]
    by (simp add: valid_info_def fits_limits_def mashalPieceHashes_def)
  then have "length (PiecesBitfield p) \<le> 499999"
    using PiecesBitfield_bits(1) [OF assms(1)] by (simp add: ps_Count_def maxBencodedStringLength_def)
  then show ?thesis by (simp add: fits_def maxPeerMessageSize_def)
qed

subsection \<open>The whole way\<close>

text \<open>Where the exchange starts.\<close>

definition linked :: "Torrent \<Rightarrow> Torrent \<Rightarrow> link" where
  "linked d s = \<lparr>downloader = d, seeder = s, to_seed = 0, to_client = 0\<rparr>"

lemma fits_demo:
  assumes "MInfo m = demo_info" and "length (Announce m) < 10"
  shows "fits_limits m"
  using assms
  by (simp add: fits_limits_def demo_info_def mashalPieceHashes_def metaInfoBencoding_def infoBencoding_def bytes_of_def
      bstr_def benc_entries_def FormatInt_def nat_decimal_small nat_decimal_step maxBencodedStringLength_def maxMetaInfoSize_def)

text \<open>Both sides open, the client registers its session, and the contact joins them.\<close>

lemma contact_joins:
  assumes "published c (MInfo meta)" and "length (MInfoHash meta) = 20" and "getTorrent client (MInfoHash meta) = None"
    and "length (cl_peerID client) = 20" and "length pid = 20" and "pid \<noteq> cl_peerID client"
  shows "\<exists>s0 s1 d0 d1 client1 client2 s d f. OpenSeed meta (Inr c) (\<lambda>_. IoOk) = Inr s0 \<and>
    RegisterTorrent client (Some s0) = (None, client1) \<and> beginRun s0 = (None, s1) \<and>
    OpenDownload meta (Inr f0) None = Inr d0 \<and> beginRun d0 = (None, d1) \<and>
    first_contact (set_torrent client1 (MInfoHash meta) s1) s1 d1 pid = ((None, client2), d) \<and>
    getTorrent client2 (MInfoHash meta) = Some s \<and>
    run_of meta (cl_peerID client) s \<and> joined s 0 \<and> tfile s = Some c \<and> ps_Complete (pieces s) = Inr True \<and>
    run_of meta pid d \<and> joined d 0 \<and> pieces d = pieces d0 \<and> (\<forall>st \<in> set (ps_states (pieces d)). st = newPieceState) \<and>
    tfile d = Some f \<and> length f = length c"
proof -
  let ?ih = "MInfoHash meta"
  have v: "valid_info (MInfo meta)" "length (PieceHashes (MInfo meta)) < 2 ^ 32" using assms(1) by (auto simp: published_def)
  obtain s0 where s0: "OpenSeed meta (Inr c) (\<lambda>_. IoOk) = Inr s0" "tfile s0 = Some c" "wf_ps (pieces s0)"
    "\<forall>i < length (ps_states (pieces s0)). Complete (ps_states (pieces s0) ! i)"
    using seed_opens [OF assms(1)] by blast
  obtain s1 where s1: "beginRun s0 = (None, s1)" "run_of meta (cl_peerID client) s1" "running s1" "Meta s1 = meta"
    "peers s1 = []" "pending s1 = []" "heap s1 = []" "pieces s1 = pieces s0" "tfile s1 = tfile s0"
    using OpenSeed_run [OF s0(1) v, of "cl_peerID client"] by blast
  obtain d0 d1 f where d: "OpenDownload meta (Inr f0) None = Inr d0" "beginRun d0 = (None, d1)" "run_of meta pid d1"
    "Meta d1 = meta" "peers d1 = []" "pending d1 = []" "heap d1 = []" "\<forall>st \<in> set (ps_states (pieces d1)). st = newPieceState"
    and f: "tfile d1 = Some f" "length f = length c"
    using OpenDownload_run [OF assms(1), of f0 pid] by blast
  have m0: "Meta s0 = meta" and p0: "pieces d0 = pieces d1"
    using s1(1,4) d(2) by (auto simp: beginRun_def split: if_splits)
  let ?client1 = "set_torrent client ?ih s0"
  let ?client = "set_torrent ?client1 ?ih s1"
  have reg: "RegisterTorrent client (Some s0) = (None, ?client1)"
    using assms(3) m0 by (simp add: RegisterTorrent_def getTorrent_def)
  have g: "getTorrent ?client ?ih = Some s1" "cl_peerID ?client = cl_peerID client"
    "\<And>s. getTorrent (set_torrent ?client ?ih s) ?ih = Some s"
    by (simp_all add: getTorrent_def set_torrent_def)
  obtain s where s: "handleIncomingConnection ?client (dial_of (hello d1 pid)) Ready [] = (None, set_torrent ?client ?ih s)"
    "run_of meta (cl_peerID client) s" "joined s 0" "pieces s = pieces s0" "tfile s = Some c"
    using seed_accepts [OF g(1) _ s1(3,5,6,4) d(4) assms(2,5)] s1(2,7-9) s0(2) assms(6) unfolding g(2) by auto
  obtain d' where d': "connectTrackerPeers (d1\<lparr>drains := []\<rparr>) pid [Some (dial_of (hello s1 (cl_peerID client)))] = d'"
    "run_of meta pid d'" "joined d' 0" "pieces d' = pieces d1" "tfile d' = Some f"
    using dialler_joins [OF d(3,5,6,4) s1(4) assms(2,4) not_sym [OF assms(6)]] d(7) f(1) by auto
  have "first_contact ?client s1 d1 pid = ((None, set_torrent ?client ?ih s), d')"
    using s(1) d'(1) by (simp add: first_contact_def set_torrent_def)
  moreover have "ps_Complete (pieces s) = Inr True" using all_Complete [of "pieces s"] s0(3,4) s(4) by simp
  ultimately show ?thesis
    using s0(1) reg s1(1) d(1,2) g(3) s(2,3,5) d'(2,3,5) d'(4) [folded p0] d(8) [folded d'(4)] f(2) by blast
qed

text \<open>The start of the exchange between a fresh download and a complete seed.\<close>

lemma fresh_exchange:
  assumes "published c (MInfo meta)" and "fits_limits meta" and "c \<noteq> []" and "run_of meta p1 d" and "joined d r"
    and "\<forall>st \<in> set (ps_states (pieces d)). st = newPieceState" and "tfile d = Some f"
    and "run_of meta p2 s" and "joined s x" and "tfile s = Some c" and "ps_Complete (pieces s) = Inr True"
  shows "exchange_start d c r (pieces s)" and "exchange d c r x (pieces s) (linked d s)"
proof -
  have v: "valid_info (MInfo meta)" "Length (MInfo meta) = int (length c)" using assms(1) by (auto simp: published_def)
  have geo: "wf_geometry (pieces d)" "ps_info (pieces d) = MInfo meta" using run_of_inv [OF assms(4)] by (auto simp: wf_t_defs)
  have geos: "wf_geometry (pieces s)" "ps_info (pieces s) = MInfo meta" using run_of_inv [OF assms(8)] by (auto simp: wf_t_defs)
  have "0 < ps_total (pieces d)" using v(2) geo(2) assms(3) by simp
  note start = exchange_start_sessions [OF assms(4,8,1,5,9,7) fresh_from_content [OF geo(1) assms(6)]
      fresh_incomplete [OF geo(1) assms(6) this] assms(10,11) fits_bitfield [OF geos v(1) assms(2)]]
  show "exchange_start d c r (pieces s)" by (rule start(1))
  show "exchange d c r x (pieces s) (linked d s)" unfolding linked_def by (rule start(2))
qed

text \<open>C1. From content to copy.  For content of at least one byte and its metainfo (within the parser's limits): a seed
  opens it, a client registers it, another session opens the torrent for download on whatever file it finds, and once
  both run, that session dials the client and both have the other as peer, having queued their bitfields.  From there
  two things are assumed of every step of the exchange: the write loops keep up (before a session handles an event,
  its write loops have emptied the queues of its peers, so no message is refused for a full queue) and every file
  operation succeeds (a write that fails would leave its piece without a way to complete, see \<open>ps_VerifyAndWrite\<close>).
  Under these two assumptions, however the messages of the two directions interleave: the exchange takes at most
  three messages for every missing block and twelve more, never stalls, and when nothing is left to deliver, the download
  is complete and its file is the content, byte for byte; and that point is reached.\<close>

theorem content_is_copied:
  assumes "published c (MInfo meta)" and "fits_limits meta" and "length (MInfoHash meta) = 20" and "c \<noteq> []"
    and "getTorrent client (MInfoHash meta) = None" and "length (cl_peerID client) = 20" and "length pid = 20"
    and "pid \<noteq> cl_peerID client"
  shows "\<exists>s0 s1 d0 d1 client1 client2 s d. OpenSeed meta (Inr c) (\<lambda>_. IoOk) = Inr s0 \<and>
    RegisterTorrent client (Some s0) = (None, client1) \<and> beginRun s0 = (None, s1) \<and>
    OpenDownload meta (Inr f0) None = Inr d0 \<and> beginRun d0 = (None, d1) \<and>
    first_contact (set_torrent client1 (MInfoHash meta) s1) s1 d1 pid = ((None, client2), d) \<and>
    getTorrent client2 (MInfoHash meta) = Some s \<and>
    (\<forall>l. reaches (link_step 0 0) (linked d s) l \<longrightarrow>
       to_seed l + to_client l \<le> 3 * card (missing (pieces d0)) + 12 \<and>
       (undelivered 0 0 l \<longrightarrow> (\<exists>l'. link_step 0 0 l l')) \<and>
       (\<not> undelivered 0 0 l \<longrightarrow> ps_Complete (pieces (downloader l)) = Inr True \<and> tfile (downloader l) = Some c)) \<and>
    (\<exists>l. reaches (link_step 0 0) (linked d s) l \<and> \<not> undelivered 0 0 l)"
proof -
  obtain s0 s1 d0 d1 client1 client2 s d f where J: "OpenSeed meta (Inr c) (\<lambda>_. IoOk) = Inr s0"
    "RegisterTorrent client (Some s0) = (None, client1)" "beginRun s0 = (None, s1)"
    "OpenDownload meta (Inr f0) None = Inr d0" "beginRun d0 = (None, d1)"
    "first_contact (set_torrent client1 (MInfoHash meta) s1) s1 d1 pid = ((None, client2), d)"
    "getTorrent client2 (MInfoHash meta) = Some s"
    and S: "run_of meta (cl_peerID client) s" "joined s 0" "tfile s = Some c" "ps_Complete (pieces s) = Inr True"
    and D: "run_of meta pid d" "joined d 0" "pieces d = pieces d0" "\<forall>st \<in> set (ps_states (pieces d)). st = newPieceState"
    "tfile d = Some f" "length f = length c"
    using contact_joins [OF assms(1,3,5-8), of f0] by blast
  note st = fresh_exchange [OF assms(1,2,4) D(1,2,4,5) S]
  have "sized d" using run_of_inv [OF D(1)] D(5,6) assms(1) by (auto simp: published_def)
  then have E: "to_seed l + to_client l \<le> 3 * card (missing (pieces d0)) + 12"
    "undelivered 0 0 l \<Longrightarrow> \<exists>l'. link_step 0 0 l l'"
    "\<not> undelivered 0 0 l \<Longrightarrow> ps_Complete (pieces (downloader l)) = Inr True \<and> tfile (downloader l) = Some c"
    "\<exists>l'. reaches (link_step 0 0) l l' \<and> \<not> undelivered 0 0 l'" if "reaches (link_step 0 0) (linked d s) l" for l
    using exchange_ends [OF st _ that] D(3) by (auto simp: linked_def)
  have "\<exists>l. reaches (link_step 0 0) (linked d s) l \<and> \<not> undelivered 0 0 l" by (rule E(4) [OF reaches_refl])
  with J E(1-3) show ?thesis by blast
qed

theorem content_is_copied_witness:
  "\<exists>client2 s d l. getTorrent client2 (replicate 20 7) = Some s \<and> reaches (link_step 0 0) (linked d s) l \<and>
     \<not> undelivered 0 0 l \<and> tfile (downloader l) = Some [1, 2, 3]"
proof -
  let ?c = "[1, 2, 3 :: byte]" and ?client = "\<lparr>cl_peerID = replicate 20 9, cl_torrents = [], listenPort = 0, listenAddress = None\<rparr>"
  have P: "published ?c (MInfo demo_meta)"
    using demo_small(2) valid_demo_info by (simp add: published_def demo_meta_def demo_info_def piece_digests_def)
  have fl: "fits_limits demo_meta" by (rule fits_demo) (simp_all add: demo_meta_def)
  have ih: "MInfoHash demo_meta = replicate 20 7" by (simp add: demo_meta_def)
  have "replicate 20 5 \<noteq> cl_peerID ?client" by simp
  then obtain client2 s d where "getTorrent client2 (MInfoHash demo_meta) = Some s"
    "\<And>l. reaches (link_step 0 0) (linked d s) l \<Longrightarrow> \<not> undelivered 0 0 l \<Longrightarrow> tfile (downloader l) = Some ?c"
    "\<exists>l. reaches (link_step 0 0) (linked d s) l \<and> \<not> undelivered 0 0 l"
    using content_is_copied [OF P fl, of ?client "replicate 20 5" "[]"] ih by (auto simp: getTorrent_def)
  then show ?thesis unfolding ih by blast
qed

end
