(* ===== verification/Metainfo_Store.thy ===== *)
theory Metainfo_Store
  imports Tracker_Command
begin

text \<open>
  The metainfo store of the unfinished daemon, \<^verbatim>\<open>src/torrentd/record.go\<close>: importing a torrent file into the store's
  directory, and opening a store on a directory.  The package does not compile.  \<^verbatim>\<open>Import\<close> is well typed by itself;
  in \<^verbatim>\<open>OpenMetainfoStore\<close> the call of \<^verbatim>\<open>strings.Join\<close> lacks its separator, so what it returns is a parameter.  \<^verbatim>\<open>Get\<close>,
  \<^verbatim>\<open>Remove\<close>, \<^verbatim>\<open>List\<close> and \<^verbatim>\<open>loadTorrentMetadata\<close> have no typing, and no model.
\<close>

subsection \<open>The store\<close>

record MetainfoRecord =
  mr_Meta :: MetaInfo
  mr_path :: gostring
  mr_ID :: gostring

record MetainfoStore =
  ms_root :: gostring
  ms_byId :: "(gostring \<times> MetainfoRecord) list"
  ms_byInfoHash :: "(gostring \<times> gostring) list"

datatype store_error =
    StoreMetaInfo metainfo_error
  | StoreIo io_error
  | StoreWrite bencode_error
  | ErrInvalidMetadataRecord

definition metainfo_dir :: gostring where
  "metainfo_dir = bytes_of ''metainfo''"

text \<open>\<open>created\<close> is what \<^verbatim>\<open>os.Create\<close> returns for the path: the file, empty, as a writer that may fail.  A write that fails
  leaves what it had written.\<close>

definition store_Import ::
    "oslib \<Rightarrow> MetainfoStore \<Rightarrow> gostring \<Rightarrow> io_error \<Rightarrow> byte list \<Rightarrow> io_error + writer \<Rightarrow> (gostring \<rightharpoonup> byte list) \<Rightarrow>
     (store_error + MetainfoRecord) \<times> MetainfoStore \<times> (gostring \<rightharpoonup> byte list)" where
  "store_Import os ms ident e r created fs =
     (case ReadMetaInfo e r of
        Inl er \<Rightarrow> (Inl (StoreMetaInfo er), ms, fs)
      | Inr metainfo \<Rightarrow>
     (let metainfoFileName = ident @ bytes_of ''.torrent'';
          path = filepath_Join os (filepath_Join os (ms_root ms) metainfo_dir) metainfoFileName;
          rec = \<lparr>mr_Meta = metainfo, mr_path = path, mr_ID = ident\<rparr> in
      case created of
        Inl er \<Rightarrow> (Inl (StoreIo er), ms, fs)
      | Inr file \<Rightarrow>
     (case WriteMetainfo (mr_Meta rec) file of
        (Some er, file') \<Rightarrow> (Inl (StoreWrite er), ms, fs(path \<mapsto> written file'))
      | (None, file') \<Rightarrow>
          (Inr rec,
           ms\<lparr>ms_byId := m_put ident rec (ms_byId ms),
              ms_byInfoHash := m_put (MInfoHash metainfo) (MInfoHash (mr_Meta rec)) (ms_byInfoHash ms)\<rparr>,
           fs(path \<mapsto> written file')))))"

subsection \<open>Opening\<close>

text \<open>\<^verbatim>\<open>strings.Split\<close> on a one-byte separator: always at least one part.\<close>

fun strings_Split :: "byte \<Rightarrow> gostring \<Rightarrow> gostring list" where
  "strings_Split d [] = [[]]"
| "strings_Split d (c # s) =
     (if c = d then [] # strings_Split d s
      else case strings_Split d s of [] \<Rightarrow> [[c]] | p # ps \<Rightarrow> (c # p) # ps)"

text \<open>The loop over the directory; \<open>joined\<close> stands for the call \<^verbatim>\<open>strings.Join(fSplit[:len(fSplit)])\<close>.\<close>

fun openStore_loop ::
    "oslib \<Rightarrow> (gostring list \<Rightarrow> gostring) \<Rightarrow> gostring \<Rightarrow> (gostring \<times> bool) list \<Rightarrow>
     (gostring \<times> MetainfoRecord) list \<times> (gostring \<times> gostring) list \<Rightarrow>
     store_error + (gostring \<times> MetainfoRecord) list \<times> (gostring \<times> gostring) list" where
  "openStore_loop os joined dir [] maps = Inr maps"
| "openStore_loop os joined dir ((name, isDir) # entries) (byId, byInfoHash) =
     (if isDir then openStore_loop os joined dir entries (byId, byInfoHash)
      else let filePath = filepath_Join os dir name in
      case os_Open os filePath of
        Inl er \<Rightarrow> Inl (StoreIo er)
      | Inr (content, e, _) \<Rightarrow>
     (case ReadMetaInfo e content of
        Inl er \<Rightarrow> Inl (StoreMetaInfo er)
      | Inr metainfo \<Rightarrow>
          let fSplit = strings_Split 46 name in
          if length fSplit = 0 then Inl ErrInvalidMetadataRecord
          else let ident = joined (take (length fSplit) fSplit);
                   rec = \<lparr>mr_Meta = metainfo, mr_path = filePath, mr_ID = ident\<rparr> in
          openStore_loop os joined dir entries (m_put ident rec byId, m_put (MInfoHash (mr_Meta rec)) ident byInfoHash)))"

definition OpenMetainfoStore :: "oslib \<Rightarrow> (gostring list \<Rightarrow> gostring) \<Rightarrow> gostring \<Rightarrow> store_error + MetainfoStore" where
  "OpenMetainfoStore os joined root =
     (let metainfoDirPath = filepath_Join os root metainfo_dir in
      case os_ReadDir os metainfoDirPath of
        Inl er \<Rightarrow> Inl (StoreIo er)
      | Inr entries \<Rightarrow>
          map_sum id (\<lambda>(byId, byInfoHash). \<lparr>ms_root = root, ms_byId = byId, ms_byInfoHash = byInfoHash\<rparr>)
            (openStore_loop os joined metainfoDirPath entries ([], [])))"

subsection \<open>What is proved\<close>

lemma strings_Split_nonempty: "strings_Split d s \<noteq> []"
  by (cases s) (auto split: list.split)

lemma strings_Split_parts: "\<forall>p \<in> set (strings_Split d s). d \<notin> set p"
  by (induction s) (auto split: list.splits)

text \<open>Joining the parts with the separator gives the string back.\<close>

lemma strings_Split_join: "concat (map (\<lambda>p. d # p) (strings_Split d s)) = d # s"
proof (induction s)
  case (Cons c s)
  then show ?case using strings_Split_nonempty [of d s] by (auto split: list.split)
qed simp

text \<open>So the error \<^verbatim>\<open>ErrInvalidMetadataRecord\<close> never occurs.\<close>

lemma openStore_never_invalid: "openStore_loop os joined dir entries maps \<noteq> Inl ErrInvalidMetadataRecord"
proof (induction entries arbitrary: maps)
  case (Cons entry entries)
  then show ?case
    using strings_Split_nonempty
    by (cases entry; cases maps) (auto simp: Let_def split: sum.splits)
qed (simp add: case_prod_beta)

text \<open>With the separator at which the name was cut, the identifier is the whole file name: a store opened again knows
  what was imported as \<open>ident\<close> by another name.\<close>

definition join_dots :: "gostring list \<Rightarrow> gostring" where
  "join_dots ps = tl (concat (map (\<lambda>p. 46 # p) ps))"

lemma reopened_ID: "join_dots (strings_Split 46 (ident @ bytes_of ''.torrent'')) = ident @ bytes_of ''.torrent''"
  by (simp add: join_dots_def strings_Split_join)

text \<open>A failed import leaves both maps alone.  A successful one writes exactly the bencoding of the metainfo it read to
  the path of the record, which reads back as the same metainfo but for the info hash: that is recomputed from the four
  known keys.  The record is found by its identifier; but the hash is mapped to its own bytes, not to the identifier.\<close>

lemma store_Import_result:
  assumes "store_Import os ms ident e r (Inr file) fs = (res, ms', fs')" and "written file = []"
  shows "(\<forall>er. res = Inl er \<longrightarrow> ms' = ms) \<and>
    (\<forall>rec. res = Inr rec \<longrightarrow> ReadMetaInfo e r = Inr (mr_Meta rec) \<and>
       fs' = fs(mr_path rec \<mapsto> bencode (metaInfoBencoding (mr_Meta rec))) \<and> mr_ID rec = ident \<and>
       m_get (ms_byId ms') ident = Some rec \<and>
       m_get (ms_byInfoHash ms') (MInfoHash (mr_Meta rec)) = Some (MInfoHash (mr_Meta rec)))"
proof (cases "ReadMetaInfo e r")
  case (Inr m)
  obtain er file' where w: "WriteMetainfo m file = (er, file')" by fastforce
  have "emits file (bencode (metaInfoBencoding m)) (writeBencoding (metaInfoBencoding m) file)"
    by (rule emits_writeBencoding(1) [OF encodable_metaInfoBencoding [OF ReadMetaInfo_info(3) [OF Inr]]])
  then have "emits file (bencode (metaInfoBencoding m)) (er, file')" using w by (simp add: WriteMetainfo_def)
  then have "er = None \<longrightarrow> written file' = bencode (metaInfoBencoding m)" using assms(2) by (simp add: emits_def)
  then show ?thesis
    using assms(1) Inr w by (cases er) (auto simp: store_Import_def Let_def)
qed (use assms(1) in \<open>auto simp: store_Import_def\<close>)

lemma store_Import_reads_back:
  assumes "store_Import os ms ident e r (Inr file) fs = (Inr rec, ms', fs')" and "written file = []"
    and "fits_limits (mr_Meta rec)"
  shows "\<exists>b. fs' (mr_path rec) = Some b \<and> ReadMetaInfo ErrEOF b = Inr ((mr_Meta rec)
    \<lparr>MInfoHash := sha1_Sum (bencode (infoBencoding (MInfo (mr_Meta rec))))\<rparr>)"
proof -
  let ?m = "mr_Meta rec"
  let ?m' = "?m\<lparr>MInfoHash := sha1_Sum (bencode (infoBencoding (MInfo ?m)))\<rparr>"
  have I: "ReadMetaInfo e r = Inr ?m" "fs' (mr_path rec) = Some (bencode (metaInfoBencoding ?m))"
    using store_Import_result [OF assms(1,2)] by auto
  have v: "valid_info (MInfo ?m)" "Announce ?m \<noteq> []" by (rule ReadMetaInfo_info [OF I(1)])+
  have same: "metaInfoBencoding ?m' = metaInfoBencoding ?m" by (simp add: metaInfoBencoding_def)
  have n: "NewMetaInfo (Announce ?m) (MInfo ?m) = Inr ?m'" using NewMetaInfo_valid [OF v] by simp
  have "fits_limits ?m'" using assms(3) same by (simp add: fits_limits_def)
  then obtain s where "EncodeMetaInfo ?m' = Inr s" "ReadMetaInfo ErrEOF s = Inr ?m'" using read_encoded [OF v(1) n] by blast
  moreover have "EncodeMetaInfo ?m' = Inr (bencode (metaInfoBencoding ?m))"
    using Encode_encodable [OF encodable_metaInfoBencoding [of ?m']] v(1) by (simp add: EncodeMetaInfo_def same)
  ultimately show ?thesis using I(2) by auto
qed

end
