(* ===== verification/Announce_Draft.thy ===== *)
theory Announce_Draft
  imports Tracker_Wire
begin

text \<open>
  The draft of the announce format in \<^verbatim>\<open>src/protocol/announce.go\<close>.  Of its functions only \<^verbatim>\<open>BuildAnnounceUrl\<close> has a body
  (the others lack their return statements, so the file does not compile); it builds the same URL as the function of
  the package \<^verbatim>\<open>tracker\<close> that is in use.
\<close>

definition draft_StartedEvent :: gostring where "draft_StartedEvent = bytes_of ''started''"
definition draft_CompletedEvent :: gostring where "draft_CompletedEvent = bytes_of ''completed''"
definition draft_StoppedEvent :: gostring where "draft_StoppedEvent = bytes_of ''stopped''"

record DraftRequest =
  dr_InfoHash :: gostring
  dr_PeerID :: gostring
  dr_Port :: uint16
  dr_Uploaded :: uint64
  dr_Downloaded :: uint64
  dr_Left :: uint64
  dr_Compact :: bool
  dr_Event :: gostring

definition BuildAnnounceUrl :: "(gostring \<Rightarrow> URL option) \<Rightarrow> gostring \<Rightarrow> DraftRequest \<Rightarrow> tracker_error + URL" where
  "BuildAnnounceUrl url_Parse announceURL request =
     (case url_Parse announceURL of
        None \<Rightarrow> Inl UrlInvalid
      | Some baseURL \<Rightarrow>
     let params = url_Query (RawQuery baseURL);
         params = v_Set params (bytes_of ''info_hash'') (dr_InfoHash request);
         params = v_Set params (bytes_of ''peer_id'') (dr_PeerID request);
         params = v_Set params (bytes_of ''port'') (nat_decimal (unat (dr_Port request)));
         params = v_Set params (bytes_of ''uploaded'') (nat_decimal (unat (dr_Uploaded request)));
         params = v_Set params (bytes_of ''downloaded'') (nat_decimal (unat (dr_Downloaded request)));
         params = v_Set params (bytes_of ''left'') (nat_decimal (unat (dr_Left request)));
         params = (if dr_Compact request then v_Set params (bytes_of ''compact'') (bytes_of ''1'')
                   else v_Set params (bytes_of ''compact'') (bytes_of ''0''));
         params = (if dr_Event request \<noteq> [] then v_Set params (bytes_of ''event'') (dr_Event request)
                   else v_Del params (bytes_of ''event''))
     in Inr (baseURL\<lparr>RawQuery := v_Encode params\<rparr>))"

definition tracker_request :: "DraftRequest \<Rightarrow> AnnounceRequest" where
  "tracker_request r =
     \<lparr>ar_InfoHash = dr_InfoHash r, ar_PeerID = dr_PeerID r, ar_Port = dr_Port r, ar_Uploaded = dr_Uploaded r,
      ar_Downloaded = dr_Downloaded r, ar_Left = dr_Left r, ar_Compact = dr_Compact r, ar_Event = dr_Event r\<rparr>"

lemma BuildAnnounceUrl_agrees: "BuildAnnounceUrl url_Parse u r = buildAnnounceUrl url_Parse u (tracker_request r)"
  by (simp add: BuildAnnounceUrl_def buildAnnounceUrl_def announce_params_def tracker_request_def Let_def split: option.split)

lemma draft_events: "draft_StartedEvent = StartedEvent" "draft_CompletedEvent = CompletedEvent" "draft_StoppedEvent = StoppedEvent"
  by (simp_all add: draft_StartedEvent_def StartedEvent_def draft_CompletedEvent_def CompletedEvent_def
      draft_StoppedEvent_def StoppedEvent_def)

end
