(* ===== verification/Spec2Isabelle.thy ===== *)
theory Spec2Isabelle
  imports Bencode_Spec FileStorage_Async Torrent_Serve Meeting Metainfo_Store Announce_Draft
begin

text \<open>
  MoleSwarm is a BitTorrent implementation in Go: a tracker that tells peers about each other, and clients that
  exchange one file per torrent.  This development models its packages as the code is written and proves what makes
  them correct.

  \<^bold>\<open>The program and its model.\<close>  The theories follow the packages.  Go's integers are words or, for \<^verbatim>\<open>int64\<close>, integers
  wrapped by \<open>int64\<close>; byte slices and strings are byte lists; errors are values of a sum type; a panic is the error
  \<open>GoPanic\<close> of an operation or the value \<open>None\<close> of a handler; maps are association lists, because their order is
  observable; pointers to peers are indices into a list, because sessions compare and mutate them.

  \<^item> \<open>Mole_Prelude\<close>, \<open>Go_Std\<close>, \<open>Url_Query\<close>, \<open>Go_Command\<close>: shared lemmas and the parts of Go's library the code uses
    (readers and writers that fail or fragment, big-endian integers, number parsing, files, \<^verbatim>\<open>net/url\<close> queries, flags).
    \<open>Sha1\<close> and \<open>Sha256\<close> are the two digests, executable.
  \<^item> \<open>Codec\<close>, \<open>Systems\<close>: the interfaces.  A strict codec decodes what was encoded and nothing else, one item after the
    other; a step relation keeps an invariant; one machine refines another.  Every codec and machine below is an
    interpretation of one of them.
  \<^item> \<open>Bencode\<close>, \<open>Bencode_Spec\<close> (\<^verbatim>\<open>protocol/bencode.go\<close>): the encoder and the recursive decoder with its limits; decoding
    inverts encoding on every value within the limits and accepts canonical input only.
  \<^item> \<open>Messages\<close> (\<^verbatim>\<open>protocol/message.go\<close>, \<^verbatim>\<open>handshake.go\<close>) and \<open>Metainfo\<close> (\<^verbatim>\<open>protocol/metainfo.go\<close>): peer messages, the
    handshake, and torrent files with their validation and info hash.
  \<^item> \<open>Geometry\<close>: the cut of a content into pieces and blocks, as locales that both content stores interpret.
    \<open>PieceSet\<close>, \<open>PieceSet_Laws\<close>, \<open>PieceSet_Correct\<close> (\<^verbatim>\<open>torrent/pieces.go\<close>): the store that sessions use.
    \<open>FileStorage\<close>, \<open>FileStorage_Laws\<close>, \<open>FileStorage_Correct\<close>, \<open>FileStorage_Async\<close> (\<^verbatim>\<open>torrent/file.go\<close>, \<^verbatim>\<open>piece.go\<close>): the store
    with a worker; run to the end it gives the same answers up to the first panic of the other store, where it returns an
    error, and with jobs and results in flight it stays safe.
  \<^item> \<open>Torrent_Model\<close>, \<open>Torrent_Inv\<close>, \<open>Torrent_Correct\<close> (\<^verbatim>\<open>torrent/torrent.go\<close>, \<^verbatim>\<open>transfer.go\<close>, \<^verbatim>\<open>peer.go\<close>, \<^verbatim>\<open>peers.go\<close>,
    \<^verbatim>\<open>status.go\<close>): a session, its peers, its event handlers and what every run of them keeps.
    \<open>Session_Run\<close> (\<^verbatim>\<open>run.go\<close>, \<^verbatim>\<open>discovery.go\<close>, \<^verbatim>\<open>requests.go\<close>): a whole run with its announces, and the requests other
    goroutines make of it.
  \<^item> \<open>Tracker_Model\<close>, \<open>Tracker_Wire\<close>, \<open>Tracker_Correct\<close> (\<^verbatim>\<open>tracker/\<close>): the wire format of announces, the server, which
    refines a registry of live peers, and the client.
  \<^item> \<open>Client_Model\<close>, \<open>Client_Correct\<close> (\<^verbatim>\<open>client/\<close>): the registry of sessions, incoming connections, and operations on all
    torrents at once.
  \<^item> \<open>Tracker_Command\<close>, \<open>Tracker_Serve\<close> (\<^verbatim>\<open>cmd/tracker\<close>) and \<open>Torrent_Command\<close>, \<open>Torrent_Serve\<close> (\<^verbatim>\<open>cmd/torrent\<close>): configuration
    and allow-list; creating torrents, and opening them for seeding and downloading; the running commands and their
    shutdown, both interpretations of \<open>Gather\<close>: it tells the steps a program takes of its own accord from what the outside
    does, and says when a command that waits for its components ends by the first alone.
  \<^item> \<open>Metainfo_Store\<close> (\<^verbatim>\<open>torrentd/record.go\<close>) and \<open>Announce_Draft\<close> (\<^verbatim>\<open>protocol/announce.go\<close>): what is well typed of two
    unfinished packages.
  \<^item> \<open>Distribution\<close>, \<open>Completion\<close>, \<open>Two_Sessions\<close>, \<open>Meeting\<close> and this theory put the components together: published
    content can be downloaded; a download from one seed ends with the published content, whatever the order of its answers;
    two sessions joined by a connection complete it between them, however their messages interleave; and so from the
    opening of both, over the handshakes, to a file that is the content; any finished download is the published content;
    and peers that announce find each other.

  \<^bold>\<open>Interaction.\<close>  A session turns each event of its channel into a step; it calls its piece set, sends messages by the
  queues of its peers and announces itself by the tracker client over an HTTP transport.  The transport is an argument; in
  \<open>peers_discover\<close> it is the server of this development.  Goroutines are interleavings: \<open>run_step\<close> for a session,
  \<open>ServePeers\<close> for the accept loop, \<open>fs_step\<close> for the store's worker, \<open>serve_step\<close> and \<open>single_step\<close> for the commands, in which
  the accept loop and the run of the torrent share a client.  How many
  messages the write goroutines took off their queues before an event is an argument of the event (\<open>drains\<close>).

  \<^bold>\<open>Bounds and termination.\<close>  There is no fuel.  Recursion is structural or has a measure; the one loop of the code that can
  run for ever (hashing with a piece length of zero) is a \<^theory_text>\<open>partial_function\<close> and proved to end otherwise.  Decoding is
  total: its depth is bounded by the code's own limit and its input shrinks.  The refusal of nested input, the limits
  on messages, peers and pending requests, and all wrap-around at 16, 32 and 64 bits are the code's.
  The hypotheses on sizes are those under which Go's arithmetic is exact: piece numbers and piece lengths are 32-bit,
  as the wire format has them, and lengths are in \<^verbatim>\<open>int64\<close>.

  \<^bold>\<open>Parameters.\<close>  Parsing and printing of addresses, \<^verbatim>\<open>net/url\<close>'s parser, JSON, \<^verbatim>\<open>time.ParseDuration\<close>, listening,
  dialling, random numbers and the file system of the commands are records of functions (\<open>netlib\<close>, \<open>library\<close>,
  \<open>transport\<close>, \<open>oslib\<close>, \<open>cmdlib\<close>); outcomes of file operations are arguments of the operations.  The safety properties
  hold for all outcomes, failures included.  The properties that say that something is achieved fix success (\<open>IoOk\<close>) where
  they need it, and say so: opening and serving a published file (\<open>published_file_distributes\<close>, \<open>create_publishes\<close>) and
  completing a download (\<open>seed_completes_download\<close>, \<open>two_sessions_complete\<close>, \<open>content_is_copied\<close>), the last three also that the
  write loops keep up.

  \<^bold>\<open>What the properties do not say.\<close>  Digests are not assumed to be free of collisions: \<open>finished_download\<close> names the
  piece of the file that would be one.  Data races are outside the model: an operation under a mutex is one step.

  \<^bold>\<open>Not modelled.\<close>  \<^verbatim>\<open>cmd/torrent/main.go\<close>, the package \<^verbatim>\<open>torrentd\<close> and \<^verbatim>\<open>protocol/announce.go\<close> do not compile.  Where the first
  calls a function that does not exist, what it returns is a parameter, but for \<^verbatim>\<open>RunTorrent\<close>, the former name of
  \<^verbatim>\<open>StartTorrentDownload\<close>, whose model it gets.  Of \<^verbatim>\<open>torrentd\<close> the operations of the metainfo
  store that cannot be typed (\<^verbatim>\<open>Get\<close>, \<^verbatim>\<open>Remove\<close>, \<^verbatim>\<open>List\<close>, \<^verbatim>\<open>loadTorrentMetadata\<close>) have no meaning to model, and its daemon is
  types and empty functions; of \<^verbatim>\<open>protocol/announce.go\<close> only \<^verbatim>\<open>BuildAnnounceUrl\<close> has a body.  Printing and the two
  \<^verbatim>\<open>main\<close> functions are left out.
\<close>

subsection \<open>The components together\<close>

text \<open>C2. What is published can be downloaded.  If \<^verbatim>\<open>create\<close> made content information from a file, then opening
  that file for seeding succeeds with every piece complete; the seed answers every block request of every
  downloader of the same content, with the bytes of the file at its position; and a downloader that holds the
  answers for one piece, stored in any order, writes that piece with its verified digest and the file's bytes.\<close>

theorem published_file_distributes:
  assumes "create_info lib args = Some (Inr (announce, output, info))"
    and "os_Stat lib (last args) = StatOk (int (length c)) True" and "open_read lib (last args) = Inr (c, ErrEOF)"
    and "filepath_Base lib (last args) \<noteq> []" and "length c < 2 ^ 63" and "length (PieceHashes info) < 2 ^ 32"
    and "MInfo meta = info"
  shows "\<exists>seed. OpenSeed meta (Inr c) (\<lambda>_. IoOk) = Inr seed \<and> tfile seed = Some c \<and>
    (\<forall>i < ps_Count (pieces seed). Complete (ps_states (pieces seed) ! i)) \<and>
    (\<forall>p. wf_ps p \<and> ps_info p = info \<longrightarrow>
      (\<forall>q. ps_blockRequest p (PieceIndex q) (Begin q) = Inr q \<longrightarrow>
        ps_ReadBlock (pieces seed) q (Some c) IoOk = Inr (take (unat (BlockLength q)) (drop (block_pos p q) c))) \<and>
      (\<forall>w qs f. unat w < ps_Count p \<and> \<not> Complete (ps_states p ! unat w) \<and> Data (ps_states p ! unat w) = None \<and>
        answered (pieces seed) c p w qs \<longrightarrow>
        (\<exists>p' f'. ps_VerifyAndWrite (store_blocks p qs) w (Some f) IoOk = (None, p', Some f') \<and>
          ps_IsComplete p' w \<and> piece_bytes p' f' (unat w) = piece_bytes p c (unat w))))"
proof -
  have P: "published c info" by (rule create_info_published(1) [OF assms(1-6)])
  then obtain seed where s: "OpenSeed meta (Inr c) (\<lambda>_. IoOk) = Inr seed" "tfile seed = Some c"
    "wf_ps (pieces seed)" "ps_info (pieces seed) = info"
    "\<forall>i < length (ps_states (pieces seed)). Complete (ps_states (pieces seed) ! i)"
    using seed_opens assms(7) by metis
  have geo: "wf_geometry (pieces seed)" using s(3) by simp
  show ?thesis
  proof (intro exI [of _ seed] conjI allI impI; (elim conjE)?)
    show "OpenSeed meta (Inr c) (\<lambda>_. IoOk) = Inr seed" "tfile seed = Some c" by (rule s)+
  next
    fix i assume "i < ps_Count (pieces seed)"
    then show "Complete (ps_states (pieces seed) ! i)" using s(5) by (simp add: ps_Count_def)
  next
    fix p q
    assume "wf_ps p" and i: "ps_info p = info" and q: "ps_blockRequest p (PieceIndex q) (Begin q) = Inr q"
    then show "ps_ReadBlock (pieces seed) q (Some c) IoOk = Inr (take (unat (BlockLength q)) (drop (block_pos p q) c))"
      by (intro seed_answers [OF P geo s(4,5)]) simp_all
  next
    fix p w qs f
    assume p: "wf_ps p" "ps_info p = info" and w: "unat w < ps_Count p" "\<not> Complete (ps_states p ! unat w)"
      "Data (ps_states p ! unat w) = None" and a: "answered (pieces seed) c p w qs"
    show "\<exists>p' f'. ps_VerifyAndWrite (store_blocks p qs) w (Some f) IoOk = (None, p', Some f') \<and>
        ps_IsComplete p' w \<and> piece_bytes p' f' (unat w) = piece_bytes p c (unat w)"
      using download_piece [OF P geo s(4) p _ w(2,3) a, of f] w(1) piece_bytes_info [of p "pieces seed"] p(2) s(4)
      by (simp add: ps_Count_def)
  qed
qed

definition demo_lib :: cmdlib where
  "demo_lib = \<lparr>ParseRequestURI = (\<lambda>_. Some (bytes_of ''http'', [104])), http_Get = (\<lambda>_. None),
     os_Stat = (\<lambda>path. if path = [97] then StatOk 3 True else StatMissing),
     open_read = (\<lambda>path. if path = [97] then Inr ([1, 2, 3], ErrEOF) else Inl ErrIO),
     filepath_Base = (\<lambda>path. path), ParseInt0 = (\<lambda>_. Some 2)\<rparr>"

definition demo_args :: "gostring list" where
  "demo_args = [bytes_of ''-announce=http://h'', bytes_of ''-output=o'', bytes_of ''-piece-length=2'', [97]]"

lemma demo_flags:
  "flag_Parse (create_flags demo_lib) demo_args \<lparr>announceURL = [], cr_output = [], pieceLengthFlag = n\<rparr> =
     Inr (\<lparr>announceURL = bytes_of ''http://h'', cr_output = bytes_of ''o'', pieceLengthFlag = 2\<rparr>, [[97]])"
  by (simp add: demo_args_def demo_lib_def flag_Parse.simps flag_arg_def create_flags_def str_Cut_def bytes_of_def)

lemma demo_create: "create_info demo_lib demo_args = Some (Inr (bytes_of ''http://h'', bytes_of ''o'', demo_info))"
proof -
  have "piece_digests 2 [1, 2, 3] = [sha1_Sum [1, 2], sha1_Sum [3]]" by (simp add: piece_digests_def)
  then have "hashPieces ErrEOF [1, 2, 3] 2 = Some (Inr [sha1_Sum [1, 2], sha1_Sum [3]])"
    using hashPieces_loop_eq [of 2 ErrEOF "[1, 2, 3]" "[]"] by (simp add: hashPieces_def)
  then show ?thesis
    unfolding create_info_def demo_flags
    by (simp add: demo_lib_def create_hashed_def validateHTTPURL_def maxPieceLength_def bytes_of_def demo_info_def)
qed

lemma demo_requests:
  assumes "ps_blockRequest demo_ps 0 b = Inr q"
  shows "q = demo_req"
proof -
  have "ps_PieceLength demo_ps 0 = Inr 2"
    using ps_PieceLength_in [OF wf_ps_geometry [OF wf_demo_ps], of 0] demo_plen(1) by (simp add: demo_ps_def)
  then have u: "unat b < 2" "16384 dvd unat b" and q: "PieceIndex q = 0" "Begin q = b"
    and l: "unat (BlockLength q) = min 16384 (2 - unat b)"
    using assms by (auto simp: ps_blockRequest_Inr)
  have b: "unat b = 0" using u nat_dvd_not_less [of "unat b" 16384] by linarith
  have "unat (BlockLength q) = unat (2 :: uint32)" using l b by simp
  then have "BlockLength q = 2" by (simp only: word_unat_eq_iff)
  moreover have "Begin q = 0" using b q(2) by (simp add: unat_eq_0)
  ultimately have "q = \<lparr>PieceIndex = 0, Begin = 0, BlockLength = 2\<rparr>" using q(1) by (cases q) simp
  then show ?thesis by (simp add: demo_req_def)
qed

theorem published_file_distributes_witness:
  "\<exists>seed p' f'. OpenSeed demo_meta (Inr [1, 2, 3]) (\<lambda>_. IoOk) = Inr seed \<and>
     ps_ReadBlock (pieces seed) demo_req (Some [1, 2, 3]) IoOk = Inr [1, 2] \<and>
     ps_VerifyAndWrite (store_blocks demo_ps [(demo_req, [1, 2])]) 0 (Some []) IoOk = (None, p', Some f') \<and>
     ps_IsComplete p' 0"
proof -
  have h: "length (PieceHashes demo_info) < 2 ^ 32" "MInfo demo_meta = demo_info"
    using demo_small(2) by (simp_all add: demo_meta_def)
  have l: "last demo_args = [97]" by (simp add: demo_args_def)
  have o: "os_Stat demo_lib (last demo_args) = StatOk (int (length [1, 2, 3 :: byte])) True"
    "open_read demo_lib (last demo_args) = Inr ([1, 2, 3], ErrEOF)" "filepath_Base demo_lib (last demo_args) \<noteq> []"
    "length [1, 2, 3 :: byte] < 2 ^ 63"
    by (simp_all add: l demo_lib_def)
  obtain seed where s: "OpenSeed demo_meta (Inr [1, 2, 3]) (\<lambda>_. IoOk) = Inr seed"
    and A: "\<forall>q. ps_blockRequest demo_ps (PieceIndex q) (Begin q) = Inr q \<longrightarrow>
        ps_ReadBlock (pieces seed) q (Some [1, 2, 3]) IoOk = Inr (take (unat (BlockLength q)) (drop (block_pos demo_ps q) [1, 2, 3]))"
    and W: "\<forall>w qs f. unat w < ps_Count demo_ps \<and> \<not> Complete (ps_states demo_ps ! unat w) \<and>
        Data (ps_states demo_ps ! unat w) = None \<and> answered (pieces seed) [1, 2, 3] demo_ps w qs \<longrightarrow>
        (\<exists>p' f'. ps_VerifyAndWrite (store_blocks demo_ps qs) w (Some f) IoOk = (None, p', Some f') \<and>
          ps_IsComplete p' w \<and> piece_bytes p' f' (unat w) = piece_bytes demo_ps [1, 2, 3] (unat w))"
    using published_file_distributes [OF demo_create o h] wf_demo_ps by (auto simp: demo_ps_def)
  have r: "ps_ReadBlock (pieces seed) demo_req (Some [1, 2, 3]) IoOk = Inr [1, 2]"
    using A demo_good [of 1 2] by (simp add: good_block_def demo_req_def block_pos_def)
  then have "answered (pieces seed) [1, 2, 3] demo_ps 0 [(demo_req, [1, 2])]"
    using demo_requests by (auto simp: answered_def)
  then show ?thesis
    using s r W by (force simp: ps_Count_def demo_ps_def newPieceState_def)
qed

text \<open>C3. \<^verbatim>\<open>create\<close> publishes a file.  If it fails, no file has changed; if it succeeds, exactly one new file has appeared, the
  metainfo of the announce URL and the source file; and within the limits of the reader, \<^verbatim>\<open>inspect\<close> reads it back as what
  was written, the content information describes the source file, and seeding from that file opens complete.  Here the
  missing encoder does what the package's \<^verbatim>\<open>NewMetaInfo\<close> and \<^verbatim>\<open>EncodeMetaInfo\<close> do, and temporary names are fresh.\<close>

theorem create_publishes:
  assumes "create lib encodeMetaInfo args fs mkdir temp write chmod close link = Some (er, fs')"
    and "\<forall>t announce target info. temp = Inr t \<and> create_info lib args = Some (Inr (announce, target, info)) \<longrightarrow>
      fs t = None \<and> t \<noteq> target"
    and "\<forall>a i b m. encodeMetaInfo a i = Inr (b, m) \<longrightarrow> NewMetaInfo a i = Inr m \<and> EncodeMetaInfo m = Inr b"
    and "os_Stat lib (last args) = StatOk (int (length c)) True" and "open_read lib (last args) = Inr (c, ErrEOF)"
    and "filepath_Base lib (last args) \<noteq> []" and "length c < 2 ^ 63"
  shows "if er \<noteq> None then fs' = fs
    else \<exists>target encoded meta. create_info lib args = Some (Inr (Announce meta, target, MInfo meta)) \<and>
      fs target = None \<and> fs' = fs(target \<mapsto> encoded) \<and> EncodeMetaInfo meta = Inr encoded \<and>
      (length (PieceHashes (MInfo meta)) < 2 ^ 32 \<and> fits_limits meta \<longrightarrow>
        inspect (\<lambda>path. case fs' path of None \<Rightarrow> Inl ErrIO | Some b \<Rightarrow> Inr (b, ErrEOF)) [target] = Inr meta \<and>
        published c (MInfo meta) \<and>
        (\<exists>t. OpenSeed meta (Inr c) (\<lambda>_. IoOk) = Inr t \<and> ps_Complete (pieces t) = Inr True))"
proof (cases "er = None")
  case False
  then show ?thesis using created_reads(1) [OF assms(1-3)] by simp
next
  case True
  then obtain announce target info encoded meta where C: "create_info lib args = Some (Inr (announce, target, info))"
    "EncodeMetaInfo meta = Inr encoded" "fs target = None" "fs' = fs(target \<mapsto> encoded)" "MInfo meta = info" "Announce meta = announce"
    and r: "valid_info info \<and> fits_limits meta \<longrightarrow>
      inspect (\<lambda>path. case fs' path of None \<Rightarrow> Inl ErrIO | Some b \<Rightarrow> Inr (b, ErrEOF)) [target] = Inr meta"
    using created_reads(2) [OF assms(1-3)] by blast
  have "published c info" if "length (PieceHashes info) < 2 ^ 32" by (rule create_info_published(1) [OF C(1) assms(4-7) that])
  moreover have "valid_info info \<and> (\<exists>t. OpenSeed meta (Inr c) (\<lambda>_. IoOk) = Inr t \<and> ps_Complete (pieces t) = Inr True)"
    if p: "published c info"
  proof -
    obtain t where t: "OpenSeed meta (Inr c) (\<lambda>_. IoOk) = Inr t" "wf_ps (pieces t)"
      "\<forall>i < length (ps_states (pieces t)). Complete (ps_states (pieces t) ! i)"
      using seed_opens [of c meta] p C(5) by blast
    then show ?thesis using all_Complete [OF wf_ps_geometry [OF t(2)] t(3)] t(1) p by (auto simp: published_def)
  qed
  ultimately show ?thesis using True C r by (intro if_not_P [THEN iffD2]) auto
qed

theorem create_publishes_witness:
  "\<exists>m b t. create demo_lib (\<lambda>a i. bind_r (NewMetaInfo a i) (\<lambda>m. bind_r (EncodeMetaInfo m) (\<lambda>b. Inr (b, m)))) demo_args
       Map.empty None (Inr [116]) None None None None = Some (None, [bytes_of ''o'' \<mapsto> b]) \<and>
     inspect (\<lambda>path. case [bytes_of ''o'' \<mapsto> b] path of None \<Rightarrow> Inl ErrIO | Some b \<Rightarrow> Inr (b, ErrEOF)) [bytes_of ''o''] = Inr m \<and>
     OpenSeed m (Inr [1, 2, 3]) (\<lambda>_. IoOk) = Inr t \<and> ps_Complete (pieces t) = Inr True"
proof -
  let ?enc = "\<lambda>a i. bind_r (NewMetaInfo a i) (\<lambda>m. bind_r (EncodeMetaInfo m) (\<lambda>b. Inr (b, m)))"
  obtain m where m: "NewMetaInfo (bytes_of ''http://h'') demo_info = Inr m" "Announce m = bytes_of ''http://h''" "MInfo m = demo_info"
    using NewMetaInfo_valid [OF valid_demo_info, of "bytes_of ''http://h''"] by (auto simp: bytes_of_def)
  have fl: "fits_limits m" if "Announce m = bytes_of ''http://h''" "MInfo m = demo_info" for m
    by (rule fits_demo) (use that in \<open>simp_all add: bytes_of_def\<close>)
  obtain b where b: "EncodeMetaInfo m = Inr b" using read_encoded [OF valid_demo_info m(1) fl [OF m(2,3)]] by blast
  have c: "create demo_lib ?enc demo_args Map.empty None (Inr [116]) None None None None = Some (None, [bytes_of ''o'' \<mapsto> b])"
  proof -
    have "(Map.empty([116] \<mapsto> b, bytes_of ''o'' \<mapsto> b))([116] := None) = [bytes_of ''o'' \<mapsto> b]"
      by (rule ext) (simp add: bytes_of_def)
    then show ?thesis
      using m(1) b by (simp add: create_def demo_create writeNewFile_def bytes_of_def fun_eq_iff)
  qed
  have f: "\<forall>t announce target info. Inr [116] = (Inr t :: io_error + gostring) \<and>
      create_info demo_lib demo_args = Some (Inr (announce, target, info)) \<longrightarrow> Map.empty t = (None :: byte list option) \<and> t \<noteq> target"
    by (simp add: demo_create bytes_of_def)
  have e: "\<forall>a i b m. ?enc a i = Inr (b, m) \<longrightarrow> NewMetaInfo a i = Inr m \<and> EncodeMetaInfo m = Inr b"
    by (auto simp: bind_r_iffs)
  have l: "last demo_args = [97]" by (simp add: demo_args_def)
  have o: "os_Stat demo_lib (last demo_args) = StatOk (int (length [1, 2, 3 :: byte])) True"
    "open_read demo_lib (last demo_args) = Inr ([1, 2, 3], ErrEOF)" "filepath_Base demo_lib (last demo_args) \<noteq> []"
    "length [1, 2, 3 :: byte] < 2 ^ 63"
    by (simp_all add: l demo_lib_def)
  obtain target encoded meta where R: "create_info demo_lib demo_args = Some (Inr (Announce meta, target, MInfo meta))"
    "length (PieceHashes (MInfo meta)) < 2 ^ 32 \<and> fits_limits meta \<longrightarrow>
        inspect (\<lambda>path. case [bytes_of ''o'' \<mapsto> b] path of None \<Rightarrow> Inl ErrIO | Some b \<Rightarrow> Inr (b, ErrEOF)) [target] = Inr meta \<and>
        published [1, 2, 3] (MInfo meta) \<and>
        (\<exists>t. OpenSeed meta (Inr [1, 2, 3]) (\<lambda>_. IoOk) = Inr t \<and> ps_Complete (pieces t) = Inr True)"
    using create_publishes [OF c f e o] by auto
  have i: "Announce meta = bytes_of ''http://h''" "target = bytes_of ''o''" "MInfo meta = demo_info" using R(1) by (simp_all add: demo_create)
  then show ?thesis using R(2) c fl [OF i(1,3)] demo_small(2) by auto
qed

text \<open>C4. A finished download is the published file.  When a session's set reports itself complete, its file begins with
  the published content, unless one of its pieces is a concrete second preimage: different bytes with the digest
  of the published piece.  It holds after any run, whatever the peers sent and however file operations failed.\<close>

theorem finished_download:
  assumes "run_of meta pid t" and "published c (MInfo meta)" and "tfile t = Some f" and "ps_Complete (pieces t) = Inr True"
  shows "take (length c) f = c \<or>
    (\<exists>i < ps_Count (pieces t). piece_bytes (pieces t) f i \<noteq> piece_bytes (pieces t) c i \<and>
       sha1_Sum (piece_bytes (pieces t) f i) = sha1_Sum (piece_bytes (pieces t) c i))"
proof -
  have wf: "wf_t t" and m: "Meta t = meta" using run_of_inv [OF assms(1)] by auto
  have "verified (pieces t) f" using wf assms(3) by (simp add: wf_t_def wf_content_def)
  then show ?thesis
    using complete_content [OF assms(2) wf_ps_geometry [OF wf_t_ps [OF wf]] _ _ assms(4)] wf m
    by (simp add: wf_t_defs)
qed

theorem finished_download_witness:
  "\<exists>t. run_of demo_meta [] t \<and> tfile t = Some [1, 2, 3] \<and> ps_Complete (pieces t) = Inr True \<and>
     (take 3 [1, 2, 3] = [1, 2, 3 :: byte] \<or>
      (\<exists>i < ps_Count (pieces t). piece_bytes (pieces t) [1, 2, 3] i \<noteq> piece_bytes (pieces t) [1, 2, 3] i))"
proof -
  have P: "published [1, 2, 3] (MInfo demo_meta)"
    using demo_small(2) valid_demo_info by (simp add: published_def demo_meta_def demo_info_def piece_digests_def)
  obtain seed where s: "OpenSeed demo_meta (Inr [1, 2, 3]) (\<lambda>_. IoOk) = Inr seed" "tfile seed = Some [1, 2, 3]" "\<not> running seed"
    "wf_ps (pieces seed)" "\<forall>i < length (ps_states (pieces seed)). Complete (ps_states (pieces seed) ! i)"
    using seed_opens [OF P] by blast
  have b: "beginRun seed = (None, seed\<lparr>running := True, closeErr := None\<rparr>)" using s(3) by (simp add: beginRun_def)
  have "opened_session demo_meta seed" using s(1) unfolding opened_session_def by blast
  then have run: "run_of demo_meta [] (seed\<lparr>running := True, closeErr := None\<rparr>)" by (rule run_ofI [OF demo_meta_ok _ b])
  have c: "ps_Complete (pieces seed) = Inr True" by (rule all_Complete [OF wf_ps_geometry [OF s(4)] s(5)])
  then show ?thesis
    using finished_download [OF run P, of "[1, 2, 3]"] run s(2)
    by (intro exI [of _ "seed\<lparr>running := True, closeErr := None\<rparr>"]) simp
qed

text \<open>C7. Peers find each other.  After one session has announced itself over HTTP to a fresh tracker that admits the
  torrent, with the answer of an empty swarm, another session of the same torrent that announces within the time to
  live is told exactly the first one's address, as the tracker saw it, and listening port.  This holds of a first session
  that the tracker sees under an IPv4 address (or an IPv4-mapped IPv6 address): sessions ask for the compact form of
  the answer, which has room for IPv4 addresses only and drops every other peer.\<close>

theorem peers_discover:
  assumes "NewServer config = Inr s" and "in_int64 (AnnounceInterval config)" and "sv_allows s (MInfoHash (Meta t1))"
    and "can_announce lib t1 c1" and "can_announce lib t2 c2" and "MInfoHash (Meta t2) = MInfoHash (Meta t1)"
    and "rc_PeerID c1 \<noteq> rc_PeerID c2"
    and "ParseAddrPort (netip lib) remote1 = Some (a1, port1)" and "ParseAddrPort (netip lib) remote2 = Some (a2, port2)"
    and "Is4 (Unmap a1)" and "e1 \<in> {[], StartedEvent, CompletedEvent}"
    and "e2 \<in> {[], StartedEvent, CompletedEvent, StoppedEvent}" and "time_Sub now2 now1 \<le> peerTTL s"
    and "http_Do tr1 = served (netip lib) s remote1 now1"
    and "http_Do tr2 = served (netip lib) (server_after lib s t1 c1 e1 remote1 now1) remote2 now2"
  shows "t_announce lib tr1 t1 c1 e1 = Some (Inr \<lparr>Interval = AnnounceInterval config, Peers = []\<rparr>) \<and>
    t_announce lib tr2 t2 c2 e2 = Some (Inr \<lparr>Interval = AnnounceInterval config,
      Peers = [\<lparr>tp_PeerID = replicate 20 0, tp_IP = Unmap a1, tp_Port = rc_Port c1\<rparr>]\<rparr>)"
  by (intro conjI discovery [OF assms])

definition demo_tracker :: Config where
  "demo_tracker = \<lparr>AnnounceInterval = 30 * second, PeerTTL = 0, AllowedInfoHashes = None\<rparr>"

lemma demo_remote:
  assumes "Is4 a"
  shows "ParseAddrPort ipv4_net (AddrPortString ipv4_net (a, port)) = Some (a, port)"
proof -
  have no: "58 \<notin> set (nat_decimal n)" for n by (rule nat_decimal_no) (simp add: is_digit_def)
  obtain w x y z where "a = IPv4 w x y z" using assms by (cases a) auto
  then have "58 \<notin> set (IPv4_String a)" using no by simp
  then show ?thesis
    using unat_uint16_bound [of port] by (simp add: ipv4_net_def ParseIPv4_String [OF assms])
qed

theorem peers_discover_witness:
  "\<exists>s. NewServer demo_tracker = Inr s \<and>
    t_announce demo_library \<lparr>http_Do = served ipv4_net
        (server_after demo_library s demo_open \<lparr>rc_PeerID = replicate 20 1, rc_Port = 6881\<rparr> StartedEvent
          (AddrPortString ipv4_net (IPv4 10 0 0 1, 5000)) 0) (AddrPortString ipv4_net (IPv4 10 0 0 2, 5000)) second, dialPeer = (\<lambda>_. None)\<rparr>
      demo_open \<lparr>rc_PeerID = replicate 20 2, rc_Port = 6882\<rparr> StartedEvent =
    Some (Inr \<lparr>Interval = 30 * second,
      Peers = [\<lparr>tp_PeerID = replicate 20 0, tp_IP = IPv4 10 0 0 1, tp_Port = 6881\<rparr>]\<rparr>)"
proof -
  let ?c1 = "\<lparr>rc_PeerID = replicate 20 1, rc_Port = 6881\<rparr>" and ?c2 = "\<lparr>rc_PeerID = replicate 20 2, rc_Port = 6882\<rparr>"
  obtain s where n: "NewServer demo_tracker = Inr s" and ttl: "peerTTL s = 90 * second" and al: "allowedInfoHashes s = None"
    by (auto simp: NewServer_def demo_tracker_def Config_Validate_def int64_def)
  have q: "v_pairs (url_Query []) = []" by code_simp
  have a: "can_announce demo_library demo_open c" if "length (rc_PeerID c) = 20" "rc_Port c \<noteq> 0" for c
    using that run_of_inv [OF run_demo_open]
    by (simp add: can_announce_def demo_library_def demo_open_def demo_meta_def q maxQueryParams_def)
  have r: "ParseAddrPort (netip demo_library) (AddrPortString ipv4_net (IPv4 10 0 0 1, 5000)) = Some (IPv4 10 0 0 1, 5000)"
    "ParseAddrPort (netip demo_library) (AddrPortString ipv4_net (IPv4 10 0 0 2, 5000)) = Some (IPv4 10 0 0 2, 5000)"
    by (simp_all add: demo_library_def demo_remote)
  let ?tr = "\<lambda>d. \<lparr>http_Do = d, dialPeer = (\<lambda>_. None)\<rparr>"
  let ?d1 = "served (netip demo_library) s (AddrPortString ipv4_net (IPv4 10 0 0 1, 5000)) 0"
  let ?d2 = "served (netip demo_library) (server_after demo_library s demo_open ?c1 StartedEvent (AddrPortString ipv4_net (IPv4 10 0 0 1, 5000)) 0)
    (AddrPortString ipv4_net (IPv4 10 0 0 2, 5000)) second"
  have side: "in_int64 (AnnounceInterval demo_tracker)" "sv_allows s (MInfoHash (Meta demo_open))"
    "time_Sub second 0 \<le> peerTTL s" "rc_PeerID ?c1 \<noteq> rc_PeerID ?c2" "Is4 (Unmap (IPv4 10 0 0 1))"
    using ttl al by (simp_all add: demo_tracker_def in_int64_def sv_allows_def time_Sub_def)
  have e: "StartedEvent \<in> {[], StartedEvent, CompletedEvent}" "StartedEvent \<in> {[], StartedEvent, CompletedEvent, StoppedEvent}"
    by simp_all
  have "t_announce demo_library (?tr ?d2) demo_open ?c2 StartedEvent = Some (Inr \<lparr>Interval = AnnounceInterval demo_tracker,
      Peers = [\<lparr>tp_PeerID = replicate 20 0, tp_IP = Unmap (IPv4 10 0 0 1), tp_Port = rc_Port ?c1\<rparr>]\<rparr>)"
    using peers_discover [OF n side(1,2) a [of ?c1] a [of ?c2] refl side(4) r side(5) e side(3), of "?tr ?d1" "?tr ?d2"] by simp
  then show ?thesis using n by (intro exI [of _ s]) (simp add: demo_tracker_def demo_library_def)
qed

end
